(* ===== verification/Prelude.thy ===== *)
theory Prelude
  imports Main "HOL-Library.AList" "HOL-Library.Sublist"
begin

text \<open>
  Shared vocabulary of the development: the named collections the component proofs draw on,
  the association-list model of Rust's \<open>HashMap\<close> with the interface locale \<open>map_ops\<close> it
  satisfies, saturating arithmetic on the unsigned machine integers, decimal rendering of
  numbers, and the generic list lemmas used by more than one component.
\<close>

named_theorems model_defs \<open>definitions that component proofs unfold\<close>
named_theorems frame \<open>fields an operation does not write\<close>

section \<open>Results of fallible code\<close>

text \<open>A Rust \<open>Result<'a, 'e>\<close> is \<open>'e + 'a\<close>: \<open>Inl\<close> carries the error, \<open>Inr\<close> the value.\<close>

type_synonym ('e, 'a) result = "'e + 'a"

section \<open>Hash maps\<close>

text \<open>
  A \<open>HashMap<K, V>\<close> is an association list; the order of the list stands for the (unspecified)
  iteration order. Keys are unique in every map built from the empty one by \<open>hm_put\<close> and
  \<open>hm_del\<close>.
\<close>

type_synonym ('k, 'v) hmap = "('k \<times> 'v) list"

definition hm_get :: "('k, 'v) hmap \<Rightarrow> 'k \<Rightarrow> 'v option" where
  "hm_get m k = map_of m k"

definition hm_put :: "'k \<Rightarrow> 'v \<Rightarrow> ('k, 'v) hmap \<Rightarrow> ('k, 'v) hmap" where
  "hm_put k v m = AList.update k v m"

definition hm_del :: "'k \<Rightarrow> ('k, 'v) hmap \<Rightarrow> ('k, 'v) hmap" where
  "hm_del k m = AList.delete k m"

definition hm_ok :: "('k, 'v) hmap \<Rightarrow> bool" where
  "hm_ok m \<longleftrightarrow> distinct (map fst m)"

definition hm_keys :: "('k, 'v) hmap \<Rightarrow> 'k list" where
  "hm_keys m = map fst m"

text \<open>The contract a client of a map relies on.\<close>

locale map_ops =
  fixes get :: "'m \<Rightarrow> 'k \<Rightarrow> 'v option"
    and put :: "'k \<Rightarrow> 'v \<Rightarrow> 'm \<Rightarrow> 'm"
    and del :: "'k \<Rightarrow> 'm \<Rightarrow> 'm"
    and ok :: "'m \<Rightarrow> bool"
  assumes get_put: "get (put k v m) = (get m)(k \<mapsto> v)"
    and get_del: "get (del k m) = (get m)(k := None)"
    and ok_put: "ok m \<Longrightarrow> ok (put k v m)"
    and ok_del: "ok m \<Longrightarrow> ok (del k m)"
begin

lemma get_put_same [simp]: "get (put k v m) k = Some v"
  by (simp add: get_put)

lemma get_put_other [simp]: "j \<noteq> k \<Longrightarrow> get (put k v m) j = get m j"
  by (simp add: get_put)

lemma get_fold_del: "get (fold del ks m) j = (if j \<in> set ks then None else get m j)"
  by (induction ks arbitrary: m) (auto simp: get_del)

lemma get_fold_put:
  "get (fold (\<lambda>k. put k (f k)) ks m) j = (if j \<in> set ks then Some (f j) else get m j)"
  by (induction ks arbitrary: m) (auto simp: get_put)

lemma ok_fold_del: "ok m \<Longrightarrow> ok (fold del ks m)"
  by (induction ks arbitrary: m) (auto simp: ok_del)

lemma dom_put: "dom (get (put k v m)) = insert k (dom (get m))"
  by (simp add: get_put)

end

interpretation hm: map_ops hm_get hm_put hm_del hm_ok
  by unfold_locales
    (auto simp: hm_get_def hm_put_def hm_del_def hm_ok_def update_conv' delete_conv'
      distinct_update distinct_delete fun_eq_iff)

lemma hm_ok_Nil [simp]: "hm_ok []"
  by (simp add: hm_ok_def)

lemma hm_get_Nil [simp]: "hm_get [] k = None"
  by (simp add: hm_get_def)

lemma hm_get_Some_iff: "hm_ok m \<Longrightarrow> hm_get m k = Some v \<longleftrightarrow> (k, v) \<in> set m"
  by (simp add: hm_ok_def hm_get_def)

lemma hm_get_SomeD: "hm_get m k = Some v \<Longrightarrow> (k, v) \<in> set m"
  by (simp add: hm_get_def map_of_SomeD)

lemma hm_keys_set: "set (hm_keys m) = dom (hm_get m)"
  by (auto simp: hm_keys_def hm_get_def[abs_def] dom_map_of_conv_image_fst)

text \<open>\<open>*m.entry(k).or_insert(d)\<close> followed by an assignment through the reference.\<close>

definition hm_entry :: "'k \<Rightarrow> 'v \<Rightarrow> ('v \<Rightarrow> 'v) \<Rightarrow> ('k, 'v) hmap \<Rightarrow> ('k, 'v) hmap" where
  "hm_entry k d f m = hm_put k (f (case hm_get m k of None \<Rightarrow> d | Some v \<Rightarrow> v)) m"

lemma hm_get_entry:
  "hm_get (hm_entry k d f m) j =
     (if j = k then Some (f (case hm_get m k of None \<Rightarrow> d | Some v \<Rightarrow> v)) else hm_get m j)"
  by (simp add: hm_entry_def hm.get_put)

lemma hm_ok_entry: "hm_ok m \<Longrightarrow> hm_ok (hm_entry k d f m)"
  by (simp add: hm_entry_def hm.ok_put)

text \<open>A map from keys to the values pushed under them, in order: \<open>m.entry(k).or_default().push(v)\<close>.\<close>

definition hm_multi :: "('k \<times> 'v) list \<Rightarrow> ('k, 'v list) hmap" where
  "hm_multi kvs = fold (\<lambda>(k, v). hm_entry k [] (\<lambda>vs. vs @ [v])) kvs []"

definition hm_values :: "('k, 'v list) hmap \<Rightarrow> 'k \<Rightarrow> 'v list" where
  "hm_values m k = (case hm_get m k of None \<Rightarrow> [] | Some vs \<Rightarrow> vs)"

lemma hm_values_entry:
  "hm_values (hm_entry k [] (\<lambda>vs. vs @ [v]) m) j = hm_values m j @ (if j = k then [v] else [])"
  by (simp add: hm_values_def hm_get_entry split: option.splits)

lemma hm_values_fold:
  "hm_values (fold (\<lambda>(k, v). hm_entry k [] (\<lambda>vs. vs @ [v])) kvs m) j
     = hm_values m j @ map snd (filter (\<lambda>kv. fst kv = j) kvs)"
  by (induction kvs arbitrary: m) (auto simp: hm_values_entry)

lemma hm_values_multi: "hm_values (hm_multi kvs) j = map snd (filter (\<lambda>kv. fst kv = j) kvs)"
  unfolding hm_multi_def hm_values_fold by (simp add: hm_values_def)

lemma hm_values_Some: "hm_get m k = Some vs \<Longrightarrow> hm_values m k = vs"
  by (simp add: hm_values_def)

lemma hm_ok_multi: "hm_ok (hm_multi kvs)"
proof -
  have "hm_ok m \<Longrightarrow> hm_ok (fold (\<lambda>(k, v). hm_entry k [] (\<lambda>vs. vs @ [v])) kvs m)" for m
    by (induction kvs arbitrary: m) (auto simp: hm_ok_entry)
  then show ?thesis by (simp add: hm_multi_def)
qed

section \<open>Machine integers\<close>

text \<open>
  Counters that only grow by one per event are \<open>nat\<close>. Where the code saturates, the bound is
  written out: \<open>usize\<close> and \<open>u64\<close> are 64 bits wide.
\<close>

definition u64_max :: nat where
  "u64_max = 2 ^ 64 - 1"

definition sat_add :: "nat \<Rightarrow> nat \<Rightarrow> nat" where
  "sat_add a b = min (a + b) u64_max"

definition sat_mul :: "nat \<Rightarrow> nat \<Rightarrow> nat" where
  "sat_mul a b = min (a * b) u64_max"

lemma sat_add_le: "sat_add a b \<le> u64_max"
  by (simp add: sat_add_def)

lemma sat_mul_le: "sat_mul a b \<le> u64_max"
  by (simp add: sat_mul_def)

lemma sat_mul_mono: "b \<le> c \<Longrightarrow> sat_mul a b \<le> sat_mul a c"
  unfolding sat_mul_def by (intro min.mono mult_le_mono2 order_refl)

section \<open>Lists\<close>

lemma distinct_remdups_adj_if_sorted:
  "sorted (xs :: 'a :: linorder list) \<Longrightarrow> distinct (remdups_adj xs)"
proof (induction xs rule: remdups_adj.induct)
  case (3 x y ys)
  show ?case
  proof (cases "x = y")
    case True
    with 3 show ?thesis by simp
  next
    case False
    with "3.prems" have "x < y" and "\<forall>z \<in> set (y # ys). y \<le> z"
      by auto
    then have "x \<notin> set (y # ys)" by force
    with 3 False show ?thesis by simp
  qed
qed auto

text \<open>Rust's \<open>v.sort(); v.dedup()\<close>.\<close>

definition sort_dedup :: "'a :: linorder list \<Rightarrow> 'a list" where
  "sort_dedup xs = remdups_adj (sort xs)"

lemma set_sort_dedup [simp]: "set (sort_dedup xs) = set xs"
  by (simp add: sort_dedup_def)

lemma distinct_sort_dedup [simp]: "distinct (sort_dedup xs)"
  by (simp add: sort_dedup_def distinct_remdups_adj_if_sorted)

lemma sorted_sort_dedup [simp]: "sorted (sort_dedup xs)"
  by (simp add: sort_dedup_def)

lemma sort_dedup_Nil_iff [simp]: "sort_dedup xs = [] \<longleftrightarrow> xs = []"
  by (metis set_empty2 set_sort_dedup)

lemma filter_eq_self: "(\<And>x. x \<in> set xs \<Longrightarrow> P x) \<Longrightarrow> filter P xs = xs"
  by (simp add: filter_id_conv)

lemma list_all_concat_map: "list_all P (concat (map f xs)) \<longleftrightarrow> list_all (\<lambda>x. list_all P (f x)) xs"
  by (induction xs) auto

lemma takeWhile_append_first: "\<not> P y \<Longrightarrow> (\<And>x. x \<in> set xs \<Longrightarrow> P x) \<Longrightarrow> takeWhile P (xs @ y # ys) = xs"
  by (induction xs) auto

lemma dropWhile_append_first: "\<not> P y \<Longrightarrow> (\<And>x. x \<in> set xs \<Longrightarrow> P x) \<Longrightarrow> dropWhile P (xs @ y # ys) = y # ys"
  by (induction xs) auto

section \<open>Lists of optional values\<close>

lemma those_map: "those (map f xs) = (if \<exists>x \<in> set xs. f x = None then None else Some (map (the \<circ> f) xs))"
  by (induction xs) (auto split: option.splits)

lemma those_map_Some: "those (map f xs) = Some ys \<longleftrightarrow> (\<forall>x \<in> set xs. f x \<noteq> None) \<and> ys = map (the \<circ> f) xs"
  unfolding those_map by auto

lemma those_Some_map: "those (map f xs) = Some ys \<Longrightarrow> list_all2 (\<lambda>x y. f x = Some y) xs ys"
  by (induction xs arbitrary: ys) (auto split: option.splits)

lemma those_total: "\<forall>x \<in> set xs. f x \<noteq> None \<Longrightarrow> those (map f xs) \<noteq> None"
  by (induction xs) auto

end
