(* ===== verification/Rust_Strings.thy ===== *)
theory Rust_Strings
  imports Prelude "HOL-Library.Char_ord" "HOL-Library.List_Lexorder"
begin

text \<open>
  Rust's \<open>str\<close>: a value of HOL type \<open>string\<close> is the UTF-8 byte sequence, so \<open>length\<close> is
  Rust's \<open>len()\<close> (bytes), \<open>@\<close> is concatenation, and the order of \<open>List_Lexorder\<close> is
  Rust's order on strings (bytewise). The operations that count \<open>chars()\<close> (Unicode scalar
  values) go through \<open>str_chars\<close>, which cuts the byte sequence before every byte that is not a
  continuation byte. The functions below are those of the Rust standard library the program
  calls; they are not part of the program itself.
\<close>

section \<open>Bytes and characters\<close>

definition nl :: string where
  "nl = [CHR 0x0A]"

definition byte_of :: "char \<Rightarrow> nat" where
  "byte_of c = of_char c"

definition is_cont :: "char \<Rightarrow> bool" where
  "is_cont c \<longleftrightarrow> 128 \<le> byte_of c \<and> byte_of c < 192"

function str_chars :: "string \<Rightarrow> string list" where
  "str_chars [] = []"
| "str_chars (c # s) = (c # takeWhile is_cont s) # str_chars (dropWhile is_cont s)"
  by pat_completeness auto
termination
  by (relation "measure length") (auto simp: length_dropWhile_le le_imp_less_Suc)

lemma concat_str_chars [simp]: "concat (str_chars s) = s"
  by (induction s rule: str_chars.induct) auto

lemma str_chars_nonempty: "c \<in> set (str_chars s) \<Longrightarrow> c \<noteq> []"
  by (induction s rule: str_chars.induct) auto

lemma str_chars_Nil_iff [simp]: "str_chars s = [] \<longleftrightarrow> s = []"
  by (cases s) auto

definition char_count :: "string \<Rightarrow> nat" where
  "char_count s = length (str_chars s)"

text \<open>\<open>s.chars().take(n).collect::<String>()\<close>\<close>

definition take_chars :: "nat \<Rightarrow> string \<Rightarrow> string" where
  "take_chars n s = concat (take n (str_chars s))"

definition drop_chars :: "nat \<Rightarrow> string \<Rightarrow> string" where
  "drop_chars n s = concat (drop n (str_chars s))"

lemma take_drop_chars: "take_chars n s @ drop_chars n s = s"
  by (simp add: take_chars_def drop_chars_def flip: concat_append)

lemma prefix_take_chars: "prefix (take_chars n s) s"
  by (metis prefixI take_drop_chars)

lemma length_take_chars: "length (take_chars n s) \<le> length s"
  by (simp add: prefix_length_le prefix_take_chars)

lemma length_concat_ge: "(\<And>c. c \<in> set cs \<Longrightarrow> c \<noteq> []) \<Longrightarrow> length cs \<le> length (concat cs)"
proof (induction cs)
  case (Cons c cs)
  then have "length cs \<le> length (concat cs)" and "c \<noteq> []" by auto
  then show ?case by (cases c) auto
qed simp

lemma char_count_le_length: "char_count s \<le> length s"
  unfolding char_count_def
  using length_concat_ge[of "str_chars s"] str_chars_nonempty by fastforce

lemma take_chars_all: "char_count s \<le> n \<Longrightarrow> take_chars n s = s"
  by (simp add: take_chars_def char_count_def)

lemma dropWhile_Cons_imp: "dropWhile P s = b # r \<Longrightarrow> \<not> P b"
  by (metis hd_dropWhile list.discI list.sel(1))

lemma str_chars_append_lead:
  "(t = [] \<or> \<not> is_cont (hd t)) \<Longrightarrow> str_chars (s @ t) = str_chars s @ str_chars t"
proof (induction s rule: str_chars.induct)
  case (2 c s)
  show ?case
  proof (cases "\<forall>x \<in> set s. is_cont x")
    case True
    with "2.prems" have "takeWhile is_cont (s @ t) = s" "dropWhile is_cont (s @ t) = t"
      by (cases t; auto simp: takeWhile_append dropWhile_append)+
    with True show ?thesis
      by (simp add: takeWhile_eq_all_conv[THEN iffD2] dropWhile_eq_Nil_conv[THEN iffD2])
  next
    case False
    then have "takeWhile is_cont (s @ t) = takeWhile is_cont s"
      "dropWhile is_cont (s @ t) = dropWhile is_cont s @ t"
      by (auto simp: takeWhile_append dropWhile_append)
    with 2 show ?thesis by simp
  qed
qed auto

text \<open>Every character after the first starts with a byte that is not a continuation byte.\<close>

lemma str_chars_lead: "i < length (str_chars s) \<Longrightarrow> 0 < i \<Longrightarrow> \<not> is_cont (hd (str_chars s ! i))"
proof (induction s arbitrary: i rule: str_chars.induct)
  case (2 c s)
  let ?r = "dropWhile is_cont s"
  obtain j where i: "i = Suc j" using "2.prems" by (cases i) auto
  show ?case
  proof (cases j)
    case 0
    with 2 i obtain b r where r: "?r = b # r" by (cases ?r) auto
    then have "\<not> is_cont b" by (rule dropWhile_Cons_imp)
    with r 0 i show ?thesis by simp
  next
    case (Suc k)
    with 2 i show ?thesis by simp
  qed
qed simp

lemma str_chars_drop_chars: "str_chars (drop_chars n s) = drop n (str_chars s)"
proof (induction s arbitrary: n rule: str_chars.induct)
  case (2 c s)
  then show ?case
    by (cases n) (auto simp: drop_chars_def)
qed (simp add: drop_chars_def)

lemma str_chars_take_chars: "str_chars (take_chars n s) = take n (str_chars s)"
proof (induction s arbitrary: n rule: str_chars.induct)
  case (2 c s)
  show ?case
  proof (cases n)
    case 0
    then show ?thesis by (simp add: take_chars_def)
  next
    case (Suc m)
    let ?h = "c # takeWhile is_cont s" and ?r = "dropWhile is_cont s"
    have lead: "take_chars m ?r = [] \<or> \<not> is_cont (hd (take_chars m ?r))"
    proof (cases ?r)
      case (Cons b r)
      then have "\<not> is_cont b" by (rule dropWhile_Cons_imp)
      then show ?thesis using Cons by (cases m) (auto simp: take_chars_def)
    next
      case Nil
      then show ?thesis unfolding Nil by (simp add: take_chars_def)
    qed
    have tk: "takeWhile is_cont (takeWhile is_cont s) = takeWhile is_cont s"
      by (rule takeWhile_idem)
    have dp: "dropWhile is_cont (takeWhile is_cont s) = []"
      by (auto dest: set_takeWhileD)
    have h: "str_chars ?h = [?h]"
      by (simp add: tk dp)
    have "str_chars (take_chars n (c # s)) = str_chars (?h @ take_chars m ?r)"
      using Suc by (simp add: take_chars_def)
    also have "\<dots> = str_chars ?h @ str_chars (take_chars m ?r)"
      by (rule str_chars_append_lead[OF lead])
    also have "\<dots> = ?h # take m (str_chars ?r)"
      using h 2 by simp
    finally show ?thesis using Suc by simp
  qed
qed (simp add: take_chars_def)

lemma char_count_take_chars: "char_count (take_chars n s) = min n (char_count s)"
  by (simp add: char_count_def str_chars_take_chars)

lemma take_chars_idem: "take_chars n (take_chars n s) = take_chars n s"
  by (rule take_chars_all) (simp add: char_count_take_chars)


section \<open>Lines, splitting, joining\<close>

text \<open>\<open>s.split(c)\<close> for a one-byte separator: always at least one piece.\<close>

fun split_on :: "char \<Rightarrow> string \<Rightarrow> string list" where
  "split_on c [] = [[]]"
| "split_on c (x # xs) =
     (if x = c then [] # split_on c xs
      else (case split_on c xs of p # ps \<Rightarrow> (x # p) # ps | [] \<Rightarrow> [[x]]))"

fun str_join :: "string \<Rightarrow> string list \<Rightarrow> string" where
  "str_join sep [] = []"
| "str_join sep [x] = x"
| "str_join sep (x # y # ys) = x @ sep @ str_join sep (y # ys)"

lemma split_on_nonempty [simp]: "split_on c s \<noteq> []"
  by (cases s) (auto split: list.splits)

lemma split_on_no_sep: "c \<notin> set s \<Longrightarrow> split_on c s = [s]"
  by (induction s) auto

lemma split_on_append: "c \<notin> set p \<Longrightarrow> split_on c (p @ c # s) = p # split_on c s"
  by (induction p) auto

lemma split_on_join:
  "ps \<noteq> [] \<Longrightarrow> (\<And>p. p \<in> set ps \<Longrightarrow> c \<notin> set p) \<Longrightarrow> split_on c (str_join [c] ps) = ps"
  by (induction "[c]" ps rule: str_join.induct) (auto simp: split_on_no_sep split_on_append)

text \<open>
  \<open>s.lines()\<close>: pieces ended by a line feed, with one carriage return before it removed; text
  after the last line feed is a line when it is not empty, and keeps its carriage return.
\<close>

definition strip_cr :: "string \<Rightarrow> string" where
  "strip_cr l = (if l \<noteq> [] \<and> last l = CHR 0x0D then butlast l else l)"

function str_lines :: "string \<Rightarrow> string list" where
  "str_lines s =
     (if s = [] then []
      else (case dropWhile (\<lambda>c. c \<noteq> CHR 0x0A) s of
              [] \<Rightarrow> [s]
            | _ # rest \<Rightarrow> strip_cr (takeWhile (\<lambda>c. c \<noteq> CHR 0x0A) s) # str_lines rest))"
  by pat_completeness auto
termination
proof (relation "measure length", goal_cases)
  case (2 s x rest)
  then have "length (x # rest) \<le> length s" by (metis length_dropWhile_le)
  then show ?case by simp
qed simp

declare str_lines.simps [simp del]

lemma str_lines_Nil [simp]: "str_lines [] = []"
  by (simp add: str_lines.simps)

lemma str_lines_single:
  assumes "CHR 0x0A \<notin> set l" "l \<noteq> []"
  shows "str_lines l = [l]"
proof -
  from assms(1) have d: "dropWhile (\<lambda>c. c \<noteq> CHR 0x0A) l = []" by auto
  from assms(2) show ?thesis unfolding str_lines.simps[of l] d by simp
qed

lemma str_lines_append:
  assumes "CHR 0x0A \<notin> set l"
  shows "str_lines (l @ CHR 0x0A # s) = strip_cr l # str_lines s"
  using assms by (subst str_lines.simps) (auto simp: dropWhile_append takeWhile_append)

text \<open>A line that can stand in a joined text and come back unchanged.\<close>

definition plain_line :: "string \<Rightarrow> bool" where
  "plain_line l \<longleftrightarrow> l \<noteq> [] \<and> CHR 0x0A \<notin> set l \<and> last l \<noteq> CHR 0x0D"

lemma strip_cr_plain: "plain_line l \<Longrightarrow> strip_cr l = l"
  by (simp add: strip_cr_def plain_line_def)

lemma str_lines_join: "list_all plain_line ls \<Longrightarrow> str_lines (str_join nl ls) = ls"
proof (induction nl ls rule: str_join.induct)
  case (2 x)
  then show ?case by (simp add: plain_line_def str_lines_single)
next
  case (3 x y ys)
  then show ?case
    by (simp add: nl_def str_lines_append strip_cr_plain)
      (simp add: plain_line_def str_lines_append strip_cr_def)
qed simp

lemma str_lines_no_nl: "\<forall>l \<in> set (str_lines s). CHR 0x0A \<notin> set l"
proof (induction s rule: str_lines.induct)
  case (1 s)
  let ?d = "dropWhile (\<lambda>c. c \<noteq> CHR 0x0A) s" and ?t = "takeWhile (\<lambda>c. c \<noteq> CHR 0x0A) s"
  have t: "CHR 0x0A \<notin> set (strip_cr ?t)"
    by (auto simp: strip_cr_def dest: set_takeWhileD in_set_butlastD)
  show ?case
  proof (cases "s = []")
    case False
    show ?thesis
    proof (cases ?d)
      case Nil
      then have "CHR 0x0A \<notin> set s" by auto
      with False show ?thesis by (simp add: str_lines_single)
    next
      case (Cons x rest)
      have "str_lines s = strip_cr ?t # str_lines rest"
        using False Cons by (subst str_lines.simps) simp
      with t "1.IH"[OF False Cons] show ?thesis by simp
    qed
  qed simp
qed

section \<open>Searching\<close>

text \<open>\<open>s.find(needle)\<close>: the byte offset of the first occurrence.\<close>

fun str_find :: "string \<Rightarrow> string \<Rightarrow> nat option" where
  "str_find n [] = (if n = [] then Some 0 else None)"
| "str_find n (c # s) = (if prefix n (c # s) then Some 0 else map_option Suc (str_find n s))"

definition str_contains :: "string \<Rightarrow> string \<Rightarrow> bool" where
  "str_contains n s \<longleftrightarrow> str_find n s \<noteq> None"

lemma str_find_Some:
  "str_find n s = Some k \<Longrightarrow> k + length n \<le> length s \<and> take (length n) (drop k s) = n"
proof (induction s arbitrary: k)
  case Nil
  then show ?case by (simp split: if_splits)
next
  case (Cons c s)
  show ?case
  proof (cases "prefix n (c # s)")
    case True
    with Cons.prems have "k = 0" by simp
    with True show ?thesis by (metis add_0 append_eq_conv_conj drop0 prefix_def prefix_length_le)
  next
    case False
    with Cons show ?thesis by (cases k) auto
  qed
qed

lemma str_find_first: "str_find n s = Some k \<Longrightarrow> j < k \<Longrightarrow> \<not> prefix n (drop j s)"
proof (induction s arbitrary: k j)
  case (Cons c s)
  show ?case
  proof (cases "prefix n (c # s)")
    case False
    with Cons show ?thesis by (cases j) auto
  qed (use Cons.prems in auto)
qed (auto split: if_splits)

lemma str_find_None: "str_find n s = None \<Longrightarrow> \<not> prefix n (drop j s)"
proof (induction s arbitrary: j)
  case (Cons c s)
  then show ?case by (cases j) (auto split: if_splits)
qed (auto split: if_splits)

lemma str_contains_iff: "str_contains n s \<longleftrightarrow> sublist n s"
proof
  assume "str_contains n s"
  then obtain k where "str_find n s = Some k" by (auto simp: str_contains_def)
  then have "take (length n) (drop k s) = n" by (simp add: str_find_Some)
  then show "sublist n s"
    by (metis append_take_drop_id sublist_appendI)
next
  assume "sublist n s"
  then obtain a b where "s = a @ n @ b" by (auto simp: sublist_def)
  then have "prefix n (drop (length a) s)" by simp
  then show "str_contains n s" using str_find_None str_contains_def by blast
qed

lemma str_contains_append: "str_contains n s \<Longrightarrow> str_contains n (a @ s @ b)"
  by (auto simp: str_contains_iff sublist_def) (metis append.assoc)

text \<open>\<open>s.replace(needle, by)\<close> for a non-empty needle.\<close>

function str_replace :: "string \<Rightarrow> string \<Rightarrow> string \<Rightarrow> string" where
  "str_replace n b [] = []"
| "str_replace n b (c # s) =
     (if n \<noteq> [] \<and> prefix n (c # s) then b @ str_replace n b (drop (length n) (c # s))
      else c # str_replace n b s)"
  by pat_completeness auto
termination
  by (relation "measure (\<lambda>(n, b, s). length s)") auto

section \<open>Case and white space\<close>

definition ascii_lower :: "char \<Rightarrow> char" where
  "ascii_lower c = (if 65 \<le> byte_of c \<and> byte_of c \<le> 90 then char_of (byte_of c + 32) else c)"

definition to_ascii_lowercase :: "string \<Rightarrow> string" where
  "to_ascii_lowercase s = map ascii_lower s"

definition eq_ignore_ascii_case :: "string \<Rightarrow> string \<Rightarrow> bool" where
  "eq_ignore_ascii_case a b \<longleftrightarrow> to_ascii_lowercase a = to_ascii_lowercase b"

lemma length_to_ascii_lowercase [simp]: "length (to_ascii_lowercase s) = length s"
  by (simp add: to_ascii_lowercase_def)

lemma to_ascii_lowercase_append [simp]:
  "to_ascii_lowercase (a @ b) = to_ascii_lowercase a @ to_ascii_lowercase b"
  by (simp add: to_ascii_lowercase_def)

lemma to_ascii_lowercase_idem [simp]: "to_ascii_lowercase (to_ascii_lowercase s) = to_ascii_lowercase s"
  by (auto simp: to_ascii_lowercase_def ascii_lower_def byte_of_def)

text \<open>The characters with Unicode property \<open>White_Space\<close>, as UTF-8.\<close>

definition is_ws :: "string \<Rightarrow> bool" where
  "is_ws ch \<longleftrightarrow>
     (case ch of
        [a] \<Rightarrow> (9 \<le> byte_of a \<and> byte_of a \<le> 13) \<or> byte_of a = 32
      | [a, b] \<Rightarrow> byte_of a = 194 \<and> (byte_of b = 133 \<or> byte_of b = 160)
      | [a, b, c] \<Rightarrow>
          (byte_of a = 225 \<and> byte_of b = 154 \<and> byte_of c = 128)
          \<or> (byte_of a = 226 \<and> byte_of b = 128 \<and>
             ((128 \<le> byte_of c \<and> byte_of c \<le> 138) \<or> byte_of c = 168 \<or> byte_of c = 169 \<or> byte_of c = 175))
          \<or> (byte_of a = 226 \<and> byte_of b = 129 \<and> byte_of c = 159)
          \<or> (byte_of a = 227 \<and> byte_of b = 128 \<and> byte_of c = 128)
      | _ \<Rightarrow> False)"

definition str_trim_start :: "string \<Rightarrow> string" where
  "str_trim_start s = concat (dropWhile is_ws (str_chars s))"

definition str_trim :: "string \<Rightarrow> string" where
  "str_trim s = concat (rev (dropWhile is_ws (rev (dropWhile is_ws (str_chars s)))))"

lemma str_chars_trim:
  "str_chars (str_trim s) = rev (dropWhile is_ws (rev (dropWhile is_ws (str_chars s))))"
proof -
  let ?n = "length (takeWhile is_ws (str_chars s))"
  let ?d = "dropWhile is_ws (str_chars s)"
  let ?m = "length ?d - length (takeWhile is_ws (rev ?d))"
  have d: "?d = drop ?n (str_chars s)" by (rule dropWhile_eq_drop)
  have t: "rev (dropWhile is_ws (rev ?d)) = take ?m ?d"
    by (simp add: dropWhile_eq_drop[of is_ws "rev ?d"] rev_drop)
  have "str_trim s = take_chars ?m (drop_chars ?n s)"
    unfolding str_trim_def t by (simp add: take_chars_def str_chars_drop_chars flip: d)
  then show ?thesis
    unfolding t by (simp add: str_chars_take_chars str_chars_drop_chars flip: d)
qed

lemma str_trim_self:
  assumes "s = [] \<or> (\<not> is_ws (hd (str_chars s)) \<and> \<not> is_ws (last (str_chars s)))"
  shows "str_trim s = s"
proof (cases "str_chars s")
  case (Cons c cs)
  with assms have "\<not> is_ws c" "\<not> is_ws (last (c # cs))" by auto
  then have "dropWhile is_ws (str_chars s) = str_chars s"
    and "dropWhile is_ws (rev (str_chars s)) = rev (str_chars s)"
    using Cons by (simp, metis dropWhile.simps(2) hd_rev list.discI list.exhaust_sel rev_is_Nil_conv)
  then show ?thesis by (simp add: str_trim_def)
qed (simp add: str_trim_def)

lemma str_trim_ends:
  assumes "str_trim s \<noteq> []"
  shows "\<not> is_ws (hd (str_chars (str_trim s)))" and "\<not> is_ws (last (str_chars (str_trim s)))"
proof -
  let ?d = "dropWhile is_ws (str_chars s)"
  let ?e = "dropWhile is_ws (rev ?d)"
  have ne: "?e \<noteq> []"
    using assms unfolding str_trim_def by (metis concat.simps(1) rev.simps(1))
  then show "\<not> is_ws (last (str_chars (str_trim s)))"
    by (simp add: str_chars_trim last_rev hd_dropWhile)
  have "?d \<noteq> []" using ne by (metis dropWhile.simps(1) rev.simps(1))
  then have nd: "\<not> is_ws (hd ?d)" by (rule hd_dropWhile)
  have "last ?e = last (rev ?d)" using ne by (metis dropWhile_dropWhile1 last_appendR takeWhile_dropWhile_id)
  with nd \<open>?d \<noteq> []\<close> show "\<not> is_ws (hd (str_chars (str_trim s)))"
    using ne by (simp add: str_chars_trim hd_rev last_rev)
qed

lemma str_trim_idem [simp]: "str_trim (str_trim s) = str_trim s"
  by (metis str_trim_ends str_trim_self)

lemma set_str_trim: "set (str_trim s) \<subseteq> set s"
proof -
  have "set (concat (rev (dropWhile is_ws (rev (dropWhile is_ws (str_chars s))))))
      \<subseteq> set (concat (str_chars s))"
    by (auto simp del: concat_str_chars dest!: set_dropWhileD)
  then show ?thesis by (simp add: str_trim_def)
qed

lemma str_chars_tl_cont: "c \<in> set (str_chars s) \<Longrightarrow> list_all is_cont (tl c)"
  by (induction s rule: str_chars.induct) (auto simp: list_all_iff dest: set_takeWhileD)

lemma str_trim_no_cr:
  assumes "str_trim s \<noteq> []"
  shows "last (str_trim s) \<noteq> CHR 0x0D"
proof
  assume cr: "last (str_trim s) = CHR 0x0D"
  let ?c = "last (str_chars (str_trim s))"
  have cs: "str_chars (str_trim s) \<noteq> []" using assms by simp
  then have mem: "?c \<in> set (str_chars (str_trim s))" by (rule last_in_set)
  then have ne: "?c \<noteq> []" by (rule str_chars_nonempty)
  have "str_trim s = concat (butlast (str_chars (str_trim s)) @ [?c])"
    using append_butlast_last_id[OF cs] by simp
  then have "last (str_trim s) = last ?c" using ne by (metis concat.simps concat_append last_appendR append_Nil2)
  with cr have l: "last ?c = CHR 0x0D" by simp
  have "tl ?c = []"
  proof (rule ccontr)
    assume "tl ?c \<noteq> []"
    then have "last ?c \<in> set (tl ?c)" by (metis last_in_set last_tl)
    with str_chars_tl_cont[OF mem] l show False by (auto simp: list_all_iff is_cont_def byte_of_def)
  qed
  with ne l have "?c = [CHR 0x0D]" by (cases ?c) auto
  then have "is_ws ?c" by (simp add: is_ws_def byte_of_def)
  with str_trim_ends(2)[OF assms] show False by simp
qed

text \<open>A text between two ASCII characters that are not white space is already trimmed.\<close>

lemma str_trim_enclosed:
  assumes "65 \<le> byte_of a" "byte_of a < 128" "65 \<le> byte_of b" "byte_of b < 128"
  shows "str_trim (a # s @ [b]) = a # s @ [b]"
proof (rule str_trim_self, rule disjI2, rule conjI)
  show "\<not> is_ws (hd (str_chars (a # s @ [b])))"
    using assms(1,2) by (auto simp: is_ws_def split: list.splits)
  have "\<not> is_cont b" using assms(4) by (simp add: is_cont_def)
  then have "str_chars ((a # s) @ [b]) = str_chars (a # s) @ [[b]]"
    by (subst str_chars_append_lead) auto
  then have "last (str_chars (a # s @ [b])) = [b]" by simp
  then show "\<not> is_ws (last (str_chars (a # s @ [b])))"
    using assms(3) by (simp add: is_ws_def)
qed

text \<open>\<open>s.split_whitespace()\<close>: the maximal runs of characters that are not white space.\<close>

function ws_words :: "string list \<Rightarrow> string list" where
  "ws_words cs =
     (case dropWhile is_ws cs of
        [] \<Rightarrow> []
      | c # r \<Rightarrow> concat (c # takeWhile (\<lambda>x. \<not> is_ws x) r) # ws_words (dropWhile (\<lambda>x. \<not> is_ws x) r))"
  by pat_completeness auto
termination
proof (relation "measure length", goal_cases)
  case (2 cs c r)
  then have "length (c # r) \<le> length cs" by (metis length_dropWhile_le)
  moreover have "length (dropWhile (\<lambda>x. \<not> is_ws x) r) \<le> length r" by (rule length_dropWhile_le)
  ultimately show ?case by simp
qed simp

declare ws_words.simps [simp del]

definition split_whitespace :: "string \<Rightarrow> string list" where
  "split_whitespace s = ws_words (str_chars s)"

text \<open>\<open>s.split_ascii_whitespace()\<close>: the separators are space, tab, LF, FF and CR.\<close>

definition is_ascii_ws :: "char \<Rightarrow> bool" where
  "is_ascii_ws c \<longleftrightarrow> c \<in> {CHR 0x20, CHR 0x09, CHR 0x0A, CHR 0x0C, CHR 0x0D}"

definition first_ascii_word :: "string \<Rightarrow> string" where
  "first_ascii_word s = takeWhile (\<lambda>c. \<not> is_ascii_ws c) (dropWhile is_ascii_ws s)"

section \<open>Decimal rendering\<close>

definition digit_char :: "nat \<Rightarrow> char" where
  "digit_char d = char_of (48 + d)"

fun show_nat :: "nat \<Rightarrow> string" where
  "show_nat n = (if n < 10 then [digit_char n] else show_nat (n div 10) @ [digit_char (n mod 10)])"

declare show_nat.simps [simp del]

definition is_digit :: "char \<Rightarrow> bool" where
  "is_digit c \<longleftrightarrow> 48 \<le> byte_of c \<and> byte_of c \<le> 57"

lemma digit_char_digit: "d < 10 \<Longrightarrow> is_digit (digit_char d)"
  by (simp add: is_digit_def digit_char_def byte_of_def)

lemma show_nat_digits: "list_all is_digit (show_nat n)"
proof (induction n rule: show_nat.induct)
  case (1 n)
  then show ?case
    by (subst show_nat.simps) (auto simp: digit_char_digit)
qed

lemma show_nat_nonempty [simp]: "show_nat n \<noteq> []"
  by (subst show_nat.simps) simp

section \<open>Prefixes and character classes\<close>

definition strip_prefix :: "string \<Rightarrow> string \<Rightarrow> string option" where
  "strip_prefix p s = (if prefix p s then Some (drop (length p) s) else None)"

text \<open>\<open>s.trim_start_matches(p)\<close> for a non-empty pattern: every leading copy of it goes.\<close>

function trim_start_matches :: "string \<Rightarrow> string \<Rightarrow> string" where
  "trim_start_matches p s = (if p \<noteq> [] \<and> prefix p s then trim_start_matches p (drop (length p) s) else s)"
  by pat_completeness auto
termination
  by (relation "measure (\<lambda>(p, s). length s)") (auto dest: prefix_length_le simp: prefix_def)

declare trim_start_matches.simps [simp del]

text \<open>
  \<open>char::is_alphabetic\<close> and \<open>char::is_alphanumeric\<close> of one character: exact for ASCII, and by the
  given table for the other characters.
\<close>

definition is_alphabetic :: "(string \<Rightarrow> bool) \<Rightarrow> string \<Rightarrow> bool" where
  "is_alphabetic table ch =
     (case ch of
        [a] \<Rightarrow> (65 \<le> byte_of a \<and> byte_of a \<le> 90) \<or> (97 \<le> byte_of a \<and> byte_of a \<le> 122)
      | _ \<Rightarrow> table ch)"

definition is_alphanumeric :: "(string \<Rightarrow> bool) \<Rightarrow> string \<Rightarrow> bool" where
  "is_alphanumeric table ch =
     (case ch of
        [a] \<Rightarrow> is_digit a \<or> (65 \<le> byte_of a \<and> byte_of a \<le> 90) \<or> (97 \<le> byte_of a \<and> byte_of a \<le> 122)
      | _ \<Rightarrow> table ch)"

section \<open>Paths\<close>

text \<open>\<open>Path::join\<close> on Unix.\<close>

definition path_join :: "string \<Rightarrow> string \<Rightarrow> string" where
  "path_join a b =
     (if prefix ''/'' b then b else if a = [] \<or> last a = CHR ''/'' then a @ b else a @ ''/'' @ b)"

end
