(* ===== verification/Llm.thy ===== *)
theory Llm
  imports Complex_Main Rust_Strings
begin

text \<open>
  The provider abstraction of \<open>crates/aether-llm/src/lib.rs\<close>: the request and response types
  shaped after the Messages API, token accounting, the error type, and the trait
  \<open>LlmProvider\<close> as a record of functions over a world of type \<open>'w\<close>, which stands for
  everything outside the program (the network, the clock, the terminal). The HTTP back-ends
  are not modelled: a provider is a parameter.
\<close>

section \<open>JSON values\<close>

text \<open>
  The variants of \<open>serde_json::Value\<close> the code matches on. A number keeps its literal text.
  The serialiser is not part of the program and is a parameter where it is used.
\<close>

datatype json =
    JNull
  | JBool bool
  | JNum string
  | JStr string
  | JArr "json list"
  | JObj "(string \<times> json) list"

definition json_get :: "json \<Rightarrow> string \<Rightarrow> json option" where
  "json_get v k = (case v of JObj kvs \<Rightarrow> map_of kvs k | _ \<Rightarrow> None)"

definition json_as_str :: "json \<Rightarrow> string option" where
  "json_as_str v = (case v of JStr s \<Rightarrow> Some s | _ \<Rightarrow> None)"

section \<open>Messages\<close>

record thinking_config =
  thinking_type :: string
  budget_tokens :: nat

definition thinking_enabled :: "nat \<Rightarrow> thinking_config" where
  "thinking_enabled budget = \<lparr>thinking_type = ''enabled'', budget_tokens = budget\<rparr>"

datatype role = User_role | Assistant_role | System_role

record image_source =
  source_type :: string
  media_type :: string
  image_data :: string

definition image_base64 :: "string \<Rightarrow> string \<Rightarrow> image_source" where
  "image_base64 mt d = \<lparr>source_type = ''base64'', media_type = mt, image_data = d\<rparr>"

datatype content_block =
    Text string
  | ToolUse (tu_block_id: string) (tu_block_name: string) (tu_block_input: json)
  | ToolResult (tr_block_id: string) (tr_block_content: string) (tr_block_error: bool)
  | Thinking string
  | Image image_source

record message =
  msg_role :: role
  msg_content :: "content_block list"

definition user_text :: "string \<Rightarrow> message" where
  "user_text s = \<lparr>msg_role = User_role, msg_content = [Text s]\<rparr>"

record tool_def =
  td_name :: string
  td_description :: string
  td_input_schema :: json

record messages_request =
  rq_model :: string
  rq_system :: "string option"
  rq_messages :: "message list"
  rq_max_tokens :: nat
  rq_tools :: "tool_def list"
  rq_stream :: bool
  rq_thinking :: "thinking_config option"
  rq_temperature :: "rat option"

datatype stop_reason = EndTurn | StopToolUse | MaxTokens | Refusal | StopSequence | PauseTurn

section \<open>Token accounting\<close>

record usage =
  input_tokens :: nat
  output_tokens :: nat
  cache_creation_input_tokens :: nat
  cache_read_input_tokens :: nat

definition usage_default :: usage where
  "usage_default = \<lparr>input_tokens = 0, output_tokens = 0,
     cache_creation_input_tokens = 0, cache_read_input_tokens = 0\<rparr>"

definition usage_add :: "usage \<Rightarrow> usage \<Rightarrow> usage" where
  "usage_add self other =
     \<lparr>input_tokens = input_tokens self + input_tokens other,
      output_tokens = output_tokens self + output_tokens other,
      cache_creation_input_tokens =
        cache_creation_input_tokens self + cache_creation_input_tokens other,
      cache_read_input_tokens = cache_read_input_tokens self + cache_read_input_tokens other\<rparr>"

record messages_response =
  rs_content :: "content_block list"
  rs_stop_reason :: stop_reason
  rs_usage :: "usage option"

section \<open>Errors\<close>

datatype llm_error =
    Transport string
  | Schema string
  | RateLimited
  | Upstream (up_status: nat) (up_body: string)

text \<open>\<open>Display\<close> and the help text of an error.\<close>

fun show_llm_error :: "llm_error \<Rightarrow> string" where
  "show_llm_error (Transport m) = ''transport: '' @ m"
| "show_llm_error (Schema m) = ''schema violation: '' @ m"
| "show_llm_error RateLimited = ''rate limited''"
| "show_llm_error (Upstream status body) = ''upstream '' @ show_nat status @ '': '' @ body"

fun actionable :: "llm_error \<Rightarrow> string" where
  "actionable (Transport msg) =
     (if str_contains ''ANTHROPIC_API_KEY not set'' msg then
        ''No auth source found. Either:'' @ nl
        @ ''  - Set ANTHROPIC_API_KEY (console API key), OR'' @ nl @ ''  - Run '' @ [CHR 0x60]
        @ ''claude'' @ [CHR 0x60] @ '' once to populate ~/.claude/.credentials.json''
      else if str_contains ''token expired'' msg then
        ''Your OAuth token has expired. Run '' @ [CHR 0x60] @ ''claude'' @ [CHR 0x60]
        @ '' once to refresh, or '' @ [CHR 0x60] @ ''aether doctor'' @ [CHR 0x60]
        @ '' to check expiry.''
      else if str_contains ''HOME not set'' msg then
        ''$HOME is not set in this environment. Set it or use ANTHROPIC_API_KEY ''
        @ ''directly.''
      else if str_contains ''send:'' msg \<or> str_contains ''io error'' msg then
        ''Network error talking to api.anthropic.com: ''
        @ msg
        @ ''.'' @ nl @ ''  Check connectivity and rerun. Aether'' @ [CHR 0x27]
        @ ''s RetryingProvider retried 3x with exponential backoff before surfacing ''
        @ ''this.''
      else
        ''Transport error: ''
        @ msg)"
| "actionable (Schema msg) =
       ''Response from server did not match expected shape: ''
       @ msg
       @ ''.'' @ nl @ ''  This usually means the API changed; check for an aether update.''"
| "actionable RateLimited =
       ''Rate limited. For OAuth (Max-subscription) accounts, premium models (Opus / ''
       @ ''Sonnet) share a per-account bucket; Haiku has separate, larger quota. Try:'' @ nl
       @ ''  - '' @ [CHR 0x60] @ ''aether --model claude-haiku-4-5-20251001 --print ...''
       @ [CHR 0x60] @ nl @ ''  - wait for the 5h window to reset (check ''
       @ ''anthropic-ratelimit-unified-5h-reset)'' @ nl
       @ ''  - switch to ANTHROPIC_API_KEY (Console billing, separate bucket)''"
| "actionable (Upstream status body) =
     (if status = 401 then
        ''Auth rejected (401): ''
        @ body
        @ ''.'' @ nl @ ''  Token may be expired. Run '' @ [CHR 0x60] @ ''claude'' @ [CHR 0x60]
        @ '' to refresh, or '' @ [CHR 0x60] @ ''aether doctor'' @ [CHR 0x60] @ ''.''
      else if status = 403 then
        ''Forbidden (403): ''
        @ body
        @ ''.'' @ nl @ ''  Your account doesn'' @ [CHR 0x27]
        @ ''t have access to this model or feature.''
      else if status = 404 then
        ''Not found (404): ''
        @ body
        @ ''.'' @ nl @ ''  The model id may be wrong. List available models with '' @ [CHR 0x60]
        @ ''curl ... /v1/models'' @ [CHR 0x60] @ ''.''
      else if status = 413 then
        ''Payload too large (413): ''
        @ body
        @ ''.'' @ nl @ ''  Shrink the prompt or split the work into multiple turns.''
      else if status = 429 then
        ''Rate limited (429): ''
        @ body
        @ ''.'' @ nl @ ''  For OAuth Max accounts, premium models share one bucket; try Haiku or ''
        @ ''wait for the window to reset.''
      else if status = 529 then
        ''Overloaded (529): ''
        @ body
        @ ''.'' @ nl
        @ ''  Anthropic is currently overloaded; the RetryingProvider already retried ''
        @ ''3x with exponential backoff.''
      else if 500 \<le> status \<and> status \<le> 599 then
        ''Server error (''
        @ show_nat status
        @ ''): ''
        @ body
        @ ''.'' @ nl
        @ ''  Transient; the RetryingProvider already retried 3x. If it persists, check ''
        @ ''status.anthropic.com.''
      else
        ''Upstream ''
        @ show_nat status
        @ '': ''
        @ body)"

section \<open>The provider trait\<close>

type_synonym 'w text_delta_sink = "string \<Rightarrow> 'w \<Rightarrow> 'w"
type_synonym llm_result = "(llm_error, messages_response) result"

record 'w llm_provider =
  pr_complete :: "messages_request \<Rightarrow> 'w \<Rightarrow> llm_result \<times> 'w"
  pr_complete_streamed :: "messages_request \<Rightarrow> 'w text_delta_sink \<Rightarrow> 'w \<Rightarrow> llm_result \<times> 'w"
  pr_name :: string

fun emit_text :: "'w text_delta_sink \<Rightarrow> content_block list \<Rightarrow> 'w \<Rightarrow> 'w" where
  "emit_text cb [] w = w"
| "emit_text cb (Text t # bs) w = emit_text cb bs (cb t w)"
| "emit_text cb (b # bs) w = emit_text cb bs w"

definition default_complete_streamed ::
  "(messages_request \<Rightarrow> 'w \<Rightarrow> llm_result \<times> 'w) \<Rightarrow>
   messages_request \<Rightarrow> 'w text_delta_sink \<Rightarrow> 'w \<Rightarrow> llm_result \<times> 'w" where
  "default_complete_streamed call req on_delta w =
     (case call req w of
        (Inl e, w') \<Rightarrow> (Inl e, w')
      | (Inr resp, w') \<Rightarrow> (Inr resp, emit_text on_delta (rs_content resp) w'))"

text \<open>The text a response carries, and the ids of its tool calls.\<close>

definition block_texts :: "content_block list \<Rightarrow> string list" where
  "block_texts bs = concat (map (\<lambda>b. case b of Text t \<Rightarrow> [t] | _ \<Rightarrow> []) bs)"

definition use_ids :: "content_block list \<Rightarrow> string list" where
  "use_ids bs = concat (map (\<lambda>b. case b of ToolUse i n x \<Rightarrow> [i] | _ \<Rightarrow> []) bs)"

definition result_ids :: "content_block list \<Rightarrow> string list" where
  "result_ids bs = concat (map (\<lambda>b. case b of ToolResult i c e \<Rightarrow> [i] | _ \<Rightarrow> []) bs)"

lemma use_ids_simps [simp]:
  "use_ids [] = []"
  "use_ids (b # bs) = (case b of ToolUse i n x \<Rightarrow> [i] | _ \<Rightarrow> []) @ use_ids bs"
  "use_ids (as @ bs) = use_ids as @ use_ids bs"
  by (simp_all add: use_ids_def)

lemma result_ids_simps [simp]:
  "result_ids [] = []"
  "result_ids (b # bs) = (case b of ToolResult i c e \<Rightarrow> [i] | _ \<Rightarrow> []) @ result_ids bs"
  "result_ids (as @ bs) = result_ids as @ result_ids bs"
  by (simp_all add: result_ids_def)

lemma block_texts_simps [simp]:
  "block_texts [] = []"
  "block_texts (b # bs) = (case b of Text t \<Rightarrow> [t] | _ \<Rightarrow> []) @ block_texts bs"
  by (simp_all add: block_texts_def)

lemma emit_text_fold: "emit_text cb bs w = fold cb (block_texts bs) w"
  by (induction cb bs w rule: emit_text.induct) auto

end
