(* ===== verification/Retry.thy ===== *)
theory Retry
  imports Llm
begin

text \<open>
  The retry watchdog of \<open>crates/aether-llm/src/retry.rs\<close>: \<open>RetryingProvider\<close> repeats
  \<open>complete\<close> on transient errors with exponential backoff and passes streaming calls
  through. The lemmas bound the number of attempts, describe the whole trace of calls and
  sleeps, and show that the wrapper never invents an outcome.
\<close>

section \<open>Configuration, classification, backoff\<close>

record retry_config =
  max_attempts :: nat
  base_delay_ms :: nat

definition retry_default :: retry_config where
  "retry_default = \<lparr>max_attempts = 3, base_delay_ms = 1000\<rparr>"

fun is_retryable :: "llm_error \<Rightarrow> bool" where
  "is_retryable RateLimited = True"
| "is_retryable (Upstream status body) = (500 \<le> status \<and> status < 600)"
| "is_retryable (Transport m) = True"
| "is_retryable (Schema m) = False"

definition backoff_delay_ms :: "retry_config \<Rightarrow> nat \<Rightarrow> nat" where
  "backoff_delay_ms cfg attempt =
     (let shift = min (attempt - 1) 20 in sat_mul (base_delay_ms cfg) (2 ^ shift))"

section \<open>The provider\<close>

text \<open>
  The loop of \<open>complete\<close>; \<open>attempt\<close> is the counter before it is incremented, and
  \<open>sleep\<close> is the effect of \<open>tokio::time::sleep\<close> on the world.
\<close>

function retry_loop ::
  "retry_config \<Rightarrow> (nat \<Rightarrow> 'w \<Rightarrow> 'w) \<Rightarrow> (messages_request \<Rightarrow> 'w \<Rightarrow> llm_result \<times> 'w) \<Rightarrow>
   messages_request \<Rightarrow> nat \<Rightarrow> 'w \<Rightarrow> llm_result \<times> 'w" where
  "retry_loop cfg sleep inner req attempt w =
     (case inner req w of
        (Inr resp, w1) \<Rightarrow> (Inr resp, w1)
      | (Inl e, w1) \<Rightarrow>
          (if Suc attempt < max_attempts cfg \<and> is_retryable e
           then retry_loop cfg sleep inner req (Suc attempt)
                  (sleep (backoff_delay_ms cfg (Suc attempt)) w1)
           else (Inl e, w1)))"
  by pat_completeness auto
termination
  by (relation "measure (\<lambda>(cfg, sleep, inner, req, attempt, w). max_attempts cfg - attempt)") auto

declare retry_loop.simps [simp del]

definition retrying_complete ::
  "(string \<Rightarrow> string option) \<Rightarrow> retry_config \<Rightarrow> (nat \<Rightarrow> 'w \<Rightarrow> 'w) \<Rightarrow>
   (messages_request \<Rightarrow> 'w \<Rightarrow> llm_result \<times> 'w) \<Rightarrow> messages_request \<Rightarrow> 'w \<Rightarrow> llm_result \<times> 'w" where
  "retrying_complete env cfg sleep inner req w =
     (if env ''AETHER_NO_RETRY'' = Some ''1'' then inner req w
      else retry_loop cfg sleep inner req 0 w)"

definition retrying_provider ::
  "(string \<Rightarrow> string option) \<Rightarrow> retry_config \<Rightarrow> (nat \<Rightarrow> 'w \<Rightarrow> 'w) \<Rightarrow> 'w llm_provider \<Rightarrow> 'w llm_provider" where
  "retrying_provider env cfg sleep inner =
     \<lparr>pr_complete = retrying_complete env cfg sleep (pr_complete inner),
      pr_complete_streamed = pr_complete_streamed inner,
      pr_name = pr_name inner\<rparr>"

section \<open>Backoff\<close>

lemma backoff_le: "backoff_delay_ms cfg a \<le> u64_max"
  by (simp add: backoff_delay_ms_def sat_mul_le)

lemma backoff_mono: "a \<le> b \<Longrightarrow> backoff_delay_ms cfg a \<le> backoff_delay_ms cfg b"
  unfolding backoff_delay_ms_def Let_def
  by (intro sat_mul_mono power_increasing) auto

lemma backoff_exact:
  assumes "1 \<le> a" "a \<le> 21" "base_delay_ms cfg * 2 ^ (a - 1) \<le> u64_max"
  shows "backoff_delay_ms cfg a = base_delay_ms cfg * 2 ^ (a - 1)"
proof -
  from assms(1,2) have "min (a - 1) 20 = a - 1" by simp
  with assms(3) show ?thesis by (simp add: backoff_delay_ms_def sat_mul_def Let_def)
qed

section \<open>The trace of a call\<close>

text \<open>
  Observing the wrapper: the inner provider and the clock run in a world extended by a log.
\<close>

datatype retry_event = Called llm_result | Slept nat

definition log_inner ::
  "(messages_request \<Rightarrow> 'w \<Rightarrow> llm_result \<times> 'w) \<Rightarrow>
   messages_request \<Rightarrow> retry_event list \<times> 'w \<Rightarrow> llm_result \<times> (retry_event list \<times> 'w)" where
  "log_inner inner req lw =
     (case inner req (snd lw) of (r, w') \<Rightarrow> (r, (fst lw @ [Called r], w')))"

definition log_sleep :: "(nat \<Rightarrow> 'w \<Rightarrow> 'w) \<Rightarrow> nat \<Rightarrow> retry_event list \<times> 'w \<Rightarrow> retry_event list \<times> 'w" where
  "log_sleep sleep ms lw = (fst lw @ [Slept ms], sleep ms (snd lw))"

text \<open>
  What the log must look like: failed attempts, each a retryable error followed by the sleep
  of that attempt, then the attempt that decides.
\<close>

fun retry_trace :: "retry_config \<Rightarrow> nat \<Rightarrow> llm_error list \<Rightarrow> llm_result \<Rightarrow> retry_event list" where
  "retry_trace cfg attempt [] r = [Called r]"
| "retry_trace cfg attempt (e # es) r =
     Called (Inl e) # Slept (backoff_delay_ms cfg (Suc attempt)) # retry_trace cfg (Suc attempt) es r"

definition retry_final :: "retry_config \<Rightarrow> nat \<Rightarrow> llm_result \<Rightarrow> bool" where
  "retry_final cfg calls r \<longleftrightarrow>
     (case r of Inr resp \<Rightarrow> True | Inl e \<Rightarrow> \<not> is_retryable e \<or> max_attempts cfg \<le> calls)"

lemma retry_loop_trace:
  "retry_loop cfg (log_sleep sleep) (log_inner inner) req attempt lw = (r, lw') \<Longrightarrow>
   \<exists>es. fst lw' = fst lw @ retry_trace cfg attempt es r \<and> list_all is_retryable es
     \<and> (es = [] \<or> attempt + length es < max_attempts cfg)
     \<and> retry_final cfg (Suc (attempt + length es)) r"
proof (induction cfg "log_sleep sleep" "log_inner inner" req attempt lw rule: retry_loop.induct)
  case (1 cfg req attempt lw)
  obtain r1 w1 where r1: "inner req (snd lw) = (r1, w1)" by fastforce
  then have li: "log_inner inner req lw = (r1, (fst lw @ [Called r1], w1))"
    by (simp add: log_inner_def)
  show ?case
  proof (cases "\<exists>e. r1 = Inl e \<and> Suc attempt < max_attempts cfg \<and> is_retryable e")
    case True
    then obtain e where e: "r1 = Inl e" "Suc attempt < max_attempts cfg" "is_retryable e" by blast
    let ?s = "log_sleep sleep (backoff_delay_ms cfg (Suc attempt)) (fst lw @ [Called r1], w1)"
    from "1.prems" li e
    have rec: "retry_loop cfg (log_sleep sleep) (log_inner inner) req (Suc attempt) ?s = (r, lw')"
      by (subst (asm) retry_loop.simps) simp
    from "1.hyps"[OF li[symmetric] e(1) conjI[OF e(2,3)] rec] obtain es where
      es: "fst lw' = fst ?s @ retry_trace cfg (Suc attempt) es r" "list_all is_retryable es"
        "es = [] \<or> Suc attempt + length es < max_attempts cfg"
        "retry_final cfg (Suc (Suc attempt + length es)) r"
      by auto
    show ?thesis
      by (rule exI[of _ "e # es"]) (use es e in \<open>auto simp: log_sleep_def\<close>)
  next
    case False
    with "1.prems" li have "r = r1 \<and> lw' = (fst lw @ [Called r1], w1)"
      by (subst (asm) retry_loop.simps) (auto split: sum.splits if_splits)
    with False show ?thesis
      by (intro exI[of _ "[]"]) (auto simp: retry_final_def split: sum.splits)
  qed
qed

text \<open>Logging does not change what the wrapper does.\<close>

lemma retry_loop_log_erasure:
  "retry_loop cfg (log_sleep sleep) (log_inner inner) req attempt lw = (r, lw') \<Longrightarrow>
   retry_loop cfg sleep inner req attempt (snd lw) = (r, snd lw')"
proof (induction cfg "log_sleep sleep" "log_inner inner" req attempt lw rule: retry_loop.induct)
  case (1 cfg req attempt lw)
  obtain r1 w1 where r1: "inner req (snd lw) = (r1, w1)" by fastforce
  then have li: "log_inner inner req lw = (r1, (fst lw @ [Called r1], w1))"
    by (simp add: log_inner_def)
  from "1.prems" show ?case
    using "1.hyps"[OF li[symmetric]]
    by (subst retry_loop.simps, subst (asm) retry_loop.simps)
      (auto simp: r1 li log_sleep_def split: sum.splits if_splits)
qed

lemma length_retry_trace: "length (filter (\<lambda>e. case e of Called r \<Rightarrow> True | _ \<Rightarrow> False)
    (retry_trace cfg a es r)) = Suc (length es)"
  by (induction cfg a es r rule: retry_trace.induct) auto

section \<open>The wrapper's contract\<close>

text \<open>
  A client of a wrapped provider relies on this much: whatever the wrapper returns, the inner
  provider returned it for the same request in some world.
\<close>

locale provider_wrapper =
  fixes inner :: "messages_request \<Rightarrow> 'w \<Rightarrow> llm_result \<times> 'w"
    and outer :: "messages_request \<Rightarrow> 'w \<Rightarrow> llm_result \<times> 'w"
  assumes outcome_of_inner: "\<exists>w'. outer req w = inner req w'"
begin

lemma success_of_inner: "outer req w = (Inr resp, w1) \<Longrightarrow> \<exists>w'. inner req w' = (Inr resp, w1)"
  by (metis outcome_of_inner)

lemma response_property:
  "(\<And>w w1 resp. inner req w = (Inr resp, w1) \<Longrightarrow> P resp) \<Longrightarrow> outer req w = (Inr resp, w1) \<Longrightarrow> P resp"
  by (metis outcome_of_inner)

end

lemma retry_loop_outcome: "\<exists>w'. retry_loop cfg sleep inner req attempt w = inner req w'"
proof (induction cfg sleep inner req attempt w rule: retry_loop.induct)
  case (1 cfg sleep inner req attempt w)
  then show ?case
    by (subst retry_loop.simps) (auto split: prod.splits sum.splits intro: exI[of _ w])
qed

interpretation retry_wrap: provider_wrapper inner "retrying_complete env cfg sleep inner"
  for inner :: "messages_request \<Rightarrow> 'w \<Rightarrow> llm_result \<times> 'w" and env cfg sleep
  by unfold_locales (auto simp: retrying_complete_def retry_loop_outcome)

section \<open>Properties\<close>

text \<open>
  The comment of \<open>is_retryable\<close> lists 429 among the retried errors; only the variant
  \<open>RateLimited\<close> is, an \<open>Upstream\<close> error of status 429 is final.
\<close>

lemma upstream_429_is_final: "\<not> is_retryable (Upstream 429 body)" "is_retryable RateLimited"
  by simp_all

text \<open>
  C8. Every call of the retrying provider leaves this trace: a number of failed attempts, each
  with a retryable error and followed by the backoff sleep of its index, and one last attempt
  whose outcome is returned; there are never more than \<open>max(1, max_attempts)\<close> attempts,
  and an error is returned only when it is not retryable or the attempts are used up. With
  the kill switch set there is exactly one attempt.
\<close>
theorem retry_call_trace:
  "case retrying_complete env cfg (log_sleep sleep) (log_inner inner) req ([], w) of
     (r, l, w') \<Rightarrow>
       \<exists>es. l = retry_trace cfg 0 es r
         \<and> list_all is_retryable es
         \<and> Suc (length es) \<le> max 1 (max_attempts cfg)
         \<and> (if env ''AETHER_NO_RETRY'' = Some ''1'' then es = []
            else retry_final cfg (Suc (length es)) r)"
proof (cases "env ''AETHER_NO_RETRY'' = Some ''1''")
  case True
  then show ?thesis
    by (auto simp: retrying_complete_def log_inner_def split: prod.splits intro!: exI[of _ "[]"])
next
  case False
  obtain r l w' where
    eq: "retry_loop cfg (log_sleep sleep) (log_inner inner) req 0 ([], w) = (r, l, w')"
    by (metis prod.collapse)
  from retry_loop_trace[OF this] obtain es where
    "l = retry_trace cfg 0 es r" "list_all is_retryable es"
    "es = [] \<or> length es < max_attempts cfg" "retry_final cfg (Suc (length es)) r"
    by auto
  with False eq show ?thesis
    by (auto simp: retrying_complete_def intro!: exI[of _ es])
qed

end
