(* ===== verification/Hook.thy ===== *)
theory Hook
  imports Rust_Strings
begin

text \<open>
  The hook engine of \<open>crates/aether-hook\<close> (D1, the reminder tamper test): reminders and their
  sources (\<open>reminder.rs\<close>), the heuristic classifier with its table of signals
  (\<open>classifier.rs\<close>), the source-by-effect policy (\<open>policy.rs\<close>) and the injection pipeline
  with its event log (\<open>pipeline.rs\<close>, \<open>telemetry.rs\<close>). The regex engine is not part of the
  program: \<open>rx pattern text\<close> stands for \<open>Regex::is_match\<close>.
\<close>

section \<open>Reminders\<close>

datatype reminder_kind =
    RkImage | CyberWarning | SystemWarning | EthicsReminder | IpReminder | LongConversation
  | ExternalState | RetrievalHit | HookOutput | SessionStart | UnknownKind

datatype source = Kernel | ProjectHook | UserHook | External

datatype effect_hint = Neutral | Tightens | Loosens | Ambiguous

record reminder =
  rem_kind :: reminder_kind
  rem_source :: source
  rem_body :: string
  rem_effect :: effect_hint
  rem_evidence :: "string list"

definition new_reminder :: "reminder_kind \<Rightarrow> source \<Rightarrow> string \<Rightarrow> reminder" where
  "new_reminder kind src body =
     \<lparr>rem_kind = kind, rem_source = src, rem_body = body, rem_effect = Ambiguous, rem_evidence = []\<rparr>"

record kernel_rules =
  allow_project_loosening :: bool
  allow_user_loosening :: bool
  allow_external_loosening :: bool

definition kernel_rules_default :: kernel_rules where
  "kernel_rules_default =
     \<lparr>allow_project_loosening = False, allow_user_loosening = True, allow_external_loosening = False\<rparr>"

section \<open>Policy\<close>

datatype drop_reason = EmptyBody | ExternalLoosening | ProjectLoosening | UserLoosening | AmbiguousExternal

datatype verdict = Admit | Drop drop_reason

definition policy_decide :: "reminder \<Rightarrow> kernel_rules \<Rightarrow> verdict" where
  "policy_decide rem kr =
     (if str_trim (rem_body rem) = [] then Drop EmptyBody
      else (case (rem_source rem, rem_effect rem) of
              (Kernel, _) \<Rightarrow> Admit
            | (External, Loosens) \<Rightarrow> Drop ExternalLoosening
            | (ProjectHook, Loosens) \<Rightarrow>
                (if \<not> allow_project_loosening kr then Drop ProjectLoosening else Admit)
            | (UserHook, Loosens) \<Rightarrow>
                (if \<not> allow_user_loosening kr then Drop UserLoosening else Admit)
            | (External, Ambiguous) \<Rightarrow> Drop AmbiguousExternal
            | _ \<Rightarrow> Admit))"

section \<open>The classifier\<close>

record signal =
  sig_name :: string
  sig_pattern :: string
  sig_effect :: effect_hint
  sig_weight :: int

text \<open>Patterns are written with a tilde for the backslash.\<close>

definition pat :: "string \<Rightarrow> string" where
  "pat p = map (\<lambda>c. if c = CHR 0x7E then CHR 0x5C else c) p"

definition mk :: "string \<Rightarrow> string \<Rightarrow> effect_hint \<Rightarrow> int \<Rightarrow> signal" where
  "mk name p effect weight =
     \<lparr>sig_name = name, sig_pattern = ''(?i)'' @ p, sig_effect = effect, sig_weight = weight\<rparr>"

definition SIGNALS :: "signal list" where
  "SIGNALS = [
    mk ''ignore_previous'' (pat ''~bignore~s+(all~s+)?(previous|prior|earlier|above)~s+(instructions|messages|rules|prompts|system)~b'') Loosens 10,
    mk ''ignore_restriction'' (pat ''~bignore~s+(your~s+|the~s+|all~s+)?(safety|guidelines?|guardrails?|rules?|policies|policy|content~s+policy|restrictions?|filters?|warnings?|disclaimers?|instructions?)~b'') Loosens 9,
    mk ''disregard_rules'' (pat ''~bdisregard~s+(the~s+)?(rules|instructions|guidelines|policies|prompt|system|earlier)~b'') Loosens 10,
    mk ''forget_above'' (pat ''~bforget~s+(everything|all|the~s+above|prior|previous|your~s+instructions)~b'') Loosens 10,
    mk ''override_system'' (pat ''~boverride~s+(the~s+)?(system~s+(prompt|instructions)|safety|policies|guardrails|safety~s+check)~b'') Loosens 10,
    mk ''override_mechanism'' (pat ''~boverride~s+(the~s+)?(~S+~s+){0,3}?(check|confirmation|approval|validation|verification|safeguard|filter|restriction|guard|gate|policy)~b'') Loosens 9,
    mk ''bypass_safety'' (pat ''~bbypass~s+(your~s+|the~s+)?(safety|content~s+policy|restrictions|filters|guardrails|confirm)~b'') Loosens 10,
    mk ''new_instructions'' (pat ''~b(new|updated|revised)~s+(instructions|system~s+prompt|rules)~b'') Loosens 8,
    mk ''you_are_now'' (pat ''~byou~s+are~s+(now|actually|really)~s+'') Loosens 7,
    mk ''act_as_unrestricted'' (pat ''~bact~s+as~s+(if|though)?~s*(a|an)~s+~w+~s+(without|with~s+no|that~s+has~s+no)~s+'') Loosens 8,
    mk ''pretend_to_be'' (pat ''~bpretend~s+(to~s+be|you~s+are|that~s+you)~b'') Loosens 6,
    mk ''roleplay_jailbreak'' (pat ''~b(DAN|do~s+anything~s+now|jailbroken|developer~s+mode~s+(enabled|active|on))~b'') Loosens 9,
    mk ''anthropic_says'' (pat ''~b(anthropic|the~s+developers?|the~s+team)~s+(has~s+)?(said|told|instructed|updated|approved|authorized|lifted)~b'') Loosens 7,
    mk ''system_update'' (pat ''~b(system~s+(update|message|override|notice|directive)|admin~s+message|kernel~s+directive)~b'') Loosens 8,
    mk ''policy_lifted'' (pat ''~b(restrictions?|policies?|filters?|guardrails?|safety(~s+filters?)?)~s+(have~s+been~s+|are~s+(now~s+)?)?(lifted|removed|disabled|relaxed|loosened)~b'') Loosens 10,
    mk ''special_mode'' (pat ''~b(developer|debug|maintenance|test|admin|root)~s+mode~s+(is~s+)?(enabled|active|on|now~s+active)~b'') Loosens 8,
    mk ''no_restrictions'' (pat ''~bno~s+(restrictions?|limits?|filters?|safety|rules)~b'') Loosens 7,
    mk ''no_longer_apply'' (pat ''~b(no~s+longer~s+(apply|applies|valid|in~s+effect)|don'?t~s+apply~s+(here|anymore|now))~b'') Loosens 8,
    mk ''without_safety'' (pat ''~bwithout~s+(safety|restrictions?|filters?|warnings?|caveats?|disclaimers?)~b'') Loosens 7,
    mk ''print_system_prompt'' (pat ''~b(print|show|display|repeat|reveal|output|reproduce)~s+(your~s+|the~s+)?(system~s+prompt|instructions|rules|initialization)~b'') Loosens 9,
    mk ''include_in_full_print'' (pat ''~bshould~s+be~s+included~s+in~s+(full~s+print|the~s+full~s+output)~b'') Loosens 9,
    mk ''do_not'' (pat ''~b(do~s+not|don'?t|never|must~s+not|may~s+not|should~s+not|shall~s+not)~s+'') Tightens 4,
    mk ''be_careful'' (pat ''~bbe~s+(extra~s+)?(careful|cautious|conservative|defensive)~s+(when|with|about|around)~b'') Tightens 3,
    mk ''always_check'' (pat ''~balways~s+(verify|check|confirm|ask|validate|test|review)~b'') Tightens 3,
    mk ''require_confirm'' (pat ''~brequires?~s+(user~s+)?(confirmation|approval|consent|review)~b'') Tightens 3,
    mk ''refuse_if'' (pat ''~brefuse~s+(if|when|to)~b'') Tightens 4,
    mk ''ask_before'' (pat ''~bask~s+before~s+~w+'') Tightens 3,
    mk ''cwd_marker'' (pat ''(?m)^(cwd|current~s+directory|working~s+directory):~s+'') Neutral 2,
    mk ''git_marker'' (pat ''(?m)^(git~s+(status|branch|head)|on~s+branch):'') Neutral 2,
    mk ''retrieval_marker'' (pat ''(?m)^(retrieved~s+(from|chunk)|memory~s+hit|relevant~s+context):'') Neutral 2,
    mk ''hook_output'' (pat ''(?m)^(hook|post-?tool|pre-?tool)~s+(output|result):'') Neutral 2]"

definition zero_width_chars :: "string list" where
  "zero_width_chars =
     [[CHR 0xE2, CHR 0x80, CHR 0x8B], [CHR 0xE2, CHR 0x80, CHR 0x8C], [CHR 0xE2, CHR 0x80, CHR 0x8D],
      [CHR 0xEF, CHR 0xBB, CHR 0xBF], [CHR 0xE2, CHR 0x81, CHR 0xA0]]"

definition rtl_chars :: "string list" where
  "rtl_chars =
     [[CHR 0xE2, CHR 0x80, CHR 0xAE], [CHR 0xE2, CHR 0x80, CHR 0xAD], [CHR 0xE2, CHR 0x81, CHR 0xA6],
      [CHR 0xE2, CHR 0x81, CHR 0xA7], [CHR 0xE2, CHR 0x81, CHR 0xA8]]"

definition normalize_body :: "string \<Rightarrow> string" where
  "normalize_body s =
     concat (filter (\<lambda>c. \<not> (c \<in> set zero_width_chars \<or> c \<in> set rtl_chars)) (str_chars s))"

definition has_zero_width :: "string \<Rightarrow> bool" where
  "has_zero_width s = list_ex (\<lambda>c. c \<in> set zero_width_chars) (str_chars s)"

definition has_rtl_override :: "string \<Rightarrow> bool" where
  "has_rtl_override s = list_ex (\<lambda>c. c \<in> set rtl_chars) (str_chars s)"

definition is_ascii_alnum :: "char \<Rightarrow> bool" where
  "is_ascii_alnum c \<longleftrightarrow>
     is_digit c \<or> (65 \<le> byte_of c \<and> byte_of c \<le> 90) \<or> (97 \<le> byte_of c \<and> byte_of c \<le> 122)"

definition looks_like_base64_payload :: "string \<Rightarrow> bool" where
  "looks_like_base64_payload s =
     list_ex (\<lambda>tok. 80 \<le> length tok \<and>
        list_all (\<lambda>c. is_ascii_alnum c \<or> c = CHR ''+'' \<or> c = CHR ''/'' \<or> c = CHR ''='') tok)
       (split_whitespace s)"

definition show_weight :: "int \<Rightarrow> string" where
  "show_weight w = (if 0 \<le> w then ''+'' else ''-'') @ show_nat (nat \<bar>w\<bar>)"

definition fired :: "(string \<Rightarrow> string \<Rightarrow> bool) \<Rightarrow> string \<Rightarrow> signal list" where
  "fired rx body = filter (\<lambda>s. rx (sig_pattern s) (normalize_body body)) SIGNALS"

definition score_of :: "effect_hint \<Rightarrow> signal list \<Rightarrow> int" where
  "score_of e sigs = sum_list (map sig_weight (filter (\<lambda>s. sig_effect s = e) sigs))"

text \<open>The out-of-band bonuses, with their evidence lines, in the order the code adds them.\<close>

definition bonuses :: "string \<Rightarrow> (int \<times> string) list" where
  "bonuses body =
     (if has_zero_width body then [(5, ''unicode_zero_width(+5)'')] else [])
     @ (if has_rtl_override body then [(5, ''unicode_rtl_override(+5)'')] else [])
     @ (if looks_like_base64_payload body then [(4, ''base64_payload(+4)'')] else [])
     @ (if 4000 < length body then [(2, ''oversized(+2)'')] else [])"

definition resolve_effect :: "int \<Rightarrow> int \<Rightarrow> int \<Rightarrow> string \<Rightarrow> effect_hint" where
  "resolve_effect loosen tighten neutral body =
     (if 8 \<le> loosen then Loosens
      else if 4 \<le> loosen \<and> tighten \<le> loosen then Loosens
      else if 3 \<le> tighten \<and> loosen + 2 < tighten then Tightens
      else if 0 < neutral \<and> loosen = 0 \<and> tighten = 0 then Neutral
      else if loosen = 0 \<and> tighten = 0 \<and> neutral = 0 then
        (if char_count body < 200 then Neutral else Ambiguous)
      else Ambiguous)"

definition loosen_score :: "(string \<Rightarrow> string \<Rightarrow> bool) \<Rightarrow> string \<Rightarrow> int" where
  "loosen_score rx body = score_of Loosens (fired rx body) + sum_list (map fst (bonuses body))"

definition tighten_score :: "(string \<Rightarrow> string \<Rightarrow> bool) \<Rightarrow> string \<Rightarrow> int" where
  "tighten_score rx body = score_of Tightens (fired rx body)"

definition neutral_score :: "(string \<Rightarrow> string \<Rightarrow> bool) \<Rightarrow> string \<Rightarrow> int" where
  "neutral_score rx body = score_of Neutral (fired rx body)"

definition classify :: "(string \<Rightarrow> string \<Rightarrow> bool) \<Rightarrow> string \<Rightarrow> effect_hint \<times> string list" where
  "classify rx body =
     (resolve_effect (loosen_score rx body) (tighten_score rx body) (neutral_score rx body) body,
      map (\<lambda>s. sig_name s @ ''('' @ show_weight (sig_weight s) @ '')'') (fired rx body)
        @ map snd (bonuses body))"

definition apply_classifier :: "(string \<Rightarrow> string \<Rightarrow> bool) \<Rightarrow> reminder \<Rightarrow> reminder" where
  "apply_classifier rx rem =
     (case classify rx (rem_body rem) of
        (effect, evidence) \<Rightarrow> rem\<lparr>rem_effect := effect, rem_evidence := evidence\<rparr>)"

section \<open>The pipeline\<close>

record hook_event =
  ev_kind :: reminder_kind
  ev_source :: source
  ev_effect :: effect_hint
  ev_verdict :: verdict
  ev_evidence :: "string list"
  ev_preview :: string

definition event_is_drop :: "hook_event \<Rightarrow> bool" where
  "event_is_drop e = (case ev_verdict e of Drop r \<Rightarrow> True | Admit \<Rightarrow> False)"

definition event_is_admit :: "hook_event \<Rightarrow> bool" where
  "event_is_admit e = (case ev_verdict e of Drop r \<Rightarrow> False | Admit \<Rightarrow> True)"

record pipeline =
  pl_kernel :: kernel_rules
  pl_events :: "hook_event list"

definition new_pipeline :: "kernel_rules \<Rightarrow> pipeline" where
  "new_pipeline kr = \<lparr>pl_kernel = kr, pl_events = []\<rparr>"

definition ellipsis :: string where
  "ellipsis = [CHR 0xE2, CHR 0x80, CHR 0xA6]"

definition preview :: "string \<Rightarrow> nat \<Rightarrow> string" where
  "preview s n = (if char_count s \<le> n then s else take_chars n s @ ellipsis)"

definition pipeline_admit ::
  "(string \<Rightarrow> string \<Rightarrow> bool) \<Rightarrow> reminder \<Rightarrow> pipeline \<Rightarrow> reminder option \<times> pipeline" where
  "pipeline_admit rx candidate p =
     (let c = apply_classifier rx candidate;
          v = policy_decide c (pl_kernel p);
          e = \<lparr>ev_kind = rem_kind c, ev_source = rem_source c, ev_effect = rem_effect c,
               ev_verdict = v, ev_evidence = rem_evidence c, ev_preview = preview (rem_body c) 120\<rparr>
      in (case v of Admit \<Rightarrow> Some c | Drop r \<Rightarrow> None, p\<lparr>pl_events := pl_events p @ [e]\<rparr>))"

fun pipeline_admit_all ::
  "(string \<Rightarrow> string \<Rightarrow> bool) \<Rightarrow> reminder list \<Rightarrow> pipeline \<Rightarrow> reminder list \<times> pipeline" where
  "pipeline_admit_all rx [] p = ([], p)"
| "pipeline_admit_all rx (c # cs) p =
     (case pipeline_admit rx c p of
        (r, p1) \<Rightarrow> (case pipeline_admit_all rx cs p1 of
                       (rs, p2) \<Rightarrow> ((case r of None \<Rightarrow> rs | Some d \<Rightarrow> d # rs), p2)))"

section \<open>The policy's truth table\<close>

lemma policy_decide_Admit_iff:
  "policy_decide c kr = Admit \<longleftrightarrow>
     str_trim (rem_body c) \<noteq> []
     \<and> (case rem_source c of
          Kernel \<Rightarrow> True
        | External \<Rightarrow> rem_effect c = Neutral \<or> rem_effect c = Tightens
        | ProjectHook \<Rightarrow> rem_effect c = Loosens \<longrightarrow> allow_project_loosening kr
        | UserHook \<Rightarrow> rem_effect c = Loosens \<longrightarrow> allow_user_loosening kr)"
  by (auto simp: policy_decide_def split: source.splits effect_hint.splits)

lemma apply_classifier_fields [simp]:
  "rem_body (apply_classifier rx c) = rem_body c"
  "rem_source (apply_classifier rx c) = rem_source c"
  "rem_kind (apply_classifier rx c) = rem_kind c"
  "rem_effect (apply_classifier rx c) = fst (classify rx (rem_body c))"
  by (simp_all add: apply_classifier_def split: prod.split)

lemma pipeline_admit_Some_iff:
  "fst (pipeline_admit rx c p) = Some d \<longleftrightarrow>
     d = apply_classifier rx c \<and> policy_decide d (pl_kernel p) = Admit"
  by (auto simp: pipeline_admit_def Let_def split: verdict.splits)

lemma pipeline_admit_kernel [frame]: "pl_kernel (snd (pipeline_admit rx c p)) = pl_kernel p"
  by (simp add: pipeline_admit_def Let_def)

section \<open>Scores\<close>

lemma SIGNALS_weights_pos: "list_all (\<lambda>s. 0 < sig_weight s) SIGNALS"
  by (simp add: SIGNALS_def mk_def)

lemma score_of_nonneg: "list_all (\<lambda>s. 0 < sig_weight s) ss \<Longrightarrow> 0 \<le> score_of e ss"
  by (induction ss) (auto simp: score_of_def)

lemma fired_weights_pos: "list_all (\<lambda>s. 0 < sig_weight s) (fired rx body)"
  using SIGNALS_weights_pos by (auto simp: fired_def list_all_iff)

lemma score_of_fired_nonneg [simp]: "0 \<le> score_of e (fired rx body)"
  by (rule score_of_nonneg[OF fired_weights_pos])

lemma bonuses_nonneg [simp]: "0 \<le> sum_list (map fst (bonuses body))"
  by (simp add: bonuses_def)

lemma resolve_Loosens_iff:
  "resolve_effect l t n body = Loosens \<longleftrightarrow> 8 \<le> l \<or> (4 \<le> l \<and> t \<le> l)"
  by (auto simp: resolve_effect_def)

lemma resolve_not_loose:
  "resolve_effect l t n body \<in> {Neutral, Tightens} \<Longrightarrow> 0 \<le> l \<Longrightarrow> l = 0 \<or> (l < 8 \<and> l + 2 < t)"
  by (auto simp: resolve_effect_def split: if_splits)

lemma score_of_member:
  "list_all (\<lambda>s. 0 < sig_weight s) ss \<Longrightarrow> s \<in> set ss \<Longrightarrow> sig_effect s = e \<Longrightarrow> sig_weight s \<le> score_of e ss"
proof (induction ss)
  case (Cons a ss)
  then have "0 \<le> score_of e ss" by (intro score_of_nonneg) simp
  with Cons show ?case by (auto simp: score_of_def)
qed simp

lemma normalize_determines_signals:
  "normalize_body a = normalize_body b \<Longrightarrow> fired rx a = fired rx b"
  by (simp add: fired_def)

section \<open>A gate over a batch of reminders\<close>

fun gate_all :: "(reminder \<Rightarrow> 's \<Rightarrow> reminder option \<times> 's) \<Rightarrow> reminder list \<Rightarrow> 's \<Rightarrow> reminder list \<times> 's" where
  "gate_all step [] s = ([], s)"
| "gate_all step (c # cs) s =
     (case step c s of
        (r, s1) \<Rightarrow> (case gate_all step cs s1 of
                       (rs, s2) \<Rightarrow> ((case r of None \<Rightarrow> rs | Some d \<Rightarrow> d # rs), s2)))"

text \<open>
  What the prompt assembler relies on: a gate never changes a body or a source, and never
  drops a reminder of the trust root that says anything.
\<close>

locale reminder_gate =
  fixes step :: "reminder \<Rightarrow> 's \<Rightarrow> reminder option \<times> 's"
  assumes step_same: "fst (step c s) = Some d \<Longrightarrow> rem_body d = rem_body c \<and> rem_source d = rem_source c"
    and step_kernel: "rem_source c = Kernel \<Longrightarrow> str_trim (rem_body c) \<noteq> [] \<Longrightarrow> fst (step c s) \<noteq> None"
begin

lemma gate_all_subseq:
  "subseq (map (\<lambda>r. (rem_source r, rem_body r)) (fst (gate_all step cs s)))
     (map (\<lambda>r. (rem_source r, rem_body r)) cs)"
proof (induction cs arbitrary: s)
  case (Cons c cs)
  obtain r s1 where r: "step c s = (r, s1)" by fastforce
  show ?case
  proof (cases r)
    case None
    with r Cons[of s1] show ?thesis by (auto split: prod.splits)
  next
    case (Some d)
    with step_same[of c s d] r have "rem_body d = rem_body c" "rem_source d = rem_source c" by auto
    with Some r Cons[of s1] show ?thesis by (auto split: prod.splits)
  qed
qed simp

lemma gate_all_kernel:
  "c \<in> set cs \<Longrightarrow> rem_source c = Kernel \<Longrightarrow> str_trim (rem_body c) \<noteq> [] \<Longrightarrow>
   \<exists>d \<in> set (fst (gate_all step cs s)). rem_body d = rem_body c"
proof (induction cs arbitrary: s)
  case (Cons a cs)
  obtain r s1 where r: "step a s = (r, s1)" by fastforce
  show ?case
  proof (cases "c = a")
    case True
    with Cons.prems step_kernel[of c s] r obtain d where d: "r = Some d" by auto
    with step_same[of a s d] r True have "rem_body d = rem_body c" by simp
    with d r show ?thesis by (auto split: prod.splits)
  next
    case False
    with Cons.prems Cons.IH[of s1] obtain d
      where "d \<in> set (fst (gate_all step cs s1))" "rem_body d = rem_body c" by auto
    with r show ?thesis by (auto split: prod.splits option.splits)
  qed
qed simp

end

interpretation hook: reminder_gate "pipeline_admit rx" for rx
proof unfold_locales
  fix c d :: reminder and s :: pipeline
  assume "fst (pipeline_admit rx c s) = Some d"
  then show "rem_body d = rem_body c \<and> rem_source d = rem_source c"
    by (simp add: pipeline_admit_Some_iff)
next
  fix c :: reminder and s :: pipeline
  assume "rem_source c = Kernel" "str_trim (rem_body c) \<noteq> []"
  then have "policy_decide (apply_classifier rx c) (pl_kernel s) = Admit"
    by (simp add: policy_decide_Admit_iff)
  then show "fst (pipeline_admit rx c s) \<noteq> None"
    using pipeline_admit_Some_iff[of rx c s "apply_classifier rx c"] by simp
qed

lemma pipeline_admit_all_gate: "pipeline_admit_all rx cs p = gate_all (pipeline_admit rx) cs p"
  by (induction cs arbitrary: p) (auto split: prod.splits option.splits)

lemma pipeline_admit_all_char:
  "pipeline_admit_all rx cs p = (rs, p') \<Longrightarrow>
     rs = filter (\<lambda>c. policy_decide c (pl_kernel p) = Admit) (map (apply_classifier rx) cs)
     \<and> pl_kernel p' = pl_kernel p
     \<and> map (\<lambda>e. (ev_source e, ev_effect e, ev_verdict e)) (pl_events p')
       = map (\<lambda>e. (ev_source e, ev_effect e, ev_verdict e)) (pl_events p)
         @ map (\<lambda>c. (rem_source c, rem_effect c, policy_decide c (pl_kernel p)))
             (map (apply_classifier rx) cs)"
proof (induction cs arbitrary: p rs p')
  case (Cons c cs)
  obtain r p1 where r: "pipeline_admit rx c p = (r, p1)" by fastforce
  obtain rs1 p2 where rs1: "pipeline_admit_all rx cs p1 = (rs1, p2)" by fastforce
  have k: "pl_kernel p1 = pl_kernel p" using pipeline_admit_kernel[of rx c p] r by simp
  from r have e: "map (\<lambda>e. (ev_source e, ev_effect e, ev_verdict e)) (pl_events p1)
      = map (\<lambda>e. (ev_source e, ev_effect e, ev_verdict e)) (pl_events p)
        @ [(rem_source c, rem_effect (apply_classifier rx c),
            policy_decide (apply_classifier rx c) (pl_kernel p))]"
    by (auto simp: pipeline_admit_def Let_def)
  from r have r': "r = (case policy_decide (apply_classifier rx c) (pl_kernel p) of
      Admit \<Rightarrow> Some (apply_classifier rx c) | Drop x \<Rightarrow> None)"
    by (simp add: pipeline_admit_def Let_def)
  from Cons.prems r rs1 have "rs = (case r of None \<Rightarrow> rs1 | Some d \<Rightarrow> d # rs1)" "p' = p2" by auto
  with Cons.IH[OF rs1] k e r' show ?case by (auto split: verdict.splits)
qed simp

section \<open>Properties\<close>

text \<open>
  C9. A reminder from outside the trust boundary that enters the prompt never loosens: whatever
  the kernel flags, an admitted External reminder was classified Neutral or Tightens, and
  either nothing loosening fired or the loosening score stayed below 8 and more than two
  below the tightening score. No loosening signal of weight 8 or more fired.
\<close>
theorem external_admitted_not_loosening:
  assumes "rem_source c = External" and "fst (pipeline_admit rx c p) = Some d"
  shows "rem_effect d \<in> {Neutral, Tightens}
    \<and> (loosen_score rx (rem_body c) = 0
       \<or> (loosen_score rx (rem_body c) < 8
          \<and> loosen_score rx (rem_body c) + 2 < tighten_score rx (rem_body c)))
    \<and> filter (\<lambda>s. sig_effect s = Loosens \<and> 8 \<le> sig_weight s) (fired rx (rem_body c)) = []"
proof -
  let ?b = "rem_body c"
  from assms have d: "d = apply_classifier rx c" "policy_decide d (pl_kernel p) = Admit"
    by (auto simp: pipeline_admit_Some_iff)
  with assms(1) have e: "rem_effect d \<in> {Neutral, Tightens}"
    by (auto simp: policy_decide_Admit_iff)
  have nn: "0 \<le> loosen_score rx ?b"
    by (simp add: loosen_score_def)
  from e d have "resolve_effect (loosen_score rx ?b) (tighten_score rx ?b) (neutral_score rx ?b) ?b
      \<in> {Neutral, Tightens}"
    by (simp add: classify_def)
  from resolve_not_loose[OF this nn]
  have l: "loosen_score rx ?b = 0
      \<or> (loosen_score rx ?b < 8 \<and> loosen_score rx ?b + 2 < tighten_score rx ?b)" .
  have "score_of Loosens (fired rx ?b) \<le> loosen_score rx ?b"
    by (simp add: loosen_score_def)
  with l have "score_of Loosens (fired rx ?b) < 8" by linarith
  then have "s \<in> set (fired rx ?b) \<Longrightarrow> sig_effect s = Loosens \<Longrightarrow> sig_weight s < 8" for s
    using score_of_member[OF fired_weights_pos, of s rx ?b Loosens] by linarith
  then have "filter (\<lambda>s. sig_effect s = Loosens \<and> 8 \<le> sig_weight s) (fired rx ?b) = []"
    by (force simp: filter_empty_conv)
  with e l show ?thesis by blast
qed

theorem external_admitted_not_loosening_witness:
  "let c = new_reminder HookOutput External ''cwd: /work'';
       p = new_pipeline kernel_rules_default; rx = (\<lambda>a b. False)
   in fst (pipeline_admit rx c p) = Some (apply_classifier rx c)
      \<and> rem_effect (apply_classifier rx c) = Neutral"
proof -
  let ?c = "new_reminder HookOutput External ''cwd: /work''"
  let ?p = "new_pipeline kernel_rules_default"
  let ?rx = "\<lambda>a b. False"
  have f: "fired ?rx b = []" for b by (simp add: fired_def)
  have bs: "bonuses (rem_body ?c) = []" by code_simp
  have t: "str_trim (rem_body ?c) \<noteq> []" "char_count (rem_body ?c) < 200" by code_simp+
  have e: "rem_effect (apply_classifier ?rx ?c) = Neutral"
    using f bs t(2)
    by (simp add: classify_def loosen_score_def tighten_score_def neutral_score_def score_of_def
        resolve_effect_def)
  then have a: "fst (pipeline_admit ?rx ?c ?p) = Some (apply_classifier ?rx ?c)"
    using t(1) by (simp add: pipeline_admit_Some_iff policy_decide_Admit_iff new_reminder_def)
  have "rem_effect (apply_classifier ?rx ?c) \<in> {Neutral, Tightens}"
    using external_admitted_not_loosening[OF _ a] by (simp add: new_reminder_def)
  then show ?thesis using a e by simp
qed

text \<open>
  Hiding text behind zero-width characters does not get it past the classifier: if a body is
  judged loosening, then every longer body with the same visible text that contains
  zero-width characters where the first had none is judged loosening too.
\<close>
theorem zero_width_evasion_fails:
  assumes "normalize_body b' = normalize_body b" and "has_zero_width b'" and "\<not> has_zero_width b"
    and "has_rtl_override b' = has_rtl_override b" and "length b \<le> length b'"
    and "fst (classify rx b) = Loosens"
  shows "fst (classify rx b') = Loosens"
proof -
  from assms(1) have f: "fired rx b' = fired rx b"
    by (rule normalize_determines_signals)
  then have t: "tighten_score rx b' = tighten_score rx b" by (simp add: tighten_score_def)
  from f assms(2-5) have "loosen_score rx b \<le> loosen_score rx b'"
    by (auto simp: loosen_score_def bonuses_def)
  with assms(6) t show ?thesis by (auto simp: classify_def resolve_Loosens_iff)
qed

theorem zero_width_evasion_fails_witness:
  "let zw = [CHR 0xE2, CHR 0x80, CHR 0x8B]; rx = (\<lambda>p s. str_contains ''bypass'' s)
   in fst (classify rx (''by'' @ zw @ ''pass safety'')) = Loosens"
proof -
  let ?rx = "\<lambda>p s. str_contains ''bypass'' s"
  let ?b = "''bypass safety''"
  let ?b' = "''by'' @ [CHR 0xE2, CHR 0x80, CHR 0x8B] @ ''pass safety''"
  have "normalize_body ?b' = normalize_body ?b" by code_simp
  moreover have "has_zero_width ?b'" by code_simp
  moreover have "\<not> has_zero_width ?b" by code_simp
  moreover have "has_rtl_override ?b' = has_rtl_override ?b" by code_simp
  moreover have "length ?b \<le> length ?b'" by simp
  moreover have "fst (classify ?rx ?b) = Loosens"
  proof -
    have "str_contains ''bypass'' (normalize_body ?b)" by code_simp
    then have "fired ?rx ?b = SIGNALS" by (simp add: fired_def)
    then have "8 \<le> score_of Loosens (fired ?rx ?b)" by (simp add: score_of_def SIGNALS_def mk_def)
    then have "8 \<le> loosen_score ?rx ?b" using bonuses_nonneg[of ?b]
      unfolding loosen_score_def by linarith
    then show ?thesis by (simp add: classify_def resolve_Loosens_iff)
  qed
  ultimately have "fst (classify ?rx ?b') = Loosens" by (rule zero_width_evasion_fails)
  then show ?thesis by simp
qed

text \<open>
  A batch keeps its order and is fully accounted for: the admitted reminders are exactly the
  candidates the policy admits, classified, in their original order with bodies and sources
  unchanged; there is one event per candidate, in order, carrying the verdict; every
  non-blank kernel reminder gets through.
\<close>
theorem admit_all_accounts:
  "case pipeline_admit_all rx cs (new_pipeline kr) of
     (rs, p) \<Rightarrow>
       rs = filter (\<lambda>c. policy_decide c kr = Admit) (map (apply_classifier rx) cs)
       \<and> subseq (map (\<lambda>r. (rem_source r, rem_body r)) rs) (map (\<lambda>r. (rem_source r, rem_body r)) cs)
       \<and> map ev_verdict (pl_events p) = map (\<lambda>c. policy_decide (apply_classifier rx c) kr) cs
       \<and> length (filter event_is_admit (pl_events p)) = length rs
       \<and> set (map rem_body (filter (\<lambda>c. rem_source c = Kernel \<and> str_trim (rem_body c) \<noteq> []) cs))
           \<subseteq> set (map rem_body rs)"
proof -
  obtain rs p where eq: "pipeline_admit_all rx cs (new_pipeline kr) = (rs, p)" by fastforce
  from pipeline_admit_all_char[OF eq] have
    rs: "rs = filter (\<lambda>c. policy_decide c kr = Admit) (map (apply_classifier rx) cs)" and
    ev: "map (\<lambda>e. (ev_source e, ev_effect e, ev_verdict e)) (pl_events p) =
      map (\<lambda>c. (rem_source c, rem_effect c, policy_decide c kr)) (map (apply_classifier rx) cs)"
    by (auto simp: new_pipeline_def)
  from arg_cong[OF ev, of "map (\<lambda>(a, b, c). c)"]
  have v: "map ev_verdict (pl_events p) = map (\<lambda>c. policy_decide (apply_classifier rx c) kr) cs"
    by (simp add: comp_def)
  have admit: "event_is_admit = (\<lambda>e. ev_verdict e = Admit)"
    by (auto simp: event_is_admit_def split: verdict.splits)
  have "length (filter event_is_admit (pl_events p))
      = length (filter (\<lambda>v. v = Admit) (map ev_verdict (pl_events p)))"
    by (simp add: filter_map comp_def admit)
  also have "\<dots> = length rs"
    by (simp add: v rs filter_map comp_def)
  finally have len: "length (filter event_is_admit (pl_events p)) = length rs" .
  have gate: "fst (gate_all (pipeline_admit rx) cs (new_pipeline kr)) = rs"
    using eq by (simp add: pipeline_admit_all_gate)
  have "subseq (map (\<lambda>r. (rem_source r, rem_body r)) rs) (map (\<lambda>r. (rem_source r, rem_body r)) cs)"
    using hook.gate_all_subseq[of rx cs "new_pipeline kr"] gate by simp
  moreover have "set (map rem_body (filter (\<lambda>c. rem_source c = Kernel \<and> str_trim (rem_body c) \<noteq> []) cs))
      \<subseteq> set (map rem_body rs)"
  proof
    fix b
    assume "b \<in> set (map rem_body (filter (\<lambda>c. rem_source c = Kernel \<and> str_trim (rem_body c) \<noteq> []) cs))"
    then obtain c where c: "c \<in> set cs" "rem_source c = Kernel" "str_trim (rem_body c) \<noteq> []" "b = rem_body c"
      by auto
    from hook.gate_all_kernel[OF c(1-3), of rx "new_pipeline kr"] gate
    obtain d where "d \<in> set rs" "rem_body d = b" using c(4) by auto
    then show "b \<in> set (map rem_body rs)" by force
  qed
  ultimately show ?thesis using eq rs v len by simp
qed

end
