(* ===== verification/Overlay.thy ===== *)
theory Overlay
  imports Complex_Main Rust_Strings
begin

text \<open>
  The overlay of \<open>crates/aether-overlay/src/lib.rs\<close>: the seven delta sections, their toggles
  and the activation predicate the agent loop consults. Ratios (\<open>f32\<close>) are rationals; the
  file system is the parameter \<open>read\<close> of \<open>load_overlay_text\<close>.
\<close>

datatype delta =
    D1ReminderTamperTest | D2ForbiddenPhrases | D3FirstMatchRouting | D4ThirdPartyGate
  | D5UserMemoryEdits | D6LongConversation | D7SelfCheck

record section_toggles =
  d1 :: bool
  d2 :: bool
  d3 :: bool
  d4 :: bool
  d5 :: bool
  d6 :: bool
  d7 :: bool

definition toggles_all_on :: section_toggles where
  "toggles_all_on =
     \<lparr>d1 = True, d2 = True, d3 = True, d4 = True, d5 = True, d6 = True, d7 = True\<rparr>"

definition toggles_all_off :: section_toggles where
  "toggles_all_off =
     \<lparr>d1 = False, d2 = False, d3 = False, d4 = False, d5 = False, d6 = False, d7 = False\<rparr>"

fun is_enabled :: "section_toggles \<Rightarrow> delta \<Rightarrow> bool" where
  "is_enabled t D1ReminderTamperTest = d1 t"
| "is_enabled t D2ForbiddenPhrases = d2 t"
| "is_enabled t D3FirstMatchRouting = d3 t"
| "is_enabled t D4ThirdPartyGate = d4 t"
| "is_enabled t D5UserMemoryEdits = d5 t"
| "is_enabled t D6LongConversation = d6 t"
| "is_enabled t D7SelfCheck = d7 t"

record long_conversation_config =
  every_n_turns :: nat
  at_ctx_ratio :: rat

definition long_conversation_default :: long_conversation_config where
  "long_conversation_default = \<lparr>every_n_turns = 25, at_ctx_ratio = 1 / 2\<rparr>"

record overlay_config =
  enabled :: bool
  sections :: section_toggles
  prompt_overlay_path :: "string option"
  long_conversation :: long_conversation_config

definition overlay_config_default :: overlay_config where
  "overlay_config_default =
     \<lparr>enabled = False, sections = toggles_all_on, prompt_overlay_path = None,
      long_conversation = long_conversation_default\<rparr>"

record activation_ctx =
  ac_turn_index :: nat
  ac_ctx_size_ratio :: rat
  ac_plan_active :: bool
  ac_task_expected_hours :: rat
  ac_verifier_flagged :: bool
  ac_tool_metadata_third_party :: bool
  ac_memory_write_attempted :: bool
  ac_user_requests_memory_change :: bool
  ac_output_contains_quoted_text :: bool
  ac_output_contains_external_claim :: bool
  ac_persona_refusal_active :: bool

definition overlay_active :: "overlay_config \<Rightarrow> bool \<Rightarrow> rat \<Rightarrow> bool" where
  "overlay_active cfg plan_active hours = (enabled cfg \<and> (plan_active \<or> 4 \<le> hours))"

definition cadence_hit :: "long_conversation_config \<Rightarrow> nat \<Rightarrow> bool" where
  "cadence_hit lc turn = (0 < every_n_turns lc \<and> 0 < turn \<and> turn mod every_n_turns lc = 0)"

definition should_activate :: "overlay_config \<Rightarrow> delta \<Rightarrow> activation_ctx \<Rightarrow> bool" where
  "should_activate cfg d ctx =
     (if \<not> enabled cfg then False
      else if \<not> is_enabled (sections cfg) d then False
      else (case d of
              D1ReminderTamperTest \<Rightarrow> True
            | D2ForbiddenPhrases \<Rightarrow> True
            | D3FirstMatchRouting \<Rightarrow> True
            | D4ThirdPartyGate \<Rightarrow> ac_tool_metadata_third_party ctx
            | D5UserMemoryEdits \<Rightarrow>
                ac_memory_write_attempted ctx \<or> ac_user_requests_memory_change ctx
            | D6LongConversation \<Rightarrow>
                cadence_hit (long_conversation cfg) (ac_turn_index ctx)
                \<or> at_ctx_ratio (long_conversation cfg) < ac_ctx_size_ratio ctx
                \<or> ac_verifier_flagged ctx
            | D7SelfCheck \<Rightarrow>
                ac_output_contains_quoted_text ctx \<or> ac_output_contains_external_claim ctx
                \<or> ac_persona_refusal_active ctx))"

definition load_overlay_text ::
  "(string \<Rightarrow> (string, string) result) \<Rightarrow> overlay_config \<Rightarrow> (string, string option) result" where
  "load_overlay_text read cfg =
     (if \<not> enabled cfg then Inr None
      else (case prompt_overlay_path cfg of
              None \<Rightarrow> Inr None
            | Some path \<Rightarrow>
                (case read path of
                   Inr text \<Rightarrow> Inr (Some text)
                 | Inl e \<Rightarrow> Inl (''io: '' @ path @ '': '' @ e))))"

lemma should_activate_enabled:
  "should_activate cfg d ctx \<Longrightarrow> enabled cfg \<and> is_enabled (sections cfg) d"
  by (auto simp: should_activate_def split: if_splits)

lemma default_overlay_inactive: "\<not> should_activate overlay_config_default d ctx"
  by (simp add: should_activate_def overlay_config_default_def)

lemma all_off_inactive: "sections cfg = toggles_all_off \<Longrightarrow> \<not> should_activate cfg d ctx"
  by (cases d) (auto simp: should_activate_def toggles_all_off_def)

text \<open>
  Over any \<open>n\<close> consecutive turns from turn 1 on, the cadence of \<open>every_n_turns = n > 0\<close>
  hits exactly once, so with the overlay and section D6 switched on the long-conversation
  digest is injected at least once in every window of \<open>n\<close> turns, whatever else the
  contexts say.
\<close>
theorem d6_cadence:
  assumes "enabled cfg" and "d6 (sections cfg)" and "every_n_turns (long_conversation cfg) = n"
    and "0 < n" and "0 < t"
  shows "(\<exists>!k. k \<in> {t..<t + n} \<and> cadence_hit (long_conversation cfg) k)
    \<and> (\<exists>k \<in> {t..<t + n}. should_activate cfg D6LongConversation (ctx\<lparr>ac_turn_index := k\<rparr>))"
proof -
  let ?k = "((t + n - 1) div n) * n"
  have k: "t \<le> ?k" "?k < t + n"
  proof -
    have "t + n - 1 = ?k + (t + n - 1) mod n" by simp
    moreover have "(t + n - 1) mod n < n" using assms(4) by simp
    ultimately show "t \<le> ?k" "?k < t + n" using assms(4) by linarith+
  qed
  have hit: "cadence_hit (long_conversation cfg) ?k"
  proof -
    have "0 < ?k" using k(1) assms(5) by (rule less_le_trans[rotated])
    then show ?thesis using assms(3,4) unfolding cadence_hit_def by simp
  qed
  have "\<exists>!k. k \<in> {t..<t + n} \<and> cadence_hit (long_conversation cfg) k"
  proof (rule ex1I[of _ ?k])
    fix j assume j: "j \<in> {t..<t + n} \<and> cadence_hit (long_conversation cfg) j"
    then obtain q where q: "j = n * q" using assms(3) by (auto simp: cadence_hit_def)
    let ?p = "(t + n - 1) div n"
    from j k have "n * q < n * Suc ?p" "n * ?p < n * Suc q"
      unfolding q by (simp_all add: mult.commute)
    then have "q < Suc ?p" "?p < Suc q" by (simp_all only: mult_less_cancel1)
    then have "q = ?p" by linarith
    then show "j = ?k" using q by (simp add: mult.commute)
  qed (use k hit in simp)
  moreover have "\<exists>k \<in> {t..<t + n}. should_activate cfg D6LongConversation (ctx\<lparr>ac_turn_index := k\<rparr>)"
    using k hit assms(1,2) by (intro bexI[of _ ?k]) (auto simp: should_activate_def)
  ultimately show ?thesis by blast
qed

theorem d6_cadence_witness:
  "let cfg = overlay_config_default\<lparr>enabled := True\<rparr> in
   \<exists>!k. k \<in> {(30::nat)..<30 + 25} \<and> cadence_hit (long_conversation cfg) k"
proof -
  let ?cfg = "overlay_config_default\<lparr>enabled := True\<rparr>"
  have "enabled ?cfg" "d6 (sections ?cfg)" "every_n_turns (long_conversation ?cfg) = 25"
    by (simp_all add: overlay_config_default_def toggles_all_on_def long_conversation_default_def)
  from d6_cadence[OF this, of 30] show ?thesis by simp
qed

end
