(* ===== verification/SelfCheck.thy ===== *)
theory SelfCheck
  imports Complex_Main Rust_Strings
begin

text \<open>
  The pre-emission self-check gate of \<open>crates/aether-selfcheck\<close> (D7): the rule language
  (\<open>rule.rs\<close>), the session predicates (\<open>session.rs\<close>), the detectors (\<open>detector.rs\<close>), the
  two-pass gate (\<open>gate.rs\<close>), and the verifier of \<open>crates/aether-core/src/verifier.rs\<close> that
  wraps it. The regex engine is the parameter \<open>regex_engine\<close>; a YAML configuration value is
  read through the two shapes the code asks for. The panic of \<open>run_builtin\<close> on an unknown
  detector name is the \<open>Inl\<close> branch.
\<close>

section \<open>Rules\<close>

datatype severity = Low | Medium | High | Critical

datatype action = Warn | Rewrite | Block

datatype applies_when =
    Always | MemoryActive | NotUserAskedAboutMemory | CiteTagsPresent | NotCiteTagsPresent
  | NoRecentExternalLookup | DistressFlagged | UserDidNotCurse | NotCreativeWritingContext

datatype yaml_value = YNum nat | YStrs "string list" | YOther

type_synonym yaml_config = "(string \<times> yaml_value) list"

datatype detector =
    PhraseMatch "string list" bool
  | RegexDetector "string list" bool
  | Builtin string yaml_config
  | LlmProbe string string rat

datatype remediation_strategy = Strip | Redact | Annotate

record remediation =
  strategy :: remediation_strategy
  rem_template :: "string option"

record rule =
  rule_id :: string
  rule_description :: string
  rule_severity :: severity
  rule_action :: action
  rule_applies_when :: applies_when
  rule_detector :: detector
  rule_remediation :: "remediation option"

section \<open>Session predicates\<close>

record session_context =
  memory_active :: bool
  user_asked_about_memory :: bool
  cite_tags_present :: bool
  recent_external_lookup :: bool
  distress_flagged :: bool
  user_cursed :: bool
  known_urls :: "string list"
  user_asked_for_creative_writing :: bool

definition session_context_default :: session_context where
  "session_context_default =
     \<lparr>memory_active = False, user_asked_about_memory = False, cite_tags_present = False,
      recent_external_lookup = False, distress_flagged = False, user_cursed = False,
      known_urls = [], user_asked_for_creative_writing = False\<rparr>"

fun satisfies :: "session_context \<Rightarrow> applies_when \<Rightarrow> bool" where
  "satisfies s Always = True"
| "satisfies s MemoryActive = memory_active s"
| "satisfies s NotUserAskedAboutMemory = (\<not> user_asked_about_memory s)"
| "satisfies s CiteTagsPresent = cite_tags_present s"
| "satisfies s NotCiteTagsPresent = (\<not> cite_tags_present s)"
| "satisfies s NoRecentExternalLookup = (\<not> recent_external_lookup s)"
| "satisfies s DistressFlagged = distress_flagged s"
| "satisfies s UserDidNotCurse = (\<not> user_cursed s)"
| "satisfies s NotCreativeWritingContext = (\<not> user_asked_for_creative_writing s)"

section \<open>Detectors\<close>

record hit =
  hit_start :: nat
  hit_end :: nat
  hit_matched :: string
  hit_evidence :: string

text \<open>
  The regex crate: compiling a pattern (\<open>Some\<close> error message on failure), the spans of
  \<open>find_iter\<close>, and per match of \<open>captures_iter\<close> the spans of group 0 and group 1.
\<close>

record regex_engine =
  rx_compile :: "string \<Rightarrow> string option"
  rx_find_iter :: "string \<Rightarrow> string \<Rightarrow> (nat \<times> nat) list"
  rx_captures_iter :: "string \<Rightarrow> string \<Rightarrow> ((nat \<times> nat) \<times> (nat \<times> nat)) list"

definition slice :: "string \<Rightarrow> nat \<Rightarrow> nat \<Rightarrow> string" where
  "slice s a b = take (b - a) (drop a s)"

text \<open>One needle of \<open>phrase_match\<close>: the scan of \<open>body_search\<close> from byte \<open>from\<close>.\<close>

function phrase_scan :: "string \<Rightarrow> string \<Rightarrow> string \<Rightarrow> string \<Rightarrow> nat \<Rightarrow> hit list" where
  "phrase_scan body search needle p frm =
     (if needle = [] then []
      else (case str_find needle (drop frm search) of
              None \<Rightarrow> []
            | Some off \<Rightarrow>
                (let a = frm + off; e = a + length needle
                 in if length body < e then []
                    else \<lparr>hit_start = a, hit_end = e, hit_matched = slice body a e,
                          hit_evidence = ''phrase:'' @ p\<rparr>
                         # phrase_scan body search needle p e)))"
  by pat_completeness auto
termination
proof (relation "measure (\<lambda>(body, search, needle, p, frm). length search - frm)", goal_cases)
  case (2 body search needle p frm off a e)
  from str_find_Some[OF 2(2)] have "off + length needle \<le> length (drop frm search)" by simp
  moreover have "0 < length needle" using 2(1) by simp
  ultimately show ?case using 2(3,4) by (simp del: length_greater_0_conv)
qed simp

declare phrase_scan.simps [simp del]

definition phrase_match :: "string \<Rightarrow> string list \<Rightarrow> bool \<Rightarrow> hit list" where
  "phrase_match body patterns case_sensitive =
     (let body_search = (if case_sensitive then body else to_ascii_lowercase body)
      in concat (map (\<lambda>p.
           let needle = (if case_sensitive then p else to_ascii_lowercase p)
           in if needle = [] then [] else phrase_scan body body_search needle p 0) patterns))"

definition regex_match :: "regex_engine \<Rightarrow> string \<Rightarrow> string list \<Rightarrow> hit list" where
  "regex_match eng body patterns =
     concat (map (\<lambda>re. map (\<lambda>(s, e).
       \<lparr>hit_start = s, hit_end = e, hit_matched = slice body s e, hit_evidence = ''regex:'' @ re\<rparr>)
       (rx_find_iter eng re body)) patterns)"

definition dquote :: char where
  "dquote = CHR 0x22"

definition bslash :: char where
  "bslash = CHR 0x5C"

definition QUOTED_SPAN_RE :: string where
  "QUOTED_SPAN_RE =
     [dquote] @ ''([^'' @ [dquote, bslash] @ ''n]{1,2000})'' @ [dquote]"

definition quoted_span_length :: "regex_engine \<Rightarrow> string \<Rightarrow> nat \<Rightarrow> hit list" where
  "quoted_span_length eng body max_words =
     concat (map (\<lambda>((ws, we), (is, ie)).
       let words = length (split_whitespace (slice body is ie))
       in if max_words \<le> words
          then [\<lparr>hit_start = ws, hit_end = we, hit_matched = slice body ws we,
                 hit_evidence = ''quote_words:'' @ show_nat words\<rparr>]
          else [])
       (rx_captures_iter eng QUOTED_SPAN_RE body))"

definition CITE_RE :: string where
  "CITE_RE =
     ''<cite'' @ [bslash] @ ''s+index=['' @ [dquote, CHR 0x27] @ '']([^'' @ [dquote, CHR 0x27] @ '']+)[''
     @ [dquote, CHR 0x27] @ '']>([^<]*)</cite>''"

definition quotes_per_cite_source :: "regex_engine \<Rightarrow> string \<Rightarrow> nat \<Rightarrow> hit list" where
  "quotes_per_cite_source eng body max_per_source =
     (let by_source =
            fold (\<lambda>((ws, we), (ss, se)). hm_entry (slice body ss se) [] (\<lambda>v. v @ [(ws, we, slice body ws we)]))
              (rx_captures_iter eng CITE_RE body) []
      in concat (map (\<lambda>(src, matches).
           if max_per_source < length matches
           then map (\<lambda>(s, e, txt).
                  \<lparr>hit_start = s, hit_end = e, hit_matched = txt,
                   hit_evidence = ''source:'' @ src @ '' count:'' @ show_nat (length matches)\<rparr>)
                  (drop max_per_source matches)
           else []) by_source))"

definition is_markdown_structural_line :: "string \<Rightarrow> bool" where
  "is_markdown_structural_line trimmed =
     (case trimmed of
        [] \<Rightarrow> False
      | first # _ \<Rightarrow>
          if first \<in> set ''-*+>#|'' then True
          else if first = CHR 0x60 then prefix [CHR 0x60, CHR 0x60, CHR 0x60] trimmed
          else if is_digit first then
            (case dropWhile is_digit trimmed of [] \<Rightarrow> False | c # _ \<Rightarrow> c = CHR ''.'')
          else False)"

text \<open>The byte offset of every line (\<open>split_inclusive\<close>).\<close>

function line_offsets_from :: "nat \<Rightarrow> string \<Rightarrow> nat list" where
  "line_offsets_from off s =
     (if s = [] then []
      else (case dropWhile (\<lambda>c. c \<noteq> CHR 0x0A) s of
              [] \<Rightarrow> [off]
            | _ # rest \<Rightarrow>
                off # line_offsets_from (off + Suc (length (takeWhile (\<lambda>c. c \<noteq> CHR 0x0A) s))) rest))"
  by pat_completeness auto
termination
proof (relation "measure (\<lambda>(off, s). length s)", goal_cases)
  case (2 off s x rest)
  then have "length (x # rest) \<le> length s" by (metis length_dropWhile_le)
  then show ?case by simp
qed simp

declare line_offsets_from.simps [simp del]

text \<open>\<open>line_offsets[run_start_idx]\<close> is the one index that can be out of range: a panic.\<close>

definition emit_stanza :: "string \<Rightarrow> nat list \<Rightarrow> nat \<Rightarrow> nat \<Rightarrow> nat \<Rightarrow> (string, hit) result" where
  "emit_stanza body offs run run_start_idx end_idx =
     (if length offs \<le> run_start_idx then Inl ''index out of bounds''
      else (let start = offs ! run_start_idx;
                e = (if end_idx < length offs then offs ! end_idx else length body)
            in Inr \<lparr>hit_start = start, hit_end = e, hit_matched = slice body start e,
                    hit_evidence = ''consecutive_short_lines:'' @ show_nat run\<rparr>))"

definition emit_if :: "bool \<Rightarrow> (string, hit) result \<Rightarrow> (string, hit list) result \<Rightarrow> (string, hit list) result" where
  "emit_if c h rem =
     (if c then (case h of
                   Inl p \<Rightarrow> Inl p
                 | Inr x \<Rightarrow> (case rem of Inl p \<Rightarrow> Inl p | Inr xs \<Rightarrow> Inr (x # xs)))
      else rem)"

text \<open>The loop over the lines; the state is \<open>i\<close>, \<open>run\<close> and \<open>run_start_idx\<close>.\<close>

fun stanza_loop ::
  "string \<Rightarrow> nat list \<Rightarrow> nat \<Rightarrow> nat \<Rightarrow> string list \<Rightarrow> nat \<Rightarrow> nat \<Rightarrow> nat \<Rightarrow> (string, hit list) result" where
  "stanza_loop body offs min_consec max_words [] i run rs =
     emit_if (min_consec \<le> run) (emit_stanza body offs run rs i) (Inr [])"
| "stanza_loop body offs min_consec max_words (line # rest) i run rs =
     (let trimmed = str_trim line; w = length (split_whitespace trimmed) in
      if is_markdown_structural_line trimmed then
        emit_if (min_consec \<le> run) (emit_stanza body offs run rs i)
          (stanza_loop body offs min_consec max_words rest (Suc i) 0 rs)
      else if trimmed \<noteq> [] \<and> 0 < w \<and> w \<le> max_words then
        stanza_loop body offs min_consec max_words rest (Suc i) (Suc run) (if run = 0 then i else rs)
      else if trimmed \<noteq> [] then
        emit_if (min_consec \<le> run) (emit_stanza body offs run rs i)
          (stanza_loop body offs min_consec max_words rest (Suc i) 0 rs)
      else stanza_loop body offs min_consec max_words rest (Suc i) run rs)"

definition short_line_stanza :: "string \<Rightarrow> nat \<Rightarrow> nat \<Rightarrow> (string, hit list) result" where
  "short_line_stanza body min_consec max_words =
     stanza_loop body (line_offsets_from 0 body) min_consec max_words (str_lines body) 0 0 0"

definition too_thin :: "string \<Rightarrow> nat \<Rightarrow> string list \<Rightarrow> hit list" where
  "too_thin body min_chars allowlist =
     (let trimmed = str_trim body in
      if trimmed = [] then []
      else if min_chars \<le> char_count trimmed then []
      else if list_ex (\<lambda>a. trimmed = str_trim a) allowlist then []
      else [\<lparr>hit_start = 0, hit_end = length body, hit_matched = body,
             hit_evidence = ''chars:'' @ show_nat (char_count trimmed) @ '' min:'' @ show_nat min_chars\<rparr>])"

definition URL_RE :: string where
  "URL_RE = ''https?://[^'' @ [bslash] @ ''s)>'' @ [bslash] @ '']]+''"

definition trim_end_punct :: "string \<Rightarrow> string" where
  "trim_end_punct s = rev (dropWhile (\<lambda>c. c \<in> set ''.,;:!?'') (rev s))"

definition url_provenance :: "regex_engine \<Rightarrow> string \<Rightarrow> session_context \<Rightarrow> hit list" where
  "url_provenance eng body session =
     (if known_urls session = [] then []
      else concat (map (\<lambda>(s, e).
             let url = slice body s e; trimmed = trim_end_punct url
             in if list_ex (\<lambda>k. k = trimmed \<or> k = url) (known_urls session) then []
                else [\<lparr>hit_start = s, hit_end = e, hit_matched = url,
                       hit_evidence = ''unverified_url:'' @ trimmed\<rparr>])
             (rx_find_iter eng URL_RE body)))"

section \<open>The gate\<close>

datatype action_taken = Logged | Rewrote | Blocked_taken

record finding =
  fd_rule_id :: string
  fd_severity :: severity
  fd_action :: action
  fd_hit :: hit
  fd_action_taken :: action_taken

datatype outcome =
    Pass string "finding list"
  | Blocked string "finding list" "finding list"

record compiled_rule =
  cr_rule :: rule
  cr_regexes :: "string list"

definition rule_patterns :: "rule \<Rightarrow> string list" where
  "rule_patterns r =
     (case rule_detector r of
        RegexDetector patterns case_sensitive \<Rightarrow>
          map (\<lambda>p. if case_sensitive then p else ''(?i)'' @ p) patterns
      | _ \<Rightarrow> [])"

fun compile_patterns :: "regex_engine \<Rightarrow> string \<Rightarrow> string list \<Rightarrow> (string, string list) result" where
  "compile_patterns eng rid [] = Inr []"
| "compile_patterns eng rid (p # ps) =
     (case rx_compile eng p of
        Some e \<Rightarrow> Inl (rid @ '': '' @ e)
      | None \<Rightarrow> (case compile_patterns eng rid ps of Inl e \<Rightarrow> Inl e | Inr rs \<Rightarrow> Inr (p # rs)))"

fun gate_new :: "regex_engine \<Rightarrow> rule list \<Rightarrow> (string, compiled_rule list) result" where
  "gate_new eng [] = Inr []"
| "gate_new eng (r # rs) =
     (case compile_patterns eng (rule_id r) (rule_patterns r) of
        Inl e \<Rightarrow> Inl e
      | Inr regs \<Rightarrow> (case gate_new eng rs of
                        Inl e \<Rightarrow> Inl e
                      | Inr cs \<Rightarrow> Inr (\<lparr>cr_rule = r, cr_regexes = regs\<rparr> # cs)))"

definition cfg_u64 :: "yaml_config \<Rightarrow> string \<Rightarrow> nat \<Rightarrow> nat" where
  "cfg_u64 config key d = (case map_of config key of Some (YNum n) \<Rightarrow> n | _ \<Rightarrow> d)"

definition cfg_strs :: "yaml_config \<Rightarrow> string \<Rightarrow> string list" where
  "cfg_strs config key = (case map_of config key of Some (YStrs ss) \<Rightarrow> ss | _ \<Rightarrow> [])"

definition run_builtin ::
  "regex_engine \<Rightarrow> string \<Rightarrow> string \<Rightarrow> yaml_config \<Rightarrow> session_context \<Rightarrow> (string, hit list) result" where
  "run_builtin eng name body config session =
     (if name = ''quoted_span_length'' then
        Inr (quoted_span_length eng body (cfg_u64 config ''max_words'' 15))
      else if name = ''quotes_per_cite_source'' then
        Inr (quotes_per_cite_source eng body (cfg_u64 config ''max_per_source'' 1))
      else if name = ''short_line_stanza'' then
        short_line_stanza body (cfg_u64 config ''min_consecutive_short_lines'' 4)
          (cfg_u64 config ''max_words_per_line'' 12)
      else if name = ''too_thin'' then
        Inr (too_thin body (cfg_u64 config ''min_chars'' 10) (cfg_strs config ''refusal_allowlist''))
      else if name = ''url_provenance'' then Inr (url_provenance eng body session)
      else Inl (''unknown builtin detector: '' @ name))"

definition detect ::
  "regex_engine \<Rightarrow> compiled_rule \<Rightarrow> string \<Rightarrow> session_context \<Rightarrow> (string, hit list) result" where
  "detect eng cr body session =
     (case rule_detector (cr_rule cr) of
        PhraseMatch patterns cs \<Rightarrow> Inr (phrase_match body patterns cs)
      | RegexDetector ps cs \<Rightarrow> Inr (regex_match eng body (cr_regexes cr))
      | Builtin name config \<Rightarrow> run_builtin eng name body config session
      | LlmProbe q m t \<Rightarrow> Inr [])"

definition compute_replacement :: "hit \<Rightarrow> remediation option \<Rightarrow> string" where
  "compute_replacement h rem =
     (case (case rem of Some r \<Rightarrow> strategy r | None \<Rightarrow> Strip) of
        Strip \<Rightarrow> []
      | Redact \<Rightarrow> ''[REDACTED]''
      | Annotate \<Rightarrow>
          str_replace ''{match}'' (hit_matched h)
            (case Option.bind rem rem_template of
               Some t \<Rightarrow> t
             | None \<Rightarrow> ''[UNVERIFIED: {match}]''))"

definition mk_finding :: "rule \<Rightarrow> hit \<Rightarrow> action_taken \<Rightarrow> finding" where
  "mk_finding r h taken =
     \<lparr>fd_rule_id = rule_id r, fd_severity = rule_severity r, fd_action = rule_action r,
      fd_hit = h, fd_action_taken = taken\<rparr>"

text \<open>
  The two passes walk the rules in order and stop at a panic. A rewrite operation is a start, an
  end, the replacement and the finding.
\<close>

type_synonym rewrite_op = "nat \<times> nat \<times> string \<times> finding"

fun collect_hits ::
  "(compiled_rule \<Rightarrow> (string, hit list) result) \<Rightarrow> (rule \<Rightarrow> hit \<Rightarrow> 'a) \<Rightarrow> compiled_rule list \<Rightarrow>
   (string, 'a list) result" where
  "collect_hits det f [] = Inr []"
| "collect_hits det f (cr # crs) =
     (case det cr of
        Inl e \<Rightarrow> Inl e
      | Inr hits \<Rightarrow> (case collect_hits det f crs of
                        Inl e \<Rightarrow> Inl e
                      | Inr xs \<Rightarrow> Inr (map (f (cr_rule cr)) hits @ xs)))"

definition rewrite_rules :: "session_context \<Rightarrow> compiled_rule list \<Rightarrow> compiled_rule list" where
  "rewrite_rules session rules =
     filter (\<lambda>cr. rule_action (cr_rule cr) = Rewrite
              \<and> satisfies session (rule_applies_when (cr_rule cr))) rules"

definition check_rules :: "session_context \<Rightarrow> compiled_rule list \<Rightarrow> compiled_rule list" where
  "check_rules session rules =
     filter (\<lambda>cr. rule_action (cr_rule cr) \<noteq> Rewrite
              \<and> satisfies session (rule_applies_when (cr_rule cr))) rules"

definition rewrite_op_of :: "rule \<Rightarrow> hit \<Rightarrow> rewrite_op" where
  "rewrite_op_of r h =
     (hit_start h, hit_end h, compute_replacement h (rule_remediation r), mk_finding r h Rewrote)"

text \<open>Highest start first (a stable sort), then drop the operations that overlap a kept one.\<close>

definition sort_ops :: "rewrite_op list \<Rightarrow> rewrite_op list" where
  "sort_ops ops = sort_key (\<lambda>(s, e, r, f). - int s) ops"

fun drop_overlaps :: "nat \<Rightarrow> rewrite_op list \<Rightarrow> rewrite_op list" where
  "drop_overlaps last_kept_start [] = []"
| "drop_overlaps last_kept_start ((s, e, r, f) # ops) =
     (if e \<le> last_kept_start then (s, e, r, f) # drop_overlaps s ops
      else drop_overlaps last_kept_start ops)"

fun apply_ops :: "string \<Rightarrow> rewrite_op list \<Rightarrow> string" where
  "apply_ops current [] = current"
| "apply_ops current ((s, e, r, f) # ops) =
     apply_ops (take s current @ r @ drop e current) ops"

definition finding_of :: "rule \<Rightarrow> hit \<Rightarrow> finding" where
  "finding_of r h = mk_finding r h (if rule_action r = Block then Blocked_taken else Logged)"

definition rewrite_pass ::
  "regex_engine \<Rightarrow> compiled_rule list \<Rightarrow> string \<Rightarrow> session_context \<Rightarrow>
   (string, string \<times> finding list) result" where
  "rewrite_pass eng rules message session =
     (case collect_hits (\<lambda>cr. detect eng cr message session) rewrite_op_of
             (rewrite_rules session rules) of
        Inl e \<Rightarrow> Inl e
      | Inr ops \<Rightarrow>
          (let to_apply = drop_overlaps u64_max (sort_ops ops)
           in Inr (apply_ops message to_apply, map (\<lambda>(s, e, r, f). f) to_apply)))"

definition gate_check ::
  "regex_engine \<Rightarrow> compiled_rule list \<Rightarrow> string \<Rightarrow> session_context \<Rightarrow> (string, outcome) result" where
  "gate_check eng rules message session =
     (case rewrite_pass eng rules message session of
        Inl e \<Rightarrow> Inl e
      | Inr (current, log1) \<Rightarrow>
          (case collect_hits (\<lambda>cr. detect eng cr current session) finding_of
                  (check_rules session rules) of
             Inl e \<Rightarrow> Inl e
           | Inr fs \<Rightarrow>
               (let blocked = filter (\<lambda>f. fd_action f = Block) fs;
                    lg = log1 @ filter (\<lambda>f. fd_action f \<noteq> Block) fs
                in Inr (if blocked \<noteq> [] then Blocked current blocked lg else Pass current lg))))"

section \<open>The verifier\<close>

record verification_result =
  vr_message :: string
  vr_findings :: "finding list"
  vr_blocked_reasons :: "finding list"

definition vr_is_blocked :: "verification_result \<Rightarrow> bool" where
  "vr_is_blocked v = (vr_blocked_reasons v \<noteq> [])"

definition vr_was_rewritten :: "verification_result \<Rightarrow> string \<Rightarrow> bool" where
  "vr_was_rewritten v original = (\<not> vr_is_blocked v \<and> vr_message v \<noteq> original)"

definition check_before_emit ::
  "regex_engine \<Rightarrow> compiled_rule list \<Rightarrow> string \<Rightarrow> session_context \<Rightarrow>
   (string, verification_result) result" where
  "check_before_emit eng rules message session =
     (case gate_check eng rules message session of
        Inl e \<Rightarrow> Inl e
      | Inr (Pass m lg) \<Rightarrow>
          Inr \<lparr>vr_message = m, vr_findings = lg, vr_blocked_reasons = []\<rparr>
      | Inr (Blocked partial reasons lg) \<Rightarrow>
          Inr \<lparr>vr_message = partial, vr_findings = lg, vr_blocked_reasons = reasons\<rparr>)"

section \<open>Spans stay inside the text\<close>

definition in_text :: "string \<Rightarrow> hit \<Rightarrow> bool" where
  "in_text body h \<longleftrightarrow> hit_start h \<le> hit_end h \<and> hit_end h \<le> length body"

text \<open>The documented behaviour of the regex crate the gate relies on.\<close>

definition engine_ok :: "regex_engine \<Rightarrow> bool" where
  "engine_ok eng \<longleftrightarrow>
     (\<forall>re body. list_all (\<lambda>(s, e). s \<le> e \<and> e \<le> length body) (rx_find_iter eng re body)
       \<and> list_all (\<lambda>((s, e), g). s \<le> e \<and> e \<le> length body) (rx_captures_iter eng re body))"

lemma engine_find:
  assumes "engine_ok eng" "(s, e) \<in> set (rx_find_iter eng re body)"
  shows "s \<le> e \<and> e \<le> length body"
proof -
  from assms(1) have "list_all (\<lambda>(s, e). s \<le> e \<and> e \<le> length body) (rx_find_iter eng re body)"
    by (simp add: engine_ok_def)
  with assms(2) show ?thesis by (auto simp: list_all_iff)
qed

lemma engine_caps:
  assumes "engine_ok eng" "((s, e), g) \<in> set (rx_captures_iter eng re body)"
  shows "s \<le> e \<and> e \<le> length body"
proof -
  from assms(1) have "list_all (\<lambda>((s, e), g). s \<le> e \<and> e \<le> length body) (rx_captures_iter eng re body)"
    by (simp add: engine_ok_def)
  with assms(2) show ?thesis by (auto simp: list_all_iff)
qed

lemma in_text_rec [simp]:
  "in_text b \<lparr>hit_start = s, hit_end = e, hit_matched = m, hit_evidence = v\<rparr> \<longleftrightarrow> s \<le> e \<and> e \<le> length b"
  by (simp add: in_text_def)

lemma in_text_phrase_scan: "list_all (in_text body) (phrase_scan body search needle p frm)"
proof (induction body search needle p frm rule: phrase_scan.induct)
  case (1 body search needle p frm)
  then show ?case
    by (subst phrase_scan.simps) (auto simp: Let_def split: option.splits)
qed

lemma in_text_phrase_match: "list_all (in_text body) (phrase_match body ps cs)"
  by (auto simp: phrase_match_def list_all_concat_map Let_def in_text_phrase_scan list_all_iff
      dest: in_text_phrase_scan[unfolded list_all_iff, rule_format] split: if_splits)

lemma in_text_regex_match: "engine_ok eng \<Longrightarrow> list_all (in_text body) (regex_match eng body res)"
  by (auto simp: regex_match_def list_all_iff in_text_def dest: engine_find)

lemma in_text_quoted: "engine_ok eng \<Longrightarrow> list_all (in_text body) (quoted_span_length eng body n)"
  by (auto simp: quoted_span_length_def list_all_iff in_text_def Let_def dest: engine_caps split: if_splits)

lemma in_text_url: "engine_ok eng \<Longrightarrow> list_all (in_text body) (url_provenance eng body session)"
  by (auto simp: url_provenance_def list_all_iff in_text_def Let_def dest: engine_find split: if_splits)

lemma in_text_too_thin: "list_all (in_text body) (too_thin body n al)"
  by (auto simp: too_thin_def in_text_def Let_def)

lemma cite_groups:
  "(\<And>c. c \<in> set caps \<Longrightarrow> case c of ((s, e), g) \<Rightarrow> s \<le> e \<and> e \<le> L) \<Longrightarrow>
   (\<And>k v s e t. (k, v) \<in> set m \<Longrightarrow> (s, e, t) \<in> set v \<Longrightarrow> s \<le> e \<and> e \<le> L) \<Longrightarrow>
   (k, v) \<in> set (fold (\<lambda>((ws, we), (ss, se)). hm_entry (slice body ss se) [] (\<lambda>v. v @ [(ws, we, slice body ws we)])) caps m) \<Longrightarrow>
   (s, e, t) \<in> set v \<Longrightarrow> s \<le> e \<and> e \<le> (L :: nat)"
proof (induction caps arbitrary: m)
  case (Cons c caps)
  obtain ws we ss se where c: "c = ((ws, we), (ss, se))" by (metis surj_pair)
  let ?m = "hm_entry (slice body ss se) [] (\<lambda>v. v @ [(ws, we, slice body ws we)]) m"
  have wb: "ws \<le> we \<and> we \<le> L" using Cons.prems(1)[of c] c by simp
  have sub: "set (AList.update k v m) \<subseteq> insert (k, v) (set m)" for k v
    by (induction m) auto
  have "s \<le> e \<and> e \<le> L" if "(k, v) \<in> set ?m" "(s, e, t) \<in> set v" for k v s e t
  proof -
    from that(1) sub have "(k, v) \<in> set m
        \<or> v = (case hm_get m k of None \<Rightarrow> [] | Some v \<Rightarrow> v) @ [(ws, we, slice body ws we)]"
      by (auto simp: hm_entry_def hm_put_def)
    with that(2) wb Cons.prems(2) show ?thesis
      by (auto dest!: hm_get_SomeD split: option.splits)
  qed
  with Cons.IH[of ?m] Cons.prems c show ?case by simp
qed auto

lemma in_text_cites: "engine_ok eng \<Longrightarrow> list_all (in_text body) (quotes_per_cite_source eng body n)"
proof -
  assume ok: "engine_ok eng"
  let ?caps = "rx_captures_iter eng CITE_RE body"
  have "case c of ((s, e), g) \<Rightarrow> s \<le> e \<and> e \<le> length body" if "c \<in> set ?caps" for c
    using that engine_caps[OF ok, of "fst (fst c)" "snd (fst c)" "snd c" CITE_RE body]
    by (simp add: case_prod_beta)
  then have key: "s \<le> e \<and> e \<le> length body"
    if "(k, v) \<in> set (fold (\<lambda>((ws, we), (ss, se)).
          hm_entry (slice body ss se) [] (\<lambda>v. v @ [(ws, we, slice body ws we)])) ?caps [])"
      and "(s, e, t) \<in> set v" for k v s e t
    using cite_groups[of ?caps "length body" "[]", OF _ _ that] by simp
  show ?thesis
    unfolding quotes_per_cite_source_def Let_def list_all_iff
    by (auto dest!: in_set_dropD key split: if_splits)
qed

lemma line_offsets_range:
  "sorted (line_offsets_from off s) \<and> list_all (\<lambda>x. off \<le> x \<and> x \<le> off + length s) (line_offsets_from off s)
   \<and> length (line_offsets_from off s) = length (str_lines s)"
proof (induction off s rule: line_offsets_from.induct)
  case (1 off s)
  show ?case
  proof (cases "s = []")
    case False
    let ?d = "dropWhile (\<lambda>c. c \<noteq> CHR 0x0A) s" and ?t = "takeWhile (\<lambda>c. c \<noteq> CHR 0x0A) s"
    show ?thesis
    proof (cases ?d)
      case Nil
      then have "line_offsets_from off s = [off]" "str_lines s = [s]"
        using False by (simp_all only: line_offsets_from.simps[of off s] str_lines.simps[of s] list.case if_False)
      then show ?thesis by simp
    next
      case (Cons x rest)
      then have l: "line_offsets_from off s = off # line_offsets_from (off + Suc (length ?t)) rest"
        and sl: "str_lines s = strip_cr ?t # str_lines rest"
        using False by (simp_all only: line_offsets_from.simps[of off s] str_lines.simps[of s] list.case if_False)
      have "length s = length ?t + Suc (length rest)"
        using Cons by (metis length_Cons length_append takeWhile_dropWhile_id)
      with "1.IH"[OF False Cons] show ?thesis
        unfolding l sl by (auto simp: list_all_iff)
    qed
  qed (simp add: line_offsets_from.simps)
qed

lemma emit_stanza_in_text:
  assumes "sorted offs" "list_all (\<lambda>x. x \<le> length body) offs" "rs \<le> i" "emit_stanza body offs run rs i = Inr h"
  shows "in_text body h"
  using assms
  by (auto simp: emit_stanza_def in_text_def Let_def list_all_length sorted_iff_nth_mono split: if_splits)

lemma emit_if_Inr:
  "emit_if c h rem = Inr hs \<longleftrightarrow> (if c then \<exists>x xs. h = Inr x \<and> rem = Inr xs \<and> hs = x # xs else rem = Inr hs)"
  by (auto simp: emit_if_def split: sum.splits)

lemma stanza_loop_in_text:
  "sorted offs \<Longrightarrow> list_all (\<lambda>x. x \<le> length body) offs \<Longrightarrow> rs \<le> i \<Longrightarrow>
   stanza_loop body offs mc mw ls i run rs = Inr hs \<Longrightarrow> list_all (in_text body) hs"
proof (induction body offs mc mw ls i run rs arbitrary: hs rule: stanza_loop.induct)
  case (1 body offs mc mw i run rs)
  then show ?case by (auto simp: emit_if_Inr emit_stanza_in_text split: if_splits)
next
  case (2 body offs mc mw line rest i run rs)
  note IH = "2.IH"[OF refl refl]
  from "2.prems" have le: "rs \<le> Suc i" "(if run = 0 then i else rs) \<le> Suc i" by auto
  from "2.prems" IH le show ?case
    by (auto simp: emit_if_Inr Let_def emit_stanza_in_text split: if_splits)
qed

lemma in_text_stanza: "short_line_stanza body mc mw = Inr hs \<Longrightarrow> list_all (in_text body) hs"
  using line_offsets_range[of 0 body]
  by (auto simp: short_line_stanza_def list_all_iff elim!: stanza_loop_in_text[unfolded list_all_iff, rule_format, rotated 3])

text \<open>The stanza detector panics only for a zero threshold on an empty text.\<close>

lemma stanza_loop_total:
  "i + length ls = length offs \<Longrightarrow> rs < length offs \<Longrightarrow> \<exists>hs. stanza_loop body offs mc mw ls i run rs = Inr hs"
proof (induction body offs mc mw ls i run rs rule: stanza_loop.induct)
  case (1 body offs mc mw i run rs)
  then show ?case by (auto simp: emit_if_def emit_stanza_def Let_def)
next
  case (2 body offs mc mw line rest i run rs)
  let ?t = "str_trim line"
  have len: "Suc i + length rest = length offs" "0 < length offs" "i < length offs"
    using "2.prems" by auto
  obtain h where h: "emit_stanza body offs run rs i = Inr h"
    using "2.prems" by (simp add: emit_stanza_def Let_def)
  consider (markup) "is_markdown_structural_line ?t"
    | (short) "\<not> is_markdown_structural_line ?t"
        "?t \<noteq> [] \<and> 0 < length (split_whitespace ?t) \<and> length (split_whitespace ?t) \<le> mw"
    | (prose) "\<not> is_markdown_structural_line ?t"
        "\<not> (?t \<noteq> [] \<and> 0 < length (split_whitespace ?t) \<and> length (split_whitespace ?t) \<le> mw)" "?t \<noteq> []"
    | (blank) "?t = []"
    by blast
  then show ?case
  proof cases
    case markup
    with "2.IH"(1)[OF refl refl markup] len "2.prems" h show ?thesis
      by (auto simp: emit_if_def Let_def)
  next
    case short
    with "2.IH"(2)[OF refl refl short] len "2.prems" show ?thesis
      by (simp add: Let_def)
  next
    case prose
    with "2.IH"(3)[OF refl refl prose] len "2.prems" h show ?thesis
      by (auto simp: emit_if_def Let_def)
  next
    case blank
    then have "\<not> is_markdown_structural_line ?t" by (simp add: is_markdown_structural_line_def)
    with blank "2.IH"(4)[OF refl refl this] len "2.prems" show ?thesis
      by (simp add: Let_def)
  qed
qed

lemma stanza_total:
  assumes "body \<noteq> [] \<or> 0 < mc"
  shows "\<exists>hs. short_line_stanza body mc mw = Inr hs"
proof (cases "body = []")
  case True
  with assms show ?thesis by (simp add: short_line_stanza_def emit_if_def)
next
  case False
  then have "line_offsets_from 0 body \<noteq> []"
    by (subst line_offsets_from.simps) (auto split: list.splits)
  then show ?thesis
    using line_offsets_range[of 0 body]
    by (auto simp: short_line_stanza_def intro!: stanza_loop_total)
qed

section \<open>The gate's contract\<close>

definition builtin_ok :: "rule \<Rightarrow> bool" where
  "builtin_ok r =
     (case rule_detector r of
        Builtin name config \<Rightarrow>
          name \<in> set [''quoted_span_length'', ''quotes_per_cite_source'', ''too_thin'', ''url_provenance'']
          \<or> (name = ''short_line_stanza'' \<and> 0 < cfg_u64 config ''min_consecutive_short_lines'' 4)
      | _ \<Rightarrow> True)"

lemma detect_in_text:
  assumes "engine_ok eng" "detect eng cr body session = Inr hs"
  shows "list_all (in_text body) hs"
  using assms in_text_phrase_match in_text_regex_match in_text_quoted in_text_url
    in_text_too_thin in_text_cites in_text_stanza
  by (auto simp: detect_def run_builtin_def split: detector.splits if_splits)

lemma run_builtin_total:
  assumes "name \<in> set [''quoted_span_length'', ''quotes_per_cite_source'', ''too_thin'', ''url_provenance'']
      \<or> (name = ''short_line_stanza'' \<and> 0 < cfg_u64 config ''min_consecutive_short_lines'' 4)"
  shows "\<exists>hs. run_builtin eng name body config session = Inr hs"
proof -
  note st = stanza_total[of body "cfg_u64 config ''min_consecutive_short_lines'' 4"
      "cfg_u64 config ''max_words_per_line'' 12"]
  from assms consider "name = ''quoted_span_length''" | "name = ''quotes_per_cite_source''"
    | "name = ''too_thin''" | "name = ''url_provenance''"
    | "name = ''short_line_stanza''" "0 < cfg_u64 config ''min_consecutive_short_lines'' 4"
    by force
  then show ?thesis
    by cases (use st in \<open>simp_all add: run_builtin_def\<close>)
qed

lemma detect_total:
  assumes "builtin_ok (cr_rule cr)"
  shows "\<exists>hs. detect eng cr body session = Inr hs"
proof (cases "rule_detector (cr_rule cr)")
  case (Builtin name config)
  with assms run_builtin_total[of name config eng body session] show ?thesis
    by (simp only: detect_def builtin_ok_def detector.case)
qed (simp_all add: detect_def)

definition hits_of :: "(compiled_rule \<Rightarrow> (string, hit list) result) \<Rightarrow> compiled_rule \<Rightarrow> hit list" where
  "hits_of det cr = (case det cr of Inr hs \<Rightarrow> hs | Inl e \<Rightarrow> [])"

lemma hits_of_Inr: "det cr = Inr hs \<Longrightarrow> hits_of det cr = hs"
  by (simp add: hits_of_def)

lemma collect_hits_Inr:
  "collect_hits det f crs = Inr xs \<Longrightarrow>
     xs = concat (map (\<lambda>cr. map (f (cr_rule cr)) (hits_of det cr)) crs)
     \<and> list_all (\<lambda>cr. det cr = Inr (hits_of det cr)) crs"
proof (induction crs arbitrary: xs)
  case (Cons cr crs)
  then obtain hs ys where "det cr = Inr hs" "collect_hits det f crs = Inr ys"
    "xs = map (f (cr_rule cr)) hs @ ys"
    by (auto split: sum.splits)
  with Cons.IH[of ys] hits_of_Inr[of det cr hs] show ?case by simp
qed simp

lemma collect_hits_total:
  "(\<And>cr. cr \<in> set crs \<Longrightarrow> \<exists>hs. det cr = Inr hs) \<Longrightarrow> \<exists>xs. collect_hits det f crs = Inr xs"
proof (induction crs)
  case (Cons cr crs)
  then obtain hs xs where "det cr = Inr hs" "collect_hits det f crs = Inr xs" by fastforce
  then show ?case by simp
qed simp

text \<open>No applicable Block rule fires on the text.\<close>

definition block_free ::
  "regex_engine \<Rightarrow> compiled_rule list \<Rightarrow> session_context \<Rightarrow> string \<Rightarrow> bool" where
  "block_free eng rules session m =
     list_all (\<lambda>cr. rule_action (cr_rule cr) \<noteq> Block \<or> detect eng cr m session = Inr [])
       (check_rules session rules)"

lemma gate_check_cases:
  assumes "gate_check eng rules message session = Inr out"
  obtains current log1 fs where
    "rewrite_pass eng rules message session = Inr (current, log1)"
    "fs = concat (map (\<lambda>cr. map (finding_of (cr_rule cr))
            (hits_of (\<lambda>cr. detect eng cr current session) cr)) (check_rules session rules))"
    "list_all (\<lambda>cr. detect eng cr current session
            = Inr (hits_of (\<lambda>cr. detect eng cr current session) cr)) (check_rules session rules)"
    "out = (if filter (\<lambda>f. fd_action f = Block) fs \<noteq> []
            then Blocked current (filter (\<lambda>f. fd_action f = Block) fs)
                   (log1 @ filter (\<lambda>f. fd_action f \<noteq> Block) fs)
            else Pass current (log1 @ filter (\<lambda>f. fd_action f \<noteq> Block) fs))"
proof -
  from assms obtain current log1 fs where
    r: "rewrite_pass eng rules message session = Inr (current, log1)" and
    c: "collect_hits (\<lambda>cr. detect eng cr current session) finding_of (check_rules session rules) = Inr fs" and
    o: "out = (if filter (\<lambda>f. fd_action f = Block) fs \<noteq> []
            then Blocked current (filter (\<lambda>f. fd_action f = Block) fs)
                   (log1 @ filter (\<lambda>f. fd_action f \<noteq> Block) fs)
            else Pass current (log1 @ filter (\<lambda>f. fd_action f \<noteq> Block) fs))"
    by (auto simp: gate_check_def Let_def split: sum.splits)
  from collect_hits_Inr[OF c] show ?thesis using that[OF r _ _ o] by blast
qed

lemma no_block_findings:
  assumes "list_all (\<lambda>cr. detect eng cr m session = Inr (hits_of (\<lambda>cr. detect eng cr m session) cr))
             (check_rules session rules)"
  shows "filter (\<lambda>f. fd_action f = Block)
           (concat (map (\<lambda>cr. map (finding_of (cr_rule cr))
              (hits_of (\<lambda>cr. detect eng cr m session) cr)) (check_rules session rules))) = []
         \<longleftrightarrow> block_free eng rules session m"
proof -
  let ?h = "hits_of (\<lambda>cr. detect eng cr m session)"
  have "block_free eng rules session m \<longleftrightarrow>
      (\<forall>cr \<in> set (check_rules session rules). rule_action (cr_rule cr) = Block \<longrightarrow> ?h cr = [])"
    using assms unfolding block_free_def list_all_iff by (metis sum.inject(2))
  then show ?thesis
    by (force simp: filter_empty_conv finding_of_def mk_finding_def)
qed

lemma gate_check_pass_iff:
  assumes "gate_check eng rules message session = Inr out"
  shows "case out of Pass m lg \<Rightarrow> block_free eng rules session m
         | Blocked m rs lg \<Rightarrow> rs \<noteq> [] \<and> \<not> block_free eng rules session m
             \<and> list_all (\<lambda>f. fd_action f = Block) rs"
  using assms
proof (rule gate_check_cases, goal_cases)
  case (1 current log1 fs)
  with no_block_findings[OF 1(3)] show ?case
    by (auto simp: list_all_iff split: outcome.splits if_splits)
qed

text \<open>
  What the agent loop relies on: a message that is not blocked satisfies the safety predicate
  of the checker.
\<close>

locale emission_check =
  fixes check :: "string \<Rightarrow> 'c \<Rightarrow> (string, verification_result) result"
    and safe :: "'c \<Rightarrow> string \<Rightarrow> bool"
  assumes check_safe: "check m c = Inr v \<Longrightarrow> \<not> vr_is_blocked v \<Longrightarrow> safe c (vr_message v)"
    and check_unsafe: "check m c = Inr v \<Longrightarrow> vr_is_blocked v \<Longrightarrow> \<not> safe c (vr_message v)"
begin

lemma emitted_safe:
  "check m c = Inr v \<Longrightarrow> t = (if vr_is_blocked v then sentinel else vr_message v) \<Longrightarrow>
   t = sentinel \<or> safe c t"
  using check_safe by auto

lemma blocked_iff_unsafe: "check m c = Inr v \<Longrightarrow> vr_is_blocked v \<longleftrightarrow> \<not> safe c (vr_message v)"
  using check_safe check_unsafe by blast

end

interpretation gate: emission_check
  "\<lambda>m c. check_before_emit eng rules m c" "\<lambda>c m. block_free eng rules c m"
  for eng :: regex_engine and rules
proof unfold_locales
  fix m c v
  assume v: "check_before_emit eng rules m c = Inr v"
  then obtain out where out: "gate_check eng rules m c = Inr out"
    by (auto simp: check_before_emit_def split: sum.splits)
  note pass = gate_check_pass_iff[OF out]
  show "\<not> vr_is_blocked v \<Longrightarrow> block_free eng rules c (vr_message v)"
    using v out pass by (auto simp: check_before_emit_def vr_is_blocked_def split: outcome.splits)
  show "vr_is_blocked v \<Longrightarrow> \<not> block_free eng rules c (vr_message v)"
    using v out pass by (auto simp: check_before_emit_def vr_is_blocked_def split: outcome.splits)
qed

section \<open>Rewriting\<close>

text \<open>The reference: one left-to-right pass that copies the gaps and inserts the replacements.\<close>

fun splice :: "nat \<Rightarrow> nat \<Rightarrow> string \<Rightarrow> rewrite_op list \<Rightarrow> string" where
  "splice lm pos body [] = slice body pos lm"
| "splice lm pos body ((s, e, r, f) # ops) = slice body pos s @ r @ splice lm e body ops"

text \<open>Operations by falling start, each ending before the one before it starts.\<close>

fun descending :: "nat \<Rightarrow> rewrite_op list \<Rightarrow> bool" where
  "descending lm [] = True"
| "descending lm ((s, e, r, f) # ops) = (s \<le> e \<and> e \<le> lm \<and> descending s ops)"

lemma splice_snoc: "splice lm pos body (ops @ [(s, e, r, f)]) = splice s pos body ops @ r @ slice body e lm"
  by (induction s pos body ops rule: splice.induct) auto

lemma apply_ops_splice:
  "descending lm ops \<Longrightarrow> lm \<le> length body \<Longrightarrow>
   apply_ops (take lm body @ t) ops = splice lm 0 body (rev ops) @ t"
proof (induction ops arbitrary: lm t)
  case Nil
  then show ?case by (simp add: slice_def)
next
  case (Cons op ops)
  obtain s e r f where op: "op = (s, e, r, f)" by (cases op)
  from Cons.prems op have le: "s \<le> e" "e \<le> lm" "lm \<le> length body" "descending s ops" by auto
  then have "drop e (take lm body @ t) = slice body e lm @ t" "take s (take lm body @ t) = take s body"
    by (simp_all add: slice_def drop_take min_def)
  with Cons.IH[OF le(4), of "r @ slice body e lm @ t"] le op show ?case
    by (simp add: splice_snoc)
qed

lemma drop_overlaps_descending:
  "list_all (\<lambda>(s, e, r, f). s \<le> e \<and> e \<le> n) ops \<Longrightarrow> descending (min n lm) (drop_overlaps lm ops)"
proof (induction lm ops rule: drop_overlaps.induct)
  case (2 lm s e r f ops)
  show ?case
  proof (cases "e \<le> lm")
    case True
    from "2.prems" have "min n s = s" by simp
    with True "2.IH"(1)[OF True] "2.prems" show ?thesis by simp
  next
    case False
    with "2.IH"(2)[OF False] "2.prems" show ?thesis by simp
  qed
qed simp

lemma set_drop_overlaps: "set (drop_overlaps lm ops) \<subseteq> set ops"
  by (induction lm ops rule: drop_overlaps.induct) auto

text \<open>An operation that is dropped overlaps one that is kept.\<close>

lemma drop_overlaps_covers:
  "sorted (map (\<lambda>(s, e, r, f). - int s) ops) \<Longrightarrow> \<forall>o' \<in> set ops. fst o' \<le> lm \<Longrightarrow> op \<in> set ops \<Longrightarrow>
     op \<in> set (drop_overlaps lm ops)
     \<or> (\<exists>k \<in> set (drop_overlaps lm ops). fst op \<le> fst k \<and> fst k < fst (snd op))
     \<or> lm < fst (snd op)"
proof (induction lm ops rule: drop_overlaps.induct)
  case (2 lm s e r f ops)
  show ?case
  proof (cases "e \<le> lm")
    case True
    have le: "\<forall>o' \<in> set ops. fst o' \<le> s" using "2.prems"(1) by (force simp: case_prod_beta)
    show ?thesis
    proof (cases "op = (s, e, r, f)")
      case False
      with "2.prems" True le "2.IH"(1)[OF True]
      have "op \<in> set (drop_overlaps s ops)
        \<or> (\<exists>k \<in> set (drop_overlaps s ops). fst op \<le> fst k \<and> fst k < fst (snd op))
        \<or> s < fst (snd op)" by simp
      moreover have "fst op \<le> s" using False "2.prems"(3) le by auto
      ultimately show ?thesis using True by auto
    qed (use True in simp)
  next
    case False
    with "2.prems" "2.IH"(2)[OF False] show ?thesis by (cases "op = (s, e, r, f)") auto
  qed
qed simp

lemma sorted_sort_ops: "sorted (map (\<lambda>(s, e, r, f). - int s) (sort_ops ops))"
  by (simp add: sort_ops_def)

lemma set_sort_ops [simp]: "set (sort_ops ops) = set ops"
  by (simp add: sort_ops_def)

lemma rewrite_pass_Inr:
  assumes "rewrite_pass eng rules message session = Inr (current, log1)" "engine_ok eng"
  obtains ops kept where
    "collect_hits (\<lambda>cr. detect eng cr message session) rewrite_op_of (rewrite_rules session rules) = Inr ops"
    "kept = drop_overlaps u64_max (sort_ops ops)"
    "list_all (\<lambda>(s, e, r, f). s \<le> e \<and> e \<le> length message) ops"
    "current = apply_ops message kept" "log1 = map (\<lambda>(s, e, r, f). f) kept"
proof -
  from assms(1) obtain ops where
    ops: "collect_hits (\<lambda>cr. detect eng cr message session) rewrite_op_of (rewrite_rules session rules) = Inr ops"
    and cur: "current = apply_ops message (drop_overlaps u64_max (sort_ops ops))"
      "log1 = map (\<lambda>(s, e, r, f). f) (drop_overlaps u64_max (sort_ops ops))"
    by (auto simp: rewrite_pass_def Let_def split: sum.splits)
  from collect_hits_Inr[OF ops] have
    eq: "ops = concat (map (\<lambda>cr. map (rewrite_op_of (cr_rule cr))
      (hits_of (\<lambda>cr. detect eng cr message session) cr)) (rewrite_rules session rules))" by simp
  have "in_text message h" if "h \<in> set (hits_of (\<lambda>cr. detect eng cr message session) cr)" for h cr
  proof (cases "detect eng cr message session")
    case (Inl e)
    with that show ?thesis by (simp add: hits_of_def)
  next
    case (Inr hs)
    with that detect_in_text[OF assms(2) Inr] show ?thesis by (simp add: hits_of_def list_all_iff)
  qed
  then have "list_all (\<lambda>(s, e, r, f). s \<le> e \<and> e \<le> length message) ops"
    unfolding eq by (auto simp: list_all_iff rewrite_op_of_def in_text_def)
  with ops cur show ?thesis using that by blast
qed


lemma rewrite_pass_total:
  assumes "list_all (\<lambda>cr. builtin_ok (cr_rule cr)) rules"
  shows "\<exists>current lg. rewrite_pass eng rules message session = Inr (current, lg)"
proof -
  from assms have "\<exists>ops. collect_hits (\<lambda>cr. detect eng cr message session) rewrite_op_of
      (rewrite_rules session rules) = Inr ops"
    by (intro collect_hits_total detect_total) (auto simp: rewrite_rules_def list_all_iff)
  then show ?thesis by (auto simp: rewrite_pass_def Let_def)
qed

section \<open>Properties\<close>

text \<open>A gate with a rewriting and a blocking phrase rule, and an engine that never matches.\<close>

definition demo_engine :: regex_engine where
  "demo_engine = \<lparr>rx_compile = (\<lambda>_. None), rx_find_iter = (\<lambda>_ _. []), rx_captures_iter = (\<lambda>_ _. [])\<rparr>"

definition demo_rule :: "string \<Rightarrow> action \<Rightarrow> detector \<Rightarrow> compiled_rule" where
  "demo_rule i a d =
     \<lparr>cr_rule = \<lparr>rule_id = i, rule_description = [], rule_severity = High, rule_action = a,
                 rule_applies_when = Always, rule_detector = d, rule_remediation = None\<rparr>,
      cr_regexes = []\<rparr>"

definition demo_rules :: "compiled_rule list" where
  "demo_rules =
     [demo_rule ''strip'' Rewrite (PhraseMatch [''um ''] False),
      demo_rule ''nokey'' Block (PhraseMatch [''key''] True),
      demo_rule ''thin'' Warn (Builtin ''too_thin'' [(''min_chars'', YNum 2)])]"

lemma demo_engine_ok: "engine_ok demo_engine"
  by (simp add: engine_ok_def demo_engine_def)

lemma demo_phrases:
  "phrase_match ''Um so um ok'' [''um ''] False =
     map (\<lambda>(s, t). \<lparr>hit_start = s, hit_end = s + 3, hit_matched = t, hit_evidence = ''phrase:um ''\<rparr>)
       [(0, ''Um ''), (6, ''um '')]"
  "phrase_match ''um a key'' [''um ''] False =
     [\<lparr>hit_start = 0, hit_end = 3, hit_matched = ''um '', hit_evidence = ''phrase:um ''\<rparr>]"
  "phrase_match ''a key'' [''key''] True =
     [\<lparr>hit_start = 2, hit_end = 5, hit_matched = ''key'', hit_evidence = ''phrase:key''\<rparr>]"
  "too_thin ''a key'' 2 [] = []"
  by code_simp+

lemmas demo_simps = demo_rules_def demo_rule_def rewrite_rules_def check_rules_def detect_def
  run_builtin_def cfg_u64_def cfg_strs_def demo_phrases rewrite_op_of_def compute_replacement_def

lemma demo_rewrite:
  "rewrite_pass demo_engine demo_rules ''Um so um ok'' session_context_default
   = Inr (''so ok'', map (\<lambda>(s, t). mk_finding (cr_rule (hd demo_rules))
        \<lparr>hit_start = s, hit_end = s + 3, hit_matched = t, hit_evidence = ''phrase:um ''\<rparr> Rewrote)
       [(6, ''um ''), (0, ''Um '')])"
  by (simp add: rewrite_pass_def demo_simps sort_ops_def u64_max_def)

lemma demo_check:
  "check_before_emit demo_engine demo_rules ''um a key'' session_context_default
   = Inr \<lparr>vr_message = ''a key'',
      vr_findings = [mk_finding (cr_rule (demo_rules ! 0))
        \<lparr>hit_start = 0, hit_end = 3, hit_matched = ''um '', hit_evidence = ''phrase:um ''\<rparr> Rewrote],
      vr_blocked_reasons = [mk_finding (cr_rule (demo_rules ! 1))
        \<lparr>hit_start = 2, hit_end = 5, hit_matched = ''key'', hit_evidence = ''phrase:key''\<rparr> Blocked_taken]\<rparr>"
proof -
  have "rewrite_pass demo_engine demo_rules ''um a key'' session_context_default
    = Inr (''a key'', [mk_finding (cr_rule (demo_rules ! 0))
        \<lparr>hit_start = 0, hit_end = 3, hit_matched = ''um '', hit_evidence = ''phrase:um ''\<rparr> Rewrote])"
    by (simp add: rewrite_pass_def demo_simps sort_ops_def u64_max_def)
  then show ?thesis
    by (simp add: check_before_emit_def gate_check_def demo_simps finding_of_def mk_finding_def)
qed

text \<open>
  C33. The verifier's verdict is exact for the text it hands out: it is blocked if and only if some
  applicable Block rule still fires on that (already rewritten) text, and every reason it
  reports is a Block finding. A message that is emitted is therefore free of Block hits, whatever
  the Rewrite rules did to it first.
\<close>
theorem emission_verdict_exact:
  assumes "check_before_emit eng rules m c = Inr v"
  shows "(vr_is_blocked v \<longleftrightarrow> \<not> block_free eng rules c (vr_message v))
    \<and> list_all (\<lambda>f. fd_action f = Block) (vr_blocked_reasons v)"
proof -
  obtain out where out: "gate_check eng rules m c = Inr out"
    using assms by (auto simp: check_before_emit_def split: sum.splits)
  from gate_check_pass_iff[OF out] assms out
  have "list_all (\<lambda>f. fd_action f = Block) (vr_blocked_reasons v)"
    by (auto simp: check_before_emit_def split: outcome.splits)
  with gate.blocked_iff_unsafe[OF assms] show ?thesis by blast
qed

lemma emission_verdict_exact_witness:
  "\<not> block_free demo_engine demo_rules session_context_default ''a key''"
  using emission_verdict_exact[OF demo_check] by (simp add: vr_is_blocked_def)

text \<open>
  C6. The rewriting pass is one left-to-right splice. The operations it keeps lie inside the
  message and do not overlap, the result copies the gaps between them and puts each replacement
  in its place, the log has exactly one finding per kept operation, and an operation is dropped
  only when a kept one starts inside its span. So applying the replacements in place from the
  end of the text never moves a span that is still to be replaced.
\<close>
theorem rewrite_pass_is_splice:
  assumes "engine_ok eng" "length m \<le> u64_max"
    and "rewrite_pass eng rules m c = Inr (current, lg)"
  shows "\<exists>ops kept.
     collect_hits (\<lambda>cr. detect eng cr m c) rewrite_op_of (rewrite_rules c rules) = Inr ops
     \<and> set kept \<subseteq> set ops \<and> descending (length m) kept
     \<and> current = splice (length m) 0 m (rev kept)
     \<and> lg = map (\<lambda>(s, e, r, f). f) kept
     \<and> (\<forall>op \<in> set ops. op \<in> set kept \<or> (\<exists>k \<in> set kept. fst op \<le> fst k \<and> fst k < fst (snd op)))"
proof -
  from rewrite_pass_Inr[OF assms(3,1)] obtain ops kept where
    ops: "collect_hits (\<lambda>cr. detect eng cr m c) rewrite_op_of (rewrite_rules c rules) = Inr ops"
    and kept: "kept = drop_overlaps u64_max (sort_ops ops)"
    and inside: "list_all (\<lambda>(s, e, r, f). s \<le> e \<and> e \<le> length m) ops"
    and cur: "current = apply_ops m kept" "lg = map (\<lambda>(s, e, r, f). f) kept" .
  have inside': "list_all (\<lambda>(s, e, r, f). s \<le> e \<and> e \<le> length m) (sort_ops ops)"
    using inside by (simp add: list_all_iff)
  from drop_overlaps_descending[OF this, of u64_max] assms(2)
  have desc: "descending (length m) kept" by (simp add: kept min_def)
  from apply_ops_splice[OF this, of m "[]"] cur(1)
  have "current = splice (length m) 0 m (rev kept)" by simp
  moreover have "set kept \<subseteq> set ops" using set_drop_overlaps[of u64_max "sort_ops ops"] kept by simp
  moreover have "op \<in> set kept \<or> (\<exists>k \<in> set kept. fst op \<le> fst k \<and> fst k < fst (snd op))"
    if op: "op \<in> set ops" for op
  proof -
    have small: "fst o' \<le> u64_max \<and> fst (snd o') \<le> u64_max" if "o' \<in> set ops" for o'
      using that inside assms(2) by (force simp: list_all_iff)
    from drop_overlaps_covers[OF sorted_sort_ops, of ops u64_max op] small op kept
    show ?thesis by (auto simp: not_less[symmetric])
  qed
  ultimately show ?thesis using ops desc cur(2) by blast
qed

lemma rewrite_pass_is_splice_witness:
  "\<exists>ops kept. set kept \<subseteq> set ops \<and> descending 11 kept
     \<and> ''so ok'' = splice 11 0 ''Um so um ok'' (rev (kept :: rewrite_op list))"
proof -
  have "length ''Um so um ok'' \<le> u64_max" by (simp add: u64_max_def)
  from rewrite_pass_is_splice[OF demo_engine_ok this demo_rewrite]
  obtain ops kept where "set kept \<subseteq> set ops" "descending (length ''Um so um ok'') kept"
    "''so ok'' = splice (length ''Um so um ok'') 0 ''Um so um ok'' (rev (kept :: rewrite_op list))"
    by blast
  moreover have "length ''Um so um ok'' = 11" by simp
  ultimately show ?thesis by metis
qed

text \<open>
  The gate is total on configurations whose built-in detectors exist (and whose stanza
  threshold is positive): no message and no session make it panic.
\<close>
theorem gate_never_panics:
  assumes "list_all (\<lambda>cr. builtin_ok (cr_rule cr)) rules"
  shows "\<exists>v. check_before_emit eng rules message session = Inr v"
proof -
  from rewrite_pass_total[OF assms] obtain current lg where
    r: "rewrite_pass eng rules message session = Inr (current, lg)" by blast
  from assms have "\<exists>fs. collect_hits (\<lambda>cr. detect eng cr current session) finding_of
      (check_rules session rules) = Inr fs"
    by (intro collect_hits_total detect_total) (auto simp: check_rules_def list_all_iff)
  with r show ?thesis
    by (auto simp: check_before_emit_def gate_check_def Let_def split: outcome.splits)
qed

lemma gate_never_panics_witness:
  "\<exists>v. check_before_emit demo_engine demo_rules ''hi'' session_context_default = Inr v"
  by (rule gate_never_panics) (simp add: demo_rules_def demo_rule_def builtin_ok_def)

end
