(* ===== verification/Planner.thy ===== *)
theory Planner
  imports Rust_Strings
begin

text \<open>
  The plan and the planner of \<open>crates/aether-core/src/planner.rs\<close>: the bookkeeping of verifier
  blocks with its sliding window, the per-tool error counters, and the rewriting of the plan
  text. The four anchored line patterns of the file are recognisers written by hand; in them
  \<open>\d\<close> stands for the ASCII digits, which are the digits the program itself prints.
\<close>

section \<open>The plan\<close>

definition MAX_BLOCK_RECORDS :: nat where
  "MAX_BLOCK_RECORDS = 10"

definition SUSTAINED_THRESHOLD :: nat where
  "SUSTAINED_THRESHOLD = 3"

definition TOOL_ERROR_THRESHOLD :: nat where
  "TOOL_ERROR_THRESHOLD = 3"

record plan =
  plan_text :: string
  blocks_recorded :: nat
  block_turns :: "(string, nat list) hmap"
  block_counts :: "(string, nat) hmap"
  window :: "nat option"
  tool_error_counts :: "(string, nat) hmap"
  goal :: "string option"
  last_error_text :: "string option"
  last_error_tool :: "string option"
  tool_call_stats :: "(string, nat \<times> nat) hmap"
  dirty :: bool

definition plan_default :: plan where
  "plan_default =
     \<lparr>plan_text = [], blocks_recorded = 0, block_turns = [], block_counts = [], window = None,
      tool_error_counts = [], goal = None, last_error_text = None, last_error_tool = None,
      tool_call_stats = [], dirty = False\<rparr>"

definition plan_new :: "string \<Rightarrow> plan" where
  "plan_new text = plan_default\<lparr>plan_text := text\<rparr>"

definition with_window :: "nat \<Rightarrow> plan" where
  "with_window n = plan_default\<lparr>window := Some n\<rparr>"

definition mark_dirty :: "plan \<Rightarrow> plan" where
  "mark_dirty p = p\<lparr>dirty := True\<rparr>"

definition clear_dirty :: "plan \<Rightarrow> plan" where
  "clear_dirty p = p\<lparr>dirty := False\<rparr>"

definition is_active :: "plan \<Rightarrow> bool" where
  "is_active p = (plan_text p \<noteq> [])"

definition counter_keys :: "string list \<Rightarrow> string list" where
  "counter_keys rule_ids =
     (let ids = sort_dedup rule_ids in if ids = [] then [''unknown''] else ids)"

definition block_line :: "nat \<Rightarrow> string list \<Rightarrow> string" where
  "block_line turn_index rule_ids =
     ''[turn '' @ show_nat turn_index @ '' blocked: rules='' @ str_join '','' (counter_keys rule_ids) @ '']''"

definition record_block :: "nat \<Rightarrow> string list \<Rightarrow> plan \<Rightarrow> plan" where
  "record_block turn_index rule_ids p =
     (let keys = counter_keys rule_ids;
          existing = filter (\<lambda>l. str_trim l \<noteq> []) (str_lines (plan_text p))
      in p\<lparr>block_turns := fold (\<lambda>rid. hm_entry rid [] (\<lambda>ts. ts @ [turn_index])) keys (block_turns p),
           block_counts := fold (\<lambda>rid. hm_entry rid 0 Suc) keys (block_counts p),
           plan_text := str_join nl (take MAX_BLOCK_RECORDS (block_line turn_index rule_ids # existing)),
           blocks_recorded := Suc (blocks_recorded p),
           dirty := True\<rparr>)"

definition set_goal :: "string \<Rightarrow> plan \<Rightarrow> plan" where
  "set_goal text p = p\<lparr>goal := Some text, dirty := True\<rparr>"

definition clear_goal :: "plan \<Rightarrow> plan" where
  "clear_goal p = (if goal p \<noteq> None then p\<lparr>goal := None, dirty := True\<rparr> else p)"

definition record_tool_error_text :: "string \<Rightarrow> string \<Rightarrow> plan \<Rightarrow> plan" where
  "record_tool_error_text tool_name content p =
     p\<lparr>last_error_tool := Some tool_name, last_error_text := Some (take_chars 1200 content)\<rparr>"

definition record_tool_error :: "string \<Rightarrow> plan \<Rightarrow> plan" where
  "record_tool_error tool_name p =
     (let counts = hm_entry tool_name 0 Suc (tool_error_counts p);
          count = (case hm_get counts tool_name of Some n \<Rightarrow> n | None \<Rightarrow> 0)
      in p\<lparr>tool_error_counts := counts,
           dirty := (if TOOL_ERROR_THRESHOLD \<le> count then True else dirty p),
           tool_call_stats :=
             hm_entry tool_name (0, 0) (\<lambda>(ok, err). (ok, Suc err)) (tool_call_stats p)\<rparr>)"

definition record_tool_success :: "string \<Rightarrow> plan \<Rightarrow> plan" where
  "record_tool_success tool_name p =
     (let p1 = (case hm_get (tool_error_counts p) tool_name of
                  None \<Rightarrow> p
                | Some n \<Rightarrow>
                    p\<lparr>dirty := (if TOOL_ERROR_THRESHOLD \<le> n then True else dirty p),
                      tool_error_counts := hm_put tool_name 0 (tool_error_counts p)\<rparr>)
      in p1\<lparr>tool_call_stats :=
            hm_entry tool_name (0, 0) (\<lambda>(ok, err). (Suc ok, err)) (tool_call_stats p)\<rparr>)"

text \<open>
  \<open>prune_window\<close>: every list of turns is filtered in place; the counts of the survivors are
  written, and the rules left with no turn are removed from both maps afterwards.
\<close>

definition survives :: "nat \<Rightarrow> nat \<Rightarrow> nat \<Rightarrow> bool" where
  "survives w current_turn t = (current_turn < sat_add t w)"

definition prune_window :: "nat \<Rightarrow> plan \<Rightarrow> nat \<times> plan" where
  "prune_window current_turn p =
     (case window p of
        None \<Rightarrow> (0, p)
      | Some w \<Rightarrow>
          (let kept = map (\<lambda>(rid, turns). (rid, filter (survives w current_turn) turns)) (block_turns p);
               pruned = sum_list (map (\<lambda>(rid, turns).
                          length turns - length (filter (survives w current_turn) turns)) (block_turns p));
               to_remove = map fst (filter (\<lambda>(rid, turns). turns = []) kept);
               counts = fold (\<lambda>(rid, turns) c. if turns = [] then c else hm_put rid (length turns) c)
                          kept (block_counts p)
           in (pruned, p\<lparr>block_turns := fold hm_del to_remove kept,
                         block_counts := fold hm_del to_remove counts\<rparr>)))"

section \<open>The line patterns\<close>

text \<open>\<open>^\[turn \d+ blocked: rules=([^\]]+)\]$\<close>, with the captured group.\<close>

definition raw_line_rules :: "string \<Rightarrow> string option" where
  "raw_line_rules line =
     (let a = drop 6 line; b = dropWhile is_digit a; c = drop 16 b;
          body = takeWhile (\<lambda>x. x \<noteq> CHR '']'') c
      in if prefix ''[turn '' line \<and> takeWhile is_digit a \<noteq> [] \<and> prefix '' blocked: rules='' b
            \<and> body \<noteq> [] \<and> dropWhile (\<lambda>x. x \<noteq> CHR '']'') c = '']''
         then Some body else None)"

text \<open>\<open>^p.+\]$\<close> for a literal prefix \<open>p\<close>; the dot does not match a line feed.\<close>

definition bracketed :: "string \<Rightarrow> string \<Rightarrow> bool" where
  "bracketed p line =
     (let r = drop (length p) line
      in prefix p line \<and> r \<noteq> [] \<and> last r = CHR '']'' \<and> butlast r \<noteq> [] \<and> CHR 0x0A \<notin> set (butlast r))"

text \<open>\<open>^\[sustained: rules=(\S+) blocked (\d+) times .+\]$\<close>\<close>

definition is_sustained_line :: "string \<Rightarrow> bool" where
  "is_sustained_line line =
     (let a = drop 18 line;
          rid = concat (takeWhile (\<lambda>c. \<not> is_ws c) (str_chars a));
          b = drop (length rid) a; c = drop 9 b; d = dropWhile is_digit c
      in prefix ''[sustained: rules='' line \<and> rid \<noteq> [] \<and> prefix '' blocked '' b
         \<and> takeWhile is_digit c \<noteq> [] \<and> bracketed '' times '' d)"

definition is_tool_stuck_line :: "string \<Rightarrow> bool" where
  "is_tool_stuck_line line = bracketed ''[tool-stuck: '' line"

definition is_goal_line :: "string \<Rightarrow> bool" where
  "is_goal_line line = bracketed ''[session-goal: '' line"

section \<open>The rewritten text\<close>

definition rule_guidance_table :: "(string \<times> string) list" where
  "rule_guidance_table =
     [
      (''secret_in_output'',
       ''stop attempting to reveal credentials or API keys''),
      (''banned_truth_phrases'',
       ''label unverified claims with UNVERIFIED; do not use '' @ [CHR 0x27] @ ''should work''
       @ [CHR 0x27] @ '' or '' @ [CHR 0x27] @ ''probably'' @ [CHR 0x27]),
      (''forbidden_memory_phrases'',
       ''do not narrate memory access; drop phrases like '' @ [CHR 0x27] @ ''I remember''
       @ [CHR 0x27] @ '' or '' @ [CHR 0x27] @ ''Based on what I know about you'' @ [CHR 0x27]),
      (''conditionally_allowed_memory_phrases'',
       ''avoid '' @ [CHR 0x27] @ ''As we discussed'' @ [CHR 0x27] @ '' or '' @ [CHR 0x27]
       @ ''You mentioned'' @ [CHR 0x27] @ '' unless the user asked about memory''),
      (''copyright_quote_length'',
       ''paraphrase instead of quoting; keep any direct quote under 15 words''),
      (''copyright_quotes_per_source'',
       ''quote each source at most once; paraphrase additional material''),
      (''lyrics_and_poems'',
       ''do not reproduce song lyrics, poems, or stanza-shaped creative works''),
      (''placeholder_leakage'',
       ''fill in template placeholders before emitting; do not ship ''
       @ ''TODO/FIXME/TBD/{{...}}''),
      (''unverified_external_claim'',
       ''run a WebFetch or WebSearch to verify, or hedge the claim as unverified''),
      (''fabricated_attribution'',
       ''cite with <cite index='' @ [CHR 0x27] @ ''...'' @ [CHR 0x27]
       @ ''> or remove the attribution''),
      (''clinical_self_diagnosis'',
       ''do not assign clinical labels; reflect what the user said and suggest a ''
       @ ''professional''),
      (''unprompted_profanity'',
       ''drop profanity unless the user has used it first''),
      (''empty_or_thin_output'',
       ''produce a substantive response, not a one-word reply''),
      (''bare_url_without_provenance'',
       ''only include URLs that came from tool results or the user'')
     ]"

definition rule_guidance :: "string \<Rightarrow> string" where
  "rule_guidance rid =
     (case map_of rule_guidance_table rid of Some g \<Rightarrow> g | None \<Rightarrow> ''avoid this pattern'')"

definition sustained_rules :: "plan \<Rightarrow> string list" where
  "sustained_rules p = sort (map fst (filter (\<lambda>(rid, n). SUSTAINED_THRESHOLD \<le> n) (block_counts p)))"

definition below_threshold_rules :: "plan \<Rightarrow> string list" where
  "below_threshold_rules p =
     map fst (filter (\<lambda>(rid, n). 0 < n \<and> n < SUSTAINED_THRESHOLD) (block_counts p))"

definition goal_line :: "string \<Rightarrow> string" where
  "goal_line g = ''[session-goal: '' @ g @ '']''"

definition sustained_line :: "string \<Rightarrow> nat \<Rightarrow> string" where
  "sustained_line rid n =
     ''[sustained: rules='' @ rid @ '' blocked '' @ show_nat n @ '' times '' @ [CHR 0xE2, CHR 0x80, CHR 0x94]
     @ '' '' @ rule_guidance rid @ '']''"

definition header_lines :: "plan \<Rightarrow> string list" where
  "header_lines p =
     (case goal p of None \<Rightarrow> [] | Some g \<Rightarrow> [goal_line g])
     @ map (\<lambda>rid. sustained_line rid (case hm_get (block_counts p) rid of Some n \<Rightarrow> n | None \<Rightarrow> 0))
         (sustained_rules p)"

text \<open>
  The loop over the old text. \<open>continue\<close> skips the test on the number of lines at the end of
  the body.
\<close>

fun scan_lines :: "string list \<Rightarrow> string list \<Rightarrow> string list \<Rightarrow> string list \<Rightarrow> string list" where
  "scan_lines below introduced new_lines [] = new_lines"
| "scan_lines below introduced new_lines (l # rest) =
     (let line = str_trim l in
      if line = [] \<or> is_sustained_line line \<or> is_tool_stuck_line line \<or> is_goal_line line then
        scan_lines below introduced new_lines rest
      else
        (let (new_lines', introduced') =
           (case raw_line_rules line of
              Some body \<Rightarrow>
                (let rids = map str_trim (split_on (CHR '','') body)
                 in if list_ex (\<lambda>r. r \<in> set below \<and> r \<notin> set introduced) rids
                    then (new_lines @ [line], introduced @ rids)
                    else (new_lines, introduced))
            | None \<Rightarrow> (new_lines @ [line], introduced))
         in if MAX_BLOCK_RECORDS \<le> length new_lines' then new_lines'
            else scan_lines below introduced' new_lines' rest))"

definition stuck_tools :: "plan \<Rightarrow> (string \<times> nat) list" where
  "stuck_tools p =
     sort_key fst (filter (\<lambda>(name, n). TOOL_ERROR_THRESHOLD \<le> n) (tool_error_counts p))"

definition stuck_line :: "string \<Rightarrow> nat \<Rightarrow> string" where
  "stuck_line tool n =
     ''[tool-stuck: '' @ tool @ '' failed '' @ show_nat n @ '' times consecutively '' @ [CHR 0xE2, CHR 0x80, CHR 0x94]
     @ '' read the FULL error output; try smaller input or a different approach]''"

definition push_stuck :: "(string \<times> nat) list \<Rightarrow> string list \<Rightarrow> string list" where
  "push_stuck stuck new_lines =
     foldl (\<lambda>ls (tool, n). if length ls < MAX_BLOCK_RECORDS then ls @ [stuck_line tool n] else ls)
       new_lines stuck"

definition refreshed_lines :: "plan \<Rightarrow> string list" where
  "refreshed_lines p =
     push_stuck (stuck_tools p)
       (scan_lines (below_threshold_rules p) (sustained_rules p) (header_lines p)
          (str_lines (plan_text p)))"

definition refresh :: "nat \<Rightarrow> plan \<Rightarrow> plan" where
  "refresh current_turn p0 =
     (let p = snd (prune_window current_turn p0);
          has_stuck_tools = list_ex (\<lambda>(name, n). TOOL_ERROR_THRESHOLD \<le> n) (tool_error_counts p)
      in if block_counts p = [] \<and> plan_text p = [] \<and> \<not> has_stuck_tools \<and> goal p = None
         then clear_dirty p
         else clear_dirty (p\<lparr>plan_text := str_join nl (refreshed_lines p)\<rparr>))"

section \<open>Counts and turns stay in step\<close>

lemma hm_get_fold_entry:
  "distinct ks \<Longrightarrow> hm_get (fold (\<lambda>k. hm_entry k d f) ks m) j =
     (if j \<in> set ks then Some (f (case hm_get m j of None \<Rightarrow> d | Some v \<Rightarrow> v)) else hm_get m j)"
  by (induction ks arbitrary: m) (auto simp: hm_get_entry)

lemma hm_ok_fold_entry: "hm_ok m \<Longrightarrow> hm_ok (fold (\<lambda>k. hm_entry k d f) ks m)"
  by (induction ks arbitrary: m) (auto simp: hm_ok_entry)

lemma distinct_counter_keys [simp]: "distinct (counter_keys ids)"
  by (simp add: counter_keys_def Let_def)

lemma counter_keys_nonempty [simp]: "counter_keys ids \<noteq> []"
  by (simp add: counter_keys_def Let_def)

text \<open>The turns a rule is charged with.\<close>

definition ledger :: "plan \<Rightarrow> string \<Rightarrow> nat list" where
  "ledger p rid = (case hm_get (block_turns p) rid of None \<Rightarrow> [] | Some ts \<Rightarrow> ts)"

definition plan_ok :: "plan \<Rightarrow> bool" where
  "plan_ok p \<longleftrightarrow> hm_ok (block_turns p) \<and> hm_ok (block_counts p) \<and> hm_ok (tool_error_counts p)
     \<and> (\<forall>rid. hm_get (block_turns p) rid \<noteq> Some [])
     \<and> (\<forall>rid. hm_get (block_counts p) rid = map_option length (hm_get (block_turns p) rid))"

lemma plan_okD:
  assumes "plan_ok p"
  shows "hm_ok (block_turns p)" "hm_ok (block_counts p)" "hm_ok (tool_error_counts p)"
    "hm_get (block_turns p) rid \<noteq> Some []"
    "hm_get (block_counts p) rid = map_option length (hm_get (block_turns p) rid)"
  using assms by (auto simp: plan_ok_def)

lemma counts_ledger:
  "plan_ok p \<Longrightarrow> hm_get (block_counts p) rid =
     (if ledger p rid = [] then None else Some (length (ledger p rid)))"
  by (auto simp: plan_ok_def ledger_def split: option.splits)

lemma plan_ok_default [simp]: "plan_ok (plan_default\<lparr>plan_text := t, window := w\<rparr>)"
  by (simp add: plan_ok_def plan_default_def)

lemma plan_ok_record_block: "plan_ok p \<Longrightarrow> plan_ok (record_block t ids p)"
  by (auto simp: plan_ok_def record_block_def Let_def hm_get_fold_entry hm_ok_fold_entry
      split: option.splits)

lemma ledger_record_block:
  "ledger (record_block t ids p) rid =
     ledger p rid @ (if rid \<in> set (counter_keys ids) then [t] else [])"
  by (simp add: ledger_def record_block_def Let_def hm_get_fold_entry split: option.splits)

lemma hm_get_map: "hm_get (map (\<lambda>(k, v). (k, f v)) m) k = map_option f (hm_get m k)"
  by (simp add: hm_get_def map_of_map)

lemma hm_get_fold_put_if:
  "hm_ok kvs \<Longrightarrow>
   hm_get (fold (\<lambda>(k, v) c. if P v then c else hm_put k (g v) c) kvs m) j =
     (case hm_get kvs j of Some v \<Rightarrow> (if P v then hm_get m j else Some (g v)) | None \<Rightarrow> hm_get m j)"
proof (induction kvs arbitrary: m)
  case (Cons kv kvs)
  obtain k v where kv: "kv = (k, v)" by (cases kv)
  from Cons.prems kv have ok: "hm_ok kvs" and k: "hm_get kvs k = None"
    by (auto simp: hm_ok_def hm_get_def map_of_eq_None_iff)
  have get: "hm_get ((k, v) # kvs) j = (if j = k then Some v else hm_get kvs j)"
    by (simp add: hm_get_def)
  show ?case
    using Cons.IH[OF ok] k unfolding kv get by (auto simp: hm.get_put split: option.splits)
qed simp

lemma hm_ok_fold_put_if:
  "hm_ok m \<Longrightarrow> hm_ok (fold (\<lambda>(k, v) c. if P v then c else hm_put k (g v) c) kvs m)"
  by (induction kvs arbitrary: m) (auto simp: hm.ok_put split: prod.splits)

lemma hm_ok_map: "hm_ok (map (\<lambda>(k, v). (k, f v)) m) \<longleftrightarrow> hm_ok m"
  by (simp add: hm_ok_def comp_def case_prod_beta)

lemma in_removed: "hm_ok m \<Longrightarrow> k \<in> set (map fst (filter (\<lambda>(k, v). P v) m)) \<longleftrightarrow>
   (case hm_get m k of None \<Rightarrow> False | Some v \<Rightarrow> P v)"
  by (auto simp: hm_get_Some_iff image_iff split: option.splits)
    (metis hm_get_Some_iff not_None_eq option.distinct(1) option.sel)+

lemma prune_window_fields [frame]:
  "plan_text (snd (prune_window c p)) = plan_text p"
  "window (snd (prune_window c p)) = window p"
  "tool_error_counts (snd (prune_window c p)) = tool_error_counts p"
  "goal (snd (prune_window c p)) = goal p"
  "blocks_recorded (snd (prune_window c p)) = blocks_recorded p"
  "dirty (snd (prune_window c p)) = dirty p"
  by (simp_all add: prune_window_def Let_def split: option.splits)

lemma prune_window_turns:
  assumes "hm_ok (block_turns p)" "window p = Some w"
  shows "hm_get (block_turns (snd (prune_window c p))) rid =
    (case hm_get (block_turns p) rid of None \<Rightarrow> None
     | Some ts \<Rightarrow> (let f = filter (survives w c) ts in if f = [] then None else Some f))"
proof -
  let ?kept = "map (\<lambda>(rid, turns). (rid, filter (survives w c) turns)) (block_turns p)"
  have ok: "hm_ok ?kept" using assms(1) by (simp add: hm_ok_map)
  show ?thesis
    using assms(2) in_removed[OF ok, of rid "\<lambda>ts. ts = []"]
    by (simp add: prune_window_def Let_def hm.get_fold_del hm_get_map del: set_map set_filter split: option.splits)
qed

lemma prune_window_counts:
  assumes "hm_ok (block_turns p)" "window p = Some w"
  shows "hm_get (block_counts (snd (prune_window c p))) rid =
    (case hm_get (block_turns p) rid of None \<Rightarrow> hm_get (block_counts p) rid
     | Some ts \<Rightarrow> (let f = filter (survives w c) ts in if f = [] then None else Some (length f)))"
proof -
  let ?kept = "map (\<lambda>(rid, turns). (rid, filter (survives w c) turns)) (block_turns p)"
  have ok: "hm_ok ?kept" using assms(1) by (simp add: hm_ok_map)
  show ?thesis
    using assms(2) in_removed[OF ok, of rid "\<lambda>ts. ts = []"]
    by (simp add: prune_window_def Let_def hm.get_fold_del hm_get_map hm_get_fold_put_if[OF ok]
        del: set_map set_filter split: option.splits)
qed

lemma prune_window_ok:
  assumes "hm_ok (block_turns p)" "hm_ok (block_counts p)"
  shows "hm_ok (block_turns (snd (prune_window c p)))" "hm_ok (block_counts (snd (prune_window c p)))"
  using assms
  by (auto simp: prune_window_def Let_def hm_ok_map intro!: hm.ok_fold_del hm_ok_fold_put_if split: option.splits)

lemma plan_ok_prune_window:
  assumes "plan_ok p"
  shows "plan_ok (snd (prune_window c p))"
proof (cases "window p")
  case None
  with assms show ?thesis by (simp add: prune_window_def)
next
  case (Some w)
  note ok = plan_okD[OF assms]
  show ?thesis
    unfolding plan_ok_def prune_window_counts[OF ok(1) Some] prune_window_turns[OF ok(1) Some]
    using prune_window_ok[OF ok(1,2)] ok(3,5) by (auto simp: frame Let_def split: option.splits)
qed

definition in_window :: "nat option \<Rightarrow> nat \<Rightarrow> nat list \<Rightarrow> nat list" where
  "in_window wo c ts = (case wo of None \<Rightarrow> ts | Some w \<Rightarrow> filter (survives w c) ts)"

lemma ledger_prune_window:
  assumes "plan_ok p"
  shows "ledger (snd (prune_window c p)) rid = in_window (window p) c (ledger p rid)"
proof (cases "window p")
  case None
  then show ?thesis by (simp add: prune_window_def in_window_def)
next
  case (Some w)
  with prune_window_turns[OF plan_okD(1)[OF assms] Some, of c rid] show ?thesis
    by (auto simp: ledger_def in_window_def Let_def split: option.splits)
qed

section \<open>Operations and the ledger they implement\<close>

lemma refresh_maps [frame]:
  "block_turns (refresh c p) = block_turns (snd (prune_window c p))"
  "block_counts (refresh c p) = block_counts (snd (prune_window c p))"
  "tool_error_counts (refresh c p) = tool_error_counts p"
  "window (refresh c p) = window p"
  "goal (refresh c p) = goal p"
  "dirty (refresh c p) = False"
  by (simp_all add: refresh_def Let_def clear_dirty_def frame)

lemma plan_ok_refresh: "plan_ok p \<Longrightarrow> plan_ok (refresh c p)"
  using plan_ok_prune_window[of p c] by (simp add: plan_ok_def frame)

datatype plan_op =
    OpBlock nat "string list" | OpPrune nat | OpRefresh nat | OpGoal string | OpClearGoal
  | OpToolError string | OpToolErrorText string string | OpToolSuccess string | OpMark | OpClear

fun plan_exec :: "plan_op \<Rightarrow> plan \<Rightarrow> plan" where
  "plan_exec (OpBlock t ids) p = record_block t ids p"
| "plan_exec (OpPrune c) p = snd (prune_window c p)"
| "plan_exec (OpRefresh c) p = refresh c p"
| "plan_exec (OpGoal g) p = set_goal g p"
| "plan_exec OpClearGoal p = clear_goal p"
| "plan_exec (OpToolError n) p = record_tool_error n p"
| "plan_exec (OpToolErrorText n t) p = record_tool_error_text n t p"
| "plan_exec (OpToolSuccess n) p = record_tool_success n p"
| "plan_exec OpMark p = mark_dirty p"
| "plan_exec OpClear p = clear_dirty p"

text \<open>The promise: per rule, the turns at which it blocked that are still inside the window.\<close>

fun ledger_step :: "nat option \<Rightarrow> plan_op \<Rightarrow> (string \<Rightarrow> nat list) \<Rightarrow> string \<Rightarrow> nat list" where
  "ledger_step w (OpBlock t ids) L rid = L rid @ (if rid \<in> set (counter_keys ids) then [t] else [])"
| "ledger_step w (OpPrune c) L rid = in_window w c (L rid)"
| "ledger_step w (OpRefresh c) L rid = in_window w c (L rid)"
| "ledger_step w op L rid = L rid"

lemma plan_ok_exec: "plan_ok p \<Longrightarrow> plan_ok (plan_exec op p)"
proof (cases op)
  case (OpBlock t ids)
  then show "plan_ok p \<Longrightarrow> ?thesis" by (simp add: plan_ok_record_block)
next
  case (OpToolError n)
  then show "plan_ok p \<Longrightarrow> ?thesis" by (auto simp: plan_ok_def record_tool_error_def Let_def hm_ok_entry)
next
  case (OpToolSuccess n)
  then show "plan_ok p \<Longrightarrow> ?thesis"
    by (auto simp: plan_ok_def record_tool_success_def Let_def hm.ok_put split: option.splits)
qed (simp_all add: plan_ok_prune_window plan_ok_refresh,
  simp_all add: plan_ok_def set_goal_def clear_goal_def record_tool_error_text_def mark_dirty_def clear_dirty_def)

lemma window_exec: "window (plan_exec op p) = window p"
  by (cases op) (simp_all add: frame record_block_def set_goal_def clear_goal_def record_tool_error_def
      record_tool_error_text_def record_tool_success_def mark_dirty_def clear_dirty_def Let_def
      split: option.splits)

lemma ledger_exec: "plan_ok p \<Longrightarrow> ledger (plan_exec op p) rid = ledger_step (window p) op (ledger p) rid"
proof (cases op)
  case (OpBlock t ids)
  then show ?thesis by (simp add: ledger_record_block)
next
  case (OpPrune c)
  then show "plan_ok p \<Longrightarrow> ?thesis" by (simp add: ledger_prune_window)
next
  case (OpRefresh c)
  moreover have "ledger (refresh c p) rid = ledger (snd (prune_window c p)) rid"
    by (simp add: ledger_def frame)
  ultimately show "plan_ok p \<Longrightarrow> ?thesis" by (simp add: ledger_prune_window)
qed (simp_all add: ledger_def set_goal_def clear_goal_def record_tool_error_def
      record_tool_error_text_def record_tool_success_def mark_dirty_def clear_dirty_def Let_def
      split: option.splits)

lemma ledger_run:
  "plan_ok p \<Longrightarrow>
     plan_ok (fold plan_exec ops p) \<and> window (fold plan_exec ops p) = window p
     \<and> ledger (fold plan_exec ops p) = fold (ledger_step (window p)) ops (ledger p)"
proof (induction ops arbitrary: p)
  case (Cons op ops)
  from Cons.prems have "ledger (plan_exec op p) = ledger_step (window p) op (ledger p)"
    by (auto simp: ledger_exec)
  with Cons.IH[OF plan_ok_exec[OF Cons.prems, of op]] show ?case by (simp add: window_exec)
qed simp

section \<open>Recognised lines\<close>

lemma take_drop_While_append:
  "list_all P xs \<Longrightarrow> (ys = [] \<or> \<not> P (hd ys)) \<Longrightarrow> takeWhile P (xs @ ys) = xs \<and> dropWhile P (xs @ ys) = ys"
  by (cases ys) (auto simp: list_all_iff takeWhile_append dropWhile_append)

lemma bracketed_append:
  "bracketed p (p @ x @ '']'') \<longleftrightarrow> x \<noteq> [] \<and> CHR 0x0A \<notin> set x"
  by (simp add: bracketed_def Let_def butlast_append)

definition rid_safe :: "string \<Rightarrow> bool" where
  "rid_safe rid \<longleftrightarrow> rid \<noteq> [] \<and> CHR 0x0A \<notin> set rid \<and> list_all (\<lambda>c. \<not> is_ws c) (str_chars rid)"

lemma rule_guidance_safe: "rule_guidance rid \<noteq> [] \<and> CHR 0x0A \<notin> set (rule_guidance rid)"
proof -
  have "list_all (\<lambda>(k, g). g \<noteq> [] \<and> CHR 0x0A \<notin> set g) rule_guidance_table"
    by (simp add: rule_guidance_table_def)
  then show ?thesis
    by (auto simp: rule_guidance_def list_all_iff split: option.splits dest!: map_of_SomeD)
qed

lemma show_nat_no_nl: "CHR 0x0A \<notin> set (show_nat n)"
  using show_nat_digits[of n] by (auto simp: list_all_iff is_digit_def byte_of_def)

lemma is_sustained_line_sustained:
  assumes "rid_safe rid"
  shows "is_sustained_line (sustained_line rid n)"
proof -
  let ?t = "[CHR 0xE2, CHR 0x80, CHR 0x94, CHR '' ''] @ rule_guidance rid"
  let ?d = "'' times '' @ ?t @ '']''"
  let ?b = "'' blocked '' @ show_nat n @ ?d"
  have line: "sustained_line rid n = ''[sustained: rules='' @ rid @ ?b" by (simp add: sustained_line_def)
  have "str_chars (rid @ ?b) = str_chars rid @ str_chars ?b"
    by (rule str_chars_append_lead) (simp add: is_cont_def byte_of_def)
  moreover have "str_chars ?b = [CHR '' ''] # str_chars (tl ?b)"
    by (simp add: is_cont_def byte_of_def)
  moreover have "is_ws [CHR '' '']" by (simp add: is_ws_def byte_of_def)
  ultimately have "takeWhile (\<lambda>c. \<not> is_ws c) (str_chars (rid @ ?b)) = str_chars rid"
    using assms take_drop_While_append[of "\<lambda>c. \<not> is_ws c" "str_chars rid" "str_chars ?b"]
    by (simp add: rid_safe_def)
  then have rid: "concat (takeWhile (\<lambda>c. \<not> is_ws c) (str_chars (rid @ ?b))) = rid" by simp
  have digits: "takeWhile is_digit (show_nat n @ ?d) = show_nat n" "dropWhile is_digit (show_nat n @ ?d) = ?d"
    using take_drop_While_append[of is_digit "show_nat n" ?d] show_nat_digits[of n]
    by (auto simp: is_digit_def byte_of_def)
  have "bracketed '' times '' ?d"
    unfolding bracketed_append[of "'' times ''" ?t] using rule_guidance_safe[of rid] by simp
  with assms rid digits show ?thesis
    unfolding line is_sustained_line_def Let_def rid_safe_def by simp
qed

lemma is_goal_line_goal: "is_goal_line (goal_line g) \<longleftrightarrow> g \<noteq> [] \<and> CHR 0x0A \<notin> set g"
  unfolding is_goal_line_def goal_line_def by (rule bracketed_append)

lemma is_tool_stuck_line_stuck:
  assumes "CHR 0x0A \<notin> set tool"
  shows "is_tool_stuck_line (stuck_line tool n)"
proof -
  let ?x = "tool @ '' failed '' @ show_nat n @ '' times consecutively '' @ [CHR 0xE2, CHR 0x80, CHR 0x94]
     @ '' read the FULL error output; try smaller input or a different approach''"
  have line: "stuck_line tool n = ''[tool-stuck: '' @ ?x @ '']''" by (simp add: stuck_line_def)
  have "?x \<noteq> [] \<and> CHR 0x0A \<notin> set ?x" using assms show_nat_no_nl by simp
  then show ?thesis unfolding is_tool_stuck_line_def line bracketed_append .
qed

lemma not_sustained [simp]:
  "\<not> is_sustained_line (goal_line g)" "\<not> is_sustained_line (stuck_line tool n)"
  by (simp_all add: is_sustained_line_def goal_line_def stuck_line_def Let_def)

definition skipped :: "string \<Rightarrow> bool" where
  "skipped l =
     (let line = str_trim l
      in line = [] \<or> is_sustained_line line \<or> is_tool_stuck_line line \<or> is_goal_line line)"

text \<open>A line of the form \<open>[...]\<close> is its own trimmed form and can stand in the text.\<close>

lemma boxed_line:
  assumes "CHR 0x0A \<notin> set x"
  shows "str_trim (CHR ''['' # x @ '']'') = CHR ''['' # x @ '']''" "plain_line (CHR ''['' # x @ '']'')"
  using assms str_trim_enclosed[of "CHR ''[''" "CHR '']''" x] by (simp_all add: byte_of_def plain_line_def)

lemma goal_line_boxed:
  assumes "CHR 0x0A \<notin> set g"
  shows "str_trim (goal_line g) = goal_line g" "plain_line (goal_line g)"
  using boxed_line[of "''session-goal: '' @ g"] assms by (simp_all add: goal_line_def)

lemma sustained_line_boxed:
  assumes "rid_safe rid"
  shows "str_trim (sustained_line rid n) = sustained_line rid n" "plain_line (sustained_line rid n)"
  using boxed_line[of "''sustained: rules='' @ rid @ '' blocked '' @ show_nat n @ '' times ''
      @ [CHR 0xE2, CHR 0x80, CHR 0x94] @ '' '' @ rule_guidance rid"] assms rule_guidance_safe[of rid]
    show_nat_no_nl[of n]
  by (simp_all add: sustained_line_def rid_safe_def)

lemma stuck_line_boxed:
  assumes "CHR 0x0A \<notin> set tool"
  shows "str_trim (stuck_line tool n) = stuck_line tool n" "plain_line (stuck_line tool n)"
  using boxed_line[of "''tool-stuck: '' @ tool @ '' failed '' @ show_nat n @ '' times consecutively ''
      @ [CHR 0xE2, CHR 0x80, CHR 0x94]
      @ '' read the FULL error output; try smaller input or a different approach''"] assms
    show_nat_no_nl[of n]
  by (simp_all add: stuck_line_def)

section \<open>What the scan keeps\<close>

lemma scan_lines_unfold:
  "scan_lines below introduced acc (l # rest) =
     (if skipped l then scan_lines below introduced acc rest
      else (let (acc', introduced') =
              (case raw_line_rules (str_trim l) of
                 Some body \<Rightarrow>
                   (let rids = map str_trim (split_on (CHR '','') body)
                    in if list_ex (\<lambda>r. r \<in> set below \<and> r \<notin> set introduced) rids
                       then (acc @ [str_trim l], introduced @ rids)
                       else (acc, introduced))
               | None \<Rightarrow> (acc @ [str_trim l], introduced))
            in if MAX_BLOCK_RECORDS \<le> length acc' then acc'
               else scan_lines below introduced' acc' rest))"
  by (simp add: skipped_def Let_def)

lemma scan_lines_skip:
  "list_all skipped S \<Longrightarrow> scan_lines below introduced acc (S @ ls) = scan_lines below introduced acc ls"
  by (induction S) (simp_all add: scan_lines_unfold del: scan_lines.simps(2))

definition kept_line :: "string list \<Rightarrow> string \<Rightarrow> bool" where
  "kept_line ls k \<longleftrightarrow> \<not> skipped k \<and> str_trim k = k \<and> k \<in> str_trim ` set ls"

text \<open>The scan appends lines of the old text; run again on what it kept it keeps the same.\<close>

lemma scan_lines_kept:
  "\<exists>K. scan_lines below introduced acc ls = acc @ K \<and> list_all (kept_line ls) K
     \<and> (\<forall>S. list_all skipped S \<longrightarrow> scan_lines below introduced acc (K @ S) = acc @ K)"
proof (induction ls arbitrary: introduced acc)
  case Nil
  have "scan_lines below introduced acc S = acc" if "list_all skipped S" for S
    using scan_lines_skip[OF that, of below introduced acc "[]"] by simp
  then show ?case by simp
next
  case (Cons l ls)
  have weaken: "list_all (kept_line ls) K \<Longrightarrow> list_all (kept_line (l # ls)) K" for K
    by (auto simp: list_all_iff kept_line_def)
  show ?case
  proof (cases "skipped l")
    case True
    with Cons.IH[of introduced acc] weaken show ?thesis
      by (auto simp: scan_lines_unfold simp del: scan_lines.simps(2))
  next
    case False
    let ?k = "str_trim l"
    have k: "\<not> skipped ?k" "kept_line (l # ls) ?k"
      using False by (auto simp: skipped_def kept_line_def Let_def)
    define d where "d = (case raw_line_rules ?k of
                 Some body \<Rightarrow>
                   (let rids = map str_trim (split_on (CHR '','') body)
                    in if list_ex (\<lambda>r. r \<in> set below \<and> r \<notin> set introduced) rids
                       then (acc @ [?k], introduced @ rids) else (acc, introduced))
               | None \<Rightarrow> (acc @ [?k], introduced))"
    obtain acc' introduced' where d': "d = (acc', introduced')" by (cases d)
    have step: "scan_lines below introduced acc (l # rest) =
        (if MAX_BLOCK_RECORDS \<le> length acc' then acc' else scan_lines below introduced' acc' rest)"
      "scan_lines below introduced acc (?k # rest) =
        (if MAX_BLOCK_RECORDS \<le> length acc' then acc' else scan_lines below introduced' acc' rest)" for rest
      using False k(1)
      unfolding scan_lines_unfold str_trim_idem d_def[symmetric] d' by simp_all
    have cases: "(acc' = acc \<and> introduced' = introduced) \<or> acc' = acc @ [?k]"
      using d' by (auto simp: d_def Let_def split: option.splits if_splits)
    show ?thesis
    proof (cases "acc' = acc @ [?k]")
      case True
      show ?thesis
      proof (cases "MAX_BLOCK_RECORDS \<le> length acc'")
        case b: True
        with True k(2) step show ?thesis by (intro exI[of _ "[?k]"]) simp
      next
        case b: False
        from Cons.IH[of introduced' acc'] obtain K where
          K: "scan_lines below introduced' acc' ls = acc' @ K" "list_all (kept_line ls) K"
          "\<forall>S. list_all skipped S \<longrightarrow> scan_lines below introduced' acc' (K @ S) = acc' @ K" by blast
        with b True k(2) step weaken show ?thesis by (intro exI[of _ "?k # K"]) simp
      qed
    next
      case False
      with cases have eq: "acc' = acc" "introduced' = introduced" by auto
      have skip: "scan_lines below introduced acc S = acc" if "list_all skipped S" for S
        using scan_lines_skip[OF that, of below introduced acc "[]"] by simp
      from Cons.IH[of introduced acc] weaken step(1) eq skip show ?thesis
        by (cases "MAX_BLOCK_RECORDS \<le> length acc") auto
    qed
  qed
qed

lemma length_scan_lines:
  "length (scan_lines below introduced acc ls) \<le> max MAX_BLOCK_RECORDS (Suc (length acc))"
proof (induction ls arbitrary: introduced acc)
  case (Cons l ls)
  note IH = Cons.IH
  show ?case
  proof (cases "skipped l")
    case True
    with IH show ?thesis by (simp add: scan_lines_unfold del: scan_lines.simps(2))
  next
    case False
    define d where "d = (case raw_line_rules (str_trim l) of
                 Some body \<Rightarrow>
                   (let rids = map str_trim (split_on (CHR '','') body)
                    in if list_ex (\<lambda>r. r \<in> set below \<and> r \<notin> set introduced) rids
                       then (acc @ [str_trim l], introduced @ rids) else (acc, introduced))
               | None \<Rightarrow> (acc @ [str_trim l], introduced))"
    obtain acc' introduced' where d': "d = (acc', introduced')" by (cases d)
    have "length acc' \<le> Suc (length acc)"
      using d' by (auto simp: d_def Let_def split: option.splits if_splits)
    moreover have "scan_lines below introduced acc (l # ls) =
        (if MAX_BLOCK_RECORDS \<le> length acc' then acc' else scan_lines below introduced' acc' ls)"
      using False d' by (simp add: scan_lines_unfold d_def[symmetric] del: scan_lines.simps(2))
    ultimately show ?thesis using IH[of introduced' acc'] by auto
  qed
qed simp

lemma push_stuck_char:
  "push_stuck st ls = ls @ map (\<lambda>(t, n). stuck_line t n) (take (MAX_BLOCK_RECORDS - length ls) st)"
proof (induction st arbitrary: ls)
  case (Cons x st)
  obtain t n where x: "x = (t, n)" by (cases x)
  show ?case
  proof (cases "length ls < MAX_BLOCK_RECORDS")
    case True
    then obtain k where k: "MAX_BLOCK_RECORDS - length ls = Suc k" by (metis Suc_diff_Suc)
    then have "MAX_BLOCK_RECORDS - length (ls @ [stuck_line t n]) = k" by simp
    with Cons.IH[of "ls @ [stuck_line t n]"] True k x show ?thesis by (simp add: push_stuck_def)
  next
    case False
    have "foldl (\<lambda>ls (tool, n). if length ls < MAX_BLOCK_RECORDS then ls @ [stuck_line tool n] else ls) ls st = ls"
      using Cons.IH[of ls] False by (simp add: push_stuck_def)
    with False x show ?thesis by (simp add: push_stuck_def)
  qed
qed (simp add: push_stuck_def)

text \<open>What the text must not contain for its lines to be read back as they were written.\<close>

definition text_safe :: "plan \<Rightarrow> bool" where
  "text_safe p \<longleftrightarrow>
     (case goal p of None \<Rightarrow> True | Some g \<Rightarrow> g \<noteq> [] \<and> CHR 0x0A \<notin> set g)
     \<and> list_all rid_safe (hm_keys (block_counts p))
     \<and> list_all (\<lambda>tool. CHR 0x0A \<notin> set tool) (hm_keys (tool_error_counts p))"

text \<open>The three groups of lines of the rewritten text.\<close>

lemma refreshed_lines_groups:
  assumes "text_safe p"
  obtains K S where
    "refreshed_lines p = header_lines p @ K @ S"
    "list_all plain_line (header_lines p @ K @ S)"
    "list_all skipped (header_lines p)" "list_all skipped S" "list_all (\<lambda>k. \<not> skipped k \<and> str_trim k = k) K"
    "list_all (\<lambda>l. \<not> is_sustained_line l) S"
    "refreshed_lines (p\<lparr>plan_text := str_join nl (header_lines p @ K @ S), dirty := d\<rparr>) = header_lines p @ K @ S"
proof -
  let ?H = "header_lines p" and ?b = "below_threshold_rules p" and ?i = "sustained_rules p"
  from scan_lines_kept[of ?b ?i ?H "str_lines (plan_text p)"] obtain K where
    K: "scan_lines ?b ?i ?H (str_lines (plan_text p)) = ?H @ K"
    "list_all (kept_line (str_lines (plan_text p))) K"
    "\<And>S. list_all skipped S \<Longrightarrow> scan_lines ?b ?i ?H (K @ S) = ?H @ K" by blast
  define S where "S = map (\<lambda>(t, n). stuck_line t n) (take (MAX_BLOCK_RECORDS - length (?H @ K)) (stuck_tools p))"
  have lines: "refreshed_lines p = ?H @ K @ S"
    unfolding refreshed_lines_def K(1) push_stuck_char S_def by simp
  have rids: "rid_safe rid" if "rid \<in> set (sustained_rules p)" for rid
    using that assms by (auto simp: sustained_rules_def text_safe_def hm_keys_def list_all_iff)
  have tools: "CHR 0x0A \<notin> set t" if "(t, n) \<in> set (stuck_tools p)" for t n
    using that assms by (auto simp: stuck_tools_def text_safe_def hm_keys_def list_all_iff)
  have H: "str_trim l = l \<and> plain_line l \<and> (is_goal_line l \<or> is_sustained_line l)" if "l \<in> set ?H" for l
    using that assms rids
    by (auto simp: header_lines_def text_safe_def is_goal_line_goal goal_line_boxed
        sustained_line_boxed is_sustained_line_sustained split: option.splits)
  have S: "str_trim l = l \<and> plain_line l \<and> is_tool_stuck_line l \<and> \<not> is_sustained_line l"
    if "l \<in> set S" for l
    using that tools by (auto simp: S_def is_tool_stuck_line_stuck stuck_line_boxed dest!: in_set_takeD)
  have Kp: "plain_line k \<and> \<not> skipped k \<and> str_trim k = k" if "k \<in> set K" for k
  proof -
    from that K(2) have "kept_line (str_lines (plan_text p)) k" by (simp add: list_all_iff)
    then obtain l where l: "l \<in> set (str_lines (plan_text p))" "k = str_trim l" "str_trim k = k" "\<not> skipped k"
      by (auto simp: kept_line_def)
    have "k \<noteq> []" using l(3,4) by (auto simp: skipped_def Let_def)
    with l str_lines_no_nl[of "plan_text p"] set_str_trim[of l] str_trim_no_cr[of l] show ?thesis
      by (auto simp: plain_line_def)
  qed
  have sk: "list_all skipped ?H" "list_all skipped S"
    using H S by (auto simp: list_all_iff skipped_def Let_def)
  have pl: "list_all plain_line (?H @ K @ S)" using H S Kp by (auto simp: list_all_iff)
  let ?q = "p\<lparr>plan_text := str_join nl (?H @ K @ S), dirty := d\<rparr>"
  have eq: "header_lines ?q = ?H" "below_threshold_rules ?q = ?b" "sustained_rules ?q = ?i"
    "stuck_tools ?q = stuck_tools p"
    by (simp_all add: header_lines_def below_threshold_rules_def sustained_rules_def stuck_tools_def)
  have "scan_lines ?b ?i ?H (?H @ K @ S) = ?H @ K"
    using scan_lines_skip[OF sk(1)] K(3)[OF sk(2)] by simp
  then have "refreshed_lines ?q = ?H @ K @ S"
    unfolding refreshed_lines_def eq using str_lines_join[OF pl]
    by (simp add: push_stuck_char S_def)
  with lines pl sk Kp S show ?thesis by (intro that[of K S]) (auto simp: list_all_iff)
qed

lemma sustained_rules_props:
  assumes "plan_ok p"
  shows "sorted (sustained_rules p)" "distinct (sustained_rules p)"
    "rid \<in> set (sustained_rules p) \<longleftrightarrow> SUSTAINED_THRESHOLD \<le> length (ledger p rid)"
proof -
  show "sorted (sustained_rules p)" by (simp add: sustained_rules_def)
  have ok: "hm_ok (block_counts p)" using assms by (rule plan_okD)
  then show "distinct (sustained_rules p)"
    by (simp add: sustained_rules_def hm_ok_def distinct_map_filter)
  have "rid \<in> set (sustained_rules p) \<longleftrightarrow> (\<exists>n \<ge> SUSTAINED_THRESHOLD. hm_get (block_counts p) rid = Some n)"
    by (force simp: sustained_rules_def hm_get_Some_iff[OF ok])
  then show "rid \<in> set (sustained_rules p) \<longleftrightarrow> SUSTAINED_THRESHOLD \<le> length (ledger p rid)"
    by (auto simp: counts_ledger[OF assms] SUSTAINED_THRESHOLD_def split: if_splits)
qed

lemma hm_keys_prune:
  assumes "plan_ok p"
  shows "set (hm_keys (block_counts (snd (prune_window c p)))) \<subseteq> set (hm_keys (block_counts p))"
proof -
  have "ledger p rid \<noteq> []" if "ledger (snd (prune_window c p)) rid \<noteq> []" for rid
    using that by (auto simp: ledger_prune_window[OF assms] in_window_def split: option.splits)
  then show ?thesis
    using counts_ledger[OF assms] counts_ledger[OF plan_ok_prune_window[OF assms, of c]]
    by (auto simp: hm_keys_set dom_def split: if_splits)
qed

lemma text_safe_prune:
  assumes "plan_ok p" "text_safe p"
  shows "text_safe (snd (prune_window c p))"
  using assms(2) hm_keys_prune[OF assms(1), of c]
  by (auto simp: text_safe_def frame list_all_iff split: option.splits)

lemma stuck_tools_Nil_iff:
  "stuck_tools p = [] \<longleftrightarrow> \<not> list_ex (\<lambda>(name, n). TOOL_ERROR_THRESHOLD \<le> n) (tool_error_counts p)"
proof -
  have "stuck_tools p = [] \<longleftrightarrow> filter (\<lambda>(name, n). TOOL_ERROR_THRESHOLD \<le> n) (tool_error_counts p) = []"
    unfolding stuck_tools_def by (metis set_empty set_sort)
  then show ?thesis by (auto simp: filter_empty_conv list_ex_iff)
qed

lemma refresh_text_cases:
  obtains (quiet) "refresh c p = clear_dirty (snd (prune_window c p))"
      "block_counts (snd (prune_window c p)) = []" "plan_text p = []" "goal p = None"
      "stuck_tools p = []"
  | (rewritten) "refresh c p = clear_dirty ((snd (prune_window c p))
        \<lparr>plan_text := str_join nl (refreshed_lines (snd (prune_window c p)))\<rparr>)"
proof -
  let ?q = "snd (prune_window c p)"
  let ?early = "block_counts ?q = [] \<and> plan_text ?q = []
    \<and> \<not> list_ex (\<lambda>(name, n). TOOL_ERROR_THRESHOLD \<le> n) (tool_error_counts ?q) \<and> goal ?q = None"
  show ?thesis
  proof (cases ?early)
    case True
    then have "stuck_tools p = []" by (simp add: frame stuck_tools_Nil_iff)
    with True quiet show ?thesis by (simp add: refresh_def Let_def frame)
  next
    case False
    then show ?thesis by (intro rewritten) (simp only: refresh_def Let_def if_False)
  qed
qed

lemma prune_window_idem:
  assumes "plan_ok p"
  shows "snd (prune_window c (snd (prune_window c p))) = snd (prune_window c p)"
proof (cases "window p")
  case None
  then show ?thesis by (simp add: prune_window_def)
next
  case (Some w)
  let ?q = "snd (prune_window c p)"
  have ok: "plan_ok ?q" by (rule plan_ok_prune_window[OF assms])
  have wq: "window ?q = Some w" using Some by (simp add: frame)
  have all: "filter (survives w c) ts = ts \<and> ts \<noteq> []" if "(rid, ts) \<in> set (block_turns ?q)" for rid ts
  proof -
    from that have "hm_get (block_turns ?q) rid = Some ts"
      using hm_get_Some_iff[OF plan_okD(1)[OF ok]] by blast
    then show ?thesis
      using prune_window_turns[OF plan_okD(1)[OF assms] Some, of c rid]
      by (auto simp: Let_def split: option.splits if_splits)
  qed
  have kept: "map (\<lambda>(rid, turns). (rid, filter (survives w c) turns)) (block_turns ?q) = block_turns ?q"
    using all by (auto intro!: map_idI)
  have none: "filter (\<lambda>(rid, turns). turns = []) (block_turns ?q) = []"
    using all by (auto simp: filter_empty_conv)
  have counts: "fold (\<lambda>(rid, turns) c. if turns = [] then c else hm_put rid (length turns) c) xs (block_counts ?q)
      = block_counts ?q" if "set xs \<subseteq> set (block_turns ?q)" for xs
    using that
  proof (induction xs)
    case (Cons x xs)
    obtain rid ts where x: "x = (rid, ts)" by (cases x)
    with Cons.prems have "hm_get (block_turns ?q) rid = Some ts"
      using hm_get_Some_iff[OF plan_okD(1)[OF ok]] by auto
    then have "hm_get (block_counts ?q) rid = Some (length ts)"
      using plan_okD(5)[OF ok, of rid] by simp
    then have "hm_put rid (length ts) (block_counts ?q) = block_counts ?q"
      by (simp add: hm_put_def hm_get_def update_triv)
    with Cons x show ?case by simp
  qed simp
  show ?thesis
    unfolding prune_window_def[of c ?q] wq option.case Let_def kept none
    using counts[OF subset_refl] by simp
qed

lemma refresh_lines:
  assumes "plan_ok p" "text_safe p"
  obtains K S where
    "str_lines (plan_text (refresh c p)) = header_lines (snd (prune_window c p)) @ K @ S"
    "list_all (\<lambda>l. \<not> is_sustained_line l) (K @ S)"
    "list_all skipped (header_lines (snd (prune_window c p)))"
proof -
  let ?q = "snd (prune_window c p)"
  obtain K S where
    g: "refreshed_lines ?q = header_lines ?q @ K @ S" "list_all plain_line (header_lines ?q @ K @ S)"
      "list_all skipped (header_lines ?q)" "list_all skipped S" "list_all (\<lambda>k. \<not> skipped k \<and> str_trim k = k) K"
      "list_all (\<lambda>l. \<not> is_sustained_line l) S"
      "refreshed_lines (?q\<lparr>plan_text := str_join nl (header_lines ?q @ K @ S), dirty := False\<rparr>)
        = header_lines ?q @ K @ S"
    by (rule refreshed_lines_groups[OF text_safe_prune[OF assms, of c]])
  have K: "list_all (\<lambda>l. \<not> is_sustained_line l) K"
    using g(5) by (auto simp: list_all_iff skipped_def Let_def)
  show ?thesis
  proof (cases rule: refresh_text_cases[of c p])
    case quiet
    have "header_lines ?q = []" using quiet by (simp add: header_lines_def sustained_rules_def frame)
    with quiet show ?thesis by (intro that[of "[]" "[]"]) (simp_all add: clear_dirty_def frame)
  next
    case rewritten
    with g K show ?thesis
      by (intro that[of K S]) (simp_all add: clear_dirty_def str_lines_join del: list_all_append, simp)
  qed
qed

lemma length_refreshed_lines:
  "length (refreshed_lines p) \<le> max MAX_BLOCK_RECORDS (Suc (length (header_lines p)))"
  using length_scan_lines[of "below_threshold_rules p" "sustained_rules p" "header_lines p"
      "str_lines (plan_text p)"]
  by (auto simp: refreshed_lines_def push_stuck_char)

section \<open>Properties\<close>

text \<open>A plan with a goal and one rule that blocked three times.\<close>

definition demo_plan :: plan where
  "demo_plan = fold plan_exec
     [OpGoal ''ship it'', OpBlock 0 [''leak''], OpBlock 1 [''leak'', ''poem''], OpBlock 2 [''leak''],
      OpToolError ''Bash''] plan_default"

lemma demo_plan_ok: "plan_ok demo_plan"
proof -
  have "plan_default\<lparr>plan_text := [], window := None\<rparr> = plan_default" by (simp add: plan_default_def)
  then have "plan_ok plan_default" using plan_ok_default[of None "[]"] by simp
  then show ?thesis unfolding demo_plan_def using ledger_run by blast
qed

lemma demo_text_safe: "text_safe demo_plan"
  by code_simp

text \<open>
  C34. The plan implements its ledger. After any sequence of operations on a fresh plan, in either
  mode, each rule's list of turns is the one the specification \<open>ledger_step\<close> computes (blocks
  append, pruning and refreshing filter by the window, every other operation is invisible), and
  the published count of a rule is present exactly when the list is not empty, and is its
  length.
\<close>
theorem plan_ledger_refinement:
  "let p = fold plan_exec ops (plan_default\<lparr>plan_text := t, window := w\<rparr>);
       L = fold (ledger_step w) ops (\<lambda>rid. [])
   in ledger p = L
      \<and> (\<forall>rid. hm_get (block_counts p) rid = (if L rid = [] then None else Some (length (L rid))))"
proof -
  let ?p0 = "plan_default\<lparr>plan_text := t, window := w\<rparr>"
  have "ledger ?p0 = (\<lambda>rid. [])" by (simp add: ledger_def plan_default_def fun_eq_iff)
  with ledger_run[OF plan_ok_default[of w t], of ops]
  have "plan_ok (fold plan_exec ops ?p0)"
    "ledger (fold plan_exec ops ?p0) = fold (ledger_step w) ops (\<lambda>rid. [])" by simp_all
  with counts_ledger show ?thesis by (simp add: Let_def)
qed

text \<open>
  After a refresh the text carries one guidance line for each rule with at least three
  blocks inside the window, in sorted order and with the exact count, and no other
  sustained-guidance line: a rule whose blocks aged out loses its line, and no stale line of the
  old text survives.
\<close>
theorem refresh_sustained_exact:
  assumes "plan_ok p" "text_safe p"
  shows "\<exists>rs. sorted rs \<and> distinct rs
    \<and> (\<forall>rid. rid \<in> set rs \<longleftrightarrow> SUSTAINED_THRESHOLD \<le> length (in_window (window p) c (ledger p rid)))
    \<and> filter is_sustained_line (str_lines (plan_text (refresh c p)))
        = map (\<lambda>rid. sustained_line rid (length (in_window (window p) c (ledger p rid)))) rs"
proof -
  let ?q = "snd (prune_window c p)"
  have ok: "plan_ok ?q" by (rule plan_ok_prune_window[OF assms(1)])
  have L: "ledger ?q rid = in_window (window p) c (ledger p rid)" for rid
    by (rule ledger_prune_window[OF assms(1)])
  have safe: "rid_safe rid" if "rid \<in> set (sustained_rules ?q)" for rid
    using that text_safe_prune[OF assms, of c]
    by (auto simp: sustained_rules_def text_safe_def hm_keys_def list_all_iff)
  from refresh_lines[OF assms, of c] obtain K S where
    t: "str_lines (plan_text (refresh c p)) = header_lines ?q @ K @ S"
      "list_all (\<lambda>l. \<not> is_sustained_line l) (K @ S)" by metis
  have "filter is_sustained_line (K @ S) = []"
    using t(2) by (auto simp: list_all_iff filter_empty_conv)
  moreover have "filter is_sustained_line (header_lines ?q)
      = map (\<lambda>rid. sustained_line rid (length (ledger ?q rid))) (sustained_rules ?q)"
    using safe sustained_rules_props(3)[OF ok]
    by (auto simp: header_lines_def filter_map filter_id_conv is_sustained_line_sustained
        counts_ledger[OF ok] SUSTAINED_THRESHOLD_def split: option.splits)
  ultimately show ?thesis
    using sustained_rules_props[OF ok] unfolding t(1) L
    by (intro exI[of _ "sustained_rules ?q"]) simp
qed

lemma refresh_sustained_exact_witness:
  "\<exists>rs. ''leak'' \<in> set rs \<and> filter is_sustained_line (str_lines (plan_text (refresh 2 demo_plan)))
     = map (\<lambda>rid. sustained_line rid (length (in_window None 2 (ledger demo_plan rid)))) rs"
proof -
  have "window demo_plan = None" "SUSTAINED_THRESHOLD \<le> length (in_window None 2 (ledger demo_plan ''leak''))"
    by code_simp+
  with refresh_sustained_exact[OF demo_plan_ok demo_text_safe, of 2] show ?thesis by auto
qed

text \<open>
  Refreshing is idempotent for a fixed turn: a second refresh changes nothing, neither the
  text nor the maps, for a plan whose goal is a non-empty single line and whose rule ids have no
  white space.
\<close>
theorem refresh_idempotent:
  assumes "plan_ok p" "text_safe p"
  shows "refresh c (refresh c p) = refresh c p"
proof -
  let ?q = "snd (prune_window c p)"
  have prune: "snd (prune_window c (?q\<lparr>plan_text := t, dirty := d\<rparr>)) = ?q\<lparr>plan_text := t, dirty := d\<rparr>" for t d
  proof -
    have "snd (prune_window c (p'\<lparr>plan_text := t, dirty := d\<rparr>))
        = (snd (prune_window c p'))\<lparr>plan_text := t, dirty := d\<rparr>" for p'
      by (simp add: prune_window_def Let_def split: option.splits)
    then show ?thesis using prune_window_idem[OF assms(1)] by simp
  qed
  define H where "H = refreshed_lines ?q"
  have H: "refreshed_lines (?q\<lparr>plan_text := str_join nl H, dirty := False\<rparr>) = H"
    by (rule refreshed_lines_groups[OF text_safe_prune[OF assms, of c], where d = False])
      (simp only: H_def)
  show ?thesis
  proof (cases rule: refresh_text_cases[of c p])
    case quiet
    then have r: "refresh c p = ?q\<lparr>plan_text := [], dirty := False\<rparr>"
      by (simp add: clear_dirty_def frame)
    have "\<not> list_ex (\<lambda>(name, n). TOOL_ERROR_THRESHOLD \<le> n) (tool_error_counts p)"
      using quiet(5) by (simp add: stuck_tools_Nil_iff)
    then show ?thesis
      unfolding r refresh_def[of c "_\<lparr>plan_text := _, dirty := _\<rparr>"] prune Let_def
      using quiet by (simp add: clear_dirty_def frame)
  next
    case rewritten
    then have r: "refresh c p = ?q\<lparr>plan_text := str_join nl H, dirty := False\<rparr>"
      by (simp add: clear_dirty_def H_def)
    show ?thesis
      unfolding r refresh_def[of c "_\<lparr>plan_text := _, dirty := _\<rparr>"] prune Let_def
      using H by (simp add: clear_dirty_def)
  qed
qed

lemma refresh_idempotent_witness: "refresh 2 (refresh 2 demo_plan) = refresh 2 demo_plan"
  by (rule refresh_idempotent[OF demo_plan_ok demo_text_safe])

lemma block_line_plain:
  assumes "list_all (\<lambda>rid. CHR 0x0A \<notin> set rid) ids"
  shows "plain_line (block_line t ids)"
proof -
  have no_nl: "CHR 0x0A \<notin> set (str_join '','' ks)" if "\<forall>k \<in> set ks. CHR 0x0A \<notin> set k" for ks
    using that by (induction "'',''" ks rule: str_join.induct) auto
  have "\<forall>k \<in> set (counter_keys ids). CHR 0x0A \<notin> set k"
    using assms by (auto simp: counter_keys_def Let_def list_all_iff)
  from no_nl[OF this] show ?thesis
    using boxed_line(2)[of "''turn '' @ show_nat t @ '' blocked: rules='' @ str_join '','' (counter_keys ids)"]
      show_nat_no_nl[of t] by (simp add: block_line_def)
qed

lemma length_str_lines_join:
  "list_all (\<lambda>l. CHR 0x0A \<notin> set l) ls \<Longrightarrow> length (str_lines (str_join nl ls)) \<le> length ls"
proof (induction nl ls rule: str_join.induct)
  case (2 x)
  then show ?case by (cases "x = []") (simp_all add: str_lines_single)
next
  case (3 x y ys)
  then show ?case by (simp add: nl_def str_lines_append)
qed simp

lemma str_lines_join_first:
  "plain_line l \<Longrightarrow> \<exists>xs. str_lines (str_join nl (l # ls)) = l # xs"
  by (cases ls) (auto simp: nl_def str_lines_append strip_cr_plain plain_line_def str_lines_single strip_cr_def)

text \<open>
  The text stays small. Recording a block puts its line first and leaves at most ten lines.
  A refresh leaves at most ten lines as long as the goal and the sustained rules take fewer than
  ten; beyond that it keeps all of those and adds at most one line more.
\<close>
theorem plan_text_bounds:
  assumes "plan_ok p" "text_safe p" "list_all (\<lambda>rid. CHR 0x0A \<notin> set rid) ids"
  shows "length (str_lines (plan_text (record_block t ids p))) \<le> MAX_BLOCK_RECORDS
    \<and> hd (str_lines (plan_text (record_block t ids p))) = block_line t ids
    \<and> length (str_lines (plan_text (refresh c p)))
        \<le> max MAX_BLOCK_RECORDS (Suc (length (header_lines (snd (prune_window c p)))))"
proof (intro conjI)
  let ?old = "filter (\<lambda>l. str_trim l \<noteq> []) (str_lines (plan_text p))"
  have tx: "plan_text (record_block t ids p) = str_join nl (block_line t ids # take 9 ?old)"
    by (simp add: record_block_def Let_def MAX_BLOCK_RECORDS_def)
  have "list_all (\<lambda>l. CHR 0x0A \<notin> set l) (block_line t ids # take 9 ?old)"
    using block_line_plain[OF assms(3), of t] str_lines_no_nl[of "plan_text p"]
    by (auto simp: list_all_iff plain_line_def dest: in_set_takeD)
  from length_str_lines_join[OF this]
  show "length (str_lines (plan_text (record_block t ids p))) \<le> MAX_BLOCK_RECORDS"
    unfolding tx by (simp add: MAX_BLOCK_RECORDS_def)
  show "hd (str_lines (plan_text (record_block t ids p))) = block_line t ids"
    using str_lines_join_first[OF block_line_plain[OF assms(3), of t], of "take 9 ?old"]
    unfolding tx by auto
  let ?q = "snd (prune_window c p)"
  show "length (str_lines (plan_text (refresh c p))) \<le> max MAX_BLOCK_RECORDS (Suc (length (header_lines ?q)))"
  proof (cases rule: refresh_text_cases[of c p])
    case rewritten
    obtain K S where "refreshed_lines ?q = header_lines ?q @ K @ S" "list_all plain_line (header_lines ?q @ K @ S)"
      by (rule refreshed_lines_groups[OF text_safe_prune[OF assms(1,2), of c]])
    then have "list_all plain_line (refreshed_lines ?q)" by (simp del: list_all_append)
    with rewritten length_refreshed_lines[of ?q] show ?thesis
      by (simp add: clear_dirty_def str_lines_join)
  qed (simp add: clear_dirty_def frame)
qed

lemma plan_text_bounds_witness: "length (str_lines (plan_text (record_block 4 [''leak''] demo_plan))) \<le> 10"
  using plan_text_bounds[OF demo_plan_ok demo_text_safe, of "[''leak'']" 4 0]
  by (simp add: MAX_BLOCK_RECORDS_def)

text \<open>
  The cap does not hold unconditionally: the header lines are always kept. And an empty goal
  breaks idempotence: its line is not recognised as stale and is kept beside the new one.
\<close>

lemma refresh_keeps_header:
  "take (length (header_lines p)) (refreshed_lines p) = header_lines p"
  using scan_lines_kept[of "below_threshold_rules p" "sustained_rules p" "header_lines p" "str_lines (plan_text p)"]
  by (auto simp: refreshed_lines_def push_stuck_char)

lemma refresh_empty_goal_accumulates:
  "length (str_lines (plan_text (refresh 0 (set_goal [] plan_default)))) = 1"
  "length (str_lines (plan_text (refresh 0 (refresh 0 (set_goal [] plan_default))))) = 2"
  by code_simp+

end
