(* ===== verification/Perm.thy ===== *)
theory Perm
  imports Prelude
begin

text \<open>
  The permission modes and the third-party gate of \<open>crates/aether-perm/src/lib.rs\<close>. The
  decisions per mode are in the executor.
\<close>

datatype permission_mode = Default_mode | AcceptEdits | Plan_mode | BypassPermissions

datatype decision = Allow_decision | Deny_decision string | Ask_decision | RefuseMutate

datatype third_party_stage = Searched | Suggested | UserOptedIn

definition allow_third_party :: "third_party_stage \<Rightarrow> bool \<Rightarrow> bool" where
  "allow_third_party stage user_named_tool = (stage = UserOptedIn \<or> user_named_tool)"

lemma allow_third_party_iff:
  "\<not> allow_third_party stage named \<longleftrightarrow> stage \<in> {Searched, Suggested} \<and> \<not> named"
  by (cases stage) (simp_all add: allow_third_party_def)

end
