(* ===== verification/Context.thy ===== *)
theory Context
  imports Hook Overlay Llm Perm
begin

text \<open>
  The context assembler of \<open>crates/aether-core/src/context.rs\<close>: conversation items, their
  translation to wire messages, the assembly of the system prompt, and the pairing guard
  \<open>sanitize_tool_pairing\<close> that runs on every outgoing request; and the configuration record
  \<open>SessionConfig\<close> of \<open>lib.rs\<close> the assembler reads.
\<close>

section \<open>Conversation items\<close>

record recorded_tool_use =
  rtu_id :: string
  rtu_name :: string
  rtu_input :: json

record recorded_tool_result =
  rtr_id :: string
  rtr_content :: string
  rtr_error :: bool

datatype conversation_item =
    User_item string
  | Assistant_item "string option" "recorded_tool_use list"
  | ToolResults_item "recorded_tool_result list"

record session_config =
  cfg_model :: string
  permission_mode :: permission_mode
  max_tokens_per_turn :: nat
  thinking_budget :: "nat option"
  temperature :: "rat option"
  tools_disabled_turns :: nat
  system_suffix :: "string option"
  max_tool_calls_per_turn :: nat

definition session_config_default :: session_config where
  "session_config_default =
     \<lparr>cfg_model = ''claude-opus-4-7'', permission_mode = Default_mode, max_tokens_per_turn = 8192,
      thinking_budget = None, temperature = None, tools_disabled_turns = 0, system_suffix = None,
      max_tool_calls_per_turn = 20\<rparr>"

section \<open>The system prompt\<close>

definition KERNEL_SYSTEM_PROMPT :: string where
  "KERNEL_SYSTEM_PROMPT = concat (map (\<lambda>l. l @ nl) [
      ''You are AetherCode, an agentic CLI built to surpass Claude Code in speed ''
      @ ''and capability.'',
      [],
      ''## ACTION-FIRST LAW (highest priority '' @ [CHR 0xE2, CHR 0x80, CHR 0x94]
      @ '' non-negotiable)'',
      ''When the user asks about files, directories, code, project structure, or ''
      @ ''anything'',
      ''that requires filesystem or shell knowledge:'',
      ''1. IMMEDIATELY run the appropriate tool (Bash/Read/Glob/Grep/Edit/Write).'',
      ''2. NEVER ask the user what path or directory to use. The cwd is always '' @ ''known.'',
      ''3. If location is unclear: run '' @ [CHR 0x60] @ ''pwd && ls'' @ [CHR 0x60] @ '' or ''
      @ [CHR 0x60] @ ''git ls-files'' @ [CHR 0x60] @ '' first, then answer.'',
      ''4. Asking '' @ [CHR 0x27] @ ''what path?'' @ [CHR 0x27] @ '', '' @ [CHR 0x27]
      @ ''which directory?'' @ [CHR 0x27] @ '', or '' @ [CHR 0x27] @ ''which project?''
      @ [CHR 0x27] @ '' is FORBIDDEN when'',
      ''you have tools '' @ [CHR 0xE2, CHR 0x80, CHR 0x94]
      @ '' it means you have not tried yet. Try first, ask never.'',
      ''5. If asked to '' @ [CHR 0x27] @ ''list files'' @ [CHR 0x27] @ '', '' @ [CHR 0x27]
      @ ''show structure'' @ [CHR 0x27] @ '', or '' @ [CHR 0x27] @ ''inventory the project''
      @ [CHR 0x27] @ '': run'',
      [CHR 0x60] @ ''git ls-files'' @ [CHR 0x60] @ '' or '' @ [CHR 0x60] @ ''find . -not -path ''
      @ [CHR 0x27] @ ''./.git/*'' @ [CHR 0x27] @ '' | head -100'' @ [CHR 0x60]
      @ '' immediately.'',
      [],
      ''## ASSUMPTION-FIRST LAW (for ambiguous but reversible requests)'',
      ''When a requested fix/change is ambiguous but REVERSIBLE:'',
      ''1. Pick the most reasonable default and DO IT '' @ [CHR 0xE2, CHR 0x80, CHR 0x94]
      @ '' do not stop to ask.'',
      ''2. Label the choice ASSUMED in your reply so the user can override it.'',
      ''3. Ask first ONLY when a wrong guess destroys data, costs money, or'',
      ''touches production systems.'',
      ''4. Never end a turn with only clarifying questions when a labeled'',
      ''default action was possible.'',
      [],
      ''## DISCIPLINE LAWS'',
      ''TRUTH '' @ [CHR 0xE2, CHR 0x80, CHR 0x94] @ '' banned phrases: '' @ [CHR 0x27]
      @ ''should work'' @ [CHR 0x27] @ '', '' @ [CHR 0x27] @ ''probably'' @ [CHR 0x27] @ '', ''
      @ [CHR 0x27] @ ''likely fixed'' @ [CHR 0x27] @ '', '' @ [CHR 0x27] @ ''seems fine''
      @ [CHR 0x27] @ ''.'',
      ''Label unverified claims as UNVERIFIED. Verify before claiming.'',
      ''Prefer specialized tools (Glob/Grep/Read/Edit/Write) over Bash where one '' @ ''fits.'',
      ''Do not narrate what you are about to do '' @ [CHR 0xE2, CHR 0x80, CHR 0x94]
      @ '' execute it, then report what you found.'',
      [],
      ''## TOOL COMPOSITION PATTERNS'',
      [CHR 0xE2, CHR 0x80, CHR 0xA2]
      @ '' Explore before edit: Read/Grep the file BEFORE writing changes. Never ''
      @ ''guess content.'',
      [CHR 0xE2, CHR 0x80, CHR 0xA2]
      @ '' Verify after write: after Edit/Write, confirm the change with Read or run ''
      @ ''the test.'',
      [CHR 0xE2, CHR 0x80, CHR 0xA2] @ '' Build '' @ [CHR 0xE2, CHR 0x86, CHR 0x92] @ '' test ''
      @ [CHR 0xE2, CHR 0x86, CHR 0x92]
      @ '' commit cycle: always run the build and tests before claiming success.'',
      [CHR 0xE2, CHR 0x80, CHR 0xA2]
      @ '' Parallel reads: when you need content from N independent files, call them ''
      @ ''all at once.'',
      [CHR 0xE2, CHR 0x80, CHR 0xA2]
      @ '' Search narrow, not wide: Grep with specific patterns rather than reading ''
      @ ''whole files.'',
      [],
      ''## ERROR RECOVERY'',
      ''When a Bash command fails (non-zero exit):'',
      ''1. Read the FULL stderr output '' @ [CHR 0xE2, CHR 0x80, CHR 0x94]
      @ '' the error is there, not in the first line.'',
      ''2. For build failures: search for '' @ [CHR 0x27] @ ''error['' @ [CHR 0x27]
      @ '' in output; identify the file and line.'',
      ''3. For test failures: find '' @ [CHR 0x27] @ ''FAILED'' @ [CHR 0x27]
      @ '' lines; read the test file before guessing a fix.'',
      ''4. If a fix attempt doesn'' @ [CHR 0x27]
      @ ''t work after 2 tries, re-read the source and rethink.'',
      ''5. Never claim '' @ [CHR 0x27] @ ''it should work now'' @ [CHR 0x27]
      @ '' without actually running the verification.'',
      [],
      ''## CONTEXT MANAGEMENT'',
      [CHR 0xE2, CHR 0x80, CHR 0xA2]
      @ '' If the user mentions a large file (>500 lines): read in chunks ''
      @ ''(offset/limit).'',
      [CHR 0xE2, CHR 0x80, CHR 0xA2]
      @ '' If open-ended search requires >3 Grep/Glob calls: dispatch a sub-agent ''
      @ ''instead.'',
      [CHR 0xE2, CHR 0x80, CHR 0xA2]
      @ '' When the conversation turns exceed ~40 or context feels crowded: suggest ''
      @ ''/compact.'',
      [CHR 0xE2, CHR 0x80, CHR 0xA2]
      @ '' Use MemoryWrite to persist important findings between turns; MemoryRead to ''
      @ ''recall.''])"

definition LONG_CONV_DIGEST :: string where
  "LONG_CONV_DIGEST = concat (map (\<lambda>l. l @ nl) [
      ''[long-conversation kernel digest]'',
      ''Re-anchor on the original mission. Do not drop the active plan during ''
      @ ''compaction.'',
      ''Banned truth phrases: '' @ [CHR 0x27] @ ''should work'' @ [CHR 0x27] @ '', ''
      @ [CHR 0x27] @ ''probably'' @ [CHR 0x27] @ '', '' @ [CHR 0x27] @ ''likely fixed''
      @ [CHR 0x27] @ '', '' @ [CHR 0x27] @ ''seems fine'' @ [CHR 0x27] @ ''.'',
      ''Dispatch sub-agents when open-ended search exceeds ~3 likely queries.'',
      ''After a tool error, read the FULL error output before attempting a fix.'',
      ''Use MemoryWrite to preserve key findings across compaction boundaries.''])"

record assembly_telemetry =
  reminders_admitted :: nat
  reminders_dropped :: nat
  long_conv_injected :: bool
  d1_active :: bool
  plan_included :: bool

definition plan_section :: "string option \<Rightarrow> string" where
  "plan_section plan_text =
     (case plan_text of
        None \<Rightarrow> []
      | Some plan \<Rightarrow>
          (let trimmed = str_trim plan
           in if trimmed = [] then [] else nl @ ''<active-plan>'' @ nl @ trimmed @ nl @ ''</active-plan>'' @ nl))"

definition reminder_section :: "reminder \<Rightarrow> string" where
  "reminder_section r = nl @ ''<system-reminder>'' @ rem_body r @ ''</system-reminder>''"

definition persona_section :: "string option \<Rightarrow> string" where
  "persona_section sfx =
     (case sfx of
        None \<Rightarrow> []
      | Some s \<Rightarrow>
          if str_trim s = [] then []
          else nl @ nl @ ''<user-persona>'' @ nl @ str_trim s @ nl @ ''</user-persona>'')"

section \<open>User content\<close>

definition IMAGE_SENTINEL_PREFIX :: string where
  "IMAGE_SENTINEL_PREFIX = ''@@IMAGE:''"

definition IMAGE_SENTINEL_SUFFIX :: string where
  "IMAGE_SENTINEL_SUFFIX = ''@@''"

function decode_loop :: "string \<Rightarrow> content_block list" where
  "decode_loop remaining =
     (case str_find IMAGE_SENTINEL_PREFIX remaining of
        None \<Rightarrow> if remaining = [] then [] else [Text remaining]
      | Some pos \<Rightarrow>
          (let before = take pos remaining;
               pre = (if before = [] then [] else [Text before]);
               after_prefix = drop (pos + length IMAGE_SENTINEL_PREFIX) remaining
           in case str_find IMAGE_SENTINEL_SUFFIX after_prefix of
                None \<Rightarrow> pre @ [Text (drop pos remaining)]
              | Some close \<Rightarrow>
                  (let payload = take close after_prefix
                   in pre
                      @ (case str_find '':'' payload of
                           Some colon \<Rightarrow>
                             [Image (image_base64 (take colon payload) (drop (colon + 1) payload))]
                         | None \<Rightarrow> [])
                      @ decode_loop (drop (close + length IMAGE_SENTINEL_SUFFIX) after_prefix))))"
  by pat_completeness auto
termination
proof (relation "measure length", goal_cases)
  case (2 remaining pos before pre after_prefix close payload)
  from str_find_Some[OF 2(1)] have "8 \<le> length remaining"
    by (simp add: IMAGE_SENTINEL_PREFIX_def)
  with 2(4) show ?case by (auto simp: IMAGE_SENTINEL_PREFIX_def)
qed simp

declare decode_loop.simps [simp del]

definition decode_user_content :: "string \<Rightarrow> content_block list" where
  "decode_user_content txt =
     (if \<not> str_contains IMAGE_SENTINEL_PREFIX txt then [Text txt]
      else (let blocks = decode_loop txt in if blocks = [] then [Text txt] else blocks))"

section \<open>Messages from history\<close>

definition use_block :: "recorded_tool_use \<Rightarrow> content_block" where
  "use_block tu = ToolUse (rtu_id tu) (rtu_name tu) (rtu_input tu)"

definition result_block :: "recorded_tool_result \<Rightarrow> content_block" where
  "result_block r = ToolResult (rtr_id r) (rtr_content r) (rtr_error r)"

fun translate_item :: "conversation_item \<Rightarrow> message" where
  "translate_item (User_item t) = \<lparr>msg_role = User_role, msg_content = decode_user_content t\<rparr>"
| "translate_item (Assistant_item t tus) =
     \<lparr>msg_role = Assistant_role,
      msg_content = (case t of None \<Rightarrow> [] | Some t \<Rightarrow> [Text t]) @ map use_block tus\<rparr>"
| "translate_item (ToolResults_item rs) =
     \<lparr>msg_role = User_role, msg_content = map result_block rs\<rparr>"

definition translate_history :: "conversation_item list \<Rightarrow> message list" where
  "translate_history items = map translate_item items"

section \<open>Assembly\<close>

text \<open>Which reminders enter the prompt, with the telemetry counts.\<close>

definition admit_reminders ::
  "(string \<Rightarrow> string \<Rightarrow> bool) \<Rightarrow> kernel_rules \<Rightarrow> bool \<Rightarrow> reminder list \<Rightarrow> reminder list \<times> nat \<times> nat" where
  "admit_reminders rx kr on candidates =
     (if on then
        (let kept = fst (pipeline_admit_all rx candidates (new_pipeline kr))
         in (kept, length kept, length candidates - length kept))
      else (candidates, length candidates, 0))"

definition build_context ::
  "(string \<Rightarrow> string \<Rightarrow> bool) \<Rightarrow> kernel_rules \<Rightarrow> conversation_item list \<Rightarrow> session_config \<Rightarrow>
   overlay_config \<Rightarrow> activation_ctx \<Rightarrow> reminder list \<Rightarrow> tool_def list \<Rightarrow> string option \<Rightarrow>
   messages_request \<times> assembly_telemetry" where
  "build_context rx kr history config overlay ctx candidates tools plan_text =
     (let on1 = should_activate overlay D1ReminderTamperTest ctx;
          on6 = should_activate overlay D6LongConversation ctx;
          (admitted, n_admitted, n_dropped) = admit_reminders rx kr on1 candidates;
          system = KERNEL_SYSTEM_PROMPT @ plan_section plan_text
            @ concat (map reminder_section admitted)
            @ (if on6 then nl @ LONG_CONV_DIGEST else [])
            @ persona_section (system_suffix config)
      in (\<lparr>rq_model = cfg_model config, rq_system = Some system,
           rq_messages = translate_history history, rq_max_tokens = max_tokens_per_turn config,
           rq_tools = tools, rq_stream = False, rq_thinking = None, rq_temperature = None\<rparr>,
          \<lparr>reminders_admitted = n_admitted, reminders_dropped = n_dropped,
           long_conv_injected = on6, d1_active = on1, plan_included = (plan_section plan_text \<noteq> [])\<rparr>))"

section \<open>The pairing guard\<close>

definition orphan_note :: "string \<Rightarrow> nat \<Rightarrow> string" where
  "orphan_note i k =
     ''dropped orphan tool_result '' @ [CHR 0x60] @ i @ [CHR 0x60] @ '' at message '' @ show_nat k
     @ '' (no matching tool_use in the previous message)''"

definition missing_note :: "string \<Rightarrow> nat \<Rightarrow> string" where
  "missing_note i k =
     ''synthesized missing tool_result for unanswered tool_use '' @ [CHR 0x60] @ i @ [CHR 0x60]
     @ '' at message '' @ show_nat k"

definition removed_text :: string where
  "removed_text = ''[unpaired tool results removed by the pre-flight repair]''"

definition synthesized_text :: string where
  "synthesized_text =
     ''(tool result missing '' @ [CHR 0xE2, CHR 0x80, CHR 0x94]
     @ '' synthesized by the pre-flight repair; the tool call did not produce a recorded result)''"

definition keeps :: "string list \<Rightarrow> content_block \<Rightarrow> bool" where
  "keeps prev_ids b = (case b of ToolResult i c e \<Rightarrow> i \<in> set prev_ids | _ \<Rightarrow> True)"

text \<open>One message of the first pass: its repairs and what is left of it.\<close>

definition retain_paired :: "nat \<Rightarrow> string list \<Rightarrow> message \<Rightarrow> string list \<times> message" where
  "retain_paired k prev_ids m =
     (let content = filter (keeps prev_ids) (msg_content m);
          notes = map (\<lambda>i. orphan_note i k)
                    (filter (\<lambda>i. i \<notin> set prev_ids) (result_ids (msg_content m)))
      in (notes,
          m\<lparr>msg_content := (if msg_content m \<noteq> [] \<and> content = [] then [Text removed_text] else content)\<rparr>))"

fun drop_orphans :: "nat \<Rightarrow> string list \<Rightarrow> message list \<Rightarrow> string list \<times> message list" where
  "drop_orphans k prev_ids [] = ([], [])"
| "drop_orphans k prev_ids (m # ms) =
     (let (notes, m') = retain_paired k prev_ids m;
          (notes', ms') = drop_orphans (Suc k) (use_ids (msg_content m')) ms
      in (notes @ notes', m' # ms'))"

definition pending_ids :: "message \<Rightarrow> string list" where
  "pending_ids m = (if msg_role m = Assistant_role then use_ids (msg_content m) else [])"

definition answered_ids :: "message list \<Rightarrow> string list" where
  "answered_ids ms = (case ms of [] \<Rightarrow> [] | m # _ \<Rightarrow> result_ids (msg_content m))"

definition synthesize :: "string \<Rightarrow> content_block" where
  "synthesize i = ToolResult i synthesized_text True"

text \<open>The messages after the one with missing results: extended, or with a new one in front.\<close>

fun supply_results :: "content_block list \<Rightarrow> message list \<Rightarrow> message list" where
  "supply_results synth [] = [\<lparr>msg_role = User_role, msg_content = synth\<rparr>]"
| "supply_results synth (m # ms) =
     (if result_ids (msg_content m) \<noteq> [] then m\<lparr>msg_content := msg_content m @ synth\<rparr> # ms
      else \<lparr>msg_role = User_role, msg_content = synth\<rparr> # m # ms)"

fun msg_weight :: "message \<Rightarrow> nat" where
  "msg_weight m = (if msg_role m = Assistant_role then 3 else 1)"

function answer_uses :: "nat \<Rightarrow> message list \<Rightarrow> string list \<times> message list" where
  "answer_uses k [] = ([], [])"
| "answer_uses k (m # ms) =
     (let missing = filter (\<lambda>i. i \<notin> set (answered_ids ms)) (pending_ids m);
          ms1 = (if missing = [] then ms else supply_results (map synthesize missing) ms);
          (notes, ms') = answer_uses (Suc k) ms1
      in (map (\<lambda>i. missing_note i k) missing @ notes, m # ms'))"
  by pat_completeness auto
termination
proof (relation "measure (\<lambda>(k, ms). sum_list (map msg_weight ms))", goal_cases)
  case (2 k m ms missing ms1)
  show ?case
  proof (cases "missing = []")
    case False
    then have "msg_role m = Assistant_role" using 2(1) by (auto simp: pending_ids_def split: if_splits)
    then have w: "msg_weight m = 3" by simp
    have "sum_list (map msg_weight (supply_results (map synthesize missing) ms))
        \<le> 1 + sum_list (map msg_weight ms)"
      by (cases ms) auto
    with w show ?thesis using False 2(2) by (simp del: msg_weight.simps)
  qed (use 2(2) in auto)
qed simp

declare answer_uses.simps(2) [simp del]

definition sanitize_tool_pairing :: "message list \<Rightarrow> string list \<times> message list" where
  "sanitize_tool_pairing messages =
     (let (notes1, ms1) = drop_orphans 0 [] messages;
          (notes2, ms2) = answer_uses 0 ms1
      in (notes1 @ notes2, ms2))"

section \<open>Balanced threads\<close>

text \<open>What the provider accepts: no orphan result, no unanswered use.\<close>

fun no_orphans :: "string list \<Rightarrow> message list \<Rightarrow> bool" where
  "no_orphans prev_ids [] = True"
| "no_orphans prev_ids (m # ms) =
     (set (result_ids (msg_content m)) \<subseteq> set prev_ids \<and> no_orphans (use_ids (msg_content m)) ms)"

fun all_answered :: "message list \<Rightarrow> bool" where
  "all_answered [] = True"
| "all_answered (m # ms) = (set (pending_ids m) \<subseteq> set (answered_ids ms) \<and> all_answered ms)"

definition balanced :: "message list \<Rightarrow> bool" where
  "balanced ms = (no_orphans [] ms \<and> all_answered ms)"

lemma result_ids_filter_keeps:
  "set (result_ids (filter (keeps ids) bs)) = set (result_ids bs) \<inter> set ids"
  by (induction bs) (auto simp: keeps_def split: content_block.splits)

lemma use_ids_filter_keeps: "use_ids (filter (keeps ids) bs) = use_ids bs"
  by (induction bs) (auto simp: keeps_def split: content_block.splits)

lemma filter_keeps_id: "set (result_ids bs) \<subseteq> set ids \<Longrightarrow> filter (keeps ids) bs = bs"
  by (induction bs) (auto simp: keeps_def split: content_block.splits)

lemma retain_paired_facts:
  assumes "retain_paired k ids m = (notes, m')"
  shows "set (result_ids (msg_content m')) \<subseteq> set ids" "use_ids (msg_content m') = use_ids (msg_content m)"
    "msg_role m' = msg_role m" "(msg_content m' = []) = (msg_content m = [])"
proof -
  let ?c = "filter (keeps ids) (msg_content m)"
  have m': "m' = m\<lparr>msg_content := (if msg_content m \<noteq> [] \<and> ?c = [] then [Text removed_text] else ?c)\<rparr>"
    using assms by (simp add: retain_paired_def Let_def)
  then show "msg_role m' = msg_role m" by simp
  show "set (result_ids (msg_content m')) \<subseteq> set ids"
    unfolding m' using result_ids_filter_keeps[of ids "msg_content m"] by auto
  show "use_ids (msg_content m') = use_ids (msg_content m)"
    unfolding m' using use_ids_filter_keeps[of ids "msg_content m"] by auto
  show "(msg_content m' = []) = (msg_content m = [])" unfolding m' by auto
qed

lemma drop_orphans_no_orphans: "no_orphans ids (snd (drop_orphans k ids ms))"
proof (induction k ids ms rule: drop_orphans.induct)
  case (2 k ids m ms)
  obtain ns m' where r: "retain_paired k ids m = (ns, m')" by fastforce
  from 2[OF r[symmetric] refl] retain_paired_facts(1)[OF r] show ?case
    by (simp add: r case_prod_beta)
qed simp

lemma retain_paired_id:
  "set (result_ids (msg_content m)) \<subseteq> set ids \<Longrightarrow> retain_paired k ids m = ([], m)"
  by (auto simp: retain_paired_def Let_def filter_keeps_id filter_empty_conv)

lemma drop_orphans_id: "no_orphans ids ms \<Longrightarrow> drop_orphans k ids ms = ([], ms)"
  by (induction ids ms arbitrary: k rule: no_orphans.induct) (simp_all add: retain_paired_id)

lemma answer_uses_id: "all_answered ms \<Longrightarrow> answer_uses k ms = ([], ms)"
proof (induction ms arbitrary: k)
  case (Cons m ms)
  then have "filter (\<lambda>i. i \<notin> set (answered_ids ms)) (pending_ids m) = []"
    by (auto simp: filter_empty_conv)
  with Cons show ?case unfolding answer_uses.simps by (simp add: Let_def)
qed simp

lemma result_ids_synthesize [simp]: "result_ids (map synthesize ids) = ids"
  by (induction ids) (simp_all add: synthesize_def)

lemma use_ids_synthesize [simp]: "use_ids (map synthesize ids) = []"
  by (induction ids) (simp_all add: synthesize_def)

lemma supply_results_facts:
  assumes "no_orphans (use_ids (msg_content m)) ms" "missing \<noteq> []" "set missing \<subseteq> set (use_ids (msg_content m))"
  shows "no_orphans (use_ids (msg_content m)) (supply_results (map synthesize missing) ms)"
    "set (answered_ids ms) \<union> set missing \<subseteq> set (answered_ids (supply_results (map synthesize missing) ms))"
  using assms by (cases ms; force simp: answered_ids_def)+

text \<open>The first message of the second pass is never changed, only what follows it.\<close>

lemma answer_uses_hd: "answered_ids (snd (answer_uses k ms)) = answered_ids ms"
  by (cases ms) (simp_all add: answered_ids_def answer_uses.simps Let_def case_prod_beta)

lemma answer_uses_balanced:
  "no_orphans ids ms \<Longrightarrow>
     no_orphans ids (snd (answer_uses k ms)) \<and> all_answered (snd (answer_uses k ms))"
proof (induction k ms arbitrary: ids rule: answer_uses.induct)
  case (2 k m ms)
  define missing where "missing = filter (\<lambda>i. i \<notin> set (answered_ids ms)) (pending_ids m)"
  define ms1 where "ms1 = (if missing = [] then ms else supply_results (map synthesize missing) ms)"
  have sub: "set missing \<subseteq> set (use_ids (msg_content m))"
    by (auto simp: missing_def pending_ids_def split: if_splits)
  from "2.prems" have no: "no_orphans (use_ids (msg_content m)) ms" by simp
  have 1: "no_orphans (use_ids (msg_content m)) ms1"
    using supply_results_facts(1)[OF no _ sub] no by (simp add: ms1_def)
  have 2: "set (pending_ids m) \<subseteq> set (answered_ids ms1)"
    using supply_results_facts(2)[OF no _ sub]
    by (auto simp: ms1_def missing_def filter_empty_conv)
  have eq: "snd (answer_uses k (m # ms)) = m # snd (answer_uses (Suc k) ms1)"
    unfolding answer_uses.simps missing_def[symmetric] ms1_def[symmetric] Let_def
    by (simp add: case_prod_beta)
  from "2.IH"[OF missing_def ms1_def 1] 2 "2.prems" show ?case
    unfolding eq by (simp add: answer_uses_hd)
qed simp

lemma sanitize_balanced: "balanced (snd (sanitize_tool_pairing ms))"
proof -
  obtain n1 ms1 where d: "drop_orphans 0 [] ms = (n1, ms1)" by fastforce
  obtain n2 ms2 where a: "answer_uses 0 ms1 = (n2, ms2)" by fastforce
  from drop_orphans_no_orphans[of "[]" 0 ms] d have "no_orphans [] ms1" by simp
  from answer_uses_balanced[OF this, of 0] a have "balanced ms2" by (simp add: balanced_def)
  with d a show ?thesis by (simp add: sanitize_tool_pairing_def)
qed

lemma sanitize_id: "balanced ms \<Longrightarrow> sanitize_tool_pairing ms = ([], ms)"
  by (simp add: balanced_def sanitize_tool_pairing_def drop_orphans_id answer_uses_id)

lemma retain_paired_notes_Nil:
  "retain_paired k ids m = ([], m') \<Longrightarrow> set (result_ids (msg_content m)) \<subseteq> set ids \<and> m' = m"
proof -
  assume r: "retain_paired k ids m = ([], m')"
  then have sub: "set (result_ids (msg_content m)) \<subseteq> set ids"
    by (auto simp: retain_paired_def Let_def filter_empty_conv)
  from retain_paired_id[OF this, of k] r sub show ?thesis by simp
qed

lemma drop_orphans_notes_Nil: "fst (drop_orphans k ids ms) = [] \<Longrightarrow> no_orphans ids ms"
proof (induction k ids ms rule: drop_orphans.induct)
  case (2 k ids m ms)
  obtain ns m' where r: "retain_paired k ids m = (ns, m')" by fastforce
  from "2.prems" r have ns: "ns = []" by (auto simp: case_prod_beta)
  from retain_paired_notes_Nil[of k ids m m'] r ns have e: "m' = m" "set (result_ids (msg_content m)) \<subseteq> set ids"
    by auto
  from "2.prems" r have "fst (drop_orphans (Suc k) (use_ids (msg_content m')) ms) = []"
    by (auto simp: case_prod_beta)
  from "2.IH"[OF r[symmetric] refl this] e show ?case by simp
qed simp

lemma answer_uses_notes_Nil: "fst (answer_uses k ms) = [] \<Longrightarrow> all_answered ms"
proof (induction ms arbitrary: k)
  case (Cons m ms)
  then have miss: "filter (\<lambda>i. i \<notin> set (answered_ids ms)) (pending_ids m) = []"
    by (auto simp: answer_uses.simps Let_def case_prod_beta)
  with Cons.prems have "fst (answer_uses (Suc k) ms) = []"
    by (simp add: answer_uses.simps Let_def case_prod_beta)
  from Cons.IH[OF this] miss show ?case by (auto simp: filter_empty_conv)
qed simp

lemma sanitize_notes_Nil_iff: "fst (sanitize_tool_pairing ms) = [] \<longleftrightarrow> balanced ms"
proof
  assume n: "fst (sanitize_tool_pairing ms) = []"
  then have d: "fst (drop_orphans 0 [] ms) = []"
    by (auto simp: sanitize_tool_pairing_def case_prod_beta)
  then have no: "no_orphans [] ms" by (rule drop_orphans_notes_Nil)
  with n have "fst (answer_uses 0 ms) = []"
    by (simp add: sanitize_tool_pairing_def drop_orphans_id case_prod_beta)
  with no answer_uses_notes_Nil show "balanced ms" by (auto simp: balanced_def)
qed (simp add: sanitize_id)

text \<open>The blocks the guard must not touch.\<close>

definition is_other :: "content_block \<Rightarrow> bool" where
  "is_other b = (case b of ToolResult i c e \<Rightarrow> False | _ \<Rightarrow> True)"

definition other_blocks :: "message list \<Rightarrow> content_block list" where
  "other_blocks ms =
     concat (map (\<lambda>m. filter is_other (msg_content m)) ms)"

lemma other_blocks_simps [simp]:
  "other_blocks [] = []"
  "other_blocks (m # ms) = filter is_other (msg_content m) @ other_blocks ms"
  by (simp_all add: other_blocks_def)

lemma others_keeps:
  "filter is_other (filter (keeps ids) bs)
     = filter is_other bs"
  by (induction bs) (auto simp: keeps_def is_other_def split: content_block.splits)

lemma others_synthesize [simp]:
  "filter is_other (map synthesize ids) = []"
  by (induction ids) (simp_all add: synthesize_def is_other_def)

lemma drop_orphans_others: "subseq (other_blocks ms) (other_blocks (snd (drop_orphans k ids ms)))"
proof (induction k ids ms rule: drop_orphans.induct)
  case (2 k ids m ms)
  obtain ns m' where r: "retain_paired k ids m = (ns, m')" by fastforce
  let ?c = "filter (keeps ids) (msg_content m)"
  have "msg_content m' = (if msg_content m \<noteq> [] \<and> ?c = [] then [Text removed_text] else ?c)"
    using r by (auto simp: retain_paired_def Let_def)
  moreover have "filter is_other (msg_content m) = filter is_other ?c" by (rule others_keeps[symmetric])
  ultimately have "subseq (filter is_other (msg_content m)) (filter is_other (msg_content m'))"
    by (cases "?c = []") (simp_all del: filter_filter)
  with "2.IH"[OF r[symmetric] refl] show ?case
    by (simp add: r case_prod_beta list_emb_append_mono)
qed simp

lemma answer_uses_others: "other_blocks (snd (answer_uses k ms)) = other_blocks ms"
proof (induction k ms rule: answer_uses.induct)
  case (2 k m ms)
  define missing where "missing = filter (\<lambda>i. i \<notin> set (answered_ids ms)) (pending_ids m)"
  define ms1 where "ms1 = (if missing = [] then ms else supply_results (map synthesize missing) ms)"
  have eq: "snd (answer_uses k (m # ms)) = m # snd (answer_uses (Suc k) ms1)"
    unfolding answer_uses.simps missing_def[symmetric] ms1_def[symmetric] Let_def
    by (simp add: case_prod_beta)
  have "other_blocks ms1 = other_blocks ms" by (cases ms) (auto simp: ms1_def)
  with "2.IH"[OF missing_def ms1_def] show ?case unfolding eq by simp
qed simp

section \<open>Paired histories\<close>

text \<open>
  The discipline of the agent loop: an assistant item with tool uses is followed at once by the
  results of exactly these uses, in order, and results occur nowhere else.
\<close>

fun paired :: "conversation_item list \<Rightarrow> bool" where
  "paired [] = True"
| "paired (User_item t # h) = paired h"
| "paired (ToolResults_item rs # h) = False"
| "paired (Assistant_item t us # h) =
     (if us = [] then paired h
      else (case h of
              ToolResults_item rs # h' \<Rightarrow> map rtr_id rs = map rtu_id us \<and> paired h'
            | _ \<Rightarrow> False))"

lemma sentinel_nonempty [simp]: "IMAGE_SENTINEL_PREFIX \<noteq> []" "IMAGE_SENTINEL_SUFFIX \<noteq> []"
  by (simp_all add: IMAGE_SENTINEL_PREFIX_def IMAGE_SENTINEL_SUFFIX_def)

lemma decode_loop_blocks:
  "b \<in> set (decode_loop s) \<Longrightarrow> (\<exists>t. b = Text t) \<or> (\<exists>i. b = Image i)"
proof (induction s arbitrary: b rule: decode_loop.induct)
  case (1 s)
  from "1.prems" show ?case
    by (subst (asm) decode_loop.simps)
      (auto simp: Let_def split: option.splits if_splits dest: "1.IH"[OF _ refl refl refl _ refl])
qed

lemma decode_user_content_blocks:
  "b \<in> set (decode_user_content s) \<Longrightarrow> (\<exists>t. b = Text t) \<or> (\<exists>i. b = Image i)"
  by (auto simp: decode_user_content_def Let_def split: if_splits dest: decode_loop_blocks)

lemma decode_user_content_nonempty [simp]: "decode_user_content s \<noteq> []"
  by (simp add: decode_user_content_def Let_def)

lemma decode_no_tools [simp]:
  "result_ids (decode_user_content s) = []" "use_ids (decode_user_content s) = []"
proof -
  have "result_ids bs = [] \<and> use_ids bs = []"
    if "\<And>b. b \<in> set bs \<Longrightarrow> (\<exists>t. b = Text t) \<or> (\<exists>i. b = Image i)" for bs
    using that by (induction bs) force+
  from this[OF decode_user_content_blocks]
  show "result_ids (decode_user_content s) = []" "use_ids (decode_user_content s) = []" by auto
qed

lemma use_block_ids [simp]:
  "use_ids (map use_block us) = map rtu_id us" "result_ids (map use_block us) = []"
  by (induction us) (simp_all add: use_block_def)

lemma result_block_ids [simp]:
  "result_ids (map result_block rs) = map rtr_id rs" "use_ids (map result_block rs) = []"
  by (induction rs) (simp_all add: result_block_def)

lemma translate_item_ids [simp]:
  "use_ids (msg_content (translate_item (Assistant_item t us))) = map rtu_id us"
  "result_ids (msg_content (translate_item (Assistant_item t us))) = []"
  by (auto split: option.splits)

lemma paired_balanced_aux:
  "paired h \<Longrightarrow> no_orphans ids (translate_history h) \<and> all_answered (translate_history h)"
proof (induction h arbitrary: ids rule: paired.induct)
  case (4 t us h)
  show ?case
  proof (cases "us = []")
    case True
    with 4 show ?thesis
      by (simp add: translate_history_def pending_ids_def del: translate_item.simps)
  next
    case False
    with "4.prems" obtain rs h' where h: "h = ToolResults_item rs # h'" "map rtr_id rs = map rtu_id us" "paired h'"
      by (auto split: list.splits conversation_item.splits)
    from "4.IH"(2)[OF False h(1) refl h(3)] h(2)
    show ?thesis
      by (simp add: h(1) translate_history_def pending_ids_def answered_ids_def split: option.splits)
  qed
qed (simp_all add: translate_history_def pending_ids_def)

lemma paired_balanced: "paired h \<Longrightarrow> balanced (translate_history h)"
  by (simp add: balanced_def paired_balanced_aux)

lemma paired_append: "paired h \<Longrightarrow> paired h' \<Longrightarrow> paired (h @ h')"
proof (induction h rule: paired.induct)
  case (4 t us h)
  show ?case
  proof (cases "us = []")
    case False
    with "4.prems" obtain rs h1 where h: "h = ToolResults_item rs # h1" "map rtr_id rs = map rtu_id us" "paired h1"
      by (auto split: list.splits conversation_item.splits)
    with "4.IH"(2)[OF False h(1) refl h(3)] "4.prems" False show ?thesis by simp
  qed (use 4 in simp)
qed auto

lemma paired_drop:
  "paired h \<Longrightarrow> c < length h \<Longrightarrow> \<forall>rs. h ! c \<noteq> ToolResults_item rs \<Longrightarrow> paired (drop c h)"
proof (induction h arbitrary: c rule: paired.induct)
  case (2 t h)
  then show ?case by (cases c) auto
next
  case (4 t us h)
  show ?case
  proof (cases c)
    case 0
    with 4 show ?thesis by simp
  next
    case (Suc d)
    show ?thesis
    proof (cases "us = []")
      case True
      with 4 Suc show ?thesis by simp
    next
      case False
      with "4.prems" obtain rs h' where h: "h = ToolResults_item rs # h'" "paired h'"
        by (auto split: list.splits conversation_item.splits)
      with "4.prems" Suc obtain e where e: "d = Suc e" by (cases d) auto
      from "4.IH"(2)[OF False h(1) refl h(2), of e] "4.prems" show ?thesis
        by (simp add: Suc e h(1))
    qed
  qed
qed auto

section \<open>Encoding images\<close>

text \<open>
  The front end's side of the in-band image protocol: pieces of text, each followed by an image,
  and a tail.
\<close>

fun encode_content :: "(string \<times> string \<times> string) list \<Rightarrow> string \<Rightarrow> string" where
  "encode_content [] tail = tail"
| "encode_content ((t, mt, d) # ps) tail =
     t @ IMAGE_SENTINEL_PREFIX @ mt @ '':'' @ d @ IMAGE_SENTINEL_SUFFIX @ encode_content ps tail"

definition text_block :: "string \<Rightarrow> content_block list" where
  "text_block t = (if t = [] then [] else [Text t])"

fun content_of :: "(string \<times> string \<times> string) list \<Rightarrow> string \<Rightarrow> content_block list" where
  "content_of [] tail = text_block tail"
| "content_of ((t, mt, d) # ps) tail = text_block t @ [Image (image_base64 mt d)] @ content_of ps tail"

definition part_safe :: "string \<times> string \<times> string \<Rightarrow> bool" where
  "part_safe p = (case p of (t, mt, d) \<Rightarrow>
     CHR ''@'' \<notin> set t \<and> CHR ''@'' \<notin> set mt \<and> CHR '':'' \<notin> set mt \<and> CHR ''@'' \<notin> set d)"

lemma str_find_at: "x \<notin> set a \<Longrightarrow> str_find (x # n) (a @ (x # n) @ r) = Some (length a)"
  by (induction a) auto

lemma str_find_absent: "x \<notin> set s \<Longrightarrow> str_find (x # n) s = None"
  by (induction s) auto

lemma decode_loop_encode:
  "list_all part_safe ps \<Longrightarrow> CHR ''@'' \<notin> set tail \<Longrightarrow> decode_loop (encode_content ps tail) = content_of ps tail"
proof (induction ps tail rule: encode_content.induct)
  case (1 tail)
  then show ?case
    by (simp add: decode_loop.simps IMAGE_SENTINEL_PREFIX_def str_find_absent text_block_def)
next
  case (2 t mt d ps tail)
  let ?rest = "encode_content ps tail"
  let ?after = "(mt @ '':'' @ d) @ IMAGE_SENTINEL_SUFFIX @ ?rest"
  from "2.prems" have at: "CHR ''@'' \<notin> set t" "CHR ''@'' \<notin> set (mt @ '':'' @ d)" "CHR '':'' \<notin> set mt"
    by (simp_all add: part_safe_def)
  have enc: "encode_content ((t, mt, d) # ps) tail = t @ IMAGE_SENTINEL_PREFIX @ ?after" by simp
  have f1: "str_find IMAGE_SENTINEL_PREFIX (t @ IMAGE_SENTINEL_PREFIX @ ?after) = Some (length t)"
    using str_find_at[OF at(1), of "''@IMAGE:''" ?after] by (simp only: IMAGE_SENTINEL_PREFIX_def)
  have f2: "str_find IMAGE_SENTINEL_SUFFIX ?after = Some (length (mt @ '':'' @ d))"
    using str_find_at[OF at(2), of "''@''" ?rest] by (simp only: IMAGE_SENTINEL_SUFFIX_def)
  have f3: "str_find '':'' (mt @ '':'' @ d) = Some (length mt)"
    using str_find_at[OF at(3), of "[]" d] by simp
  have drop1: "drop (length t + length IMAGE_SENTINEL_PREFIX) (t @ IMAGE_SENTINEL_PREFIX @ ?after) = ?after"
    by (metis append.assoc append_eq_conv_conj length_append)
  have drop2: "drop (length (mt @ '':'' @ d) + length IMAGE_SENTINEL_SUFFIX) ?after = ?rest"
    by (metis append.assoc append_eq_conv_conj length_append)
  have take2: "take (length (mt @ '':'' @ d)) ?after = mt @ '':'' @ d"
    by (rule append_eq_conv_conj[THEN iffD1, THEN conjunct1, symmetric]) simp
  have "decode_loop ?rest = content_of ps tail" using 2 by simp
  then show ?case
    unfolding enc decode_loop.simps[of "t @ _"] f1 option.case Let_def drop1 f2 drop2 take2 f3
    by (simp add: text_block_def)
qed

lemma content_of_nonempty: "ps \<noteq> [] \<Longrightarrow> content_of ps tail \<noteq> []"
  by (cases ps) auto

section \<open>Properties\<close>

text \<open>
  C2. The pairing guard always hands out a thread the provider accepts: every tool result answers
  a use of the message before it, and every use of an assistant message is answered by the next
  message. It reports a repair exactly when the thread was not balanced, a second run has
  nothing left to repair, and no block other than a tool result is ever lost or reordered.
\<close>
theorem sanitize_repairs:
  "balanced (snd (sanitize_tool_pairing ms))
   \<and> (fst (sanitize_tool_pairing ms) = [] \<longleftrightarrow> balanced ms)
   \<and> sanitize_tool_pairing (snd (sanitize_tool_pairing ms)) = ([], snd (sanitize_tool_pairing ms))
   \<and> subseq (other_blocks ms) (other_blocks (snd (sanitize_tool_pairing ms)))"
proof (intro conjI)
  show "balanced (snd (sanitize_tool_pairing ms))" by (rule sanitize_balanced)
  then show "sanitize_tool_pairing (snd (sanitize_tool_pairing ms)) = ([], snd (sanitize_tool_pairing ms))"
    by (rule sanitize_id)
  show "fst (sanitize_tool_pairing ms) = [] \<longleftrightarrow> balanced ms" by (rule sanitize_notes_Nil_iff)
  show "subseq (other_blocks ms) (other_blocks (snd (sanitize_tool_pairing ms)))"
    using drop_orphans_others[of ms 0 "[]"]
    by (simp add: sanitize_tool_pairing_def case_prod_beta answer_uses_others)
qed

text \<open>
  C39. The image protocol round trips: a user text that interleaves pieces of text with encoded
  images decodes to exactly these pieces and images, in order, for pieces without an at sign and
  media types without a colon.
\<close>
theorem decode_encode_content:
  assumes "list_all part_safe ps" "CHR ''@'' \<notin> set tail" "ps \<noteq> []"
  shows "decode_user_content (encode_content ps tail) = content_of ps tail"
proof -
  obtain t mt d qs where ps: "ps = (t, mt, d) # qs" using assms(3) by (cases ps) auto
  have "str_contains IMAGE_SENTINEL_PREFIX (encode_content ps tail)"
    unfolding ps encode_content.simps str_contains_iff by (rule sublist_appendI)
  with decode_loop_encode[OF assms(1,2)] content_of_nonempty[OF assms(3)] show ?thesis
    by (simp add: decode_user_content_def)
qed

lemma decode_encode_content_witness:
  "decode_user_content (encode_content [(''see '', ''image/png'', ''QUJD'')] ''?'')
     = [Text ''see '', Image (image_base64 ''image/png'' ''QUJD''), Text ''?'']"
  using decode_encode_content[of "[(''see '', ''image/png'', ''QUJD'')]" "''?''"]
  by (simp add: part_safe_def text_block_def)

lemma kernel_section_in_system:
  assumes "r \<in> set candidates" "rem_source r = Kernel" "str_trim (rem_body r) \<noteq> []"
    and "build_context rx kr history config overlay ctx candidates tools plan_text = (req, tele)"
  shows "\<exists>system. rq_system req = Some system \<and> str_contains (reminder_section r) system"
proof -
  define on where "on = should_activate overlay D1ReminderTamperTest ctx"
  obtain admitted n d where adm: "admit_reminders rx kr on candidates = (admitted, n, d)"
    by (metis prod_cases3)
  have "\<exists>a \<in> set admitted. rem_body a = rem_body r"
  proof (cases on)
    case True
    with adm have "admitted = fst (gate_all (pipeline_admit rx) candidates (new_pipeline kr))"
      by (auto simp: admit_reminders_def pipeline_admit_all_gate Let_def)
    with hook.gate_all_kernel[OF assms(1-3), of rx "new_pipeline kr"] show ?thesis by simp
  next
    case False
    with adm assms(1) show ?thesis by (auto simp: admit_reminders_def)
  qed
  then obtain a as1 as2 where a: "admitted = as1 @ a # as2" "rem_body a = rem_body r"
    by (metis split_list)
  then have "reminder_section a = reminder_section r" by (simp add: reminder_section_def)
  then have "sublist (reminder_section r) (concat (map reminder_section admitted))"
    unfolding a(1) by (simp add: sublist_appendI)
  then have sub: "str_contains (reminder_section r) (pre @ concat (map reminder_section admitted) @ post)" for pre post
    using str_contains_append str_contains_iff by blast
  from assms(4) adm have "rq_system req = Some ((KERNEL_SYSTEM_PROMPT @ plan_section plan_text)
      @ concat (map reminder_section admitted)
      @ ((if should_activate overlay D6LongConversation ctx then nl @ LONG_CONV_DIGEST else [])
         @ persona_section (system_suffix config)))"
    unfolding build_context_def Let_def on_def[symmetric] adm by auto
  with sub show ?thesis by blast
qed

text \<open>
  A kernel reminder with a non-blank body always reaches the model: whatever the overlay,
  the activation context and the other candidates are, its element is part of the system prompt
  the assembler builds.
\<close>
theorem kernel_reminder_reaches_prompt:
  assumes "r \<in> set candidates" "rem_source r = Kernel" "str_trim (rem_body r) \<noteq> []"
    and "build_context rx kr history config overlay ctx candidates tools plan_text = (req, tele)"
  shows "\<exists>system. rq_system req = Some system \<and> str_contains (reminder_section r) system"
  by (rule kernel_section_in_system[OF assms])

definition quiet_ctx :: activation_ctx where
  "quiet_ctx =
     \<lparr>ac_turn_index = 0, ac_ctx_size_ratio = 0, ac_plan_active = False, ac_task_expected_hours = 0,
      ac_verifier_flagged = False, ac_tool_metadata_third_party = False, ac_memory_write_attempted = False,
      ac_user_requests_memory_change = False, ac_output_contains_quoted_text = False,
      ac_output_contains_external_claim = False, ac_persona_refusal_active = False\<rparr>"

lemma kernel_reminder_reaches_prompt_witness:
  "let r = new_reminder SystemWarning Kernel ''stop'' in
   \<exists>system. rq_system (fst (build_context (\<lambda>_ _. True) kernel_rules_default [] session_config_default
      overlay_config_default quiet_ctx [r] [] None)) = Some system \<and> str_contains (reminder_section r) system"
proof -
  let ?r = "new_reminder SystemWarning Kernel ''stop''"
  have "str_trim (rem_body ?r) \<noteq> []" by code_simp
  then show ?thesis
    using kernel_reminder_reaches_prompt[of ?r "[?r]", OF _ _ _ surjective_pairing]
    by (simp add: Let_def new_reminder_def)
qed

text \<open>
  A history that keeps the discipline of the agent loop needs no repair: its translation is
  balanced, so the guard reports nothing and the messages go out as they are.
\<close>
theorem paired_history_needs_no_repair:
  assumes "paired h"
  shows "sanitize_tool_pairing (translate_history h) = ([], translate_history h)"
  by (rule sanitize_id[OF paired_balanced[OF assms]])

lemma paired_history_needs_no_repair_witness:
  "let h = [User_item ''hi'',
            Assistant_item None [\<lparr>rtu_id = ''u1'', rtu_name = ''Read'', rtu_input = JNull\<rparr>],
            ToolResults_item [\<lparr>rtr_id = ''u1'', rtr_content = ''text'', rtr_error = False\<rparr>]]
   in sanitize_tool_pairing (translate_history h) = ([], translate_history h)"
  unfolding Let_def by (rule paired_history_needs_no_repair) simp

end
