(* ===== verification/Executor.thy ===== *)
theory Executor
  imports Context
begin

text \<open>
  The executor of \<open>crates/aether-core/src/executor.rs\<close> and the tool registry of
  \<open>crates/aether-tools/src/lib.rs\<close>. Tools, prompter, hooks and the streaming callback are
  functions on a world of type \<open>'w\<close>. One tool call is three atomic segments (before the tool,
  the tool, after it), because \<open>join_all\<close> interleaves the calls of a parallel batch only where
  they wait for a tool; the interleaving of a batch is a schedule the environment chooses.
\<close>

section \<open>Tools\<close>

datatype tool_error =
    UnknownTool string | SchemaViolation string | PermissionDenied string | IoError string

fun show_tool_error :: "tool_error \<Rightarrow> string" where
  "show_tool_error (UnknownTool s) = ''unknown tool: '' @ s"
| "show_tool_error (SchemaViolation s) = ''schema violation: '' @ s"
| "show_tool_error (PermissionDenied s) = ''permission denied: '' @ s"
| "show_tool_error (IoError s) = ''io: '' @ s"

record 'w tool =
  tool_name :: string
  tool_description :: string
  tool_input_schema :: json
  tool_run :: "json \<Rightarrow> 'w \<Rightarrow> (tool_error, string) result \<times> 'w"
  tool_streaming :: bool
  tool_run_streamed ::
    "json \<Rightarrow> (string \<Rightarrow> 'w \<Rightarrow> 'w) \<Rightarrow> 'w \<Rightarrow> (tool_error, string) result \<times> 'w"

definition default_run_streamed ::
  "(json \<Rightarrow> 'w \<Rightarrow> (tool_error, string) result \<times> 'w) \<Rightarrow>
   json \<Rightarrow> (string \<Rightarrow> 'w \<Rightarrow> 'w) \<Rightarrow> 'w \<Rightarrow> (tool_error, string) result \<times> 'w" where
  "default_run_streamed call input sink w = call input w"

type_synonym 'w tool_registry = "(string, 'w tool) hmap"

definition register :: "'w tool \<Rightarrow> 'w tool_registry \<Rightarrow> 'w tool_registry" where
  "register t reg = hm_put (tool_name t) t reg"

definition registry_get :: "'w tool_registry \<Rightarrow> string \<Rightarrow> 'w tool option" where
  "registry_get reg name = hm_get reg name"

definition registry_names :: "'w tool_registry \<Rightarrow> string list" where
  "registry_names reg = hm_keys reg"

lemma registry_get_register:
  "registry_get (register t reg) n = (if n = tool_name t then Some t else registry_get reg n)"
  by (simp add: registry_get_def register_def hm.get_put)

section \<open>Static decisions\<close>

datatype permission_outcome = Allowed | Refused string

definition is_mutating :: "string \<Rightarrow> bool" where
  "is_mutating n =
     (n \<in> set [''Write'', ''Edit'', ''NotebookEdit'', ''Bash'', ''WebFetch'', ''WebSearch'', ''MemoryWrite''])"

definition is_file_mutator :: "string \<Rightarrow> bool" where
  "is_file_mutator n = (n \<in> set [''Write'', ''Edit'', ''NotebookEdit''])"

definition is_parallel_safe :: "string \<Rightarrow> bool" where
  "is_parallel_safe n =
     (n \<in> set [''Read'', ''Glob'', ''Grep'', ''MemoryRead'', ''WebFetch'', ''WebSearch''])"

definition SAFE_BASH_BINARIES :: "string list" where
  "SAFE_BASH_BINARIES =
     [''cat'', ''ls'', ''head'', ''tail'', ''wc'', ''stat'', ''file'', ''echo'', ''pwd'',
      ''which'', ''type'', ''du'', ''df'', ''ps'', ''env'', ''printenv'', ''uname'',
      ''date'', ''id'', ''whoami'', ''hostname'', ''uptime'', ''diff'', ''sort'',
      ''uniq'', ''cut'', ''tr'', ''basename'', ''dirname'', ''realpath'', ''readlink'',
      ''grep'', ''rg'']"

definition SHELL_SIDE_EFFECT_CHARS :: "char list" where
  "SHELL_SIDE_EFFECT_CHARS = [CHR ''>'', CHR ''|'', CHR '';'', CHR 0x60, CHR ''&'', CHR 0x0A]"

text \<open>\<open>s.rsplit('/').next()\<close>: what follows the last slash.\<close>

definition after_last_slash :: "string \<Rightarrow> string" where
  "after_last_slash s = rev (takeWhile (\<lambda>c. c \<noteq> CHR ''/'') (rev s))"

definition bash_command_is_readonly :: "json \<Rightarrow> bool" where
  "bash_command_is_readonly input =
     (case Option.bind (json_get input ''command'') json_as_str of
        None \<Rightarrow> False
      | Some s \<Rightarrow>
          (let cmd = str_trim s in
           if list_ex (\<lambda>c. c \<in> set SHELL_SIDE_EFFECT_CHARS) cmd then False
           else if str_contains ''$('' cmd then False
           else after_last_slash (first_ascii_word cmd) \<in> set SAFE_BASH_BINARIES))"

definition can_run_parallel :: "string \<Rightarrow> json \<Rightarrow> bool" where
  "can_run_parallel n input =
     (is_parallel_safe n \<or> (n = ''Bash'' \<and> bash_command_is_readonly input))"

definition decide :: "permission_mode \<Rightarrow> string \<Rightarrow> permission_outcome" where
  "decide mode n =
     (case mode of
        BypassPermissions \<Rightarrow> Allowed
      | Plan_mode \<Rightarrow> if is_mutating n then Refused ''plan mode forbids mutating tools'' else Allowed
      | AcceptEdits \<Rightarrow>
          if \<not> is_mutating n \<or> is_file_mutator n then Allowed
          else Refused ''acceptEdits mode allows file mutators only''
      | Default_mode \<Rightarrow>
          if is_mutating n then Refused ''default mode requires an explicit allow rule'' else Allowed)"

section \<open>The executor's state\<close>

datatype permission_answer = Allow | Deny | AllowAlwaysForTool

datatype tool_hook_phase = Pre | Post

datatype arg_filter_action = RefuseAction | WarnAction

record tool_arg_filter =
  af_tool :: string
  af_regex :: string
  af_action :: arg_filter_action
  af_field :: "string option"

record 'w executor =
  ex_mode :: permission_mode
  ex_prompter :: "(string \<Rightarrow> string \<Rightarrow> 'w \<Rightarrow> permission_answer \<times> 'w) option"
  ex_tool_hook ::
    "(tool_hook_phase \<Rightarrow> string \<Rightarrow> string \<Rightarrow> json \<Rightarrow> string option \<Rightarrow> bool \<Rightarrow> 'w \<Rightarrow> string list \<times> 'w) option"
  ex_stream_callback :: "(string \<Rightarrow> string \<Rightarrow> 'w \<Rightarrow> 'w) option"
  ex_pending_reminders :: "string list"
  ex_always_allowed :: "string list"
  ex_policy_blocklist :: "string list"
  ex_arg_filters :: "tool_arg_filter list"

definition executor_new :: "permission_mode \<Rightarrow> 'w executor" where
  "executor_new mode =
     \<lparr>ex_mode = mode, ex_prompter = None, ex_tool_hook = None, ex_stream_callback = None,
      ex_pending_reminders = [], ex_always_allowed = [], ex_policy_blocklist = [], ex_arg_filters = []\<rparr>"

text \<open>
  What the executor takes from outside: the regex engine, the JSON serialiser, the standard
  error stream, the kill switch \<open>AETHER_NO_PARALLEL_TOOLS\<close>, and the interleaving of a batch.
\<close>

record 'w exec_env =
  ee_rx :: "string \<Rightarrow> string \<Rightarrow> bool"
  ee_serialise :: "json \<Rightarrow> string"
  ee_eprintln :: "string \<Rightarrow> 'w \<Rightarrow> 'w"
  ee_no_parallel :: bool
  ee_schedule :: "'w \<Rightarrow> nat list"

definition set_policy_blocklist :: "string list \<Rightarrow> 'w executor \<Rightarrow> 'w executor" where
  "set_policy_blocklist names ex = ex\<lparr>ex_policy_blocklist := names\<rparr>"

definition set_arg_filters :: "tool_arg_filter list \<Rightarrow> 'w executor \<Rightarrow> 'w executor" where
  "set_arg_filters fs ex = ex\<lparr>ex_arg_filters := fs\<rparr>"

definition set_stream_callback :: "(string \<Rightarrow> string \<Rightarrow> 'w \<Rightarrow> 'w) \<Rightarrow> 'w executor \<Rightarrow> 'w executor" where
  "set_stream_callback cb ex = ex\<lparr>ex_stream_callback := Some cb\<rparr>"

definition set_prompter ::
  "(string \<Rightarrow> string \<Rightarrow> 'w \<Rightarrow> permission_answer \<times> 'w) \<Rightarrow> 'w executor \<Rightarrow> 'w executor" where
  "set_prompter p ex = ex\<lparr>ex_prompter := Some p\<rparr>"

definition set_tool_hook ::
  "(tool_hook_phase \<Rightarrow> string \<Rightarrow> string \<Rightarrow> json \<Rightarrow> string option \<Rightarrow> bool \<Rightarrow> 'w \<Rightarrow> string list \<times> 'w) \<Rightarrow>
   'w executor \<Rightarrow> 'w executor" where
  "set_tool_hook h ex = ex\<lparr>ex_tool_hook := Some h\<rparr>"

definition drain_pending_reminders :: "'w executor \<Rightarrow> string list \<times> 'w executor" where
  "drain_pending_reminders ex = (ex_pending_reminders ex, ex\<lparr>ex_pending_reminders := []\<rparr>)"

definition allow_tools :: "string list \<Rightarrow> 'w executor \<Rightarrow> 'w executor" where
  "allow_tools names ex = ex\<lparr>ex_always_allowed := fold List.insert names (ex_always_allowed ex)\<rparr>"

definition is_always_allowed :: "'w executor \<Rightarrow> string \<Rightarrow> bool" where
  "is_always_allowed ex n = (n \<in> set (ex_always_allowed ex))"

definition mark_always_allowed :: "string \<Rightarrow> 'w executor \<Rightarrow> 'w executor" where
  "mark_always_allowed n ex = ex\<lparr>ex_always_allowed := List.insert n (ex_always_allowed ex)\<rparr>"

definition is_policy_blocked :: "'w executor \<Rightarrow> string \<Rightarrow> bool" where
  "is_policy_blocked ex n = list_ex (\<lambda>b. b = n) (ex_policy_blocklist ex)"

definition push_reminders :: "string list \<Rightarrow> 'w executor \<Rightarrow> 'w executor" where
  "push_reminders outs ex = ex\<lparr>ex_pending_reminders := ex_pending_reminders ex @ outs\<rparr>"

section \<open>Argument filters\<close>

text \<open>\<open>seg.parse::<usize>()\<close>: digits after an optional plus sign, within 64 bits.\<close>

definition digits_value :: "string \<Rightarrow> nat" where
  "digits_value ds = foldl (\<lambda>v c. 10 * v + (byte_of c - 48)) 0 ds"

definition parse_usize :: "string \<Rightarrow> nat option" where
  "parse_usize seg =
     (let ds = (case seg of c # r \<Rightarrow> (if c = CHR ''+'' then r else seg) | [] \<Rightarrow> [])
      in if ds \<noteq> [] \<and> list_all is_digit ds \<and> digits_value ds \<le> u64_max
         then Some (digits_value ds) else None)"

fun walk_path :: "json \<Rightarrow> string list \<Rightarrow> json option" where
  "walk_path cur [] = Some cur"
| "walk_path cur (seg # segs) =
     (if seg = [] then None
      else (case parse_usize seg of
              Some idx \<Rightarrow>
                (case cur of
                   JArr xs \<Rightarrow> if idx < length xs then walk_path (xs ! idx) segs else None
                 | _ \<Rightarrow> None)
            | None \<Rightarrow>
                (case cur of
                   JObj kvs \<Rightarrow> (case map_of kvs seg of Some v \<Rightarrow> walk_path v segs | None \<Rightarrow> None)
                 | _ \<Rightarrow> None)))"

definition resolve_dotted_path :: "json \<Rightarrow> string \<Rightarrow> json option" where
  "resolve_dotted_path v path = walk_path v (split_on (CHR ''.'') path)"

definition json_to_match_string :: "(json \<Rightarrow> string) \<Rightarrow> json \<Rightarrow> string" where
  "json_to_match_string serialise v = (case v of JStr s \<Rightarrow> s | _ \<Rightarrow> serialise v)"

definition filter_target :: "(json \<Rightarrow> string) \<Rightarrow> tool_arg_filter \<Rightarrow> json \<Rightarrow> string option" where
  "filter_target serialise f input =
     (case af_field f of
        None \<Rightarrow> Some (serialise input)
      | Some path \<Rightarrow> map_option (json_to_match_string serialise) (resolve_dotted_path input path))"

definition match_arg_filter ::
  "'w exec_env \<Rightarrow> 'w executor \<Rightarrow> string \<Rightarrow> json \<Rightarrow> tool_arg_filter option" where
  "match_arg_filter env ex n input =
     find (\<lambda>f. af_tool f = n
             \<and> (case filter_target (ee_serialise env) f input of
                  None \<Rightarrow> False
                | Some target \<Rightarrow> ee_rx env (af_regex f) target))
       (ex_arg_filters ex)"

section \<open>Shaping the output\<close>

definition MAX_TOOL_OUTPUT_CHARS :: nat where
  "MAX_TOOL_OUTPUT_CHARS = 50000"

definition truncation_note :: "string \<Rightarrow> nat \<Rightarrow> string" where
  "truncation_note tool dropped =
     nl @ nl @ ''[OUTPUT TRUNCATED: '' @ show_nat dropped @ '' chars dropped '' @ [CHR 0xE2, CHR 0x80, CHR 0x94]
     @ '' use '' @ tool @ '' with a more specific pattern, offset/limit, or smaller scope]''"

definition maybe_truncate_output :: "string \<Rightarrow> string \<Rightarrow> string" where
  "maybe_truncate_output tool content =
     (if length content \<le> MAX_TOOL_OUTPUT_CHARS then content
      else take_chars MAX_TOOL_OUTPUT_CHARS content
           @ truncation_note tool (length content - MAX_TOOL_OUTPUT_CHARS))"

definition enrich_error_content :: "string \<Rightarrow> string \<Rightarrow> string" where
  "enrich_error_content tool raw =
     ''[TOOL ERROR: '' @ tool @ '']'' @ nl
     @ ''[Recovery hint: read the FULL message below; look for file:line patterns; try a more ''
     @ ''targeted call or smaller input rather than repeating verbatim]'' @ nl @ raw"

definition summarize :: "json \<Rightarrow> string" where
  "summarize input =
     (case Option.bind (json_get input ''command'') json_as_str of
        Some s \<Rightarrow> take_chars 120 (case str_lines s of [] \<Rightarrow> [] | l # _ \<Rightarrow> l)
      | None \<Rightarrow>
          (case Option.bind (json_get input ''file_path'') json_as_str of
             Some s \<Rightarrow> s
           | None \<Rightarrow>
               (case Option.bind (json_get input ''url'') json_as_str of
                  Some s \<Rightarrow> s
                | None \<Rightarrow> [])))"

section \<open>One call\<close>

definition mk_result :: "recorded_tool_use \<Rightarrow> string \<Rightarrow> bool \<Rightarrow> recorded_tool_result" where
  "mk_result tu content is_error =
     \<lparr>rtr_id = rtu_id tu, rtr_content = content, rtr_error = is_error\<rparr>"

definition blocked_text :: "string \<Rightarrow> string" where
  "blocked_text n =
     ''refused: policy: tool '' @ [CHR 0x60] @ n @ [CHR 0x60] @ '' is in tool_blocklist (see ~/.aether/policy.json)''"

definition filter_text :: "string \<Rightarrow> string \<Rightarrow> string" where
  "filter_text n re =
     ''refused: policy: tool '' @ [CHR 0x60] @ n @ [CHR 0x60] @ '' input matched arg-filter pattern ''
     @ [CHR 0x60] @ re @ [CHR 0x60] @ '' (see tool_arg_filters in ~/.aether/policy.json)''"

definition filter_warning :: "string \<Rightarrow> string \<Rightarrow> string" where
  "filter_warning n re =
     ''[policy] WARN tool '' @ [CHR 0x60] @ n @ [CHR 0x60] @ '' input matched arg-filter '' @ [CHR 0x60] @ re
     @ [CHR 0x60] @ '' (action=warn; not blocked)''"

text \<open>The static decision, with the interactive escalation of Default mode.\<close>

definition decide_call ::
  "recorded_tool_use \<Rightarrow> 'w executor \<Rightarrow> 'w \<Rightarrow> permission_outcome \<times> 'w executor \<times> 'w" where
  "decide_call tu ex w =
     (let d = decide (ex_mode ex) (rtu_name tu) in
      if d \<noteq> Allowed \<and> ex_mode ex = Default_mode \<and> is_mutating (rtu_name tu) then
        (if is_always_allowed ex (rtu_name tu) then (Allowed, ex, w)
         else (case ex_prompter ex of
                 None \<Rightarrow> (d, ex, w)
               | Some p \<Rightarrow>
                   (case p (rtu_name tu) (summarize (rtu_input tu)) w of
                      (Allow, w') \<Rightarrow> (Allowed, ex, w')
                    | (AllowAlwaysForTool, w') \<Rightarrow> (Allowed, mark_always_allowed (rtu_name tu) ex, w')
                    | (Deny, w') \<Rightarrow> (Refused ''user denied at prompt'', ex, w'))))
      else (d, ex, w))"

definition call_hook ::
  "tool_hook_phase \<Rightarrow> recorded_tool_use \<Rightarrow> string option \<Rightarrow> bool \<Rightarrow> 'w executor \<Rightarrow> 'w \<Rightarrow> 'w executor \<times> 'w" where
  "call_hook phase tu output is_error ex w =
     (case ex_tool_hook ex of
        None \<Rightarrow> (ex, w)
      | Some h \<Rightarrow>
          (case h phase (rtu_id tu) (rtu_name tu) (rtu_input tu) output is_error w of
             (outs, w') \<Rightarrow> (push_reminders outs ex, w')))"

text \<open>How far a call has come.\<close>

datatype task =
    Fresh
  | Decided permission_outcome
  | Ran string bool
  | Finished recorded_tool_result

definition call_before ::
  "'w exec_env \<Rightarrow> recorded_tool_use \<Rightarrow> 'w executor \<Rightarrow> 'w \<Rightarrow> task \<times> 'w executor \<times> 'w" where
  "call_before env tu ex w =
     (if is_policy_blocked ex (rtu_name tu) then
        (Finished (mk_result tu (blocked_text (rtu_name tu)) True), ex, w)
      else
        (let matched = match_arg_filter env ex (rtu_name tu) (rtu_input tu);
             go = (\<lambda>w0. case decide_call tu ex w0 of
                    (d, ex1, w1) \<Rightarrow>
                      (case (if d = Allowed then call_hook Pre tu None False ex1 w1 else (ex1, w1)) of
                         (ex2, w2) \<Rightarrow> (Decided d, ex2, w2)))
         in case matched of
              None \<Rightarrow> go w
            | Some f \<Rightarrow>
                (case af_action f of
                   RefuseAction \<Rightarrow>
                     (Finished (mk_result tu (filter_text (rtu_name tu) (af_regex f)) True), ex, w)
                 | WarnAction \<Rightarrow> go (ee_eprintln env (filter_warning (rtu_name tu) (af_regex f)) w))))"

definition tool_outcome :: "(tool_error, string) result \<times> 'w \<Rightarrow> (string \<times> bool) \<times> 'w" where
  "tool_outcome r =
     (case r of
        (Inr s, w) \<Rightarrow> ((s, False), w)
      | (Inl e, w) \<Rightarrow> ((''tool error: '' @ show_tool_error e, True), w))"

definition dispatch ::
  "'w tool_registry \<Rightarrow> recorded_tool_use \<Rightarrow> permission_outcome \<Rightarrow> 'w executor \<Rightarrow> 'w \<Rightarrow> (string \<times> bool) \<times> 'w" where
  "dispatch reg tu d ex w =
     (case d of
        Refused why \<Rightarrow> ((''refused: '' @ why, True), w)
      | Allowed \<Rightarrow>
          (case registry_get reg (rtu_name tu) of
             None \<Rightarrow> ((''unknown tool: '' @ rtu_name tu, True), w)
           | Some t \<Rightarrow>
               (if tool_streaming t then
                  (case ex_stream_callback ex of
                     Some cb \<Rightarrow> tool_outcome (tool_run_streamed t (rtu_input tu) (cb (rtu_id tu)) w)
                   | None \<Rightarrow> tool_outcome (tool_run t (rtu_input tu) w))
                else tool_outcome (tool_run t (rtu_input tu) w))))"

definition shape_output :: "string \<Rightarrow> string \<Rightarrow> bool \<Rightarrow> string" where
  "shape_output n content is_error =
     maybe_truncate_output n (if is_error then enrich_error_content n content else content)"

definition call_after ::
  "recorded_tool_use \<Rightarrow> string \<Rightarrow> bool \<Rightarrow> 'w executor \<Rightarrow> 'w \<Rightarrow> task \<times> 'w executor \<times> 'w" where
  "call_after tu content is_error ex w =
     (let shaped = shape_output (rtu_name tu) content is_error
      in case call_hook Post tu (Some shaped) is_error ex w of
           (ex', w') \<Rightarrow> (Finished (mk_result tu shaped is_error), ex', w'))"

text \<open>One atomic segment.\<close>

definition advance ::
  "'w exec_env \<Rightarrow> 'w tool_registry \<Rightarrow> recorded_tool_use \<Rightarrow> task \<Rightarrow> 'w executor \<Rightarrow> 'w \<Rightarrow>
   task \<times> 'w executor \<times> 'w" where
  "advance env reg tu t ex w =
     (case t of
        Fresh \<Rightarrow> call_before env tu ex w
      | Decided d \<Rightarrow> (case dispatch reg tu d ex w of ((c, e), w') \<Rightarrow> (Ran c e, ex, w'))
      | Ran c e \<Rightarrow> call_after tu c e ex w
      | Finished r \<Rightarrow> (Finished r, ex, w))"

fun finish_task ::
  "'w exec_env \<Rightarrow> 'w tool_registry \<Rightarrow> recorded_tool_use \<Rightarrow> nat \<Rightarrow> task \<Rightarrow> 'w executor \<Rightarrow> 'w \<Rightarrow>
   task \<times> 'w executor \<times> 'w" where
  "finish_task env reg tu 0 t ex w = (t, ex, w)"
| "finish_task env reg tu (Suc n) t ex w =
     (case advance env reg tu t ex w of (t', ex', w') \<Rightarrow> finish_task env reg tu n t' ex' w')"

definition task_result :: "recorded_tool_use \<Rightarrow> task \<Rightarrow> recorded_tool_result" where
  "task_result tu t = (case t of Finished r \<Rightarrow> r | _ \<Rightarrow> mk_result tu [] True)"

text \<open>\<open>run_one\<close>: the three segments back to back.\<close>

definition run_one ::
  "'w exec_env \<Rightarrow> 'w tool_registry \<Rightarrow> recorded_tool_use \<Rightarrow> 'w executor \<Rightarrow> 'w \<Rightarrow>
   recorded_tool_result \<times> 'w executor \<times> 'w" where
  "run_one env reg tu ex w =
     (case finish_task env reg tu 3 Fresh ex w of (t, ex', w') \<Rightarrow> (task_result tu t, ex', w'))"

section \<open>Batches\<close>

text \<open>
  A batch follows the schedule as far as it goes, each entry advancing one call, and then brings
  every call to its end in order; so every interleaving of the segments is some schedule.
\<close>

fun follow_schedule ::
  "'w exec_env \<Rightarrow> 'w tool_registry \<Rightarrow> nat list \<Rightarrow> (recorded_tool_use \<times> task) list \<Rightarrow> 'w executor \<Rightarrow> 'w \<Rightarrow>
   (recorded_tool_use \<times> task) list \<times> 'w executor \<times> 'w" where
  "follow_schedule env reg [] ts ex w = (ts, ex, w)"
| "follow_schedule env reg (i # is) ts ex w =
     (if i < length ts then
        (case advance env reg (fst (ts ! i)) (snd (ts ! i)) ex w of
           (t', ex', w') \<Rightarrow> follow_schedule env reg is (ts[i := (fst (ts ! i), t')]) ex' w')
      else follow_schedule env reg is ts ex w)"

fun finish_all ::
  "'w exec_env \<Rightarrow> 'w tool_registry \<Rightarrow> (recorded_tool_use \<times> task) list \<Rightarrow> 'w executor \<Rightarrow> 'w \<Rightarrow>
   recorded_tool_result list \<times> 'w executor \<times> 'w" where
  "finish_all env reg [] ex w = ([], ex, w)"
| "finish_all env reg ((tu, t) # ts) ex w =
     (case finish_task env reg tu 3 t ex w of
        (t', ex1, w1) \<Rightarrow>
          (case finish_all env reg ts ex1 w1 of
             (rs, ex2, w2) \<Rightarrow> (task_result tu t' # rs, ex2, w2)))"

definition run_batch ::
  "'w exec_env \<Rightarrow> 'w tool_registry \<Rightarrow> recorded_tool_use list \<Rightarrow> 'w executor \<Rightarrow> 'w \<Rightarrow>
   recorded_tool_result list \<times> 'w executor \<times> 'w" where
  "run_batch env reg tus ex w =
     (case follow_schedule env reg (ee_schedule env w) (map (\<lambda>tu. (tu, Fresh)) tus) ex w of
        (ts, ex', w') \<Rightarrow> finish_all env reg ts ex' w')"

definition parallel_use :: "'w exec_env \<Rightarrow> recorded_tool_use \<Rightarrow> bool" where
  "parallel_use env tu = (\<not> ee_no_parallel env \<and> can_run_parallel (rtu_name tu) (rtu_input tu))"

function execute ::
  "'w exec_env \<Rightarrow> 'w tool_registry \<Rightarrow> recorded_tool_use list \<Rightarrow> 'w executor \<Rightarrow> 'w \<Rightarrow>
   recorded_tool_result list \<times> 'w executor \<times> 'w" where
  "execute env reg [] ex w = ([], ex, w)"
| "execute env reg (tu # rest) ex w =
     (let safe = (\<lambda>u. can_run_parallel (rtu_name u) (rtu_input u));
          run = (if parallel_use env tu then takeWhile safe rest else []);
          rest' = (if parallel_use env tu then dropWhile safe rest else rest)
      in case (if run = [] then (case run_one env reg tu ex w of (r, ex1, w1) \<Rightarrow> ([r], ex1, w1))
               else run_batch env reg (tu # run) ex w) of
           (rs, ex1, w1) \<Rightarrow>
             (case execute env reg rest' ex1 w1 of (rs', ex2, w2) \<Rightarrow> (rs @ rs', ex2, w2)))"
  by pat_completeness auto
termination
  by (relation "measure (\<lambda>(env, reg, tus, ex, w). length tus)")
    (auto simp: le_imp_less_Suc length_dropWhile_le)

declare execute.simps(2) [simp del]

section \<open>Every call is answered, in order\<close>

definition task_for :: "recorded_tool_use \<Rightarrow> task \<Rightarrow> bool" where
  "task_for tu t = (case t of Finished r \<Rightarrow> rtr_id r = rtu_id tu | _ \<Rightarrow> True)"

fun task_stage :: "task \<Rightarrow> nat" where
  "task_stage Fresh = 0"
| "task_stage (Decided d) = 1"
| "task_stage (Ran c e) = 2"
| "task_stage (Finished r) = 3"

lemma call_before_task: "task_for tu (fst (call_before env tu ex w)) \<and> 1 \<le> task_stage (fst (call_before env tu ex w))"
  by (auto simp: call_before_def task_for_def mk_result_def Let_def
      split: option.splits arg_filter_action.splits prod.splits)

lemma advance_task:
  assumes "task_for tu t"
  shows "task_for tu (fst (advance env reg tu t ex w))"
    "min 3 (Suc (task_stage t)) \<le> task_stage (fst (advance env reg tu t ex w))"
proof -
  show "task_for tu (fst (advance env reg tu t ex w))"
    using assms call_before_task[of tu env ex w]
    by (auto simp: advance_def call_after_def task_for_def mk_result_def Let_def
        split: task.splits prod.splits)
  show "min 3 (Suc (task_stage t)) \<le> task_stage (fst (advance env reg tu t ex w))"
    using call_before_task[of tu env ex w]
    by (auto simp: advance_def call_after_def Let_def split: task.splits prod.splits)
qed

lemma task_stage_le: "task_stage t \<le> 3"
  by (cases t) auto

lemma finish_task_task:
  "task_for tu t \<Longrightarrow> task_for tu (fst (finish_task env reg tu n t ex w))
     \<and> min 3 (n + task_stage t) \<le> task_stage (fst (finish_task env reg tu n t ex w))"
proof (induction n arbitrary: t ex w)
  case 0
  then show ?case using task_stage_le[of t] by simp
next
  case (Suc n)
  obtain t' ex' w' where a: "advance env reg tu t ex w = (t', ex', w')" by (metis prod_cases3)
  from advance_task[OF Suc.prems, of env reg ex w] a
  have "task_for tu t'" "min 3 (Suc (task_stage t)) \<le> task_stage t'" by auto
  with Suc.IH[of t' ex' w'] a show ?case by auto
qed

text \<open>Three segments always finish a call, so the placeholder of \<open>task_result\<close> is never used.\<close>

lemma finish_task_finished:
  assumes "task_for tu t"
  obtains r ex' w' where "finish_task env reg tu 3 t ex w = (Finished r, ex', w')" "rtr_id r = rtu_id tu"
proof -
  obtain t' ex' w' where f: "finish_task env reg tu 3 t ex w = (t', ex', w')" by (metis prod_cases3)
  with finish_task_task[OF assms, of env reg 3 ex w] have "task_for tu t'" "3 \<le> task_stage t'" by auto
  then obtain r where "t' = Finished r" "rtr_id r = rtu_id tu"
    by (cases t') (auto simp: task_for_def)
  with f that show ?thesis by blast
qed

lemma run_one_id: "rtr_id (fst (run_one env reg tu ex w)) = rtu_id tu"
proof -
  have "task_for tu Fresh" by (simp add: task_for_def)
  then obtain r ex' w' where "finish_task env reg tu 3 Fresh ex w = (Finished r, ex', w')" "rtr_id r = rtu_id tu"
    by (rule finish_task_finished)
  then show ?thesis by (simp add: run_one_def task_result_def)
qed

lemma follow_schedule_tasks:
  "list_all (\<lambda>(tu, t). task_for tu t) ts \<Longrightarrow> follow_schedule env reg is ts ex w = (ts', ex', w') \<Longrightarrow>
   map fst ts' = map fst ts \<and> list_all (\<lambda>(tu, t). task_for tu t) ts'"
proof (induction env reg "is" ts ex w rule: follow_schedule.induct)
  case (2 env reg i "is" ts ex w)
  show ?case
  proof (cases "i < length ts")
    case True
    obtain tu t where ti: "ts ! i = (tu, t)" by fastforce
    obtain t' ex1 w1 where a: "advance env reg tu t ex w = (t', ex1, w1)" by (metis prod_cases3)
    from "2.prems"(1) True ti have "task_for tu t" by (auto simp: list_all_length)
    from advance_task(1)[OF this, of env reg ex w] a have "task_for tu t'" by simp
    with "2.prems"(1) True have all: "list_all (\<lambda>(tu, t). task_for tu t) (ts[i := (tu, t')])"
      by (auto simp: list_all_length nth_list_update)
    have "map fst (ts[i := (tu, t')]) = map fst ts"
      using True ti by (metis fst_conv list_update_id map_update nth_map)
    moreover have a': "(t', ex1, w1) = advance env reg (fst (ts ! i)) (snd (ts ! i)) ex w"
      by (simp add: a ti)
    ultimately show ?thesis using "2.IH"(1)[OF True a' refl] all "2.prems"(2) True ti a by simp
  qed (use 2 in simp)
qed simp

lemma finish_all_ids:
  "list_all (\<lambda>(tu, t). task_for tu t) ts \<Longrightarrow>
   map rtr_id (fst (finish_all env reg ts ex w)) = map (rtu_id \<circ> fst) ts"
proof (induction ts arbitrary: ex w)
  case (Cons x ts)
  obtain tu t where x: "x = (tu, t)" by (cases x)
  with Cons.prems have "task_for tu t" by simp
  then obtain r ex' w' where "finish_task env reg tu 3 t ex w = (Finished r, ex', w')" "rtr_id r = rtu_id tu"
    by (rule finish_task_finished)
  with Cons x show ?case by (simp add: task_result_def case_prod_beta)
qed simp

lemma run_batch_ids: "map rtr_id (fst (run_batch env reg tus ex w)) = map rtu_id tus"
proof -
  let ?ts = "map (\<lambda>tu. (tu, Fresh)) tus"
  obtain ts ex' w' where f: "follow_schedule env reg (ee_schedule env w) ?ts ex w = (ts, ex', w')"
    by (metis prod_cases3)
  have "list_all (\<lambda>(tu, t). task_for tu t) ?ts" by (simp add: list_all_length task_for_def)
  from follow_schedule_tasks[OF this f] have "map fst ts = tus" "list_all (\<lambda>(tu, t). task_for tu t) ts"
    by (auto simp: comp_def)
  with finish_all_ids[of ts env reg ex' w'] f show ?thesis
    by (simp add: run_batch_def flip: map_map)
qed

lemma execute_ids: "map rtr_id (fst (execute env reg tus ex w)) = map rtu_id tus"
proof (induction env reg tus ex w rule: execute.induct)
  case (2 env reg tu rest ex w)
  let ?safe = "\<lambda>u. can_run_parallel (rtu_name u) (rtu_input u)"
  define run where "run = (if parallel_use env tu then takeWhile ?safe rest else [])"
  define rest' where "rest' = (if parallel_use env tu then dropWhile ?safe rest else rest)"
  define first where "first = (if run = [] then (case run_one env reg tu ex w of (r, ex1, w1) \<Rightarrow> ([r], ex1, w1))
               else run_batch env reg (tu # run) ex w)"
  obtain rs ex1 w1 where fst: "first = (rs, ex1, w1)" by (metis prod_cases3)
  have "map rtr_id rs = map rtu_id (tu # run)"
  proof (cases "run = []")
    case True
    with fst run_one_id[of env reg tu ex w] show ?thesis by (auto simp: first_def split: prod.splits)
  next
    case False
    with fst run_batch_ids[of env reg "tu # run" ex w] show ?thesis by (simp add: first_def)
  qed
  moreover have "run @ rest' = rest" by (simp add: run_def rest'_def)
  moreover have "map rtr_id (fst (execute env reg rest' ex1 w1)) = map rtu_id rest'"
    by (rule "2.IH"[OF refl run_def rest'_def fst[unfolded first_def, symmetric] refl])
  moreover have "fst (execute env reg (tu # rest) ex w) = rs @ fst (execute env reg rest' ex1 w1)"
    unfolding execute.simps Let_def run_def[symmetric] rest'_def[symmetric] first_def[symmetric] fst
    by (simp add: case_prod_beta)
  ultimately show ?case by (metis map_append append_Cons)
qed simp

text \<open>What the agent loop relies on.\<close>

locale paired_executor =
  fixes exec :: "recorded_tool_use list \<Rightarrow> 's \<Rightarrow> recorded_tool_result list \<times> 's"
  assumes exec_ids: "map rtr_id (fst (exec us s)) = map rtu_id us"
begin

lemma results_Nil_iff: "fst (exec us s) = [] \<longleftrightarrow> us = []"
  using exec_ids[of us s] by (metis map_is_Nil_conv)

lemma turn_paired:
  "paired h \<Longrightarrow> us \<noteq> [] \<Longrightarrow> map rtr_id rs = map rtr_id (fst (exec us s)) \<Longrightarrow>
   paired (h @ [Assistant_item t us, ToolResults_item rs])"
  by (rule paired_append) (simp_all add: exec_ids)

lemma result_has_use: "r \<in> set (fst (exec us s)) \<Longrightarrow> \<exists>u \<in> set us. rtu_id u = rtr_id r"
  using exec_ids[of us s] by (metis image_iff list.set_map)

end

interpretation tools: paired_executor "\<lambda>us (ex, w). execute env reg us ex w"
  for env :: "'w exec_env" and reg
  by unfold_locales (simp add: case_prod_beta execute_ids)

section \<open>What a policy rules out\<close>

text \<open>The tools a call can reach: not blocked, and let through by the mode or by someone it asks.\<close>

definition may_run :: "'w executor \<Rightarrow> string \<Rightarrow> bool" where
  "may_run ex n =
     (\<not> is_policy_blocked ex n
      \<and> (case ex_mode ex of
           BypassPermissions \<Rightarrow> True
         | Plan_mode \<Rightarrow> \<not> is_mutating n
         | AcceptEdits \<Rightarrow> \<not> is_mutating n \<or> is_file_mutator n
         | Default_mode \<Rightarrow> \<not> is_mutating n \<or> is_always_allowed ex n \<or> ex_prompter ex \<noteq> None))"

definition same_policy :: "'w executor \<Rightarrow> 'w executor \<Rightarrow> bool" where
  "same_policy ex ex' =
     (ex_mode ex' = ex_mode ex \<and> ex_prompter ex' = ex_prompter ex
      \<and> ex_policy_blocklist ex' = ex_policy_blocklist ex
      \<and> (ex_prompter ex = None \<longrightarrow> ex_always_allowed ex' = ex_always_allowed ex))"

lemma same_policy_refl [simp]: "same_policy ex ex"
  by (simp add: same_policy_def)

lemma same_policy_trans: "same_policy a b \<Longrightarrow> same_policy b c \<Longrightarrow> same_policy a c"
  by (auto simp: same_policy_def)

lemma same_policy_may_run: "same_policy ex ex' \<Longrightarrow> may_run ex' n = may_run ex n"
  by (auto simp: same_policy_def may_run_def is_policy_blocked_def is_always_allowed_def
      split: permission_mode.splits)

lemma call_hook_policy: "same_policy ex (fst (call_hook ph tu out e ex w))"
  by (auto simp: call_hook_def same_policy_def push_reminders_def split: option.splits prod.splits)

lemma decide_call_policy:
  assumes "decide_call tu ex w = (d, ex', w')"
  shows "same_policy ex ex'" "d = Allowed \<Longrightarrow> \<not> is_policy_blocked ex (rtu_name tu) \<Longrightarrow> may_run ex (rtu_name tu)"
proof -
  show "same_policy ex ex'"
    using assms
    by (auto simp: decide_call_def Let_def same_policy_def mark_always_allowed_def
        split: if_splits option.splits prod.splits permission_answer.splits)
  show "d = Allowed \<Longrightarrow> \<not> is_policy_blocked ex (rtu_name tu) \<Longrightarrow> may_run ex (rtu_name tu)"
    using assms
    by (auto simp: decide_call_def Let_def may_run_def decide_def
        split: if_splits option.splits prod.splits permission_answer.splits permission_mode.splits)
qed

definition task_ok :: "'w executor \<Rightarrow> recorded_tool_use \<times> task \<Rightarrow> bool" where
  "task_ok ex x = (case snd x of Decided Allowed \<Rightarrow> may_run ex (rtu_name (fst x)) | _ \<Rightarrow> True)"

lemma task_ok_same: "same_policy ex ex' \<Longrightarrow> task_ok ex' x = task_ok ex x"
  by (simp add: task_ok_def same_policy_may_run split: task.splits permission_outcome.splits)

lemma call_before_policy:
  assumes "call_before env tu ex w = (t, ex', w')"
  shows "same_policy ex ex' \<and> task_ok ex' (tu, t)"
proof (cases "is_policy_blocked ex (rtu_name tu)")
  case True
  with assms show ?thesis by (auto simp: call_before_def task_ok_def)
next
  case False
  have go: "same_policy ex ex' \<and> task_ok ex' (tu, t)"
    if g: "(case decide_call tu ex w0 of
                    (d, ex1, w1) \<Rightarrow>
                      (case (if d = Allowed then call_hook Pre tu None False ex1 w1 else (ex1, w1)) of
                         (ex2, w2) \<Rightarrow> (Decided d, ex2, w2))) = (t, ex', w')" for w0
  proof -
    obtain d ex1 w1 where d: "decide_call tu ex w0 = (d, ex1, w1)" by (metis prod_cases3)
    have "same_policy ex1 ex'" "t = Decided d"
      using g call_hook_policy[of ex1 Pre tu None False w1] unfolding d by (auto split: if_splits prod.splits)
    moreover have "same_policy ex ex1" "d = Allowed \<Longrightarrow> may_run ex (rtu_name tu)"
      using decide_call_policy[OF d] False by auto
    ultimately have "same_policy ex ex'" "t = Decided d" "d = Allowed \<Longrightarrow> may_run ex (rtu_name tu)"
      using same_policy_trans by auto
    then show ?thesis
      by (auto simp: task_ok_def same_policy_may_run split: permission_outcome.splits)
  qed
  show ?thesis
  proof (cases "match_arg_filter env ex (rtu_name tu) (rtu_input tu)")
    case None
    with assms False go[of w] show ?thesis by (simp add: call_before_def)
  next
    case (Some f)
    show ?thesis
    proof (cases "af_action f")
      case RefuseAction
      with assms False Some show ?thesis by (auto simp: call_before_def task_ok_def)
    next
      case WarnAction
      with assms False Some go show ?thesis by (simp add: call_before_def Let_def)
    qed
  qed
qed

lemma advance_policy:
  assumes "advance env reg tu t ex w = (t', ex', w')"
  shows "same_policy ex ex' \<and> task_ok ex' (tu, t')"
proof (cases t)
  case Fresh
  with assms call_before_policy[of env tu ex w t' ex' w'] show ?thesis by (simp add: advance_def)
next
  case (Ran c e)
  with assms call_hook_policy[of ex Post tu "Some (shape_output (rtu_name tu) c e)" e w] show ?thesis
    by (auto simp: advance_def call_after_def task_ok_def Let_def split: prod.splits)
qed (use assms in \<open>auto simp: advance_def task_ok_def split: prod.splits\<close>)

definition regs_agree :: "'w executor \<Rightarrow> 'w tool_registry \<Rightarrow> 'w tool_registry \<Rightarrow> bool" where
  "regs_agree ex reg reg' \<longleftrightarrow> (\<forall>n. may_run ex n \<longrightarrow> registry_get reg n = registry_get reg' n)"

lemma regs_agree_same: "same_policy ex ex' \<Longrightarrow> regs_agree ex' reg reg' = regs_agree ex reg reg'"
  by (simp add: regs_agree_def same_policy_may_run)

lemma advance_agree:
  "regs_agree ex reg reg' \<Longrightarrow> task_ok ex (tu, t) \<Longrightarrow> advance env reg tu t ex w = advance env reg' tu t ex w"
proof (cases t)
  case (Decided d)
  then show "regs_agree ex reg reg' \<Longrightarrow> task_ok ex (tu, t) \<Longrightarrow> ?thesis"
    by (cases d) (simp_all add: advance_def dispatch_def task_ok_def regs_agree_def)
qed (simp_all add: advance_def)

lemma finish_task_agree:
  "regs_agree ex reg reg' \<Longrightarrow> task_ok ex (tu, t) \<Longrightarrow>
   finish_task env reg tu n t ex w = finish_task env reg' tu n t ex w
   \<and> same_policy ex (fst (snd (finish_task env reg tu n t ex w)))"
proof (induction n arbitrary: t ex w)
  case (Suc n)
  obtain t' ex' w' where a: "advance env reg tu t ex w = (t', ex', w')" by (metis prod_cases3)
  note p = advance_policy[OF a]
  from p Suc.prems(1) have "regs_agree ex' reg reg'" using regs_agree_same by blast
  from Suc.IH[OF this] p have
    "finish_task env reg tu n t' ex' w' = finish_task env reg' tu n t' ex' w'"
    "same_policy ex (fst (snd (finish_task env reg tu n t' ex' w')))"
    using same_policy_trans by blast+
  with a advance_agree[OF Suc.prems, of env w] show ?case by simp
qed simp

lemma run_one_agree:
  assumes "regs_agree ex reg reg'"
  shows "run_one env reg tu ex w = run_one env reg' tu ex w
    \<and> same_policy ex (fst (snd (run_one env reg tu ex w)))"
  using finish_task_agree[OF assms, of tu Fresh env 3 w]
  by (auto simp: run_one_def task_ok_def split: prod.splits)

lemma follow_schedule_agree:
  "regs_agree ex reg reg' \<Longrightarrow> list_all (task_ok ex) ts \<Longrightarrow>
   follow_schedule env reg is ts ex w = (ts', ex', w') \<Longrightarrow>
   follow_schedule env reg' is ts ex w = (ts', ex', w') \<and> same_policy ex ex' \<and> list_all (task_ok ex') ts'"
proof (induction env reg "is" ts ex w rule: follow_schedule.induct)
  case (2 env reg i "is" ts ex w)
  show ?case
  proof (cases "i < length ts")
    case True
    obtain tu t where ti: "ts ! i = (tu, t)" by fastforce
    obtain t' ex1 w1 where a: "advance env reg tu t ex w = (t', ex1, w1)" by (metis prod_cases3)
    have a': "(t', ex1, w1) = advance env reg (fst (ts ! i)) (snd (ts ! i)) ex w" by (simp add: a ti)
    have ok: "task_ok ex (tu, t)" using "2.prems"(2) True ti by (metis list_all_length)
    note p = advance_policy[OF a]
    have agree1: "regs_agree ex1 reg reg'" using "2.prems"(1) p regs_agree_same by blast
    have "task_ok ex1 = task_ok ex" using p task_ok_same by blast
    then have all: "list_all (task_ok ex1) (ts[i := (fst (ts ! i), t')])"
      using "2.prems"(2) p True ti by (auto simp: list_all_length nth_list_update)
    have fin: "follow_schedule env reg is (ts[i := (fst (ts ! i), t')]) ex1 w1 = (ts', ex', w')"
      using "2.prems"(3) True ti a by simp
    from "2.IH"(1)[OF True a' refl agree1 all fin] p same_policy_trans
    have "follow_schedule env reg' is (ts[i := (fst (ts ! i), t')]) ex1 w1 = (ts', ex', w')"
      "same_policy ex ex'" "list_all (task_ok ex') ts'" by blast+
    with True ti a advance_agree[OF "2.prems"(1) ok, of env w] show ?thesis by simp
  qed (use 2 in simp)
qed simp

lemma finish_all_agree:
  "regs_agree ex reg reg' \<Longrightarrow> list_all (task_ok ex) ts \<Longrightarrow>
   finish_all env reg ts ex w = finish_all env reg' ts ex w
   \<and> same_policy ex (fst (snd (finish_all env reg ts ex w)))"
proof (induction ts arbitrary: ex w)
  case (Cons x ts)
  obtain tu t where x: "x = (tu, t)" by (cases x)
  obtain t' ex1 w1 where f: "finish_task env reg tu 3 t ex w = (t', ex1, w1)" by (metis prod_cases3)
  from Cons.prems x have "task_ok ex (tu, t)" by simp
  from finish_task_agree[OF Cons.prems(1) this, of env 3 w] f
  have f': "finish_task env reg' tu 3 t ex w = (t', ex1, w1)" and sp: "same_policy ex ex1" by simp_all
  have "regs_agree ex1 reg reg'" using Cons.prems(1) sp regs_agree_same by blast
  moreover have "task_ok ex1 = task_ok ex" using sp task_ok_same by blast
  then have "list_all (task_ok ex1) ts" using Cons.prems(2) by simp
  ultimately have "finish_all env reg ts ex1 w1 = finish_all env reg' ts ex1 w1"
    "same_policy ex1 (fst (snd (finish_all env reg ts ex1 w1)))"
    using Cons.IH[of ex1 w1] by blast+
  with f f' x sp same_policy_trans[OF sp] show ?case by (simp add: case_prod_beta)
qed simp

lemma run_batch_agree:
  assumes "regs_agree ex reg reg'"
  shows "run_batch env reg tus ex w = run_batch env reg' tus ex w
    \<and> same_policy ex (fst (snd (run_batch env reg tus ex w)))"
proof -
  let ?ts = "map (\<lambda>tu. (tu, Fresh)) tus"
  obtain ts ex1 w1 where f: "follow_schedule env reg (ee_schedule env w) ?ts ex w = (ts, ex1, w1)"
    by (metis prod_cases3)
  have "list_all (task_ok ex) ?ts" by (simp add: list_all_length task_ok_def)
  from follow_schedule_agree[OF assms this f] have
    f': "follow_schedule env reg' (ee_schedule env w) ?ts ex w = (ts, ex1, w1)"
    and sp: "same_policy ex ex1" and ok: "list_all (task_ok ex1) ts" by auto
  have "regs_agree ex1 reg reg'" using assms sp regs_agree_same by blast
  from finish_all_agree[OF this ok, of env w1] same_policy_trans[OF sp]
  have "finish_all env reg ts ex1 w1 = finish_all env reg' ts ex1 w1"
    "same_policy ex (fst (snd (finish_all env reg ts ex1 w1)))" by blast+
  with f f' show ?thesis by (simp add: run_batch_def)
qed

text \<open>The first group of calls of \<open>execute\<close>, and the calls left after it.\<close>

definition first_group ::
  "'w exec_env \<Rightarrow> 'w tool_registry \<Rightarrow> recorded_tool_use \<Rightarrow> recorded_tool_use list \<Rightarrow> 'w executor \<Rightarrow> 'w \<Rightarrow>
   recorded_tool_result list \<times> 'w executor \<times> 'w" where
  "first_group env reg tu run ex w =
     (if run = [] then (case run_one env reg tu ex w of (r, ex1, w1) \<Rightarrow> ([r], ex1, w1))
      else run_batch env reg (tu # run) ex w)"

lemma execute_Cons:
  "\<exists>run rest'. run @ rest' = rest
    \<and> (\<forall>reg ex w rs ex1 w1. first_group env reg tu run ex w = (rs, ex1, w1) \<longrightarrow>
      execute env reg (tu # rest) ex w =
        (case execute env reg rest' ex1 w1 of (rs', ex2, w2) \<Rightarrow> (rs @ rs', ex2, w2)))"
proof -
  let ?safe = "\<lambda>u. can_run_parallel (rtu_name u) (rtu_input u)"
  define run where "run = (if parallel_use env tu then takeWhile ?safe rest else [])"
  define rest' where "rest' = (if parallel_use env tu then dropWhile ?safe rest else rest)"
  have "execute env reg (tu # rest) ex w =
        (case execute env reg rest' ex1 w1 of (rs', ex2, w2) \<Rightarrow> (rs @ rs', ex2, w2))"
    if "first_group env reg tu run ex w = (rs, ex1, w1)" for reg ex w rs ex1 w1
    unfolding execute.simps Let_def run_def[symmetric] rest'_def[symmetric]
      first_group_def[symmetric] that by simp
  moreover have "run @ rest' = rest" by (simp add: run_def rest'_def)
  ultimately show ?thesis by blast
qed

lemma execute_agree:
  "regs_agree ex reg reg' \<Longrightarrow> execute env reg tus ex w = execute env reg' tus ex w
     \<and> same_policy ex (fst (snd (execute env reg tus ex w)))"
proof (induction "length tus" arbitrary: tus ex w rule: less_induct)
  case less
  show ?case
  proof (cases tus)
    case (Cons tu rest)
    from execute_Cons[of rest env tu] obtain run rest' where e: "run @ rest' = rest"
      "\<And>reg ex w rs ex1 w1. first_group env reg tu run ex w = (rs, ex1, w1) \<Longrightarrow>
        execute env reg (tu # rest) ex w =
          (case execute env reg rest' ex1 w1 of (rs', ex2, w2) \<Rightarrow> (rs @ rs', ex2, w2))"
      by blast
    obtain rs ex1 w1 where f: "first_group env reg tu run ex w = (rs, ex1, w1)" by (metis prod_cases3)
    have "first_group env reg tu run ex w = first_group env reg' tu run ex w
        \<and> same_policy ex (fst (snd (first_group env reg tu run ex w)))"
      using run_one_agree[OF less.prems, of env tu w] run_batch_agree[OF less.prems, of env "tu # run" w]
      by (auto simp: first_group_def split: prod.splits)
    with f have f': "first_group env reg' tu run ex w = (rs, ex1, w1)" and sp: "same_policy ex ex1" by auto
    have "length rest' < length tus" using e(1) Cons by auto
    moreover have "regs_agree ex1 reg reg'" using less.prems sp regs_agree_same by blast
    ultimately have "execute env reg rest' ex1 w1 = execute env reg' rest' ex1 w1"
      "same_policy ex1 (fst (snd (execute env reg rest' ex1 w1)))"
      using less.hyps by blast+
    with Cons e(2)[OF f] e(2)[OF f'] same_policy_trans[OF sp] show ?thesis
      by (simp add: case_prod_beta)
  qed simp
qed

section \<open>Blocked tools and sequential runs\<close>

lemma advance_blocked:
  assumes "is_policy_blocked ex (rtu_name tu)"
  shows "advance env reg tu Fresh ex w = (Finished (mk_result tu (blocked_text (rtu_name tu)) True), ex, w)"
  using assms by (simp add: advance_def call_before_def)

definition refusal :: "recorded_tool_use \<Rightarrow> recorded_tool_result" where
  "refusal tu = mk_result tu (blocked_text (rtu_name tu)) True"

lemma finish_task_Finished [simp]: "finish_task env reg tu n (Finished r) ex w = (Finished r, ex, w)"
  by (induction n) (simp_all add: advance_def)

lemma finish_task_blocked:
  assumes "is_policy_blocked ex (rtu_name tu)" "t = Fresh \<or> t = Finished (refusal tu)"
  shows "finish_task env reg tu 3 t ex w = (Finished (refusal tu), ex, w)"
  using assms(2)
proof
  assume "t = Fresh"
  with assms(1) show ?thesis by (simp add: eval_nat_numeral advance_blocked refusal_def)
qed simp

lemma follow_schedule_blocked:
  "list_all (\<lambda>(tu, t). is_policy_blocked ex (rtu_name tu) \<and> (t = Fresh \<or> t = Finished (refusal tu))) ts \<Longrightarrow>
   follow_schedule env reg is ts ex w = (ts', ex', w') \<Longrightarrow>
   ex' = ex \<and> w' = w \<and> map fst ts' = map fst ts
   \<and> list_all (\<lambda>(tu, t). is_policy_blocked ex (rtu_name tu) \<and> (t = Fresh \<or> t = Finished (refusal tu))) ts'"
proof (induction "is" arbitrary: ts)
  case (Cons i "is")
  show ?case
  proof (cases "i < length ts")
    case True
    obtain tu t where ti: "ts ! i = (tu, t)" by fastforce
    with Cons.prems(1) True have b: "is_policy_blocked ex (rtu_name tu)" "t = Fresh \<or> t = Finished (refusal tu)"
      by (auto simp: list_all_length)
    have a: "advance env reg tu t ex w = (Finished (refusal tu), ex, w)"
      using b(2)
    proof
      assume "t = Fresh"
      with b(1) show ?thesis by (simp add: advance_blocked refusal_def)
    qed (simp add: advance_def)
    have all: "list_all (\<lambda>(tu, t). is_policy_blocked ex (rtu_name tu) \<and> (t = Fresh \<or> t = Finished (refusal tu)))
        (ts[i := (tu, Finished (refusal tu))])"
      using Cons.prems(1) True b by (auto simp: list_all_length nth_list_update)
    have "map fst (ts[i := (tu, Finished (refusal tu))]) = map fst ts"
      using True ti by (metis fst_conv list_update_id map_update nth_map)
    with Cons.IH[OF all] Cons.prems(2) True ti a show ?thesis by simp
  qed (use Cons in simp)
qed auto

lemma finish_all_blocked:
  "list_all (\<lambda>(tu, t). is_policy_blocked ex (rtu_name tu) \<and> (t = Fresh \<or> t = Finished (refusal tu))) ts \<Longrightarrow>
   finish_all env reg ts ex w = (map (refusal \<circ> fst) ts, ex, w)"
proof (induction ts)
  case (Cons x ts)
  obtain tu t where x: "x = (tu, t)" by (cases x)
  with Cons.prems have "finish_task env reg tu 3 t ex w = (Finished (refusal tu), ex, w)"
    by (intro finish_task_blocked) auto
  with Cons x show ?case by (simp add: task_result_def)
qed simp

lemma first_group_blocked:
  assumes "list_all (\<lambda>tu. is_policy_blocked ex (rtu_name tu)) (tu # run)"
  shows "first_group env reg tu run ex w = (map refusal (tu # run), ex, w)"
proof (cases "run = []")
  case True
  with assms finish_task_blocked[of ex tu Fresh env reg w] show ?thesis
    by (simp add: first_group_def run_one_def task_result_def)
next
  case False
  let ?ts = "map (\<lambda>tu. (tu, Fresh)) (tu # run)"
  obtain ts ex' w' where f: "follow_schedule env reg (ee_schedule env w) ?ts ex w = (ts, ex', w')"
    by (metis prod_cases3)
  have "list_all (\<lambda>(tu, t). is_policy_blocked ex (rtu_name tu) \<and> (t = Fresh \<or> t = Finished (refusal tu))) ?ts"
    using assms by (auto simp: list_all_iff)
  from follow_schedule_blocked[OF this f] have ts: "ex' = ex" "w' = w" "map fst ts = tu # run"
    and all: "list_all (\<lambda>(tu, t). is_policy_blocked ex (rtu_name tu) \<and> (t = Fresh \<or> t = Finished (refusal tu))) ts"
    by (auto simp: comp_def)
  from finish_all_blocked[OF all, of env reg w] ts f False show ?thesis
    by (simp add: first_group_def run_batch_def flip: map_map)
qed

lemma execute_blocked:
  "list_all (\<lambda>tu. is_policy_blocked ex (rtu_name tu)) tus \<Longrightarrow> execute env reg tus ex w = (map refusal tus, ex, w)"
proof (induction "length tus" arbitrary: tus rule: less_induct)
  case less
  show ?case
  proof (cases tus)
    case (Cons tu rest)
    from execute_Cons[of rest env tu] obtain run rest' where e: "run @ rest' = rest"
      "\<And>reg ex w rs ex1 w1. first_group env reg tu run ex w = (rs, ex1, w1) \<Longrightarrow>
        execute env reg (tu # rest) ex w =
          (case execute env reg rest' ex1 w1 of (rs', ex2, w2) \<Rightarrow> (rs @ rs', ex2, w2))"
      by blast
    from less.prems Cons e(1) have b: "list_all (\<lambda>tu. is_policy_blocked ex (rtu_name tu)) (tu # run)"
      "list_all (\<lambda>tu. is_policy_blocked ex (rtu_name tu)) rest'" by auto
    from e(1) Cons have "length rest' < length tus" by auto
    from less.hyps[OF this b(2)] e(2)[OF first_group_blocked[OF b(1)]] e(1) Cons show ?thesis
      by auto
  qed simp
qed

text \<open>The reference: one call after the other.\<close>

fun run_sequential ::
  "'w exec_env \<Rightarrow> 'w tool_registry \<Rightarrow> recorded_tool_use list \<Rightarrow> 'w executor \<Rightarrow> 'w \<Rightarrow>
   recorded_tool_result list \<times> 'w executor \<times> 'w" where
  "run_sequential env reg [] ex w = ([], ex, w)"
| "run_sequential env reg (tu # rest) ex w =
     (case run_one env reg tu ex w of
        (r, ex1, w1) \<Rightarrow> (case run_sequential env reg rest ex1 w1 of (rs, ex2, w2) \<Rightarrow> (r # rs, ex2, w2)))"

text \<open>No two neighbours may run together.\<close>

fun no_batch :: "recorded_tool_use list \<Rightarrow> bool" where
  "no_batch (u # v # us) =
     (\<not> (can_run_parallel (rtu_name u) (rtu_input u) \<and> can_run_parallel (rtu_name v) (rtu_input v))
      \<and> no_batch (v # us))"
| "no_batch us = True"

lemma execute_sequential:
  "ee_no_parallel env \<or> no_batch tus \<Longrightarrow> execute env reg tus ex w = run_sequential env reg tus ex w"
proof (induction tus arbitrary: ex w)
  case (Cons tu rest)
  let ?safe = "\<lambda>u. can_run_parallel (rtu_name u) (rtu_input u)"
  have run: "(if parallel_use env tu then takeWhile ?safe rest else []) = []"
    "(if parallel_use env tu then dropWhile ?safe rest else rest) = rest"
    using Cons.prems by (cases rest; auto simp: parallel_use_def)+
  from Cons.prems have "ee_no_parallel env \<or> no_batch rest" by (cases rest) auto
  note IH = Cons.IH[OF this]
  show ?case
    unfolding execute.simps Let_def run by (simp add: IH case_prod_beta)
qed simp

lemma truncation_note_lead: "truncation_note tool n \<noteq> [] \<and> \<not> is_cont (hd (truncation_note tool n))"
  by (simp add: truncation_note_def nl_def is_cont_def byte_of_def)

section \<open>Properties\<close>

text \<open>An environment and a counting tool to try the properties on.\<close>

definition demo_env :: "nat exec_env" where
  "demo_env = \<lparr>ee_rx = (\<lambda>_ _. False), ee_serialise = (\<lambda>_. []), ee_eprintln = (\<lambda>_ w. w),
     ee_no_parallel = False, ee_schedule = (\<lambda>_. [1, 0, 1])\<rparr>"

definition demo_tool :: "string \<Rightarrow> nat tool" where
  "demo_tool n = \<lparr>tool_name = n, tool_description = [], tool_input_schema = JNull,
     tool_run = (\<lambda>_ w. (Inr ''ok'', Suc w)), tool_streaming = False,
     tool_run_streamed = default_run_streamed (\<lambda>_ w. (Inr ''ok'', Suc w))\<rparr>"

definition demo_use :: "string \<Rightarrow> string \<Rightarrow> recorded_tool_use" where
  "demo_use i n = \<lparr>rtu_id = i, rtu_name = n, rtu_input = JObj [(''command'', JStr ''rm x'')]\<rparr>"

text \<open>
  C3. Whatever the tools, the permissions, the hooks and the interleaving of parallel calls do, a
  batch of calls comes back as exactly one result per call, in the order of the calls and
  carrying their ids.
\<close>
theorem results_answer_uses:
  "map rtr_id (fst (execute env reg tus ex w)) = map rtu_id tus"
  using tools.exec_ids[of env reg tus "(ex, w)"] by simp

text \<open>
  C35. A tool that the policy rules out is never invoked: two registries that agree on the tools
  the policy lets through (not on the blocklist, and allowed by the mode or, in Default mode,
  always allowed or subject to a prompt) give the same results, the same executor state and the
  same world, for every sequence of calls and every interleaving. In Plan mode this covers every
  mutating tool, in AcceptEdits mode the shell and the network.
\<close>
theorem ruled_out_tools_never_run:
  assumes "\<forall>n. may_run ex n \<longrightarrow> registry_get reg n = registry_get reg' n"
  shows "execute env reg tus ex w = execute env reg' tus ex w"
  using execute_agree[of ex reg reg' env tus w] assms by (simp add: regs_agree_def)

lemma ruled_out_tools_never_run_witness:
  "execute demo_env (register (demo_tool ''Bash'') []) [demo_use ''a'' ''Bash''] (executor_new Plan_mode) 0
   = execute demo_env [] [demo_use ''a'' ''Bash''] (executor_new Plan_mode) 0"
proof (rule ruled_out_tools_never_run, intro allI impI)
  fix n
  assume "may_run (executor_new Plan_mode :: nat executor) n"
  then have "n \<noteq> ''Bash''" by (auto simp: may_run_def executor_new_def is_mutating_def)
  then show "registry_get (register (demo_tool ''Bash'') []) n = registry_get [] n"
    by (simp add: registry_get_register demo_tool_def)
qed

text \<open>
  Calls of blocklisted tools do nothing at all: each is answered by the policy refusal, no
  prompter, hook, tool or filter runs, and the executor and the world are as before. No mode,
  not even BypassPermissions, and no always-allow entry changes that.
\<close>
theorem blocklist_is_final:
  assumes "list_all (\<lambda>tu. is_policy_blocked ex (rtu_name tu)) tus"
  shows "execute env reg tus ex w
    = (map (\<lambda>tu. mk_result tu (blocked_text (rtu_name tu)) True) tus, ex, w)"
  using execute_blocked[OF assms, of env reg w] by (simp add: refusal_def[abs_def])

lemma blocklist_is_final_witness:
  "let ex = set_policy_blocklist [''Bash''] (executor_new BypassPermissions) in
   execute demo_env (register (demo_tool ''Bash'') []) [demo_use ''a'' ''Bash''] ex 7
     = ([mk_result (demo_use ''a'' ''Bash'') (blocked_text ''Bash'') True], ex, 7)"
  using blocklist_is_final[of "set_policy_blocklist [''Bash''] (executor_new BypassPermissions)"
      "[demo_use ''a'' ''Bash'']" demo_env "register (demo_tool ''Bash'') []" 7]
  by (simp add: is_policy_blocked_def set_policy_blocklist_def demo_use_def)

text \<open>
  With parallelism switched off, and also whenever no two neighbouring calls are safe to run
  in parallel, the executor is the plain sequential loop: the calls run one after the other in
  the order the model asked for, each seeing the effects of the ones before.
\<close>
theorem execute_is_sequential:
  assumes "ee_no_parallel env \<or> no_batch tus"
  shows "execute env reg tus ex w = run_sequential env reg tus ex w"
  using assms by (rule execute_sequential)

lemma execute_is_sequential_witness:
  "let us = [demo_use ''a'' ''Bash'', demo_use ''b'' ''Read'', demo_use ''c'' ''Write''] in
   execute demo_env [] us (executor_new Default_mode) 0 = run_sequential demo_env [] us (executor_new Default_mode) 0"
proof -
  have "no_batch [demo_use ''a'' ''Bash'', demo_use ''b'' ''Read'', demo_use ''c'' ''Write'']"
    by code_simp
  then show ?thesis by (simp add: execute_is_sequential)
qed

text \<open>
  Truncation keeps a prefix and bounds the rest: the first 50,000 characters of an output are
  always kept verbatim at the front, whatever exceeds them is replaced by one note, and an
  output of at most 50,000 bytes is passed on unchanged.
\<close>
theorem truncation_bounds:
  "prefix (take_chars MAX_TOOL_OUTPUT_CHARS content) (maybe_truncate_output tool content)
   \<and> char_count (maybe_truncate_output tool content)
       \<le> MAX_TOOL_OUTPUT_CHARS + char_count (truncation_note tool (length content - MAX_TOOL_OUTPUT_CHARS))
   \<and> (maybe_truncate_output tool content = content \<or> MAX_TOOL_OUTPUT_CHARS < length content)"
proof (cases "length content \<le> MAX_TOOL_OUTPUT_CHARS")
  case True
  then have "char_count content \<le> MAX_TOOL_OUTPUT_CHARS" using char_count_le_length le_trans by blast
  with True show ?thesis by (simp add: maybe_truncate_output_def prefix_take_chars trans_le_add1)
next
  case False
  let ?n = "truncation_note tool (length content - MAX_TOOL_OUTPUT_CHARS)"
  have "str_chars (take_chars MAX_TOOL_OUTPUT_CHARS content @ ?n)
      = str_chars (take_chars MAX_TOOL_OUTPUT_CHARS content) @ str_chars ?n"
    using truncation_note_lead by (intro str_chars_append_lead) blast
  then have "char_count (take_chars MAX_TOOL_OUTPUT_CHARS content @ ?n)
      = char_count (take_chars MAX_TOOL_OUTPUT_CHARS content) + char_count ?n"
    by (simp add: char_count_def)
  with False show ?thesis by (simp add: maybe_truncate_output_def char_count_take_chars)
qed

text \<open>
  The test compares bytes with a limit in characters: a long output of few, wide characters is
  reported as truncated although every character of it is kept.
\<close>

lemma wide_output_reported_as_truncated:
  assumes "char_count content \<le> MAX_TOOL_OUTPUT_CHARS" "MAX_TOOL_OUTPUT_CHARS < length content"
  shows "maybe_truncate_output tool content
    = content @ truncation_note tool (length content - MAX_TOOL_OUTPUT_CHARS)"
  using assms by (simp add: maybe_truncate_output_def take_chars_all)

text \<open>The read-only test of shell commands accepts a binary that runs another one.\<close>

lemma env_counts_as_readonly:
  "bash_command_is_readonly (JObj [(''command'', JStr ''env rm -rf build'')])"
  by code_simp

end
