(* ===== verification/Session.thy ===== *)
theory Session
  imports Retry SelfCheck Planner Executor
begin

text \<open>
  The session state of \<open>crates/aether-core/src/lib.rs\<close>. The record \<open>session\<close> holds the fields
  the agent loop and compaction use; the settings only the command-line driver reads are in the
  record \<open>driver_settings\<close>, which the loop carries along. The planner has no state. Dollar
  amounts and fractions are rationals.
\<close>

record driver_settings =
  dr_started_at :: nat
  dr_checkpoint_every_tools :: nat
  dr_warmup_files :: "string list"
  dr_saved_snapshots :: "(string, conversation_item list \<times> plan) hmap"
  dr_auto_compact_on_stuck :: bool
  dr_fail_fast_errors :: nat
  dr_auto_status :: bool
  dr_task_queue :: "string list"
  dr_post_turn_hook :: "string option"
  dr_aliases :: "(string, string) hmap"
  dr_cost_cap_usd :: rat
  dr_llm_fallback_model :: "string option"
  dr_llm_fallback_count :: nat
  dr_turn_cost_log :: "(nat \<times> nat \<times> nat \<times> rat) list"
  dr_auto_commit :: bool
  dr_auto_commit_template :: string
  dr_session_env :: "(string, string) hmap"
  dr_turn_labels :: "(nat \<times> string) list"
  dr_retry_on_error_threshold :: nat
  dr_retry_on_error_max :: nat
  dr_retry_on_error_count :: nat
  dr_session_vars :: "(string, string) hmap"
  dr_prompt_macros :: "(string, string) hmap"
  dr_turn_wall_ms :: "nat list"
  dr_pause_after_turns :: nat
  dr_pause_now :: bool
  dr_session_notes :: "(string \<times> nat) list"
  dr_tool_call_budget :: nat
  dr_next_turn_model :: "string option"
  dr_think_aloud :: bool
  dr_think_aloud_prompt :: string
  dr_bookmarks :: "(nat \<times> nat \<times> string) list"
  dr_token_budget_warn_pct :: rat
  dr_token_budget_hard_pct :: rat
  dr_token_budget_warn_fired :: bool
  dr_request_prefix :: "string option"
  dr_request_suffix :: "string option"
  dr_auto_tag_rules :: "(string \<times> string) list"
  dr_cost_alert_usd :: rat
  dr_cost_alert_fired :: bool
  dr_session_tags :: "string list"
  dr_turn_models :: "string list"
  dr_smart_pause_pattern :: "string option"
  dr_auto_continue_cooldown_ms :: nat
  dr_auto_bookmark_every :: nat
  dr_cost_ceiling_usd :: rat
  dr_history_size_warn_bytes :: nat
  dr_session_intent :: "string option"
  dr_history_annotations :: "(nat \<times> string) list"
  dr_metrics_reset_turn :: nat
  dr_tool_timeout_secs :: nat

definition driver_settings_new :: "nat \<Rightarrow> driver_settings" where
  "driver_settings_new started_at =
     \<lparr>dr_started_at = started_at, dr_checkpoint_every_tools = 0, dr_warmup_files = [],
      dr_saved_snapshots = [], dr_auto_compact_on_stuck = False, dr_fail_fast_errors = 0,
      dr_auto_status = False, dr_task_queue = [], dr_post_turn_hook = None, dr_aliases = [],
      dr_cost_cap_usd = 0, dr_llm_fallback_model = None, dr_llm_fallback_count = 0,
      dr_turn_cost_log = [], dr_auto_commit = False,
      dr_auto_commit_template = ''aether: auto-commit turn {turn}'', dr_session_env = [],
      dr_turn_labels = [], dr_retry_on_error_threshold = 0, dr_retry_on_error_max = 0,
      dr_retry_on_error_count = 0, dr_session_vars = [], dr_prompt_macros = [],
      dr_turn_wall_ms = [], dr_pause_after_turns = 0, dr_pause_now = False, dr_session_notes = [],
      dr_tool_call_budget = 0, dr_next_turn_model = None, dr_think_aloud = False,
      dr_think_aloud_prompt = [], dr_bookmarks = [], dr_token_budget_warn_pct = 0,
      dr_token_budget_hard_pct = 0, dr_token_budget_warn_fired = False, dr_request_prefix = None,
      dr_request_suffix = None, dr_auto_tag_rules = [], dr_cost_alert_usd = 0,
      dr_cost_alert_fired = False, dr_session_tags = [], dr_turn_models = [],
      dr_smart_pause_pattern = None, dr_auto_continue_cooldown_ms = 0, dr_auto_bookmark_every = 0,
      dr_cost_ceiling_usd = 0, dr_history_size_warn_bytes = 0, dr_session_intent = None,
      dr_history_annotations = [], dr_metrics_reset_turn = 0, dr_tool_timeout_secs = 0\<rparr>"

record 'w session =
  ss_config :: session_config
  ss_overlay :: overlay_config
  ss_assembler :: kernel_rules
  ss_executor :: "'w executor"
  ss_verifier :: "compiled_rule list"
  ss_llm :: "'w llm_provider"
  ss_tools :: "'w tool_registry"
  ss_history :: "conversation_item list"
  ss_plan :: plan
  ss_turn_index :: nat
  ss_last_verification :: "verification_result option"
  ss_last_assembly_telemetry :: "assembly_telemetry option"
  ss_pending_reminders :: "reminder list"
  ss_selfcheck_ctx :: session_context
  ss_usage_total :: usage
  ss_llm_ms_total :: nat
  ss_llm_ms_last :: nat
  ss_compaction_happened :: bool
  ss_max_turns :: nat
  ss_persistent_reminders :: "string list"
  ss_compaction_threshold_pct :: rat
  ss_token_budget :: nat
  ss_llm_timeout_secs :: nat
  ss_context_warned_60pct :: bool
  ss_verify_enabled :: bool
  ss_turn_reminder_every :: nat
  ss_progress_items :: "(string \<times> bool) list"
  ss_tool_output_limits :: "(string, nat) hmap"
  ss_dedup_tool_calls :: bool
  ss_last_tool_signatures :: "(string \<times> string) list"
  ss_auto_think_on_stuck :: bool
  ss_error_playbook :: "(string \<times> string) list"
  ss_tool_allow :: "string list"
  ss_tool_deny :: "string list"
  ss_response_format :: "string option"
  ss_sticky_context :: "string list"
  ss_tool_output_history :: "(string, string \<times> string) hmap"
  ss_agent_persona :: "string option"
  ss_scope_guard :: "string option"
  ss_focus_mode :: "string option"
  ss_driver :: driver_settings

definition session_new ::
  "nat \<Rightarrow> session_config \<Rightarrow> overlay_config \<Rightarrow> 'w llm_provider \<Rightarrow> compiled_rule list \<Rightarrow>
   'w tool_registry \<Rightarrow> 'w session" where
  "session_new started_at config overlay llm gate tools =
     \<lparr>ss_config = config, ss_overlay = overlay, ss_assembler = kernel_rules_default,
      ss_executor = executor_new (permission_mode config), ss_verifier = gate, ss_llm = llm,
      ss_tools = tools, ss_history = [], ss_plan = plan_default, ss_turn_index = 0,
      ss_last_verification = None, ss_last_assembly_telemetry = None, ss_pending_reminders = [],
      ss_selfcheck_ctx = session_context_default, ss_usage_total = usage_default,
      ss_llm_ms_total = 0, ss_llm_ms_last = 0, ss_compaction_happened = False, ss_max_turns = 0,
      ss_persistent_reminders = [], ss_compaction_threshold_pct = 0, ss_token_budget = 0,
      ss_llm_timeout_secs = 0, ss_context_warned_60pct = False, ss_verify_enabled = True,
      ss_turn_reminder_every = 0, ss_progress_items = [], ss_tool_output_limits = [],
      ss_dedup_tool_calls = False, ss_last_tool_signatures = [], ss_auto_think_on_stuck = False,
      ss_error_playbook = [], ss_tool_allow = [], ss_tool_deny = [], ss_response_format = None,
      ss_sticky_context = [], ss_tool_output_history = [], ss_agent_persona = None,
      ss_scope_guard = None, ss_focus_mode = None,
      ss_driver = driver_settings_new started_at\<rparr>"

definition push_reminder :: "reminder \<Rightarrow> 'w session \<Rightarrow> 'w session" where
  "push_reminder r s = s\<lparr>ss_pending_reminders := ss_pending_reminders s @ [r]\<rparr>"

text \<open>The reminders the program itself queues all have the same kind and source.\<close>

definition remind :: "string \<Rightarrow> 'w session \<Rightarrow> 'w session" where
  "remind body s = push_reminder (new_reminder SystemWarning Kernel body) s"

section \<open>The context window\<close>

definition context_window_for_model :: "string \<Rightarrow> nat" where
  "context_window_for_model model =
     (let m = to_ascii_lowercase model in
      if str_contains ''opus'' m \<or> str_contains ''sonnet'' m \<or> str_contains ''haiku'' m \<or> str_contains ''fable'' m
      then 200000 else 200000)"

lemma context_window [simp]: "context_window_for_model model = 200000"
  by (simp add: context_window_for_model_def)

definition used_tokens :: "usage \<Rightarrow> nat" where
  "used_tokens u = input_tokens u + output_tokens u"

definition activation_context :: "'w session \<Rightarrow> activation_ctx" where
  "activation_context s =
     (let used = used_tokens (ss_usage_total s);
          win = context_window_for_model (cfg_model (ss_config s));
          ctx_size_ratio = (if 0 < win then min (of_nat used / of_nat win) 1 else 0)
      in \<lparr>ac_turn_index = ss_turn_index s, ac_ctx_size_ratio = ctx_size_ratio,
          ac_plan_active = is_active (ss_plan s), ac_task_expected_hours = 0,
          ac_verifier_flagged =
            (case ss_last_verification s of
               None \<Rightarrow> False
             | Some v \<Rightarrow> vr_findings v \<noteq> [] \<or> vr_is_blocked v),
          ac_tool_metadata_third_party = False, ac_memory_write_attempted = False,
          ac_user_requests_memory_change = False, ac_output_contains_quoted_text = False,
          ac_output_contains_external_claim = False, ac_persona_refusal_active = False\<rparr>)"

text \<open>
  The flags of D4, D5 and D7 are constants, so in the contexts a session builds only the other
  sections can fire.
\<close>

lemma session_sections:
  "should_activate cfg d (activation_context s) \<Longrightarrow>
     d \<in> {D1ReminderTamperTest, D2ForbiddenPhrases, D3FirstMatchRouting, D6LongConversation}"
  by (cases d) (auto simp: should_activate_def activation_context_def Let_def split: if_splits)

end
