(* ===== verification/Compaction.thy ===== *)
theory Compaction
  imports Session
begin

text \<open>
  Context compaction, \<open>crates/aether-core/src/compaction.rs\<close>: the trigger, the choice of the cut,
  the summary request and the splice. The environment variables are the argument \<open>env\<close>, the
  JSON serialiser is \<open>ser\<close>, standard error is \<open>elog\<close>.
\<close>

datatype agent_error = Llm_error llm_error | Internal string | Panicked string

text \<open>\<open>Display\<close>; a panic is not an error value of the code and shows its message.\<close>

fun show_agent_error :: "agent_error \<Rightarrow> string" where
  "show_agent_error (Llm_error e) = ''llm: '' @ show_llm_error e"
| "show_agent_error (Internal m) = ''internal: '' @ m"
| "show_agent_error (Panicked m) = m"

definition COMPACTION_THRESHOLD_PCT :: rat where
  "COMPACTION_THRESHOLD_PCT = 80 / 100"

definition SUMMARY_MAX_TOKENS :: nat where
  "SUMMARY_MAX_TOKENS = 4096"

definition over_threshold :: "usage \<Rightarrow> string \<Rightarrow> rat \<Rightarrow> bool" where
  "over_threshold usg model pct =
     (nat \<lfloor>of_nat (context_window_for_model model) * pct\<rfloor> \<le> used_tokens usg)"

section \<open>The transcript\<close>

definition serialize_use :: "(json \<Rightarrow> string) \<Rightarrow> recorded_tool_use \<Rightarrow> string" where
  "serialize_use ser tu =
     ''TOOL_USE: '' @ rtu_name tu @ '' '' @ take_chars 80 (ser (rtu_input tu)) @ nl"

definition serialize_result :: "recorded_tool_result \<Rightarrow> string" where
  "serialize_result r =
     (if rtr_error r then
        ''TOOL_ERROR: '' @ take_chars 400 (str_join '' | '' (take 5 (str_lines (rtr_content r)))) @ nl
      else
        ''TOOL_RESULT: ''
        @ take_chars 120 (case str_lines (rtr_content r) of [] \<Rightarrow> [] | l # _ \<Rightarrow> l) @ '' (ok)'' @ nl)"

fun serialize_item :: "(json \<Rightarrow> string) \<Rightarrow> conversation_item \<Rightarrow> string" where
  "serialize_item ser (User_item t) = ''USER: '' @ t @ nl"
| "serialize_item ser (Assistant_item t tus) =
     (case t of None \<Rightarrow> [] | Some t \<Rightarrow> ''ASSISTANT: '' @ t @ nl) @ concat (map (serialize_use ser) tus)"
| "serialize_item ser (ToolResults_item rs) = concat (map serialize_result rs)"

definition serialize_history :: "(json \<Rightarrow> string) \<Rightarrow> conversation_item list \<Rightarrow> string" where
  "serialize_history ser items = concat (map (serialize_item ser) items)"

definition summary_prompt :: "string \<Rightarrow> string" where
  "summary_prompt history_text = concat (map (\<lambda>l. l @ nl) [
        ''Summarize this in-progress agent conversation so it fits in fewer tokens.'',
        ''Use EXACTLY these seven labelled sections '' @ [CHR 0xE2, CHR 0x80, CHR 0x94]
        @ '' no other format. One header per line:'',
        [],
        ''GOAL: [one sentence '' @ [CHR 0xE2, CHR 0x80, CHR 0x94]
        @ '' what the user asked for or what is being built]'',
        ''PROGRESS: [what was completed; which files changed; test results if any]'',
        ''CURRENT-STEP: [the exact task or command in progress when this summary was ''
        @ ''cut]'',
        ''ERRORS: [any unresolved tool errors, build failures, or test failures ''
        @ [CHR 0xE2, CHR 0x80, CHR 0x94]
        @ '' include exact error messages and file:line references if present]'',
        ''KEY-IDS: [file paths, function names, variable names, PR numbers, and other ''
        @ ''identifiers referenced in this session]'',
        ''EVIDENCE: [which claims were VERIFIED by tool calls '' @ [CHR 0xE2, CHR 0x80, CHR 0x94]
        @ '' list the tool calls made (files read, commands run) and what they proved; ''
        @ ''the post-compaction agent must not mistake verified work for unverified ''
        @ ''claims]'',
        ''NEXT-ACTION: [what the agent was about to do next]'',
        [],
        ''Write NONE for a section if truly nothing belongs there. Keep each section ''
        @ ''to 1-3 lines. Do not add extra sections or commentary.'',
        [],
        ''Conversation transcript:'']) @ history_text"

section \<open>The cut\<close>

definition is_user_item :: "conversation_item \<Rightarrow> bool" where
  "is_user_item i = (case i of User_item t \<Rightarrow> True | _ \<Rightarrow> False)"

definition is_assistant_item :: "conversation_item \<Rightarrow> bool" where
  "is_assistant_item i = (case i of Assistant_item t us \<Rightarrow> True | _ \<Rightarrow> False)"

text \<open>\<open>while c > 1 && !p(history[c]) { c -= 1 }\<close>\<close>

fun snap :: "(conversation_item \<Rightarrow> bool) \<Rightarrow> conversation_item list \<Rightarrow> nat \<Rightarrow> nat" where
  "snap p h c = (if 1 < c \<and> \<not> p (h ! c) then snap p h (c - 1) else c)"

declare snap.simps [simp del]

definition choose_cut :: "conversation_item list \<Rightarrow> (nat \<times> bool) option" where
  "choose_cut h =
     (let keep_count = max 2 (length h div 3);
          initial_cut = length h - keep_count;
          c = snap is_user_item h initial_cut;
          c2 = snap is_assistant_item h initial_cut
      in if is_user_item (h ! c) then Some (c, True)
         else if is_assistant_item (h ! c2) then Some (c2, False)
         else None)"

section \<open>Compacting\<close>

definition SUMMARY_HEADER :: string where
  "SUMMARY_HEADER =
     ''[CONTEXT SUMMARY OF EARLIER TURNS '' @ [CHR 0xE2, CHR 0x80, CHR 0x94]
     @ '' refer to this when answering]''"

definition has_stuck_tools :: "plan \<Rightarrow> bool" where
  "has_stuck_tools p = list_ex (\<lambda>(name, n). TOOL_ERROR_THRESHOLD \<le> n) (tool_error_counts p)"

definition compaction_threshold :: "'w session \<Rightarrow> rat" where
  "compaction_threshold s =
     (let base = (if 0 < ss_compaction_threshold_pct s
                  then max (10 / 100) (min (99 / 100) (ss_compaction_threshold_pct s))
                  else COMPACTION_THRESHOLD_PCT)
      in if has_stuck_tools (ss_plan s) then max (base - 10 / 100) (10 / 100) else base)"

definition summary_request :: "string \<Rightarrow> string \<Rightarrow> messages_request" where
  "summary_request model history_text =
     \<lparr>rq_model = model, rq_system = None, rq_messages = [user_text (summary_prompt history_text)],
      rq_max_tokens = SUMMARY_MAX_TOKENS, rq_tools = [], rq_stream = False, rq_thinking = None,
      rq_temperature = None\<rparr>"

definition summary_prefix :: "bool \<Rightarrow> string \<Rightarrow> conversation_item list" where
  "summary_prefix use_synthetic_assistant summary =
     (if use_synthetic_assistant
      then [User_item SUMMARY_HEADER, Assistant_item (Some summary) []]
      else [User_item (SUMMARY_HEADER @ nl @ nl @ summary)])"

text \<open>After the summary arrived: the splice, the new token totals and the goal reminder.\<close>

definition finish_compaction :: "bool \<Rightarrow> messages_response \<Rightarrow> 'w session \<Rightarrow> 'w session" where
  "finish_compaction synthetic resp s =
     (let summary = concat (block_texts (rs_content resp));
          s1 = s\<lparr>ss_history := summary_prefix synthetic summary @ ss_history s,
                 ss_usage_total :=
                   (case rs_usage resp of
                      None \<Rightarrow> usage_default
                    | Some u \<Rightarrow> usage_add usage_default u)\<rparr>;
          s2 = (case goal (ss_plan s1) of
                  None \<Rightarrow> s1
                | Some g \<Rightarrow> remind (''[Post-compaction goal reminder] '' @ g) s1)
      in s2\<lparr>ss_compaction_happened := True\<rparr>)"

definition compact_inner ::
  "(string \<Rightarrow> string option) \<Rightarrow> (json \<Rightarrow> string) \<Rightarrow> (string \<Rightarrow> 'w \<Rightarrow> 'w) \<Rightarrow> bool \<Rightarrow> 'w session \<Rightarrow> 'w \<Rightarrow>
   (agent_error, bool) result \<times> 'w session \<times> 'w" where
  "compact_inner env ser elog force s w =
     (if env ''AETHER_NO_COMPACT'' = Some ''1'' then (Inr False, s, w)
      else if \<not> force \<and> \<not> over_threshold (ss_usage_total s) (cfg_model (ss_config s)) (compaction_threshold s)
      then (Inr False, s, w)
      else if length (ss_history s) < 4 then (Inr False, s, w)
      else (case choose_cut (ss_history s) of
              None \<Rightarrow> (Inr False, s, elog ''[compaction] skipped: no safe boundary found'' w)
            | Some (c, synthetic) \<Rightarrow>
                (let head = take c (ss_history s);
                     s1 = s\<lparr>ss_history := drop c (ss_history s)\<rparr>;
                     req = summary_request (cfg_model (ss_config s)) (serialize_history ser head)
                 in case pr_complete (ss_llm s) req w of
                      (Inl e, w1) \<Rightarrow> (Inl (Llm_error e), s1, w1)
                    | (Inr resp, w1) \<Rightarrow> (Inr True, finish_compaction synthetic resp s1, w1))))"

definition maybe_compact ::
  "(string \<Rightarrow> string option) \<Rightarrow> (json \<Rightarrow> string) \<Rightarrow> (string \<Rightarrow> 'w \<Rightarrow> 'w) \<Rightarrow> 'w session \<Rightarrow> 'w \<Rightarrow>
   (agent_error, bool) result \<times> 'w session \<times> 'w" where
  "maybe_compact env ser elog s w = compact_inner env ser elog False s w"

definition force_compact ::
  "(string \<Rightarrow> string option) \<Rightarrow> (json \<Rightarrow> string) \<Rightarrow> (string \<Rightarrow> 'w \<Rightarrow> 'w) \<Rightarrow> 'w session \<Rightarrow> 'w \<Rightarrow>
   (agent_error, bool) result \<times> 'w session \<times> 'w" where
  "force_compact env ser elog s w = compact_inner env ser elog True s w"

section \<open>Where the cut falls\<close>

lemma snap_bounds: "1 \<le> c \<Longrightarrow> 1 \<le> snap p h c \<and> snap p h c \<le> c"
proof (induction p h c rule: snap.induct)
  case (1 p h c)
  show ?case
  proof (cases "1 < c \<and> \<not> p (h ! c)")
    case True
    then have "1 < c" by (rule conjunct1)
    then have "1 \<le> c - 1" by linarith
    from "1.IH"[OF True this] True show ?thesis
      unfolding snap.simps[of p h c] by auto
  next
    case False
    with "1.prems" show ?thesis unfolding snap.simps[of p h c] by auto
  qed
qed

lemma choose_cut_Some:
  assumes "choose_cut h = Some (c, b)" "4 \<le> length h"
  shows "1 \<le> c" "c + max 2 (length h div 3) \<le> length h"
    "if b then is_user_item (h ! c) else is_assistant_item (h ! c)"
proof -
  let ?i = "length h - max 2 (length h div 3)"
  have i: "1 \<le> ?i" "max 2 (length h div 3) \<le> length h" using assms(2) by auto
  from snap_bounds[OF i(1), of _ h] have
    s: "1 \<le> snap p h ?i" "snap p h ?i \<le> ?i" for p by auto
  have "c = snap is_user_item h ?i \<and> is_user_item (h ! c) \<and> b
      \<or> c = snap is_assistant_item h ?i \<and> is_assistant_item (h ! c) \<and> \<not> b"
    using assms(1) by (auto simp: choose_cut_def Let_def split: if_splits)
  with s i show "1 \<le> c" "c + max 2 (length h div 3) \<le> length h"
    "if b then is_user_item (h ! c) else is_assistant_item (h ! c)"
    by (auto simp del: max.bounded_iff) (metis le_diff_conv2 i(2))+
qed

lemma not_results: "is_user_item i \<or> is_assistant_item i \<Longrightarrow> i \<noteq> ToolResults_item rs"
  by (auto simp: is_user_item_def is_assistant_item_def)

lemma summary_prefix_paired: "paired (summary_prefix b t)"
  by (simp add: summary_prefix_def)

lemma finish_compaction_fields [frame]:
  "ss_history (finish_compaction b resp s)
     = summary_prefix b (concat (block_texts (rs_content resp))) @ ss_history s"
  "ss_plan (finish_compaction b resp s) = ss_plan s"
  "ss_config (finish_compaction b resp s) = ss_config s"
  "ss_compaction_happened (finish_compaction b resp s) = True"
  by (simp_all add: finish_compaction_def Let_def remind_def push_reminder_def split: option.splits)

text \<open>The three ways a compaction can end.\<close>

lemma compact_inner_cases:
  assumes "compact_inner env ser elog force s w = (r, s', w')"
  obtains (skipped) "r = Inr False" "s' = s"
  | (failed) c b e where "choose_cut (ss_history s) = Some (c, b)" "4 \<le> length (ss_history s)"
      "r = Inl (Llm_error e)" "s' = s\<lparr>ss_history := drop c (ss_history s)\<rparr>"
  | (compacted) c b resp where "choose_cut (ss_history s) = Some (c, b)" "4 \<le> length (ss_history s)"
      "r = Inr True" "s' = finish_compaction b resp (s\<lparr>ss_history := drop c (ss_history s)\<rparr>)"
proof (cases "env ''AETHER_NO_COMPACT'' = Some ''1''
      \<or> (\<not> force \<and> \<not> over_threshold (ss_usage_total s) (cfg_model (ss_config s)) (compaction_threshold s))
      \<or> length (ss_history s) < 4")
  case True
  with assms have "r = Inr False" "s' = s" by (auto simp: compact_inner_def split: if_splits)
  then show ?thesis by (rule skipped)
next
  case False
  then have len: "4 \<le> length (ss_history s)" by simp
  have eq: "compact_inner env ser elog force s w =
      (case choose_cut (ss_history s) of
         None \<Rightarrow> (Inr False, s, elog ''[compaction] skipped: no safe boundary found'' w)
       | Some (c, synthetic) \<Rightarrow>
           (case pr_complete (ss_llm s)
               (summary_request (cfg_model (ss_config s)) (serialize_history ser (take c (ss_history s)))) w of
              (Inl e, w1) \<Rightarrow> (Inl (Llm_error e), s\<lparr>ss_history := drop c (ss_history s)\<rparr>, w1)
            | (Inr resp, w1) \<Rightarrow>
                (Inr True, finish_compaction synthetic resp (s\<lparr>ss_history := drop c (ss_history s)\<rparr>), w1)))"
    unfolding compact_inner_def Let_def using False by auto
  show ?thesis
  proof (cases "choose_cut (ss_history s)")
    case None
    with assms have "r = Inr False" "s' = s" by (simp_all add: eq)
    then show ?thesis by (rule skipped)
  next
    case (Some cb)
    obtain c b where cb: "cb = (c, b)" by (cases cb)
    let ?s1 = "s\<lparr>ss_history := drop c (ss_history s)\<rparr>"
    let ?req = "summary_request (cfg_model (ss_config s)) (serialize_history ser (take c (ss_history s)))"
    obtain x w1 where x: "pr_complete (ss_llm s) ?req w = (x, w1)" by fastforce
    show ?thesis
    proof (cases x)
      case (Inl e)
      with assms Some cb x have "r = Inl (Llm_error e)" "s' = ?s1"
        by (simp_all add: eq)
      with Some cb len show ?thesis by (intro failed) auto
    next
      case (Inr resp)
      with assms Some cb x have "r = Inr True" "s' = finish_compaction b resp ?s1"
        by (simp_all add: eq)
      with Some cb len show ?thesis by (intro compacted) auto
    qed
  qed
qed

lemma compact_inner_paired:
  assumes "compact_inner env ser elog force s w = (r, s', w')" "paired (ss_history s)"
  shows "paired (ss_history s')"
proof -
  have tail: "paired (drop c (ss_history s))"
    if c: "choose_cut (ss_history s) = Some (c, b)" "4 \<le> length (ss_history s)" for c b
  proof (rule paired_drop[OF assms(2)])
    from choose_cut_Some[OF c] show "c < length (ss_history s)" by auto
    from choose_cut_Some(3)[OF c] not_results show "\<forall>rs. ss_history s ! c \<noteq> ToolResults_item rs"
      by (metis (full_types))
  qed
  from assms(1) show ?thesis
  proof (cases rule: compact_inner_cases)
    case (compacted c b resp)
    with paired_append[OF summary_prefix_paired tail] show ?thesis by (simp add: frame)
  qed (use assms(2) tail in auto)
qed

section \<open>Properties\<close>

definition demo_llm :: "llm_result \<Rightarrow> unit llm_provider" where
  "demo_llm r = \<lparr>pr_complete = (\<lambda>req w. (r, w)), pr_complete_streamed = (\<lambda>req cb w. (r, w)), pr_name = ''demo''\<rparr>"

definition demo_response :: "string \<Rightarrow> llm_result" where
  "demo_response t = Inr \<lparr>rs_content = [Text t], rs_stop_reason = EndTurn, rs_usage = None\<rparr>"

definition demo_history :: "conversation_item list" where
  "demo_history = [User_item ''one'', Assistant_item (Some ''two'') [], User_item ''three'',
     Assistant_item None [\<lparr>rtu_id = ''u'', rtu_name = ''Read'', rtu_input = JNull\<rparr>],
     ToolResults_item [\<lparr>rtr_id = ''u'', rtr_content = ''x'', rtr_error = False\<rparr>]]"

definition demo_session :: "llm_result \<Rightarrow> unit session" where
  "demo_session r =
     (session_new 0 session_config_default overlay_config_default (demo_llm r) [] [])\<lparr>ss_history := demo_history\<rparr>"



text \<open>
  The failure case on a concrete session: the comments call a failed compaction skipped, but the
  first two items are lost.
\<close>

lemma failed_compaction_loses_head:
  "ss_history (fst (snd (force_compact (\<lambda>_. None) (\<lambda>_. []) (\<lambda>_ w. w) (demo_session (Inl RateLimited)) ())))
     = drop 2 demo_history"
proof -
  have "choose_cut demo_history = Some (2, True)" by code_simp
  then show ?thesis
    by (simp add: force_compact_def compact_inner_def demo_session_def session_new_def demo_llm_def Let_def
        demo_history_def)
qed

end
