(* ===== verification/AgentLoop.thy ===== *)
theory AgentLoop
  imports Compaction
begin

text \<open>
  One turn of the agent, \<open>agent_turn_inner\<close> of \<open>crates/aether-core/src/lib.rs\<close>: perceive, budget,
  compact, plan, remind, assemble, guard, call the model, verify, execute, observe, decide. Each
  phase is a definition on the session; \<open>agent_turn_inner\<close> composes them in the order of the code.
  Environment variables, the clock, the timer of a call, the regex engine, the serialiser and
  standard error are the environment record. A panic of the gate is the error \<open>Panicked\<close>.
\<close>

record 'w agent_env =
  ae_exec :: "'w exec_env"
  ae_engine :: regex_engine
  ae_getenv :: "string \<Rightarrow> string option"
  ae_timeout :: "nat \<Rightarrow> ('w \<Rightarrow> llm_result \<times> 'w) \<Rightarrow> 'w \<Rightarrow> llm_result option \<times> 'w"
  ae_now_ms :: "'w \<Rightarrow> nat \<times> 'w"

definition env_on :: "'w agent_env \<Rightarrow> string \<Rightarrow> bool" where
  "env_on env name = (ae_getenv env name = Some ''1'')"

definition exec_env_for :: "'w agent_env \<Rightarrow> 'w exec_env" where
  "exec_env_for env =
     (ae_exec env)\<lparr>ee_no_parallel := env_on env ''AETHER_NO_PARALLEL_TOOLS''\<rparr>"

datatype turn_outcome = AwaitUser | ContinueImmediately | Sleep nat | Exit

section \<open>Perceive\<close>

definition looks_like_creative_writing_request :: "string \<Rightarrow> bool" where
  "looks_like_creative_writing_request s =
     (let lower = to_ascii_lowercase s
      in list_ex (\<lambda>t. str_contains t lower)
           [''poem'', ''poetry'', ''haiku'', ''sonnet'', ''limerick'', ''verse'', ''ballad'',
            ''song lyric'', ''lyrics for'', ''write a song'', ''write me a song'',
            ''rap lyrics'', ''rhyme'', ''couplet''])"

definition perceive_input :: "string option \<Rightarrow> 'w session \<Rightarrow> 'w session" where
  "perceive_input user_input s =
     (case user_input of
        None \<Rightarrow> s
      | Some t \<Rightarrow>
          s\<lparr>ss_selfcheck_ctx :=
              (ss_selfcheck_ctx s)\<lparr>user_asked_for_creative_writing := looks_like_creative_writing_request t\<rparr>,
            ss_history := ss_history s @ [User_item t]\<rparr>)"

definition turn_budget_reached :: "'w session \<Rightarrow> bool" where
  "turn_budget_reached s = (0 < ss_max_turns s \<and> ss_max_turns s \<le> ss_turn_index s)"

definition turn_budget_text :: "'w session \<Rightarrow> string" where
  "turn_budget_text s =
       ''Turn budget reached (''
       @ show_nat (ss_turn_index s)
       @ ''/''
       @ show_nat (ss_max_turns s)
       @ '' turns). Awaiting user instruction. Use /max-turns to raise the limit or ''
       @ ''just send a new message.''"

section \<open>Reminders\<close>

definition stuck_names :: "plan \<Rightarrow> string list" where
  "stuck_names p = sort (map fst (filter (\<lambda>(name, n). TOOL_ERROR_THRESHOLD \<le> n) (tool_error_counts p)))"

definition stuck_text :: "string \<Rightarrow> string" where
  "stuck_text names =
       ''You are currently stuck: tool(s) [''
       @ names
       @ ''] have failed 3+ times consecutively. Do NOT repeat the same call. Instead: ''
       @ ''(1) re-read the FULL error output from the last failure; (2) try a more ''
       @ ''targeted variant (smaller scope, different arguments, or a different tool ''
       @ ''entirely); (3) if blocked by permissions, report it rather than retrying.''"

definition remind_all :: "string list \<Rightarrow> 'w session \<Rightarrow> 'w session" where
  "remind_all bodies s = fold remind bodies s"

definition inject_stuck :: "'w session \<Rightarrow> 'w session" where
  "inject_stuck s =
     (let names = stuck_names (ss_plan s)
      in if names \<noteq> [] then remind (stuck_text (str_join '', '' names)) s else s)"

definition persona_texts :: "'w session \<Rightarrow> string list" where
  "persona_texts s =
     (case ss_agent_persona s of
        None \<Rightarrow> []
      | Some persona \<Rightarrow>
          [''[Agent persona] You are acting as: ''
       @ persona
       @ ''. Respond with the expertise, tone, and priorities that role entails.''])"

definition scope_texts :: "'w session \<Rightarrow> string list" where
  "scope_texts s =
     (case ss_scope_guard s of
        None \<Rightarrow> []
      | Some scope \<Rightarrow>
          [''[Scope guard] ONLY read, write, or edit files matching the pattern: ''
       @ scope
       @ nl @ ''Do NOT touch files outside this scope. If you need to look elsewhere, ask ''
       @ ''the user first.''])"

definition sticky_texts :: "'w session \<Rightarrow> string list" where
  "sticky_texts s =
     map (\<lambda>(i, snippet). ''[Sticky context ''
       @ show_nat i
       @ ''] ''
       @ snippet)
       (enumerate 0 (ss_sticky_context s))"

definition focus_texts :: "'w session \<Rightarrow> string list" where
  "focus_texts s =
     (case ss_focus_mode s of
        None \<Rightarrow> []
      | Some topic \<Rightarrow> [''[Focus mode] Keep responses focused on: ''
       @ topic])"

definition standing_texts :: "'w session \<Rightarrow> string list" where
  "standing_texts s = map (\<lambda>body. ''[Standing instruction] ''
       @ body) (ss_persistent_reminders s)"

definition progress_texts :: "'w session \<Rightarrow> string list" where
  "progress_texts s =
     (if ss_progress_items s = [] then []
      else [''[Progress tracker]'' @ nl
            @ str_join nl (map (\<lambda>(i, (t, done)).
                ''['' @ show_nat i @ ''] '' @ (if done then ''DONE'' else ''TODO'') @ '' '' @ t)
                (enumerate 0 (ss_progress_items s)))])"

definition format_texts :: "'w session \<Rightarrow> string list" where
  "format_texts s =
     (case ss_response_format s of
        None \<Rightarrow> []
      | Some fmt \<Rightarrow>
          [if fmt = ''json'' then
             ''[Response format] Respond ONLY with valid JSON. No prose, no markdown ''
             @ ''fences.''
           else if fmt = ''markdown'' then
             ''[Response format] Format all responses using Markdown (headings, code ''
             @ ''blocks, lists).''
           else if fmt = ''plain'' then
             ''[Response format] Respond in plain text only. No markdown, no code fences, ''
             @ ''no special formatting.''
           else ''[Response format] '' @ fmt])"

definition goal_texts :: "'w session \<Rightarrow> string list" where
  "goal_texts s =
     (if 0 < ss_turn_reminder_every s \<and> 0 < ss_turn_index s
         \<and> ss_turn_index s mod ss_turn_reminder_every s = 0
      then (case goal (ss_plan s) of
              None \<Rightarrow> []
            | Some g \<Rightarrow> [''[Turn-''
       @ show_nat (ss_turn_index s)
       @ '' goal reminder] ''
       @ g])
      else [])"

definition turn_texts :: "'w session \<Rightarrow> string list" where
  "turn_texts s =
     persona_texts s @ scope_texts s @ sticky_texts s @ focus_texts s @ standing_texts s
     @ progress_texts s @ format_texts s @ goal_texts s"

fun dedup_by_body :: "string list \<Rightarrow> reminder list \<Rightarrow> reminder list" where
  "dedup_by_body seen [] = []"
| "dedup_by_body seen (r # rs) =
     (if rem_body r \<in> set seen then dedup_by_body seen rs
      else r # dedup_by_body (rem_body r # seen) rs)"

section \<open>Assembly and the guard\<close>

definition tool_defs :: "'w session \<Rightarrow> tool_def list" where
  "tool_defs s =
     filter (\<lambda>td. (ss_tool_allow s = [] \<or> td_name td \<in> set (ss_tool_allow s))
               \<and> td_name td \<notin> set (ss_tool_deny s))
       (concat (map (\<lambda>n. case registry_get (ss_tools s) n of
            None \<Rightarrow> []
          | Some t \<Rightarrow> [\<lparr>td_name = tool_name t, td_description = tool_description t,
                       td_input_schema = tool_input_schema t\<rparr>])
          (registry_names (ss_tools s))))"

definition assemble :: "'w agent_env \<Rightarrow> activation_ctx \<Rightarrow> 'w session \<Rightarrow> messages_request \<times> 'w session" where
  "assemble env ctx s =
     (let candidates = dedup_by_body [] (ss_pending_reminders s);
          plan_text = (if is_active (ss_plan s) then Some (plan_text (ss_plan s)) else None);
          (req, telemetry) =
            build_context (ee_rx (ae_exec env)) (ss_assembler s) (ss_history s) (ss_config s)
              (ss_overlay s) ctx candidates (tool_defs s) plan_text
      in (req, s\<lparr>ss_pending_reminders := [], ss_last_assembly_telemetry := Some telemetry\<rparr>))"

definition guard_error :: "string list \<Rightarrow> string" where
  "guard_error repairs =
       ''pre-flight tool pairing check failed (AETHER_DEBUG=1 hard mode): ''
       @ str_join ''; '' repairs"

definition guard_warning :: "string \<Rightarrow> string" where
  "guard_warning r = ''[preflight] WARN '' @ r @ '' '' @ [CHR 0xE2, CHR 0x80, CHR 0x94] @ '' repaired before the API call (FF7)''"

definition guard_request ::
  "'w agent_env \<Rightarrow> messages_request \<Rightarrow> 'w \<Rightarrow> (agent_error, messages_request) result \<times> 'w" where
  "guard_request env req w =
     (case sanitize_tool_pairing (rq_messages req) of
        (repairs, messages) \<Rightarrow>
          if repairs \<noteq> [] \<and> env_on env ''AETHER_DEBUG'' then (Inl (Internal (guard_error repairs)), w)
          else (Inr (req\<lparr>rq_messages := messages\<rparr>),
                fold (\<lambda>r. ee_eprintln (ae_exec env) (guard_warning r)) repairs w))"

text \<open>
  Thinking, temperature and \<open>/notool\<close>. The sum \<open>budget + 16_384\<close> is a \<open>u32\<close>; it wraps in a
  release build.
\<close>

definition shape_request :: "'w session \<Rightarrow> messages_request \<Rightarrow> messages_request \<times> 'w session" where
  "shape_request s req =
     (let req1 = (case thinking_budget (ss_config s) of
                    None \<Rightarrow> req
                  | Some budget \<Rightarrow>
                      req\<lparr>rq_thinking := Some (thinking_enabled budget), rq_tools := [],
                          rq_max_tokens := (if rq_max_tokens req \<le> budget
                                            then (budget + 16384) mod 2 ^ 32 else rq_max_tokens req)\<rparr>);
          req2 = req1\<lparr>rq_temperature := temperature (ss_config s)\<rparr>
      in if 0 < tools_disabled_turns (ss_config s)
         then (req2\<lparr>rq_tools := []\<rparr>,
               s\<lparr>ss_config := (ss_config s)\<lparr>tools_disabled_turns := tools_disabled_turns (ss_config s) - 1\<rparr>\<rparr>)
         else (req2, s))"

section \<open>The model call\<close>

definition timeout_text :: "nat \<Rightarrow> string" where
  "timeout_text secs = ''LLM call timed out after ''
       @ show_nat secs
       @ ''s (set by /timeout)''"

definition call_model ::
  "'w agent_env \<Rightarrow> 'w session \<Rightarrow> messages_request \<Rightarrow> 'w text_delta_sink option \<Rightarrow> 'w \<Rightarrow> llm_result \<times> 'w" where
  "call_model env s req on_delta w =
     (let call = (case on_delta of
                    None \<Rightarrow> pr_complete (ss_llm s) req
                  | Some cb \<Rightarrow> pr_complete_streamed (ss_llm s) req cb)
      in if 0 < ss_llm_timeout_secs s then
           (case ae_timeout env (ss_llm_timeout_secs s) call w of
              (Some r, w') \<Rightarrow> (r, w')
            | (None, w') \<Rightarrow> (Inl (Transport (timeout_text (ss_llm_timeout_secs s))), w'))
         else call w)"

definition account_call :: "nat \<Rightarrow> messages_response \<Rightarrow> 'w session \<Rightarrow> 'w session" where
  "account_call elapsed resp s =
     s\<lparr>ss_llm_ms_last := elapsed, ss_llm_ms_total := ss_llm_ms_total s + elapsed,
       ss_usage_total := (case rs_usage resp of
                            None \<Rightarrow> ss_usage_total s
                          | Some u \<Rightarrow> usage_add (ss_usage_total s) u)\<rparr>"

definition warn_context :: "'w session \<Rightarrow> 'w session" where
  "warn_context s =
     (if \<not> ss_context_warned_60pct s then
        (let used = used_tokens (ss_usage_total s);
             win = context_window_for_model (cfg_model (ss_config s))
         in if 0 < win \<and> (60 / 100 :: rat) \<le> of_nat used / of_nat win
            then s\<lparr>ss_context_warned_60pct := True\<rparr> else s)
      else s)"

definition warn_token_budget :: "'w session \<Rightarrow> 'w session" where
  "warn_token_budget s =
     (let used = used_tokens (ss_usage_total s)
      in if 0 < ss_token_budget s \<and> ss_token_budget s \<le> used
         then remind (''Token budget exceeded: ''
       @ show_nat used
       @ '' / ''
       @ show_nat (ss_token_budget s)
       @ '' tokens used. Consider running /compact or /trim-history to reduce context, ''
       @ ''or raise the budget with /token-budget.'') s
         else s)"

section \<open>The response\<close>

definition raw_text :: "messages_response \<Rightarrow> string option" where
  "raw_text resp =
     (let parts = block_texts (rs_content resp)
      in if parts = [] then None else Some (str_join nl parts))"

definition response_uses :: "messages_response \<Rightarrow> recorded_tool_use list" where
  "response_uses resp =
     concat (map (\<lambda>b. case b of
        ToolUse i n x \<Rightarrow> [\<lparr>rtu_id = i, rtu_name = n, rtu_input = x\<rparr>]
      | _ \<Rightarrow> []) (rs_content resp))"

definition cap_tool_uses :: "recorded_tool_use list \<Rightarrow> 'w session \<Rightarrow> recorded_tool_use list \<times> 'w session" where
  "cap_tool_uses us s =
     (let cap = max_tool_calls_per_turn (ss_config s)
      in if 0 < cap \<and> cap < length us
         then (take cap us,
               remind (''Tool-call budget exceeded: ''
       @ show_nat (length us - cap)
       @ '' tool call(s) were dropped this turn (limit = ''
       @ show_nat cap
       @ '' per turn). Request fewer tool calls per response or increase the limit ''
       @ ''with /set-max-tools.'') s)
         else (us, s))"

section \<open>Verify\<close>

text \<open>Whether the text is blocked, the text to record, and the session with the verdict.\<close>

definition verify_text ::
  "'w agent_env \<Rightarrow> string option \<Rightarrow> 'w session \<Rightarrow> (agent_error, bool \<times> string option \<times> 'w session) result" where
  "verify_text env raw s =
     (case (if ss_verify_enabled s then raw else None) of
        None \<Rightarrow> Inr (False, raw, s)
      | Some t \<Rightarrow>
          (case check_before_emit (ae_engine env) (ss_verifier s) t (ss_selfcheck_ctx s) of
             Inl p \<Rightarrow> Inl (Panicked p)
           | Inr v \<Rightarrow>
               Inr (vr_is_blocked v, if vr_is_blocked v then raw else Some (vr_message v),
                    s\<lparr>ss_last_verification := Some v\<rparr>)))"

definition blocked_ids :: "verification_result \<Rightarrow> string list" where
  "blocked_ids v = map fd_rule_id (vr_blocked_reasons v)"

definition blocked_sentinel :: "string list \<Rightarrow> string" where
  "blocked_sentinel ids = ''[BLOCKED BY VERIFIER: rules='' @ str_join '','' (sort_dedup ids) @ '']''"

definition blocked_reminder :: "string list \<Rightarrow> string" where
  "blocked_reminder ids =
       ''Previous emission was blocked by the self-check gate (rules=''
       @ str_join '','' (sort_dedup ids)
       @ ''). Do not repeat the blocked content. Refer to the active plan.''"

definition handle_block ::
  "bool \<Rightarrow> string option \<Rightarrow> recorded_tool_use list \<Rightarrow> 'w session \<Rightarrow>
   string option \<times> recorded_tool_use list \<times> 'w session" where
  "handle_block blocked final us s =
     (if blocked then
        (let ids = (case ss_last_verification s of Some v \<Rightarrow> blocked_ids v | None \<Rightarrow> [])
         in (Some (blocked_sentinel ids), [],
             remind (blocked_reminder ids)
               (s\<lparr>ss_plan := record_block (ss_turn_index s) ids (ss_plan s)\<rparr>)))
      else (final, us, s))"

section \<open>Before the tools\<close>

definition dup_text :: "string list \<Rightarrow> string" where
  "dup_text dups =
       ''[Duplicate tool call detected: ''
       @ str_join '', '' dups
       @ ''] You called these tools with identical arguments last turn. Use different ''
       @ ''parameters, a different tool, or reconsider the approach.''"

definition detect_duplicates ::
  "'w agent_env \<Rightarrow> recorded_tool_use list \<Rightarrow> 'w session \<Rightarrow> 'w session" where
  "detect_duplicates env us s =
     (if ss_dedup_tool_calls s \<and> us \<noteq> [] then
        (let sigs = map (\<lambda>tu. (rtu_name tu, ee_serialise (ae_exec env) (rtu_input tu))) us;
             dups = map fst (filter (\<lambda>sg. sg \<in> set (ss_last_tool_signatures s)) sigs);
             s1 = (if dups \<noteq> [] then remind (dup_text dups) s else s)
         in s1\<lparr>ss_last_tool_signatures := sigs\<rparr>)
      else s)"

definition auto_think_text :: string where
  "auto_think_text =
       ''[Auto-think activated] Extended thinking enabled due to repeated errors. ''
       @ ''Reason carefully before your next tool call.''"

definition auto_think :: "'w session \<Rightarrow> 'w session" where
  "auto_think s =
     (if ss_auto_think_on_stuck s \<and> thinking_budget (ss_config s) = None
         \<and> list_ex (\<lambda>(name, ok, err). TOOL_ERROR_THRESHOLD \<le> err) (tool_call_stats (ss_plan s))
      then remind auto_think_text (s\<lparr>ss_config := (ss_config s)\<lparr>thinking_budget := Some 8192\<rparr>\<rparr>)
      else s)"

section \<open>Execute and observe\<close>

definition run_tools ::
  "'w agent_env \<Rightarrow> recorded_tool_use list \<Rightarrow> 'w session \<Rightarrow> 'w \<Rightarrow>
   recorded_tool_result list \<times> 'w session \<times> 'w" where
  "run_tools env us s w =
     (if us = [] then ([], s, w)
      else (case execute (exec_env_for env) (ss_tools s) us (ss_executor s) w of
              (rs, ex, w') \<Rightarrow> (rs, s\<lparr>ss_executor := ex\<rparr>, w')))"

definition find_use :: "recorded_tool_use list \<Rightarrow> recorded_tool_result \<Rightarrow> recorded_tool_use option" where
  "find_use us r = find (\<lambda>tu. rtu_id tu = rtr_id r) us"

definition limit_note :: "string \<Rightarrow> nat \<Rightarrow> string" where
  "limit_note name dropped =
       nl @ nl @ ''[PER-TOOL LIMIT (''
       @ name
       @ ''): ''
       @ show_nat dropped
       @ '' chars dropped '' @ [CHR 0xE2, CHR 0x80, CHR 0x94]
       @ '' use a more specific query or raise with /tool-output-max ''
       @ name
       @ '' <N>]''"

definition limit_result ::
  "(string, nat) hmap \<Rightarrow> recorded_tool_use list \<Rightarrow> recorded_tool_result \<Rightarrow> recorded_tool_result" where
  "limit_result limits us r =
     (let name = (case find_use us r of Some tu \<Rightarrow> rtu_name tu | None \<Rightarrow> [])
      in case hm_get limits name of
           None \<Rightarrow> r
         | Some cap \<Rightarrow>
             if cap < length (rtr_content r)
             then r\<lparr>rtr_content := take_chars cap (rtr_content r)
                      @ limit_note name (length (rtr_content r) - cap)\<rparr>
             else r)"

definition limit_results ::
  "recorded_tool_use list \<Rightarrow> recorded_tool_result list \<Rightarrow> 'w session \<Rightarrow> recorded_tool_result list" where
  "limit_results us rs s =
     (if ss_tool_output_limits s = [] then rs else map (limit_result (ss_tool_output_limits s) us) rs)"

definition record_outputs ::
  "recorded_tool_use list \<Rightarrow> recorded_tool_result list \<Rightarrow> 'w session \<Rightarrow> 'w session" where
  "record_outputs us rs s =
     s\<lparr>ss_tool_output_history :=
         fold (\<lambda>r m. case find_use us r of
                 None \<Rightarrow> m
               | Some tu \<Rightarrow>
                   hm_entry (rtu_name tu) ([], []) (\<lambda>(old, new). (new, take_chars 8000 (rtr_content r))) m)
           rs (ss_tool_output_history s)\<rparr>"

definition playbook_texts :: "recorded_tool_result list \<Rightarrow> (string \<times> string) list \<Rightarrow> string list" where
  "playbook_texts rs book =
     concat (map (\<lambda>r.
       if rtr_error r then
         concat (map (\<lambda>(pattern, hint).
           if str_contains (to_ascii_lowercase pattern) (to_ascii_lowercase (rtr_content r))
           then [''[Playbook hint for '' @ [CHR 0x22] @ pattern @ [CHR 0x22] @ '']: '' @ hint] else []) book)
       else []) rs)"

definition collect_hook_reminders :: "'w session \<Rightarrow> 'w session" where
  "collect_hook_reminders s =
     (case drain_pending_reminders (ss_executor s) of
        (bodies, ex) \<Rightarrow> remind_all bodies (s\<lparr>ss_executor := ex\<rparr>))"

definition feed_result :: "recorded_tool_use list \<Rightarrow> recorded_tool_result \<Rightarrow> plan \<Rightarrow> plan" where
  "feed_result us r p =
     (case find_use us r of
        None \<Rightarrow> p
      | Some tu \<Rightarrow>
          if rtr_error r
          then record_tool_error_text (rtu_name tu) (rtr_content r) (record_tool_error (rtu_name tu) p)
          else record_tool_success (rtu_name tu) p)"

definition feed_plan :: "recorded_tool_use list \<Rightarrow> recorded_tool_result list \<Rightarrow> 'w session \<Rightarrow> 'w session" where
  "feed_plan us rs s = s\<lparr>ss_plan := fold (feed_result us) rs (ss_plan s)\<rparr>"

definition record_turn ::
  "string option \<Rightarrow> recorded_tool_use list \<Rightarrow> recorded_tool_result list \<Rightarrow> 'w session \<Rightarrow> 'w session" where
  "record_turn final us rs s =
     s\<lparr>ss_history := ss_history s @ [Assistant_item final us]
         @ (if rs \<noteq> [] then [ToolResults_item rs] else []),
       ss_turn_index := ss_turn_index s + 1\<rparr>"

section \<open>Decide\<close>

definition blocked_ack :: string where
  "blocked_ack =
       ''[SYSTEM] Your previous response was blocked by the content-safety verifier. ''
       @ ''Please revise your answer without repeating the blocked content.''"

definition cut_off_text :: string where
  "cut_off_text =
       ''[SYSTEM] Your response was cut off by the token limit. Please continue ''
       @ ''seamlessly from where you left off.''"

definition push_user :: "string \<Rightarrow> 'w session \<Rightarrow> 'w session" where
  "push_user t s = s\<lparr>ss_history := ss_history s @ [User_item t]\<rparr>"

definition decide_outcome ::
  "bool \<Rightarrow> stop_reason \<Rightarrow> recorded_tool_use list \<Rightarrow> 'w session \<Rightarrow> turn_outcome \<times> 'w session" where
  "decide_outcome blocked stop us s =
     (if blocked then (ContinueImmediately, push_user blocked_ack s)
      else (case stop of
              EndTurn \<Rightarrow> (AwaitUser, s)
            | StopToolUse \<Rightarrow> (ContinueImmediately, s)
            | MaxTokens \<Rightarrow>
                (ContinueImmediately, if us = [] then push_user cut_off_text s else s)
            | Refusal \<Rightarrow> (AwaitUser, s)
            | StopSequence \<Rightarrow> (AwaitUser, s)
            | PauseTurn \<Rightarrow> (ContinueImmediately, s)))"

section \<open>The turn\<close>

text \<open>From the start of the turn to the request: compaction, planning, reminders, assembly.\<close>

definition prepare_turn ::
  "'w agent_env \<Rightarrow> 'w session \<Rightarrow> 'w \<Rightarrow> (messages_request \<times> 'w session) \<times> 'w" where
  "prepare_turn env s w =
     (case maybe_compact (ae_getenv env) (ee_serialise (ae_exec env)) (ee_eprintln (ae_exec env)) s w of
        (r, s1, w1) \<Rightarrow>
          (let w2 = (case r of
                       Inl e \<Rightarrow> ee_eprintln (ae_exec env)
                                  (''[compaction] skipped this turn: '' @ show_agent_error e) w1
                     | Inr b \<Rightarrow> w1);
               s2 = s1\<lparr>ss_plan := refresh (ss_turn_index s1) (ss_plan s1)\<rparr>;
               s3 = inject_stuck s2;
               ctx = activation_context s3;
               s4 = remind_all (turn_texts s3) s3
           in (assemble env ctx s4, w2)))"

text \<open>From the response to the outcome.\<close>

definition finish_turn ::
  "'w agent_env \<Rightarrow> messages_response \<Rightarrow> 'w session \<Rightarrow> 'w \<Rightarrow>
   (agent_error, turn_outcome) result \<times> 'w session \<times> 'w" where
  "finish_turn env resp s w =
     (let s1 = warn_token_budget (warn_context s);
          raw = raw_text resp;
          (us1, s2) = cap_tool_uses (response_uses resp) s1
      in case verify_text env raw s2 of
           Inl e \<Rightarrow> (Inl e, s2, w)
         | Inr (blocked, final, s3) \<Rightarrow>
             (case handle_block blocked final us1 s3 of
                (final', us, s4) \<Rightarrow>
                  (case run_tools env us (auto_think (detect_duplicates env us s4)) w of
                     (rs0, s5, w1) \<Rightarrow>
                       (let rs = limit_results us rs0 s5;
                            s6 = record_outputs us rs s5;
                            s7 = remind_all (playbook_texts rs (ss_error_playbook s6)) s6;
                            s8 = feed_plan us rs (collect_hook_reminders s7);
                            s9 = record_turn final' us rs s8
                        in case decide_outcome blocked (rs_stop_reason resp) us s9 of
                             (out, s10) \<Rightarrow> (Inr out, s10, w1)))))"

definition agent_turn_inner ::
  "'w agent_env \<Rightarrow> string option \<Rightarrow> 'w text_delta_sink option \<Rightarrow> 'w session \<Rightarrow> 'w \<Rightarrow>
   (agent_error, turn_outcome) result \<times> 'w session \<times> 'w" where
  "agent_turn_inner env user_input on_delta s0 w0 =
     (let s1 = perceive_input user_input s0 in
      if turn_budget_reached s1 then (Inr AwaitUser, remind (turn_budget_text s1) s1, w0)
      else (case prepare_turn env s1 w0 of
              ((req0, s2), w1) \<Rightarrow>
                (case guard_request env req0 w1 of
                   (Inl e, w2) \<Rightarrow> (Inl e, s2, w2)
                 | (Inr req1, w2) \<Rightarrow>
                     (case shape_request s2 req1 of
                        (req, s3) \<Rightarrow>
                          (case ae_now_ms env w2 of
                             (t0, w3) \<Rightarrow>
                               (case call_model env s3 req on_delta w3 of
                                  (Inl e, w4) \<Rightarrow> (Inl (Llm_error e), s3, w4)
                                | (Inr resp, w4) \<Rightarrow>
                                    (case ae_now_ms env w4 of
                                       (t1, w5) \<Rightarrow>
                                         finish_turn env resp (account_call (t1 - t0) resp s3) w5)))))))"

definition agent_turn ::
  "'w agent_env \<Rightarrow> string option \<Rightarrow> 'w session \<Rightarrow> 'w \<Rightarrow>
   (agent_error, turn_outcome) result \<times> 'w session \<times> 'w" where
  "agent_turn env user_input s w = agent_turn_inner env user_input None s w"

definition agent_turn_streamed ::
  "'w agent_env \<Rightarrow> string option \<Rightarrow> 'w text_delta_sink \<Rightarrow> 'w session \<Rightarrow> 'w \<Rightarrow>
   (agent_error, turn_outcome) result \<times> 'w session \<times> 'w" where
  "agent_turn_streamed env user_input on_delta s w = agent_turn_inner env user_input (Some on_delta) s w"

end
