(* ===== verification/AgentInvariants.thy ===== *)
theory AgentInvariants
  imports AgentLoop
begin

text \<open>
  What holds of every turn and of every session the loop can reach: the pairing of the history,
  the exactness of the gate on what is recorded, the turn budget, the counting of turns, the
  delivery of queued reminders, and termination of the autonomous loop under a budget.
\<close>

section \<open>Frames\<close>

lemma remind_eq:
  "remind b s = s\<lparr>ss_pending_reminders := ss_pending_reminders s @ [new_reminder SystemWarning Kernel b]\<rparr>"
  by (simp add: remind_def push_reminder_def)

lemma remind_all_eq:
  "remind_all bs s =
     s\<lparr>ss_pending_reminders := ss_pending_reminders s @ map (new_reminder SystemWarning Kernel) bs\<rparr>"
  unfolding remind_all_def by (induction bs arbitrary: s) (simp_all add: remind_eq)

text \<open>What the turn writes besides reminders is named by these projections.\<close>

definition same_core :: "'w session \<Rightarrow> 'w session \<Rightarrow> bool" where
  "same_core s s' \<longleftrightarrow>
     ss_history s' = ss_history s \<and> ss_turn_index s' = ss_turn_index s \<and> ss_max_turns s' = ss_max_turns s
     \<and> ss_verify_enabled s' = ss_verify_enabled s \<and> ss_verifier s' = ss_verifier s
     \<and> ss_selfcheck_ctx s' = ss_selfcheck_ctx s \<and> ss_llm s' = ss_llm s \<and> ss_tools s' = ss_tools s
     \<and> (thinking_budget (ss_config s) = None
          \<or> thinking_budget (ss_config s') = thinking_budget (ss_config s))"

lemma same_core_refl [simp, intro]: "same_core s s"
  by (simp add: same_core_def)

lemma same_core_trans: "same_core a b \<Longrightarrow> same_core b c \<Longrightarrow> same_core a c"
  by (auto simp: same_core_def)

text \<open>Queued by the program: every pending reminder has the kernel as its source.\<close>

definition kernel_pending :: "'w session \<Rightarrow> bool" where
  "kernel_pending s = list_all (\<lambda>r. rem_source r = Kernel) (ss_pending_reminders s)"

lemma new_reminder_fields [simp]: "rem_source (new_reminder k src b) = src" "rem_body (new_reminder k src b) = b"
  by (simp_all add: new_reminder_def)

lemma kernel_new [simp]: "list_all (\<lambda>r. rem_source r = Kernel) (map (new_reminder SystemWarning Kernel) bs)"
  by (induction bs) simp_all

lemma remind_core [frame]:
  "same_core s (remind b s)" "ss_plan (remind b s) = ss_plan s"
  "kernel_pending (remind b s) = kernel_pending s"
  by (simp_all add: remind_eq same_core_def kernel_pending_def)

lemma remind_all_core [frame]:
  "same_core s (remind_all bs s)" "ss_plan (remind_all bs s) = ss_plan s"
  "kernel_pending (remind_all bs s) = kernel_pending s"
  by (simp_all add: remind_all_eq same_core_def kernel_pending_def)

lemma inject_stuck_core [frame]:
  "same_core s (inject_stuck s)" "ss_plan (inject_stuck s) = ss_plan s"
  "kernel_pending (inject_stuck s) = kernel_pending s"
  by (simp_all add: inject_stuck_def Let_def frame)

lemma warn_core [frame]:
  "same_core s (warn_token_budget (warn_context s))" "ss_plan (warn_token_budget (warn_context s)) = ss_plan s"
  "kernel_pending (warn_token_budget (warn_context s)) = kernel_pending s"
  by (simp_all add: warn_token_budget_def warn_context_def Let_def remind_eq same_core_def kernel_pending_def)

lemma cap_core [frame]:
  "same_core s (snd (cap_tool_uses us s))" "ss_plan (snd (cap_tool_uses us s)) = ss_plan s"
  "kernel_pending (snd (cap_tool_uses us s)) = kernel_pending s"
  by (simp_all add: cap_tool_uses_def Let_def frame)

lemma duplicates_core [frame]:
  "same_core s (detect_duplicates env us s)" "ss_plan (detect_duplicates env us s) = ss_plan s"
  "kernel_pending (detect_duplicates env us s) = kernel_pending s"
  "ss_executor (detect_duplicates env us s) = ss_executor s"
  by (simp_all add: detect_duplicates_def Let_def remind_eq same_core_def kernel_pending_def)

lemma auto_think_core [frame]:
  "same_core s (auto_think s)" "ss_plan (auto_think s) = ss_plan s"
  "kernel_pending (auto_think s) = kernel_pending s"
  "ss_executor (auto_think s) = ss_executor s"
  by (simp_all add: auto_think_def remind_eq same_core_def kernel_pending_def)

lemma hooks_core [frame]:
  "same_core s (collect_hook_reminders s)" "ss_plan (collect_hook_reminders s) = ss_plan s"
  "kernel_pending (collect_hook_reminders s) = kernel_pending s"
  by (simp_all add: collect_hook_reminders_def drain_pending_reminders_def remind_all_eq same_core_def
      kernel_pending_def)

lemma outputs_core [frame]:
  "same_core s (record_outputs us rs s)" "ss_plan (record_outputs us rs s) = ss_plan s"
  "kernel_pending (record_outputs us rs s) = kernel_pending s"
  by (simp_all add: record_outputs_def same_core_def kernel_pending_def)

lemma feed_core [frame]:
  "same_core s (feed_plan us rs s)" "kernel_pending (feed_plan us rs s) = kernel_pending s"
  by (simp_all add: feed_plan_def same_core_def kernel_pending_def)

lemma run_tools_core:
  assumes "run_tools env us s w = (rs, s', w')"
  shows "same_core s s'" "ss_plan s' = ss_plan s" "kernel_pending s' = kernel_pending s"
    "map rtr_id rs = map rtu_id us"
proof -
  show "same_core s s'" "ss_plan s' = ss_plan s" "kernel_pending s' = kernel_pending s"
    using assms by (auto simp: run_tools_def same_core_def kernel_pending_def split: if_splits prod.splits)
  show "map rtr_id rs = map rtu_id us"
    using assms tools.exec_ids[of "exec_env_for env" "ss_tools s" us "(ss_executor s, w)"]
    by (auto simp: run_tools_def split: if_splits prod.splits)
qed

lemma limit_result_id [simp]: "rtr_id (limit_result limits us r) = rtr_id r"
  by (simp add: limit_result_def Let_def split: option.splits)

lemma limit_results_ids: "map rtr_id (limit_results us rs s) = map rtr_id rs"
  by (simp add: limit_results_def)

lemma plan_ok_feed_result: "plan_ok p \<Longrightarrow> plan_ok (feed_result us r p)"
  using plan_ok_exec[of p "OpToolError n" for n] plan_ok_exec[of p "OpToolSuccess n" for n]
    plan_ok_exec[of "record_tool_error n p" "OpToolErrorText n c" for n c]
  by (auto simp: feed_result_def split: option.splits)

lemma plan_ok_feed_plan: "plan_ok (ss_plan s) \<Longrightarrow> plan_ok (ss_plan (feed_plan us rs s))"
proof -
  have "plan_ok (fold (feed_result us) rs p)" if "plan_ok p" for p
    using that by (induction rs arbitrary: p) (simp_all add: plan_ok_feed_result)
  then show "plan_ok (ss_plan s) \<Longrightarrow> plan_ok (ss_plan (feed_plan us rs s))" by (simp add: feed_plan_def)
qed

section \<open>The second half of a turn\<close>

text \<open>What a turn may put in the history as the assistant's text.\<close>

definition emission_ok ::
  "'w agent_env \<Rightarrow> 'w session \<Rightarrow> string option \<Rightarrow> recorded_tool_use list \<Rightarrow> bool" where
  "emission_ok env s final us =
     (case final of
        None \<Rightarrow> True
      | Some t \<Rightarrow> (us = [] \<and> (\<exists>ids. t = blocked_sentinel ids))
          \<or> block_free (ae_engine env) (ss_verifier s) (ss_selfcheck_ctx s) t)"

lemma verify_text_Inr:
  assumes "verify_text env raw s = Inr (blocked, final, s')"
  shows "same_core s s'" "ss_plan s' = ss_plan s" "kernel_pending s' = kernel_pending s"
    "ss_executor s' = ss_executor s"
    "ss_verify_enabled s \<Longrightarrow> \<not> blocked \<Longrightarrow>
      case final of None \<Rightarrow> True | Some t \<Rightarrow> block_free (ae_engine env) (ss_verifier s) (ss_selfcheck_ctx s) t"
    "blocked \<Longrightarrow> \<exists>v. ss_last_verification s' = Some v \<and> vr_is_blocked v"
proof -
  show "same_core s s'" "ss_plan s' = ss_plan s" "kernel_pending s' = kernel_pending s"
    "ss_executor s' = ss_executor s"
    "blocked \<Longrightarrow> \<exists>v. ss_last_verification s' = Some v \<and> vr_is_blocked v"
    using assms by (auto simp: verify_text_def same_core_def kernel_pending_def split: if_splits option.splits sum.splits)
  show "case final of None \<Rightarrow> True | Some t \<Rightarrow> block_free (ae_engine env) (ss_verifier s) (ss_selfcheck_ctx s) t"
    if on: "ss_verify_enabled s" and nb: "\<not> blocked"
  proof (cases raw)
    case None
    with assms on show ?thesis by (auto simp: verify_text_def)
  next
    case (Some t)
    with assms on nb obtain v where
      v: "check_before_emit (ae_engine env) (ss_verifier s) t (ss_selfcheck_ctx s) = Inr v"
        "\<not> vr_is_blocked v" "final = Some (vr_message v)"
      by (auto simp: verify_text_def split: sum.splits if_splits)
    with gate.blocked_iff_unsafe[OF v(1)] show ?thesis by simp
  qed
qed

lemma handle_block_core:
  assumes "handle_block blocked final us s = (final', us', s')"
  shows "same_core s s'" "kernel_pending s' = kernel_pending s" "ss_executor s' = ss_executor s"
    "plan_ok (ss_plan s) \<Longrightarrow> plan_ok (ss_plan s')"
    "blocked \<Longrightarrow> us' = [] \<and> (\<exists>ids. final' = Some (blocked_sentinel ids))"
    "\<not> blocked \<Longrightarrow> final' = final \<and> us' = us \<and> s' = s"
  using assms
  by (auto simp: handle_block_def Let_def remind_eq same_core_def kernel_pending_def plan_ok_record_block
      split: if_splits)

text \<open>The facts about the second half, as one record of the run.\<close>

lemma finish_turn_cases:
  assumes "finish_turn env resp s w = (r, s', w')"
  obtains (panic) p where "r = Inl (Panicked p)" "same_core s s'" "ss_plan s' = ss_plan s"
      "kernel_pending s' = kernel_pending s" "w' = w"
  | (ended) blocked final us rs out s9 where
      "r = Inr out" "decide_outcome blocked (rs_stop_reason resp) us s9 = (out, s')"
      "ss_history s9 = ss_history s @ [Assistant_item final us] @ (if rs \<noteq> [] then [ToolResults_item rs] else [])"
      "ss_turn_index s9 = Suc (ss_turn_index s)" "same_core s (s9\<lparr>ss_history := ss_history s, ss_turn_index := ss_turn_index s\<rparr>)"
      "plan_ok (ss_plan s) \<Longrightarrow> plan_ok (ss_plan s9)" "kernel_pending s9 = kernel_pending s"
      "map rtr_id rs = map rtu_id us" "ss_verify_enabled s \<Longrightarrow> emission_ok env s final us"
      "blocked \<Longrightarrow> us = [] \<and> (\<exists>ids. final = Some (blocked_sentinel ids))"
      "us = [] \<Longrightarrow> w' = w"
proof -
  let ?s1 = "warn_token_budget (warn_context s)"
  obtain us1 s2 where cap: "cap_tool_uses (response_uses resp) ?s1 = (us1, s2)" by fastforce
  have c2: "same_core s s2" "ss_plan s2 = ss_plan s" "kernel_pending s2 = kernel_pending s"
    using cap_core[where s = ?s1 and us = "response_uses resp"] warn_core[of s] cap by (auto simp: same_core_def)
  show ?thesis
  proof (cases "verify_text env (raw_text resp) s2")
    case (Inl e)
    then obtain p where "e = Panicked p"
      by (auto simp: verify_text_def split: option.splits sum.splits if_splits)
    with Inl assms cap c2 show ?thesis by (intro panic) (auto simp: finish_turn_def Let_def)
  next
    case (Inr v)
    obtain blocked fin s3 where v: "v = (blocked, fin, s3)" by (metis prod_cases3)
    note V = verify_text_Inr[OF Inr[unfolded v]]
    obtain final us s4 where h: "handle_block blocked fin us1 s3 = (final, us, s4)" by (metis prod_cases3)
    note H = handle_block_core[OF h]
    let ?a = "auto_think (detect_duplicates env us s4)"
    obtain rs0 s5 w1 where t: "run_tools env us ?a w = (rs0, s5, w1)" by (metis prod_cases3)
    note R = run_tools_core[OF t]
    define rs where "rs = limit_results us rs0 s5"
    define s6 where "s6 = record_outputs us rs s5"
    define s7 where "s7 = remind_all (playbook_texts rs (ss_error_playbook s6)) s6"
    define s8 where "s8 = feed_plan us rs (collect_hook_reminders s7)"
    define s9 where "s9 = record_turn final us rs s8"
    obtain out s10 where d: "decide_outcome blocked (rs_stop_reason resp) us s9 = (out, s10)" by fastforce
    have res: "r = Inr out" "s' = s10" "w' = w1"
      using assms cap Inr v h t d
      by (simp_all add: finish_turn_def Let_def rs_def s6_def s7_def s8_def s9_def)
    have core: "same_core s s8"
      using c2(1) V(1) H(1) duplicates_core(1)[where s = s4 and env = env and us = us]
        auto_think_core(1)[where s = "detect_duplicates env us s4"]
        R(1) outputs_core(1)[where s = s5 and us = us and rs = rs]
        remind_all_core(1)[where s = s6 and bs = "playbook_texts rs (ss_error_playbook s6)"] hooks_core(1)[of s7]
        feed_core(1)[where s = "collect_hook_reminders s7" and us = us and rs = rs]
      unfolding s6_def s7_def s8_def by (meson same_core_trans)
    have kp: "kernel_pending s8 = kernel_pending s"
      using c2(3) V(3) H(2) R(3) by (simp add: s6_def s7_def s8_def frame)
    have pl: "plan_ok (ss_plan s8)" if "plan_ok (ss_plan s)"
    proof -
      have "plan_ok (ss_plan s4)" using that c2(2) V(2) H(4) by simp
      then have "plan_ok (ss_plan (collect_hook_reminders s7))"
        using R(2) by (simp add: s6_def s7_def frame)
      then show ?thesis unfolding s8_def by (rule plan_ok_feed_plan)
    qed
    have em: "emission_ok env s final us" if on: "ss_verify_enabled s"
    proof (cases blocked)
      case True
      with H(5) show ?thesis by (auto simp: emission_ok_def)
    next
      case False
      with H(6) V(5) on c2(1) show ?thesis
        by (auto simp: emission_ok_def same_core_def split: option.splits)
    qed
    show ?thesis
    proof (rule ended[of out blocked us s9 final rs])
      show "ss_history s9 = ss_history s @ [Assistant_item final us] @ (if rs \<noteq> [] then [ToolResults_item rs] else [])"
        "ss_turn_index s9 = Suc (ss_turn_index s)"
        "same_core s (s9\<lparr>ss_history := ss_history s, ss_turn_index := ss_turn_index s\<rparr>)"
        "kernel_pending s9 = kernel_pending s"
        using core kp by (simp_all add: s9_def record_turn_def same_core_def kernel_pending_def)
      show "plan_ok (ss_plan s9)" if "plan_ok (ss_plan s)"
        using pl[OF that] by (simp add: s9_def record_turn_def)
      show "map rtr_id rs = map rtu_id us" using R(4) by (simp add: rs_def limit_results_ids)
      show "us = [] \<Longrightarrow> w' = w" using t res by (simp add: run_tools_def)
    qed (use res d em H(5) in auto)
  qed
qed

lemma decide_outcome_history:
  assumes "decide_outcome blocked stop us s = (out, s')"
  shows "ss_history s' = ss_history s
      \<or> ss_history s' = ss_history s @ [User_item blocked_ack] \<and> blocked
      \<or> ss_history s' = ss_history s @ [User_item cut_off_text]"
    "same_core s (s'\<lparr>ss_history := ss_history s\<rparr>)" "ss_plan s' = ss_plan s"
    "kernel_pending s' = kernel_pending s"
  using assms
  by (auto simp: decide_outcome_def push_user_def same_core_def kernel_pending_def split: if_splits stop_reason.splits)

lemma finish_turn_paired:
  assumes "finish_turn env resp s w = (r, s', w')" "paired (ss_history s)"
  shows "paired (ss_history s')"
  using assms(1)
proof (cases rule: finish_turn_cases)
  case panic
  with assms(2) show ?thesis by (simp add: same_core_def)
next
  case (ended blocked final us rs out s9)
  have "rs = [] \<longleftrightarrow> us = []" using ended(8) by (metis map_is_Nil_conv)
  then have "paired ([Assistant_item final us] @ (if rs \<noteq> [] then [ToolResults_item rs] else []))"
    using ended(8) by simp
  from paired_append[OF assms(2) this] have "paired (ss_history s9)" using ended(3) by simp
  with decide_outcome_history(1)[OF ended(2)] show ?thesis by (auto intro!: paired_append)
qed

section \<open>The first half of a turn\<close>

text \<open>Like \<open>same_core\<close>, but the history may change.\<close>

definition same_frame :: "'w session \<Rightarrow> 'w session \<Rightarrow> bool" where
  "same_frame s s' \<longleftrightarrow> same_core (s\<lparr>ss_history := []\<rparr>) (s'\<lparr>ss_history := []\<rparr>)"

lemma same_core_frame: "same_core s s' \<Longrightarrow> same_frame s s'"
  by (simp add: same_core_def same_frame_def)

lemma same_frame_trans: "same_frame a b \<Longrightarrow> same_frame b c \<Longrightarrow> same_frame a c"
  by (auto simp add: same_core_def same_frame_def)

lemma finish_compaction_core:
  "same_frame s (finish_compaction b resp s)"
  "kernel_pending (finish_compaction b resp s) = kernel_pending s"
  "set (ss_pending_reminders s) \<subseteq> set (ss_pending_reminders (finish_compaction b resp s))"
  by (auto simp: finish_compaction_def Let_def remind_eq same_core_def same_frame_def kernel_pending_def
      split: option.splits)

lemma compact_inner_core:
  assumes "compact_inner env ser elog force s w = (r, s', w')"
  shows "same_frame s s'" "ss_plan s' = ss_plan s" "kernel_pending s' = kernel_pending s"
    "set (ss_pending_reminders s) \<subseteq> set (ss_pending_reminders s')"
proof -
  have drop: "same_frame s (s\<lparr>ss_history := h\<rparr>)" "kernel_pending (s\<lparr>ss_history := h\<rparr>) = kernel_pending s" for h
    by (simp_all add: same_frame_def kernel_pending_def same_core_def)
  have "same_frame s s' \<and> ss_plan s' = ss_plan s \<and> kernel_pending s' = kernel_pending s
    \<and> set (ss_pending_reminders s) \<subseteq> set (ss_pending_reminders s')"
    using assms
  proof (cases rule: compact_inner_cases)
    case skipped
    then show ?thesis by (simp add: same_core_frame)
  next
    case (failed c b e)
    then show ?thesis using drop by simp
  next
    case (compacted c b resp)
    let ?s1 = "s\<lparr>ss_history := drop c (ss_history s)\<rparr>"
    show ?thesis
      using finish_compaction_core[where s = ?s1 and b = b and resp = resp]
        same_frame_trans[OF drop(1)] drop(2) unfolding compacted(4) by (auto simp: frame)
  qed
  then show "same_frame s s'" "ss_plan s' = ss_plan s" "kernel_pending s' = kernel_pending s"
    "set (ss_pending_reminders s) \<subseteq> set (ss_pending_reminders s')" by blast+
qed

lemma dedup_by_body_bodies:
  "r \<in> set rs \<Longrightarrow> rem_body r \<in> set seen \<or> (\<exists>d \<in> set (dedup_by_body seen rs). rem_body d = rem_body r)"
  by (induction seen rs rule: dedup_by_body.induct) auto

lemma set_dedup_by_body: "set (dedup_by_body seen rs) \<subseteq> set rs"
  by (induction seen rs rule: dedup_by_body.induct) auto

lemma dedup_by_body_distinct: "distinct (map rem_body (dedup_by_body seen rs))"
proof -
  have "distinct (map rem_body (dedup_by_body seen rs))
      \<and> set (map rem_body (dedup_by_body seen rs)) \<inter> set seen = {}"
    by (induction seen rs rule: dedup_by_body.induct) auto
  then show ?thesis by blast
qed

lemma build_context_messages:
  "build_context rx kr h config overlay ctx cs tds pt = (req, tele) \<Longrightarrow> rq_messages req = translate_history h"
  by (auto simp: build_context_def Let_def split: prod.splits)

lemma prepare_turn_facts:
  assumes "prepare_turn env s w = ((req, s'), w')"
  shows "same_frame s s'" "rq_messages req = translate_history (ss_history s')"
    "ss_pending_reminders s' = []" "plan_ok (ss_plan s) \<Longrightarrow> plan_ok (ss_plan s')"
    "paired (ss_history s) \<Longrightarrow> paired (ss_history s')"
    "\<exists>ctx rs pt. set (ss_pending_reminders s) \<subseteq> set rs \<and> (kernel_pending s \<longrightarrow> list_all (\<lambda>r. rem_source r = Kernel) rs)
      \<and> req = fst (build_context (ee_rx (ae_exec env)) (ss_assembler s') (ss_history s') (ss_config s')
          (ss_overlay s') ctx (dedup_by_body [] rs) (tool_defs s') pt)"
proof -
  obtain r s1 w1 where c: "maybe_compact (ae_getenv env) (ee_serialise (ae_exec env)) (ee_eprintln (ae_exec env)) s w
      = (r, s1, w1)" by (metis prod_cases3)
  note C = compact_inner_core[OF c[unfolded maybe_compact_def]]
  define s2 where "s2 = s1\<lparr>ss_plan := refresh (ss_turn_index s1) (ss_plan s1)\<rparr>"
  define s3 where "s3 = inject_stuck s2"
  define s4 where "s4 = remind_all (turn_texts s3) s3"
  define ctx where "ctx = activation_context s3"
  have a: "assemble env ctx s4 = (req, s')"
    using assms c by (simp add: prepare_turn_def Let_def s2_def s3_def s4_def ctx_def)
  define pt where "pt = (if is_active (ss_plan s4) then Some (plan_text (ss_plan s4)) else None)"
  obtain tele where b: "build_context (ee_rx (ae_exec env)) (ss_assembler s4) (ss_history s4) (ss_config s4)
      (ss_overlay s4) ctx (dedup_by_body [] (ss_pending_reminders s4)) (tool_defs s4) pt = (req, tele)"
    and s': "s' = s4\<lparr>ss_pending_reminders := [], ss_last_assembly_telemetry := Some tele\<rparr>"
    using a by (auto simp: assemble_def Let_def pt_def split: prod.splits)
  have core: "same_core s1 s4" "ss_plan s4 = refresh (ss_turn_index s1) (ss_plan s1)"
    "kernel_pending s4 = kernel_pending s1"
  proof -
    have "same_core s1 s2" "kernel_pending s2 = kernel_pending s1" "ss_plan s2 = refresh (ss_turn_index s1) (ss_plan s1)"
      by (simp_all add: s2_def same_core_def kernel_pending_def)
    with inject_stuck_core[of s2] remind_all_core[where s = s3 and bs = "turn_texts s3"]
    show "same_core s1 s4" "ss_plan s4 = refresh (ss_turn_index s1) (ss_plan s1)"
      "kernel_pending s4 = kernel_pending s1"
      unfolding s3_def s4_def by (meson same_core_trans, simp_all)
  qed
  have sub: "set (ss_pending_reminders s1) \<subseteq> set (ss_pending_reminders s4)"
    by (auto simp: s4_def s3_def s2_def remind_all_eq inject_stuck_def Let_def remind_eq)
  show "same_frame s s'"
    using C(1) core(1) by (auto simp: s' same_frame_def same_core_def)
  show "ss_pending_reminders s' = []" by (simp add: s')
  show "rq_messages req = translate_history (ss_history s')"
    using build_context_messages[OF b] by (simp add: s')
  show "plan_ok (ss_plan s')" if "plan_ok (ss_plan s)"
    using that C(2) core(2) by (simp add: s' plan_ok_refresh)
  show "paired (ss_history s')" if "paired (ss_history s)"
    using compact_inner_paired[OF c[unfolded maybe_compact_def] that] core(1) by (simp add: s' same_core_def)
  have "tool_defs s' = tool_defs s4" by (simp add: tool_defs_def s')
  with b have "req = fst (build_context (ee_rx (ae_exec env)) (ss_assembler s') (ss_history s') (ss_config s')
      (ss_overlay s') ctx (dedup_by_body [] (ss_pending_reminders s4)) (tool_defs s') pt)"
    by (simp add: s')
  with sub C(3,4) core(3)
  show "\<exists>ctx rs pt. set (ss_pending_reminders s) \<subseteq> set rs \<and> (kernel_pending s \<longrightarrow> list_all (\<lambda>r. rem_source r = Kernel) rs)
      \<and> req = fst (build_context (ee_rx (ae_exec env)) (ss_assembler s') (ss_history s') (ss_config s')
          (ss_overlay s') ctx (dedup_by_body [] rs) (tool_defs s') pt)"
    by (intro exI[of _ ctx] exI[of _ "ss_pending_reminders s4"] exI[of _ pt]) (auto simp: kernel_pending_def)
qed

lemma guard_request_paired:
  "paired h \<Longrightarrow> rq_messages req = translate_history h \<Longrightarrow> guard_request env req w = (Inr req, w)"
  using sanitize_id[OF paired_balanced[of h]] by (simp add: guard_request_def)

lemma guard_request_Inl: "guard_request env req w = (Inl e, w') \<Longrightarrow> \<exists>m. e = Internal m"
  by (auto simp: guard_request_def split: prod.splits if_splits)

lemma shape_request_core:
  assumes "shape_request s req = (req', s')"
  shows "same_core s s'" "ss_plan s' = ss_plan s" "ss_pending_reminders s' = ss_pending_reminders s"
  using assms by (auto simp: shape_request_def Let_def same_core_def split: if_splits)

lemma perceive_input_core [frame]:
  "ss_config (perceive_input i s) = ss_config s"
  "ss_turn_index (perceive_input i s) = ss_turn_index s" "ss_max_turns (perceive_input i s) = ss_max_turns s"
  "ss_plan (perceive_input i s) = ss_plan s"
  "ss_pending_reminders (perceive_input i s) = ss_pending_reminders s"
  "ss_verify_enabled (perceive_input i s) = ss_verify_enabled s"
  "ss_verifier (perceive_input i s) = ss_verifier s"
  "ss_llm (perceive_input i s) = ss_llm s"
  by (simp_all add: perceive_input_def split: option.splits)

lemma perceive_input_paired: "paired (ss_history s) \<Longrightarrow> paired (ss_history (perceive_input i s))"
  by (auto simp: perceive_input_def intro!: paired_append split: option.splits)

section \<open>A whole turn\<close>

text \<open>The ways a turn can end; \<open>s3\<close> is the session at the model call, \<open>s4\<close> after accounting for it.\<close>

lemma agent_turn_cases:
  assumes "agent_turn_inner env inp od s w = (r, s', w')"
  obtains (budget) "turn_budget_reached (perceive_input inp s)" "r = Inr AwaitUser"
      "s' = remind (turn_budget_text (perceive_input inp s)) (perceive_input inp s)" "w' = w"
  | (guard) req w1 m where "prepare_turn env (perceive_input inp s) w = ((req, s'), w1)"
      "r = Inl (Internal m)" "guard_request env req w1 = (Inl (Internal m), w')"
  | (llm) req s2 w1 e req' w2 w3 where "prepare_turn env (perceive_input inp s) w = ((req, s2), w1)"
      "same_core s2 s'" "ss_plan s' = ss_plan s2" "ss_pending_reminders s' = ss_pending_reminders s2"
      "r = Inl (Llm_error e)" "call_model env s' req' od w2 = (Inl e, w3)"
  | (responded) req s2 w1 resp s4 w5 where "\<not> turn_budget_reached (perceive_input inp s)"
      "prepare_turn env (perceive_input inp s) w = ((req, s2), w1)"
      "same_core s2 s4" "ss_plan s4 = ss_plan s2" "ss_pending_reminders s4 = ss_pending_reminders s2"
      "finish_turn env resp s4 w5 = (r, s', w')"
      "\<exists>s3 req' w2 w3. call_model env s3 req' od w2 = (Inr resp, w3) \<and> ss_llm s3 = ss_llm s2"
proof (cases "turn_budget_reached (perceive_input inp s)")
  case True
  with assms show ?thesis by (intro budget) (simp_all add: agent_turn_inner_def Let_def)
next
  case False
  obtain req0 s2 w1 where p: "prepare_turn env (perceive_input inp s) w = ((req0, s2), w1)"
    by (metis surj_pair)
  obtain g w2 where g: "guard_request env req0 w1 = (g, w2)" by fastforce
  show ?thesis
  proof (cases g)
    case (Inl e)
    from guard_request_Inl[OF g[unfolded Inl]] obtain m where m: "e = Internal m" ..
    have "r = Inl (Internal m)" "s' = s2" "w' = w2"
      using assms False p g Inl m by (simp_all add: agent_turn_inner_def Let_def)
    then show ?thesis using guard[of req0 w1 m] p g Inl m by simp
  next
    case (Inr req1)
    obtain req s3 where q: "shape_request s2 req1 = (req, s3)" by fastforce
    obtain t0 w3 where t0: "ae_now_ms env w2 = (t0, w3)" by fastforce
    obtain x w4 where x: "call_model env s3 req od w3 = (x, w4)" by fastforce
    show ?thesis
    proof (cases x)
      case (Inl e)
      have "r = Inl (Llm_error e)" "s' = s3" "w' = w4"
        using assms False p g Inr q t0 x Inl by (simp_all add: agent_turn_inner_def Let_def)
      then show ?thesis using llm[OF p] shape_request_core[OF q] x[unfolded Inl] by simp
    next
      case resp: (Inr resp)
      obtain t1 w5 where t1: "ae_now_ms env w4 = (t1, w5)" by fastforce
      let ?s4 = "account_call (t1 - t0) resp s3"
      have "finish_turn env resp ?s4 w5 = (r, s', w')"
        using assms False p g Inr q t0 x resp t1 by (simp add: agent_turn_inner_def Let_def)
      moreover have "same_core s2 ?s4" "ss_plan ?s4 = ss_plan s2"
        "ss_pending_reminders ?s4 = ss_pending_reminders s2"
        using shape_request_core[OF q] by (auto simp: account_call_def same_core_def)
      moreover have "\<exists>s3 req' w2 w3. call_model env s3 req' od w2 = (Inr resp, w3) \<and> ss_llm s3 = ss_llm s2"
        using x[unfolded resp] shape_request_core(1)[OF q] unfolding same_core_def by blast
      ultimately show ?thesis using responded[OF False p] by blast
    qed
  qed
qed

lemma agent_turn_paired:
  assumes "agent_turn_inner env inp od s w = (r, s', w')" "paired (ss_history s)"
  shows "paired (ss_history s')"
  using assms(1)
proof (cases rule: agent_turn_cases)
  case budget
  with perceive_input_paired[OF assms(2)] show ?thesis by (simp add: remind_eq)
next
  case (guard req w1 m)
  with prepare_turn_facts(5)[OF guard(1)] perceive_input_paired[OF assms(2)] show ?thesis by blast
next
  case (llm req s2 w1 e)
  with prepare_turn_facts(5)[OF llm(1)] perceive_input_paired[OF assms(2)] show ?thesis
    by (simp add: same_core_def)
next
  case (responded req s2 w1 resp s4 w5)
  have "paired (ss_history s4)"
    using prepare_turn_facts(5)[OF responded(2)] perceive_input_paired[OF assms(2)] responded(3)
    by (simp add: same_core_def)
  with finish_turn_paired[OF responded(6)] show ?thesis by blast
qed

lemma agent_turn_plan_ok:
  assumes "agent_turn_inner env inp od s w = (r, s', w')" "plan_ok (ss_plan s)"
  shows "plan_ok (ss_plan s')"
  using assms(1)
proof (cases rule: agent_turn_cases)
  case budget
  with assms(2) show ?thesis by (simp add: frame)
next
  case (guard req w1 m)
  with prepare_turn_facts(4)[OF guard(1)] assms(2) show ?thesis by (simp add: frame)
next
  case (llm req s2 w1 e)
  with prepare_turn_facts(4)[OF llm(1)] assms(2) show ?thesis by (simp add: frame)
next
  case (responded req s2 w1 resp s4 w5)
  then have ok: "plan_ok (ss_plan s4)"
    using prepare_turn_facts(4)[OF responded(2)] assms(2) by (simp add: frame)
  from responded(6) show ?thesis
  proof (cases rule: finish_turn_cases)
    case panic
    with ok show ?thesis by simp
  next
    case (ended blocked final us rs out s9)
    with ok decide_outcome_history(3)[OF ended(2)] show ?thesis by simp
  qed
qed

lemma agent_turn_kernel_pending:
  assumes "agent_turn_inner env inp od s w = (r, s', w')" "kernel_pending s"
  shows "kernel_pending s'"
  using assms(1)
proof (cases rule: agent_turn_cases)
  case budget
  with assms(2) show ?thesis by (simp add: remind_eq frame kernel_pending_def)
next
  case (guard req w1 m)
  then show ?thesis using prepare_turn_facts(3)[OF guard(1)] by (simp add: kernel_pending_def)
next
  case (llm req s2 w1 e)
  then show ?thesis using prepare_turn_facts(3)[OF llm(1)] by (simp add: kernel_pending_def)
next
  case (responded req s2 w1 resp s4 w5)
  then have ok: "kernel_pending s4"
    using prepare_turn_facts(3)[OF responded(2)] by (simp add: kernel_pending_def)
  from responded(6) show ?thesis
  proof (cases rule: finish_turn_cases)
    case (ended blocked final us rs out s9)
    with ok decide_outcome_history(4)[OF ended(2)] show ?thesis by simp
  qed (use ok in simp)
qed

section \<open>Facts about whole turns\<close>

lemma finish_turn_counts:
  assumes "finish_turn env resp s w = (r, s', w')"
  shows "ss_turn_index s' = ss_turn_index s + (case r of Inl e \<Rightarrow> 0 | Inr out \<Rightarrow> 1)
    \<and> ss_max_turns s' = ss_max_turns s \<and> r \<noteq> Inr Exit \<and> (\<forall>n. r \<noteq> Inr (Sleep n))"
  using assms
proof (cases rule: finish_turn_cases)
  case panic
  then show ?thesis by (simp add: same_core_def)
next
  case (ended blocked final us rs out s9)
  have "out \<noteq> Exit \<and> (\<forall>n. out \<noteq> Sleep n)"
    using ended(2) by (auto simp: decide_outcome_def split: if_splits stop_reason.splits)
  with decide_outcome_history(2)[OF ended(2)] ended(1,4,5) show ?thesis by (simp add: same_core_def)
qed

lemma budget_perceive [simp]: "turn_budget_reached (perceive_input inp s) = turn_budget_reached s"
  by (simp add: turn_budget_reached_def frame)

lemma perceive_input_executor [frame]: "ss_executor (perceive_input inp s) = ss_executor s"
  by (simp add: perceive_input_def split: option.splits)

lemma turn_counting:
  assumes "agent_turn_inner env inp od s w = (r, s', w')"
  shows "ss_turn_index s' = ss_turn_index s + (if \<not> turn_budget_reached s \<and> (\<exists>out. r = Inr out) then 1 else 0)
    \<and> ss_max_turns s' = ss_max_turns s
    \<and> r \<noteq> Inr Exit \<and> (\<forall>n. r \<noteq> Inr (Sleep n))
    \<and> (turn_budget_reached s \<longrightarrow> r = Inr AwaitUser \<and> w' = w \<and> ss_executor s' = ss_executor s
         \<and> ss_plan s' = ss_plan s)"
proof (cases "turn_budget_reached s")
  case True
  with assms show ?thesis by (auto simp: agent_turn_inner_def Let_def remind_eq frame)
next
  case False
  have p: "ss_turn_index s2 = ss_turn_index s" "ss_max_turns s2 = ss_max_turns s"
    if "prepare_turn env (perceive_input inp s) w = ((req, s2), w1)" for req s2 w1
    using prepare_turn_facts(1)[OF that] by (simp_all add: same_frame_def same_core_def frame)
  from assms show ?thesis
  proof (cases rule: agent_turn_cases)
    case budget
    with False show ?thesis by simp
  next
    case (guard req w1 m)
    with False p[OF guard(1)] show ?thesis by simp
  next
    case (llm req s2 w1 e)
    with False p[OF llm(1)] show ?thesis by (simp add: same_core_def)
  next
    case (responded req s2 w1 resp s4 w5)
    have q: "ss_turn_index s4 = ss_turn_index s" "ss_max_turns s4 = ss_max_turns s"
      using p[OF responded(2)] responded(3) by (simp_all add: same_core_def)
    from finish_turn_counts[OF responded(6)] False q show ?thesis by (cases r) simp_all
  qed
qed

lemma finish_turn_reply:
  assumes "finish_turn env resp s w = (Inr out, s', w')" "ss_verify_enabled s"
  shows "\<exists>final us rest. ss_history s' = ss_history s @ Assistant_item final us # rest
    \<and> \<not> list_ex is_assistant_item rest \<and> emission_ok env s final us"
  using assms(1)
proof (cases rule: finish_turn_cases)
  case (ended blocked final us rs out' s9)
  with assms(2) decide_outcome_history(1)[OF ended(2)] show ?thesis
    by (intro exI[of _ final] exI[of _ us]) (auto simp: is_assistant_item_def)
qed simp

lemma emission_ok_cong:
  "ss_verifier s = ss_verifier s' \<Longrightarrow> ss_selfcheck_ctx s = ss_selfcheck_ctx s' \<Longrightarrow>
     emission_ok env s final us = emission_ok env s' final us"
  by (simp add: emission_ok_def split: option.splits)

lemma reply_passed_gate:
  assumes "agent_turn_inner env inp od s w = (Inr out, s', w')"
    and "ss_verify_enabled s" "\<not> turn_budget_reached s"
  shows "\<exists>base final us rest. ss_history s' = base @ Assistant_item final us # rest
    \<and> \<not> list_ex is_assistant_item rest \<and> emission_ok env (perceive_input inp s) final us"
  using assms(1)
proof (cases rule: agent_turn_cases)
  case (responded req s2 w1 resp s4 w5)
  have f: "ss_verify_enabled s4" "ss_verifier s4 = ss_verifier (perceive_input inp s)"
    "ss_selfcheck_ctx s4 = ss_selfcheck_ctx (perceive_input inp s)"
    using prepare_turn_facts(1)[OF responded(2)] responded(3) assms(2)
    by (auto simp: same_frame_def same_core_def frame)
  from finish_turn_reply[OF responded(6) f(1)] emission_ok_cong[OF f(2,3)] show ?thesis by blast
qed (use assms(3) in simp_all)

lemma blocked_turn:
  assumes "finish_turn env resp s w = (r, s', w')" "ss_verify_enabled s" "raw_text resp = Some t"
    and "check_before_emit (ae_engine env) (ss_verifier s) t (ss_selfcheck_ctx s) = Inr v" "vr_is_blocked v"
  shows "r = Inr ContinueImmediately \<and> w' = w
    \<and> ss_history s' = ss_history s
        @ [Assistant_item (Some (blocked_sentinel (blocked_ids v))) [], User_item blocked_ack]
    \<and> ss_plan s' = record_block (ss_turn_index s) (blocked_ids v) (ss_plan s)
    \<and> new_reminder SystemWarning Kernel (blocked_reminder (blocked_ids v)) \<in> set (ss_pending_reminders s')"
proof -
  obtain us1 s2 where cap: "cap_tool_uses (response_uses resp) (warn_token_budget (warn_context s)) = (us1, s2)"
    by fastforce
  have c2: "same_core s s2" "ss_plan s2 = ss_plan s"
    using cap_core[where s = "warn_token_budget (warn_context s)" and us = "response_uses resp"] warn_core[of s] cap
    by (auto simp: same_core_def)
  let ?s3 = "s2\<lparr>ss_last_verification := Some v\<rparr>"
  have v: "verify_text env (Some t) s2 = Inr (True, Some t, ?s3)"
    using assms(2,4,5) c2(1) by (simp add: verify_text_def same_core_def)
  let ?s4 = "remind (blocked_reminder (blocked_ids v))
      (?s3\<lparr>ss_plan := record_block (ss_turn_index s2) (blocked_ids v) (ss_plan s2)\<rparr>)"
  let ?s5 = "auto_think (detect_duplicates env [] ?s4)"
  let ?s8 = "collect_hook_reminders (record_outputs [] [] ?s5)"
  have res: "r = Inr ContinueImmediately" "w' = w"
      "s' = push_user blocked_ack (record_turn (Some (blocked_sentinel (blocked_ids v))) [] [] (feed_plan [] [] ?s8))"
  proof -
    have hb: "handle_block True (Some t) us1 ?s3 = (Some (blocked_sentinel (blocked_ids v)), [], ?s4)"
      by (simp add: handle_block_def Let_def)
    have rt: "run_tools env [] ?s5 w = ([], ?s5, w)" by (simp add: run_tools_def)
    have lr: "limit_results [] [] s0 = []" "playbook_texts [] book = []" "remind_all [] s1 = s1" for s0 s1 :: "'a session" and book
      by (simp_all add: limit_results_def playbook_texts_def remind_all_def)
    have "finish_turn env resp s w = (Inr ContinueImmediately,
        push_user blocked_ack (record_turn (Some (blocked_sentinel (blocked_ids v))) [] [] (feed_plan [] [] ?s8)), w)"
      by (simp only: finish_turn_def Let_def cap assms(3) v hb rt lr prod.case sum.case decide_outcome_def if_True)
    with assms(1) show "r = Inr ContinueImmediately" "w' = w"
      "s' = push_user blocked_ack (record_turn (Some (blocked_sentinel (blocked_ids v))) [] [] (feed_plan [] [] ?s8))"
      by (simp_all only: prod.inject)
  qed
  have h: "ss_history ?s8 = ss_history s" "ss_turn_index s2 = ss_turn_index s" "ss_plan ?s8 = ss_plan ?s4"
    using c2(1) hooks_core[of "record_outputs [] [] ?s5"] outputs_core[where us = "[]" and rs = "[]" and s = "?s5"]
      auto_think_core[of "detect_duplicates env [] ?s4"] duplicates_core[where env = env and us = "[]" and s = "?s4"]
    by (simp_all add: same_core_def remind_eq)
  have "set (ss_pending_reminders ?s4) \<subseteq> set (ss_pending_reminders ?s8)"
    by (auto simp: collect_hook_reminders_def drain_pending_reminders_def remind_all_eq record_outputs_def
        auto_think_def detect_duplicates_def remind_eq)
  then have "new_reminder SystemWarning Kernel (blocked_reminder (blocked_ids v)) \<in> set (ss_pending_reminders ?s8)"
    by (auto simp: remind_eq)
  then show ?thesis
    using res h c2(2) by (simp add: push_user_def record_turn_def feed_plan_def remind_eq)
qed

text \<open>A turn is answered when the history is paired, the gate does not panic and the provider answers.\<close>

definition provider_answers :: "'w agent_env \<Rightarrow> 'w text_delta_sink option \<Rightarrow> 'w session \<Rightarrow> bool" where
  "provider_answers env od s \<longleftrightarrow>
     (\<forall>s1 req w. ss_llm s1 = ss_llm s \<longrightarrow> (\<exists>resp w'. call_model env s1 req od w = (Inr resp, w')))"

definition gate_total :: "'w agent_env \<Rightarrow> 'w session \<Rightarrow> bool" where
  "gate_total env s \<longleftrightarrow> (\<forall>t c. \<exists>v. check_before_emit (ae_engine env) (ss_verifier s) t c = Inr v)"

lemma finish_turn_answers:
  assumes "gate_total env s" "finish_turn env resp s w = (r, s', w')"
  shows "\<exists>out. r = Inr out"
proof -
  obtain us1 s2 where cap: "cap_tool_uses (response_uses resp) (warn_token_budget (warn_context s)) = (us1, s2)"
    by fastforce
  have "ss_verifier s2 = ss_verifier s"
    using cap_core(1)[where s = "warn_token_budget (warn_context s)" and us = "response_uses resp"] warn_core(1)[of s] cap
    by (simp add: same_core_def)
  then have "\<exists>v. verify_text env (raw_text resp) s2 = Inr v"
    using assms(1) unfolding gate_total_def verify_text_def by (auto split: option.splits sum.splits) (metis sum.simps(4))
  then obtain blocked fin s3 where v: "verify_text env (raw_text resp) s2 = Inr (blocked, fin, s3)"
    by (metis prod_cases3)
  with assms(2) cap show ?thesis
    by (auto simp: finish_turn_def Let_def split: prod.splits)
qed

lemma agent_turn_answers:
  assumes "agent_turn_inner env inp od s w = (r, s', w')" "paired (ss_history s)"
    and "provider_answers env od s" "gate_total env s"
  shows "\<exists>out. r = Inr out"
  using assms(1)
proof (cases rule: agent_turn_cases)
  case (guard req w1 m)
  from guard_request_paired[OF prepare_turn_facts(5)[OF guard(1) perceive_input_paired[OF assms(2)]]
      prepare_turn_facts(2)[OF guard(1)], of env w1] guard(3) show ?thesis by simp
next
  case (llm req s2 w1 e req' w2 w3)
  have "ss_llm s' = ss_llm s"
    using prepare_turn_facts(1)[OF llm(1)] llm(2) by (simp add: same_frame_def same_core_def frame)
  with assms(3) obtain resp w4 where "call_model env s' req' od w2 = (Inr resp, w4)"
    unfolding provider_answers_def by blast
  with llm(6) show ?thesis by simp
next
  case (responded req s2 w1 resp s4 w5)
  have "ss_verifier s4 = ss_verifier s"
    using prepare_turn_facts(1)[OF responded(2)] responded(3) by (simp add: same_frame_def same_core_def frame)
  then have "gate_total env s4" using assms(4) by (simp add: gate_total_def)
  from finish_turn_answers[OF this responded(6)] show ?thesis .
qed simp

text \<open>What no turn changes.\<close>

lemma finish_turn_settings:
  assumes "finish_turn env resp s w = (r, s', w')"
  shows "ss_llm s' = ss_llm s \<and> ss_verifier s' = ss_verifier s \<and> ss_max_turns s' = ss_max_turns s
    \<and> ss_verify_enabled s' = ss_verify_enabled s \<and> ss_tools s' = ss_tools s"
  using assms
proof (cases rule: finish_turn_cases)
  case panic
  then show ?thesis by (simp add: same_core_def)
next
  case (ended blocked final us rs out s9)
  with decide_outcome_history(2)[OF ended(2)] show ?thesis by (simp add: same_core_def)
qed

lemma agent_turn_settings:
  assumes "agent_turn_inner env inp od s w = (r, s', w')"
  shows "ss_llm s' = ss_llm s \<and> ss_verifier s' = ss_verifier s \<and> ss_max_turns s' = ss_max_turns s
    \<and> ss_verify_enabled s' = ss_verify_enabled s"
proof -
  have p: "ss_llm s2 = ss_llm s \<and> ss_verifier s2 = ss_verifier s \<and> ss_max_turns s2 = ss_max_turns s
      \<and> ss_verify_enabled s2 = ss_verify_enabled s"
    if "prepare_turn env (perceive_input inp s) w = ((req, s2), w1)" for req s2 w1
    using prepare_turn_facts(1)[OF that] by (simp add: same_frame_def same_core_def frame)
  from assms show ?thesis
  proof (cases rule: agent_turn_cases)
    case budget
    then show ?thesis by (simp add: remind_eq frame)
  next
    case (guard req w1 m)
    from p[OF guard(1)] show ?thesis .
  next
    case (llm req s2 w1 e)
    with p[OF llm(1)] show ?thesis by (simp add: same_core_def)
  next
    case (responded req s2 w1 resp s4 w5)
    with p[OF responded(2)] finish_turn_settings[OF responded(6)] show ?thesis by (simp add: same_core_def)
  qed
qed

text \<open>A provider whose answers never end the turn: tool use, cut off, or paused.\<close>

definition never_stops :: "'w agent_env \<Rightarrow> 'w text_delta_sink option \<Rightarrow> 'w session \<Rightarrow> bool" where
  "never_stops env od s \<longleftrightarrow>
     (\<forall>s1 req w. ss_llm s1 = ss_llm s \<longrightarrow>
        (\<exists>resp w'. call_model env s1 req od w = (Inr resp, w')
           \<and> rs_stop_reason resp \<in> {StopToolUse, MaxTokens, PauseTurn}))"

lemma never_stops_continues:
  assumes "agent_turn_inner env inp od s w = (r, s', w')" "paired (ss_history s)"
    and "never_stops env od s" "gate_total env s" "\<not> turn_budget_reached s"
  shows "r = Inr ContinueImmediately"
proof -
  have "provider_answers env od s" using assms(3) unfolding never_stops_def provider_answers_def by blast
  with agent_turn_answers[OF assms(1,2)] assms(4) obtain out where r: "r = Inr out" by blast
  from assms(1) show ?thesis
  proof (cases rule: agent_turn_cases)
    case (responded req s2 w1 resp s4 w5)
    have "ss_llm s2 = ss_llm s"
      using prepare_turn_facts(1)[OF responded(2)] by (simp add: same_frame_def same_core_def frame)
    moreover obtain s3 req' w2 w3 where c: "call_model env s3 req' od w2 = (Inr resp, w3)" "ss_llm s3 = ss_llm s2"
      using responded(7) by blast
    ultimately obtain resp' w3' where "call_model env s3 req' od w2 = (Inr resp', w3')"
      "rs_stop_reason resp' \<in> {StopToolUse, MaxTokens, PauseTurn}"
      using assms(3) unfolding never_stops_def by metis
    with c(1) have stop: "rs_stop_reason resp \<in> {StopToolUse, MaxTokens, PauseTurn}" by simp
    from responded(6) show ?thesis
    proof (cases rule: finish_turn_cases)
      case panic
      with r show ?thesis by simp
    next
      case (ended blocked final us rs out s9)
      with stop show ?thesis by (auto simp: decide_outcome_def split: if_splits)
    qed
  qed (use assms(5) r in simp_all)
qed

section \<open>A small environment to try the properties on\<close>

definition still_env :: "unit agent_env" where
  "still_env =
     \<lparr>ae_exec = \<lparr>ee_rx = (\<lambda>_ _. False), ee_serialise = (\<lambda>_. []), ee_eprintln = (\<lambda>_ w. w),
                 ee_no_parallel = False, ee_schedule = (\<lambda>_. [])\<rparr>,
      ae_engine = demo_engine, ae_getenv = (\<lambda>_. None),
      ae_timeout = (\<lambda>_ call w. case call w of (r, w') \<Rightarrow> (Some r, w')), ae_now_ms = (\<lambda>w. (0, w))\<rparr>"

lemma still_answers:
  "provider_answers still_env None (demo_session (Inr resp))"
  by (simp add: provider_answers_def call_model_def still_env_def demo_session_def session_new_def demo_llm_def Let_def)

lemma still_gate: "gate_total still_env (demo_session r)"
  by (simp add: gate_total_def demo_session_def session_new_def check_before_emit_def gate_check_def rewrite_pass_def
      rewrite_rules_def check_rules_def Let_def)

end
