(* ===== verification/Turns.thy ===== *)
theory Turns
  imports AgentInvariants
begin

text \<open>
  The properties of one turn: what is sent, what is recorded, how turns are counted, and what a
  blocked answer and an exhausted budget leave behind; then the sessions a program can reach by
  turns, compactions and commands.
\<close>

lemma demo_paired [simp]: "paired (ss_history (demo_session r))"
  by (simp add: demo_session_def demo_history_def)

section \<open>What is sent\<close>

text \<open>
  C32. On a well-paired history the pairing guard in front of the provider is a no-op, whatever
  compaction and assembly did before it: the turn always gets past it, the guard rewrites and
  reports nothing, and the messages of the request are exactly the translated history.
\<close>
theorem turn_request_is_history:
  assumes "paired (ss_history s)" "prepare_turn env s w = ((req, s'), w')"
  shows "guard_request env req w' = (Inr req, w') \<and> rq_messages req = translate_history (ss_history s')"
proof -
  note m = prepare_turn_facts(2)[OF assms(2)]
  from guard_request_paired[OF prepare_turn_facts(5)[OF assms(2,1)] m, of env w'] m show ?thesis by simp
qed

lemma turn_request_is_history_witness:
  "let s = demo_session (demo_response ''sum''); ((req, s'), w') = prepare_turn still_env s () in
   rq_messages req = translate_history (ss_history s')"
proof -
  obtain req s' w' where p: "prepare_turn still_env (demo_session (demo_response ''sum'')) () = ((req, s'), w')"
    by (metis surj_pair)
  have "paired (ss_history (demo_session (demo_response ''sum'')))" by (simp add: demo_session_def demo_history_def)
  from turn_request_is_history[OF this p] p show ?thesis by simp
qed

text \<open>
  C36. A kernel reminder queued before a turn is in the system prompt of the turn's request, and
  the queue is empty afterwards. Deduplication of the queue by body never loses a body.
\<close>
theorem queued_reminder_is_sent:
  assumes "prepare_turn env s w = ((req, s'), w')"
    and "r \<in> set (ss_pending_reminders s)" "kernel_pending s" "str_trim (rem_body r) \<noteq> []"
  shows "\<exists>system. rq_system req = Some system \<and> str_contains (reminder_section r) system
    \<and> ss_pending_reminders s' = []"
proof -
  from prepare_turn_facts(6)[OF assms(1)] assms(2,3) obtain ctx rs pt where
    r: "r \<in> set rs" and k: "list_all (\<lambda>r. rem_source r = Kernel) rs"
    and req: "req = fst (build_context (ee_rx (ae_exec env)) (ss_assembler s') (ss_history s') (ss_config s')
        (ss_overlay s') ctx (dedup_by_body [] rs) (tool_defs s') pt)"
    by blast
  from dedup_by_body_bodies[OF r, of "[]"] obtain d where
    d: "d \<in> set (dedup_by_body [] rs)" "rem_body d = rem_body r" by auto
  have "rem_source d = Kernel" using d(1) set_dedup_by_body[of "[]" rs] k by (auto simp: list_all_iff)
  from kernel_section_in_system[OF d(1) this _ surjective_pairing] assms(4) d(2) prepare_turn_facts(3)[OF assms(1)]
  show ?thesis by (simp add: req reminder_section_def)
qed

lemma queued_reminder_is_sent_witness:
  "let s = remind ''stop'' (demo_session (demo_response ''sum'')) in
   \<exists>system. rq_system (fst (fst (prepare_turn still_env s ()))) = Some system
     \<and> str_contains (reminder_section (new_reminder SystemWarning Kernel ''stop'')) system"
proof -
  let ?s = "remind ''stop'' (demo_session (demo_response ''sum''))"
  let ?r = "new_reminder SystemWarning Kernel ''stop''"
  obtain req s' w' where p: "prepare_turn still_env ?s () = ((req, s'), w')" by (metis surj_pair)
  have q: "ss_pending_reminders ?s = [?r]" by (simp add: remind_eq demo_session_def session_new_def)
  then have "?r \<in> set (ss_pending_reminders ?s)" "kernel_pending ?s" by (simp_all add: kernel_pending_def)
  moreover have "str_trim (rem_body ?r) \<noteq> []" unfolding new_reminder_fields by code_simp
  ultimately have "\<exists>system. rq_system req = Some system \<and> str_contains (reminder_section ?r) system
      \<and> ss_pending_reminders s' = []"
    by (rule queued_reminder_is_sent[OF p])
  then show ?thesis using p by auto
qed

section \<open>Thinking and tools\<close>

lemma same_core_thinking:
  "same_core s s' \<Longrightarrow> thinking_budget (ss_config s) = Some b \<Longrightarrow> thinking_budget (ss_config s') = Some b"
  by (auto simp: same_core_def)

lemma same_frame_thinking:
  "same_frame s s' \<Longrightarrow> thinking_budget (ss_config s) = Some b \<Longrightarrow> thinking_budget (ss_config s') = Some b"
  by (auto simp: same_frame_def same_core_def)

lemma finish_turn_thinking:
  assumes "finish_turn env resp s w = (r, s', w')" "thinking_budget (ss_config s) = Some b"
  shows "thinking_budget (ss_config s') = Some b"
  using assms(1)
proof (cases rule: finish_turn_cases)
  case panic
  then show ?thesis using same_core_thinking assms(2) by blast
next
  case (ended blocked final us rs out s9)
  have "thinking_budget (ss_config s9) = Some b" using same_core_thinking[OF ended(5) assms(2)] by simp
  from same_core_thinking[OF decide_outcome_history(2)[OF ended(2)] this] show ?thesis by simp
qed

lemma agent_turn_thinking:
  assumes "agent_turn_inner env inp od s w = (r, s', w')" "thinking_budget (ss_config s) = Some b"
  shows "thinking_budget (ss_config s') = Some b"
  using assms(1)
proof (cases rule: agent_turn_cases)
  case budget
  with assms(2) show ?thesis by (simp add: remind_eq frame)
next
  case (guard req w1 m)
  from same_frame_thinking[OF prepare_turn_facts(1)[OF guard(1)]] assms(2) show ?thesis by (simp add: frame)
next
  case (llm req s2 w1 e)
  have "thinking_budget (ss_config s2) = Some b"
    using same_frame_thinking[OF prepare_turn_facts(1)[OF llm(1)]] assms(2) by (simp add: frame)
  from same_core_thinking[OF llm(2) this] show ?thesis .
next
  case (responded req s2 w1 resp s4 w5)
  have "thinking_budget (ss_config s2) = Some b"
    using same_frame_thinking[OF prepare_turn_facts(1)[OF responded(2)]] assms(2) by (simp add: frame)
  from finish_turn_thinking[OF responded(6) same_core_thinking[OF responded(3) this]] show ?thesis .
qed

text \<open>
  Thinking, once on, is on for good: no turn resets the budget, and while it is set every
  request goes out without tools. Auto-think switches it on for a session whose error statistics
  reached the threshold once, so from then on the model is never offered a tool again; its comment
  calls the change temporary.
\<close>
theorem thinking_is_permanent:
  assumes "ss_auto_think_on_stuck s" "thinking_budget (ss_config s) = None"
    and "list_ex (\<lambda>(name, ok, err). TOOL_ERROR_THRESHOLD \<le> err) (tool_call_stats (ss_plan s))"
    and "foldl (\<lambda>(s, w) (env, inp, od). snd (agent_turn_inner env inp od s w)) (auto_think s, w) turns = (s', w')"
  shows "thinking_budget (ss_config s') = Some 8192 \<and> rq_tools (fst (shape_request s' req)) = []"
proof -
  have on: "thinking_budget (ss_config (auto_think s)) = Some 8192"
    using assms(1-3) by (simp add: auto_think_def remind_eq)
  have "thinking_budget (ss_config s') = Some 8192"
    if "foldl (\<lambda>(s, w) (env, inp, od). snd (agent_turn_inner env inp od s w)) (s0, w0) turns = (s', w')"
      "thinking_budget (ss_config s0) = Some 8192" for s0 w0
    using that
  proof (induction turns arbitrary: s0 w0)
    case (Cons t turns)
    obtain env inp od where t: "t = (env, inp, od)" by (metis prod_cases3)
    obtain r s1 w1 where run: "agent_turn_inner env inp od s0 w0 = (r, s1, w1)" by (metis prod_cases3)
    from agent_turn_thinking[OF run Cons.prems(2)] Cons.prems(1) show ?case
      by (intro Cons.IH[of s1 w1]) (simp_all add: t run)
  qed simp
  from this[OF assms(4) on] show ?thesis by (simp add: shape_request_def Let_def)
qed

lemma thinking_is_permanent_witness:
  "let s = (demo_session (Inl RateLimited))
         \<lparr>ss_auto_think_on_stuck := True, ss_plan := plan_default\<lparr>tool_call_stats := [(''Bash'', (0, 3))]\<rparr>\<rparr>
   in thinking_budget (ss_config (fst (snd (agent_turn still_env (Some ''go'') (auto_think s) ())))) = Some 8192"
proof -
  let ?s = "(demo_session (Inl RateLimited))
      \<lparr>ss_auto_think_on_stuck := True, ss_plan := plan_default\<lparr>tool_call_stats := [(''Bash'', (0, 3))]\<rparr>\<rparr>"
  obtain r s' w' where run: "agent_turn_inner still_env (Some ''go'') None (auto_think ?s) () = (r, s', w')"
    by (metis prod_cases3)
  have "thinking_budget (ss_config ?s) = None"
    by (simp add: demo_session_def session_new_def session_config_default_def)
  moreover have "list_ex (\<lambda>(name, ok, err). TOOL_ERROR_THRESHOLD \<le> err) (tool_call_stats (ss_plan ?s))"
    by (simp add: TOOL_ERROR_THRESHOLD_def)
  ultimately have "thinking_budget (ss_config s') = Some 8192"
    using thinking_is_permanent[of ?s "()" "[(still_env, Some ''go'', None)]" s' w'] run by simp
  then show ?thesis by (simp add: agent_turn_def run)
qed

section \<open>Counting turns\<close>

text \<open>
  Turns are counted exactly: an answered turn advances the index by one, an error or an
  exhausted budget leaves it. A turn over budget returns at once to the user without calling the
  model or a tool, so the world, the executor and the plan are as before. A turn never returns
  \<open>Sleep\<close> or \<open>Exit\<close>.
\<close>
theorem turns_are_counted:
  assumes "agent_turn_inner env inp od s w = (r, s', w')"
  shows "ss_turn_index s' = ss_turn_index s + (if \<not> turn_budget_reached s \<and> (\<exists>out. r = Inr out) then 1 else 0)
    \<and> ss_max_turns s' = ss_max_turns s
    \<and> r \<noteq> Inr Exit \<and> (\<forall>n. r \<noteq> Inr (Sleep n))
    \<and> (turn_budget_reached s \<longrightarrow> r = Inr AwaitUser \<and> w' = w \<and> ss_executor s' = ss_executor s
         \<and> ss_plan s' = ss_plan s)"
  by (rule turn_counting[OF assms])

lemma turns_are_counted_witness:
  "let s = (demo_session (demo_response ''x''))\<lparr>ss_max_turns := 2, ss_turn_index := 2\<rparr>
   in fst (agent_turn still_env (Some ''go'') s ()) = Inr AwaitUser"
proof -
  let ?s = "(demo_session (demo_response ''x''))\<lparr>ss_max_turns := 2, ss_turn_index := 2\<rparr>"
  obtain r s' w' where run: "agent_turn_inner still_env (Some ''go'') None ?s () = (r, s', w')"
    by (metis prod_cases3)
  have "turn_budget_reached ?s" by (simp add: turn_budget_reached_def)
  with turns_are_counted[OF run] run show ?thesis by (simp add: agent_turn_def)
qed

section \<open>What is recorded\<close>

text \<open>
  While the verifier is on, what a completed turn records as the assistant's text has passed
  the gate: the last assistant item of the history is free of Block hits for the session's rules,
  or it is the sentinel of a blocked answer and carries no tool call.
\<close>
theorem recorded_reply_passed_gate:
  assumes "agent_turn_inner env inp od s w = (Inr out, s', w')"
    and "ss_verify_enabled s" "\<not> turn_budget_reached s"
  shows "\<exists>base final us rest. ss_history s' = base @ Assistant_item final us # rest
    \<and> \<not> list_ex is_assistant_item rest \<and> emission_ok env (perceive_input inp s) final us"
  by (rule reply_passed_gate[OF assms])

lemma recorded_reply_passed_gate_witness:
  "\<exists>base final us rest.
     ss_history (fst (snd (agent_turn still_env (Some ''go'') (demo_session (demo_response ''key'')) ())))
       = base @ Assistant_item final us # rest
     \<and> emission_ok still_env (perceive_input (Some ''go'') (demo_session (demo_response ''key''))) final us"
proof -
  let ?s = "demo_session (demo_response ''key'')"
  obtain r s' w' where run: "agent_turn_inner still_env (Some ''go'') None ?s () = (r, s', w')"
    by (metis prod_cases3)
  have "\<exists>out. r = Inr out"
    using agent_turn_answers[OF run _ _ still_gate] still_answers
    by (simp add: demo_response_def demo_paired)
  then obtain out where "agent_turn_inner still_env (Some ''go'') None ?s () = (Inr out, s', w')" using run by blast
  moreover have "ss_verify_enabled ?s" "\<not> turn_budget_reached ?s"
    by (simp_all add: demo_session_def session_new_def turn_budget_reached_def)
  ultimately obtain base final us rest where
    "ss_history s' = base @ Assistant_item final us # rest" "emission_ok still_env (perceive_input (Some ''go'') ?s) final us"
    using recorded_reply_passed_gate[of still_env _ None ?s "()" out s' w'] by blast
  then show ?thesis by (auto simp: agent_turn_def run)
qed

text \<open>
  C5. A blocked answer has no effect outside the session: no tool of the response runs, the world
  is as before, the history grows by the sentinel and the instruction to revise, the next turn
  follows at once, the plan records the blocked rules and the model is reminded of them.
\<close>
theorem blocked_turn_is_inert:
  assumes "finish_turn env resp s w = (r, s', w')" "ss_verify_enabled s" "raw_text resp = Some t"
    and "check_before_emit (ae_engine env) (ss_verifier s) t (ss_selfcheck_ctx s) = Inr v" "vr_is_blocked v"
  shows "r = Inr ContinueImmediately \<and> w' = w
    \<and> ss_history s' = ss_history s
        @ [Assistant_item (Some (blocked_sentinel (blocked_ids v))) [], User_item blocked_ack]
    \<and> ss_plan s' = record_block (ss_turn_index s) (blocked_ids v) (ss_plan s)
    \<and> new_reminder SystemWarning Kernel (blocked_reminder (blocked_ids v)) \<in> set (ss_pending_reminders s')"
  by (rule blocked_turn[OF assms])

definition blocked_demo :: "unit session" where
  "blocked_demo = (demo_session (Inl RateLimited))\<lparr>ss_verifier := demo_rules\<rparr>"

lemma blocked_turn_is_inert_witness:
  "let resp = \<lparr>rs_content = [Text ''um a key'', ToolUse ''u'' ''Bash'' JNull], rs_stop_reason = StopToolUse, rs_usage = None\<rparr>
   in snd (snd (finish_turn still_env resp blocked_demo ())) = ()
     \<and> (\<exists>ids. ss_history (fst (snd (finish_turn still_env resp blocked_demo ())))
           = demo_history @ [Assistant_item (Some (blocked_sentinel ids)) [], User_item blocked_ack])"
proof -
  let ?resp = "\<lparr>rs_content = [Text ''um a key'', ToolUse ''u'' ''Bash'' JNull], rs_stop_reason = StopToolUse, rs_usage = None\<rparr>"
  obtain r s' w' where f: "finish_turn still_env ?resp blocked_demo () = (r, s', w')" by (metis prod_cases3)
  have fields: "ss_verify_enabled blocked_demo" "ss_verifier blocked_demo = demo_rules"
    "ss_selfcheck_ctx blocked_demo = session_context_default" "ss_history blocked_demo = demo_history"
    by (simp_all add: blocked_demo_def demo_session_def session_new_def)
  have raw: "raw_text ?resp = Some ''um a key''" by (simp add: raw_text_def block_texts_def Let_def)
  from demo_check obtain v where
    v: "check_before_emit demo_engine demo_rules ''um a key'' session_context_default = Inr v" "vr_is_blocked v"
    by (auto simp: vr_is_blocked_def)
  then have "check_before_emit (ae_engine still_env) (ss_verifier blocked_demo) ''um a key'' (ss_selfcheck_ctx blocked_demo)
      = Inr v"
    by (simp add: fields still_env_def)
  from blocked_turn_is_inert[OF f fields(1) raw this v(2)] f fields(4) show ?thesis by auto
qed

section \<open>Reachable sessions\<close>

text \<open>
  What the program does with a session between its construction and its end: turns of any kind
  and in any environment, forced compactions, queued kernel reminders, goal commands, and the
  settings commands that touch the fields the loop reads.
\<close>

inductive session_step :: "'w session \<Rightarrow> 'w session \<Rightarrow> bool" where
  turn: "agent_turn_inner env inp od s w = (r, s', w') \<Longrightarrow> session_step s s'"
| compact: "force_compact getenv ser elog s w = (r, s', w') \<Longrightarrow> session_step s s'"
| remind: "session_step s (remind body s)"
| set_goal: "session_step s (s\<lparr>ss_plan := set_goal g (ss_plan s)\<rparr>)"
| clear_goal: "session_step s (s\<lparr>ss_plan := clear_goal (ss_plan s)\<rparr>)"
| configure: "session_step s (s\<lparr>ss_config := cfg, ss_max_turns := n, ss_verify_enabled := b\<rparr>)"

inductive reachable :: "'w session \<Rightarrow> bool" where
  init: "reachable (session_new t config overlay llm gate tools)"
| step: "reachable s \<Longrightarrow> session_step s s' \<Longrightarrow> reachable s'"

definition session_ok :: "'w session \<Rightarrow> bool" where
  "session_ok s \<longleftrightarrow> paired (ss_history s) \<and> plan_ok (ss_plan s) \<and> kernel_pending s"

lemma plan_ok_start: "plan_ok plan_default"
  by (simp add: plan_ok_def plan_default_def)

lemma session_ok_step:
  assumes "session_step s s'" "session_ok s"
  shows "session_ok s'"
  using assms(1)
proof cases
  case (turn env inp od w r w')
  with assms(2) agent_turn_paired[OF turn] agent_turn_plan_ok[OF turn] agent_turn_kernel_pending[OF turn]
  show ?thesis by (simp add: session_ok_def)
next
  case (compact getenv ser elog w r w')
  then have c: "compact_inner getenv ser elog True s w = (r, s', w')" by (simp add: force_compact_def)
  from assms(2) compact_inner_paired[OF c] compact_inner_core(2,3)[OF c] show ?thesis by (simp add: session_ok_def)
next
  case (remind body)
  with assms(2) show ?thesis by (simp add: session_ok_def remind_eq kernel_pending_def)
next
  case (set_goal g)
  with assms(2) plan_ok_exec[of "ss_plan s" "OpGoal g"] show ?thesis by (simp add: session_ok_def kernel_pending_def)
next
  case clear_goal
  with assms(2) plan_ok_exec[of "ss_plan s" OpClearGoal] show ?thesis by (simp add: session_ok_def kernel_pending_def)
next
  case (configure cfg n b)
  with assms(2) show ?thesis by (simp add: session_ok_def kernel_pending_def)
qed

lemma reachable_ok: "reachable s \<Longrightarrow> session_ok s"
proof (induction rule: reachable.induct)
  case (init t config overlay llm gate tools)
  then show ?case by (simp add: session_ok_def session_new_def kernel_pending_def plan_ok_start)
next
  case (step s s')
  then show ?case using session_ok_step by blast
qed



end
