(* ===== verification/Policy.thy ===== *)
theory Policy
  imports Session
begin

text \<open>
  The operator's policy of \<open>crates/aether-cli/src/main.rs\<close>: the policy file, the tool and model
  checks, and its application to a fresh session. The parsed file is a parameter (\<open>load_policy\<close>
  reads and parses it once per process), and so is the regex compiler, as the function from a
  pattern to its compile error.
\<close>

record tool_arg_filter_row =
  row_tool :: string
  row_regex :: string
  row_action :: string
  row_field :: "string option"

definition default_arg_filter_action :: string where
  "default_arg_filter_action = ''refuse''"

record policy_file =
  model_allowlist :: "string list"
  tool_blocklist :: "string list"
  pf_max_tokens_per_turn :: "nat option"
  tool_arg_filters :: "tool_arg_filter_row list"

definition policy_file_default :: policy_file where
  "policy_file_default =
     \<lparr>model_allowlist = [], tool_blocklist = [], pf_max_tokens_per_turn = None, tool_arg_filters = []\<rparr>"

definition policy_allows_tool :: "policy_file \<Rightarrow> string \<Rightarrow> bool" where
  "policy_allows_tool p n = (\<not> list_ex (\<lambda>t. t = n) (tool_blocklist p))"

definition model_refused_text :: "string \<Rightarrow> string option \<Rightarrow> string" where
  "model_refused_text model path =
     ''policy: model `'' @ model @ ''` is not in model_allowlist (set in ''
     @ (case path of Some p \<Rightarrow> p | None \<Rightarrow> ''<unknown>'') @ '')''"

definition enforce_model_policy :: "policy_file \<Rightarrow> string option \<Rightarrow> string \<Rightarrow> (string, unit) result" where
  "enforce_model_policy p path model =
     (if model_allowlist p = [] then Inr ()
      else if list_ex (\<lambda>m. m = model) (model_allowlist p) then Inr ()
      else Inl (model_refused_text model path))"

section \<open>Applying the policy to a session\<close>

definition row_filter :: "tool_arg_filter_row \<Rightarrow> tool_arg_filter" where
  "row_filter row =
     \<lparr>af_tool = row_tool row, af_regex = row_regex row,
      af_action = (if row_action row = ''warn'' then WarnAction else RefuseAction), af_field = row_field row\<rparr>"

text \<open>The rows whose pattern compiles, in order; the others are reported and skipped.\<close>

fun compile_rows ::
  "(string \<Rightarrow> string option) \<Rightarrow> (tool_arg_filter_row \<Rightarrow> string \<Rightarrow> 'w \<Rightarrow> 'w) \<Rightarrow> tool_arg_filter_row list \<Rightarrow> 'w \<Rightarrow>
   tool_arg_filter list \<times> 'w" where
  "compile_rows regex_error warn [] w = ([], w)"
| "compile_rows regex_error warn (row # rows) w =
     (case regex_error (row_regex row) of
        None \<Rightarrow> (case compile_rows regex_error warn rows w of (fs, w') \<Rightarrow> (row_filter row # fs, w'))
      | Some e \<Rightarrow> compile_rows regex_error warn rows (warn row e w))"

text \<open>The three steps of the application: blocklist, token limit, argument filters.\<close>

definition limit_tools :: "policy_file \<Rightarrow> 'w session \<Rightarrow> 'w session" where
  "limit_tools p s =
     (if tool_blocklist p \<noteq> []
      then s\<lparr>ss_executor := set_policy_blocklist (tool_blocklist p) (ss_executor s)\<rparr> else s)"

definition limit_tokens :: "policy_file \<Rightarrow> 'w session \<Rightarrow> 'w session" where
  "limit_tokens p s =
     (case pf_max_tokens_per_turn p of
        None \<Rightarrow> s
      | Some cap \<Rightarrow>
          if cap < max_tokens_per_turn (ss_config s)
          then s\<lparr>ss_config := (ss_config s)\<lparr>max_tokens_per_turn := cap\<rparr>\<rparr> else s)"

definition install_filters ::
  "policy_file \<Rightarrow> (string \<Rightarrow> string option) \<Rightarrow> (tool_arg_filter_row \<Rightarrow> string \<Rightarrow> 'w \<Rightarrow> 'w) \<Rightarrow> 'w session \<Rightarrow> 'w \<Rightarrow>
   'w session \<times> 'w" where
  "install_filters p regex_error warn s w =
     (if tool_arg_filters p \<noteq> [] then
        (case compile_rows regex_error warn (tool_arg_filters p) w of
           (compiled, w') \<Rightarrow>
             (if compiled \<noteq> [] then s\<lparr>ss_executor := set_arg_filters compiled (ss_executor s)\<rparr> else s, w'))
      else (s, w))"

definition apply_policy_to_session ::
  "policy_file \<Rightarrow> (string \<Rightarrow> string option) \<Rightarrow> (tool_arg_filter_row \<Rightarrow> string \<Rightarrow> 'w \<Rightarrow> 'w) \<Rightarrow> 'w session \<Rightarrow> 'w \<Rightarrow>
   'w session \<times> 'w" where
  "apply_policy_to_session p regex_error warn s w =
     install_filters p regex_error warn (limit_tokens p (limit_tools p s)) w"

text \<open>The filters the policy asks for: the rows that compile.\<close>

definition policy_filters :: "policy_file \<Rightarrow> (string \<Rightarrow> string option) \<Rightarrow> tool_arg_filter list" where
  "policy_filters p regex_error =
     map row_filter (filter (\<lambda>row. regex_error (row_regex row) = None) (tool_arg_filters p))"

lemma compile_rows_filters:
  "fst (compile_rows regex_error warn rows w) = map row_filter (filter (\<lambda>row. regex_error (row_regex row) = None) rows)"
  by (induction rows arbitrary: w) (auto simp: split_beta split: option.splits)

lemma limit_tools_fields [frame]:
  "ss_executor (limit_tools p s) = (ss_executor s)
     \<lparr>ex_policy_blocklist := if tool_blocklist p \<noteq> [] then tool_blocklist p else ex_policy_blocklist (ss_executor s)\<rparr>"
  "ss_config (limit_tools p s) = ss_config s"
  "(limit_tools p s)\<lparr>ss_executor := e\<rparr> = s\<lparr>ss_executor := e\<rparr>"
  by (simp_all add: limit_tools_def set_policy_blocklist_def)

lemma limit_tokens_fields [frame]:
  "ss_executor (limit_tokens p s) = ss_executor s"
  "max_tokens_per_turn (ss_config (limit_tokens p s)) =
     (case pf_max_tokens_per_turn p of
        None \<Rightarrow> max_tokens_per_turn (ss_config s)
      | Some cap \<Rightarrow> min cap (max_tokens_per_turn (ss_config s)))"
  "(limit_tokens p s)\<lparr>ss_config := c\<rparr> = s\<lparr>ss_config := c\<rparr>"
  by (simp_all add: limit_tokens_def split: option.splits)

lemma install_filters_fields [frame]:
  "ss_executor (fst (install_filters p rx wn s w)) = (ss_executor s)
     \<lparr>ex_arg_filters := if policy_filters p rx \<noteq> [] then policy_filters p rx else ex_arg_filters (ss_executor s)\<rparr>"
  "ss_config (fst (install_filters p rx wn s w)) = ss_config s"
  "(fst (install_filters p rx wn s w))\<lparr>ss_executor := e\<rparr> = s\<lparr>ss_executor := e\<rparr>"
  by (auto simp: install_filters_def policy_filters_def set_arg_filters_def compile_rows_filters split_beta)

lemma apply_policy_frame:
  "(fst (apply_policy_to_session p rx wn s w))\<lparr>ss_executor := e, ss_config := c\<rparr> = s\<lparr>ss_executor := e, ss_config := c\<rparr>"
proof -
  have swap: "t\<lparr>ss_executor := e, ss_config := c\<rparr> = t\<lparr>ss_config := c, ss_executor := e\<rparr>" for t :: "'a session"
    by simp
  show ?thesis
    unfolding apply_policy_to_session_def
    by (simp only: install_filters_fields(3)) (simp only: swap limit_tokens_fields(3), simp only: swap[symmetric] limit_tools_fields(3))
qed

lemma apply_policy_fields [frame]:
  "ss_history (fst (apply_policy_to_session p rx wn s w)) = ss_history s"
  "ss_max_turns (fst (apply_policy_to_session p rx wn s w)) = ss_max_turns s"
  "ss_turn_index (fst (apply_policy_to_session p rx wn s w)) = ss_turn_index s"
  "ss_llm (fst (apply_policy_to_session p rx wn s w)) = ss_llm s"
  "ss_verifier (fst (apply_policy_to_session p rx wn s w)) = ss_verifier s"
  "ss_plan (fst (apply_policy_to_session p rx wn s w)) = ss_plan s"
  "ss_pending_reminders (fst (apply_policy_to_session p rx wn s w)) = ss_pending_reminders s"
  "ss_verify_enabled (fst (apply_policy_to_session p rx wn s w)) = ss_verify_enabled s"
proof -
  note e = apply_policy_frame[where e = undefined and c = undefined and p = p and rx = rx and wn = wn and s = s and w = w]
  show "ss_history (fst (apply_policy_to_session p rx wn s w)) = ss_history s"
    "ss_max_turns (fst (apply_policy_to_session p rx wn s w)) = ss_max_turns s"
    "ss_turn_index (fst (apply_policy_to_session p rx wn s w)) = ss_turn_index s"
    "ss_llm (fst (apply_policy_to_session p rx wn s w)) = ss_llm s"
    "ss_verifier (fst (apply_policy_to_session p rx wn s w)) = ss_verifier s"
    "ss_plan (fst (apply_policy_to_session p rx wn s w)) = ss_plan s"
    "ss_pending_reminders (fst (apply_policy_to_session p rx wn s w)) = ss_pending_reminders s"
    "ss_verify_enabled (fst (apply_policy_to_session p rx wn s w)) = ss_verify_enabled s"
    using arg_cong[OF e, of ss_history] arg_cong[OF e, of ss_max_turns] arg_cong[OF e, of ss_turn_index] arg_cong[OF e, of ss_llm] arg_cong[OF e, of ss_verifier] arg_cong[OF e, of ss_plan] arg_cong[OF e, of ss_pending_reminders] arg_cong[OF e, of ss_verify_enabled] by simp_all
qed

text \<open>
  The policy is applied exactly: on a session whose executor has no policy yet, the
  blocklist of the executor blocks precisely the tools the policy forbids, the token limit is the
  smaller of the two, and the argument filters are the compiling rows in order, every action but
  \<open>warn\<close> refusing. Nothing else of the session changes.
\<close>
theorem policy_applied_exactly:
  assumes "ex_policy_blocklist (ss_executor s) = []" "ex_arg_filters (ss_executor s) = []"
    and "apply_policy_to_session p regex_error warn s w = (s', w')"
  shows "(\<forall>n. is_policy_blocked (ss_executor s') n \<longleftrightarrow> \<not> policy_allows_tool p n)
    \<and> max_tokens_per_turn (ss_config s') =
        (case pf_max_tokens_per_turn p of
           None \<Rightarrow> max_tokens_per_turn (ss_config s)
         | Some cap \<Rightarrow> min cap (max_tokens_per_turn (ss_config s)))
    \<and> ex_arg_filters (ss_executor s') = policy_filters p regex_error
    \<and> s' = s\<lparr>ss_executor := ss_executor s', ss_config := ss_config s'\<rparr>"
proof -
  have s': "s' = fst (apply_policy_to_session p regex_error warn s w)" using assms(3) by simp
  have ex: "ss_executor s' = (ss_executor s)
      \<lparr>ex_policy_blocklist := tool_blocklist p, ex_arg_filters := policy_filters p regex_error\<rparr>"
    using assms(1,2) by (simp add: s' apply_policy_to_session_def frame)
  have "s' = s\<lparr>ss_executor := ss_executor s', ss_config := ss_config s'\<rparr>"
    using apply_policy_frame[where e = "ss_executor s'" and c = "ss_config s'" and s = s and w = w and p = p
        and rx = regex_error and wn = warn] by (simp flip: s')
  moreover have "is_policy_blocked (ss_executor s') n \<longleftrightarrow> \<not> policy_allows_tool p n" for n
    by (simp add: ex is_policy_blocked_def policy_allows_tool_def)
  moreover have "max_tokens_per_turn (ss_config s') =
      (case pf_max_tokens_per_turn p of
         None \<Rightarrow> max_tokens_per_turn (ss_config s)
       | Some cap \<Rightarrow> min cap (max_tokens_per_turn (ss_config s)))"
    by (simp add: s' apply_policy_to_session_def frame split: option.splits)
  ultimately show ?thesis by (simp add: ex)
qed

lemma policy_applied_exactly_witness:
  "let p = \<lparr>model_allowlist = [], tool_blocklist = [''Bash''], pf_max_tokens_per_turn = Some 100, tool_arg_filters = []\<rparr>;
       s = session_new 0 session_config_default overlay_config_default
             \<lparr>pr_complete = (\<lambda>_ w. (Inl RateLimited, w)), pr_complete_streamed = (\<lambda>_ _ w. (Inl RateLimited, w)), pr_name = []\<rparr> [] []
   in is_policy_blocked (ss_executor (fst (apply_policy_to_session p (\<lambda>_. None) (\<lambda>_ _ w. w) s ()))) ''Bash''"
proof -
  let ?p = "\<lparr>model_allowlist = [], tool_blocklist = [''Bash''], pf_max_tokens_per_turn = Some 100, tool_arg_filters = []\<rparr>"
  let ?llm = "\<lparr>pr_complete = (\<lambda>_ w. (Inl RateLimited, w)), pr_complete_streamed = (\<lambda>_ _ w. (Inl RateLimited, w)), pr_name = []\<rparr>"
  let ?s = "session_new 0 session_config_default overlay_config_default ?llm [] []"
  obtain s' w' where a: "apply_policy_to_session ?p (\<lambda>_. None) (\<lambda>_ _ w. w) ?s () = (s', w')"
    by (metis surj_pair)
  have "ex_policy_blocklist (ss_executor ?s) = []" "ex_arg_filters (ss_executor ?s) = []"
    by (simp_all add: session_new_def executor_new_def)
  from policy_applied_exactly[OF this a] a show ?thesis by (simp add: policy_allows_tool_def)
qed

end
