(* ===== verification/Drivers.thy ===== *)
theory Drivers
  imports Turns Policy
begin

text \<open>
  The loops of \<open>crates/aether-cli/src/main.rs\<close> that drive a session to its end: the evaluation
  harness (\<open>run_eval_case\<close> and the scoring of \<open>run_eval\<close>), the HTTP server (\<open>serve_one_turn\<close>) and
  print mode (\<open>run_print_agent\<close>). The first has a bound on its turns; the other two are unbounded
  loops, modelled as partial functions, so that not returning is \<open>None\<close>.
  Building the provider, the bundled gate rules, the built-in tools, the clock and sleeping are
  parameters, as is the loaded policy file.
\<close>

record 'w driver_env =
  de_agent :: "'w agent_env"
  de_gate :: "(string, compiled_rule list) result"
  de_tools :: "'w tool_registry"
  de_provider :: "'w \<Rightarrow> (string, 'w llm_provider) result \<times> 'w"
  de_policy :: policy_file
  de_regex_error :: "string \<Rightarrow> string option"
  de_warn_row :: "tool_arg_filter_row \<Rightarrow> string \<Rightarrow> 'w \<Rightarrow> 'w"
  de_instant :: "'w \<Rightarrow> nat \<times> 'w"
  de_sleep :: "nat \<Rightarrow> 'w \<Rightarrow> 'w"
  de_show_tool :: "recorded_tool_use \<Rightarrow> 'w \<Rightarrow> 'w"

definition PRINT_MODE_MAX_TOKENS :: nat where
  "PRINT_MODE_MAX_TOKENS = 4096"

definition driver_config :: "string \<Rightarrow> permission_mode \<Rightarrow> nat \<Rightarrow> session_config" where
  "driver_config model mode max_tokens =
     \<lparr>cfg_model = model, permission_mode = mode, max_tokens_per_turn = max_tokens, thinking_budget = None,
      temperature = None, tools_disabled_turns = 0, system_suffix = None, max_tool_calls_per_turn = 20\<rparr>"

text \<open>Gate, provider, session, policy: the set-up the drivers share.\<close>

definition open_session ::
  "'w driver_env \<Rightarrow> string \<Rightarrow> permission_mode \<Rightarrow> 'w \<Rightarrow> (string, 'w session) result \<times> 'w" where
  "open_session de model mode w =
     (case de_gate de of
        Inl e \<Rightarrow> (Inl (''gate: '' @ e), w)
      | Inr gate \<Rightarrow>
          (case de_provider de w of
             (Inl e, w1) \<Rightarrow> (Inl e, w1)
           | (Inr llm, w1) \<Rightarrow>
               (case de_instant de w1 of
                  (now, w2) \<Rightarrow>
                    (case apply_policy_to_session (de_policy de) (de_regex_error de) (de_warn_row de)
                       (session_new now (driver_config model mode PRINT_MODE_MAX_TOKENS) overlay_config_default
                          llm gate (de_tools de)) w2 of
                       (s, w3) \<Rightarrow> (Inr s, w3)))))"

text \<open>What the drivers read off the last item of the history.\<close>

definition reply_text :: "conversation_item list \<Rightarrow> string option \<Rightarrow> string option" where
  "reply_text h old =
     (if h = [] then old
      else (case last h of Assistant_item (Some t) us \<Rightarrow> Some t | _ \<Rightarrow> old))"

definition reply_uses :: "conversation_item list \<Rightarrow> recorded_tool_use list" where
  "reply_uses h =
     (if h = [] then [] else (case last h of Assistant_item t us \<Rightarrow> us | _ \<Rightarrow> []))"

section \<open>The evaluation harness\<close>

record eval_case =
  ec_name :: string
  ec_prompt :: string
  expected_contains :: "string list"
  forbidden_strings :: "string list"
  expected_tool_used :: "string list"
  ec_max_turns :: "nat option"

record eval_criterion =
  cr_kind :: string
  cr_detail :: string
  cr_passed :: bool

record eval_case_result =
  er_name :: string
  er_passed :: bool
  er_turn_count :: nat
  er_final_text :: string
  er_tools_used :: "string list"
  er_criteria :: "eval_criterion list"

fun eval_turns ::
  "'w driver_env \<Rightarrow> nat \<Rightarrow> string option \<Rightarrow> 'w session \<Rightarrow> string option \<Rightarrow> nat \<Rightarrow> string list \<Rightarrow> 'w \<Rightarrow>
   (agent_error, string option \<times> nat \<times> string list) result \<times> 'w" where
  "eval_turns de 0 inp s final count used w = (Inr (final, count, used), w)"
| "eval_turns de (Suc n) inp s final count used w =
     (case agent_turn (de_agent de) inp s w of
        (Inl e, s1, w1) \<Rightarrow> (Inl e, w1)
      | (Inr out, s1, w1) \<Rightarrow>
          (let final1 = reply_text (ss_history s1) final;
               used1 = used @ map rtu_name (reply_uses (ss_history s1))
           in case out of
                AwaitUser \<Rightarrow> (Inr (final1, Suc count, used1), w1)
              | Exit \<Rightarrow> (Inr (final1, Suc count, used1), w1)
              | ContinueImmediately \<Rightarrow> eval_turns de n None s1 final1 (Suc count) used1 w1
              | Sleep secs \<Rightarrow> eval_turns de n None s1 final1 (Suc count) used1 (de_sleep de secs w1)))"

definition run_eval_case ::
  "'w driver_env \<Rightarrow> string \<Rightarrow> permission_mode \<Rightarrow> eval_case \<Rightarrow> 'w \<Rightarrow>
   (string, string \<times> nat \<times> string list) result \<times> 'w" where
  "run_eval_case de model mode c w =
     (case open_session de model mode w of
        (Inl e, w1) \<Rightarrow> (Inl e, w1)
      | (Inr s, w1) \<Rightarrow>
          (case eval_turns de (case ec_max_turns c of Some n \<Rightarrow> n | None \<Rightarrow> 20) (Some (ec_prompt c)) s None 0 [] w1 of
             (Inl e, w2) \<Rightarrow> (Inl (show_agent_error e), w2)
           | (Inr (final, count, used), w2) \<Rightarrow>
               (Inr (case final of Some t \<Rightarrow> t | None \<Rightarrow> ''(no final assistant text)'', count, used), w2)))"

definition criterion :: "string \<Rightarrow> string \<Rightarrow> bool \<Rightarrow> eval_criterion" where
  "criterion k d ok = \<lparr>cr_kind = k, cr_detail = d, cr_passed = ok\<rparr>"

definition eval_criteria :: "eval_case \<Rightarrow> string \<Rightarrow> nat \<Rightarrow> string list \<Rightarrow> eval_criterion list" where
  "eval_criteria c final count used =
     map (\<lambda>needle. criterion ''expected_contains'' needle (str_contains needle final)) (expected_contains c)
     @ map (\<lambda>needle. criterion ''forbidden_strings'' needle (\<not> str_contains needle final)) (forbidden_strings c)
     @ map (\<lambda>tool. criterion ''expected_tool_used'' tool (list_ex (\<lambda>n. n = tool) used)) (expected_tool_used c)
     @ (case ec_max_turns c of
          None \<Rightarrow> []
        | Some cap \<Rightarrow>
            [criterion ''max_turns'' (''actual='' @ show_nat count @ '' cap='' @ show_nat cap) (count \<le> cap)])"

definition eval_one ::
  "'w driver_env \<Rightarrow> string \<Rightarrow> permission_mode \<Rightarrow> eval_case \<Rightarrow> 'w \<Rightarrow> eval_case_result \<times> 'w" where
  "eval_one de model mode c w =
     (case run_eval_case de model mode c w of
        (r, w1) \<Rightarrow>
          (let (final, count, used) = (case r of Inr t \<Rightarrow> t | Inl e \<Rightarrow> (''[run error] '' @ e, 0, []));
               crits = eval_criteria c final count used
           in (\<lparr>er_name = ec_name c, er_passed = list_all cr_passed crits, er_turn_count = count,
                er_final_text = take_chars 800 final, er_tools_used = used, er_criteria = crits\<rparr>, w1)))"

text \<open>The report: the case results in order, and how many passed and failed.\<close>

fun run_eval ::
  "'w driver_env \<Rightarrow> string \<Rightarrow> permission_mode \<Rightarrow> eval_case list \<Rightarrow> 'w \<Rightarrow>
   (eval_case_result list \<times> nat \<times> nat) \<times> 'w" where
  "run_eval de model mode [] w = (([], 0, 0), w)"
| "run_eval de model mode (c # cs) w =
     (case eval_one de model mode c w of
        (r, w1) \<Rightarrow>
          (case run_eval de model mode cs w1 of
             ((rs, passed, failed), w2) \<Rightarrow>
               ((r # rs, if er_passed r then Suc passed else passed, if er_passed r then failed else Suc failed), w2)))"

section \<open>The unbounded drivers\<close>

definition price_per_million :: "string \<Rightarrow> rat \<times> rat" where
  "price_per_million model =
     (let m = to_ascii_lowercase model in
      if str_contains ''opus'' m then (15, 75)
      else if str_contains ''sonnet'' m then (3, 15)
      else if str_contains ''haiku'' m then (80 / 100, 4)
      else if str_contains ''fable'' m then (15, 75)
      else (3, 15))"

definition estimate_cost_usd :: "string \<Rightarrow> usage \<Rightarrow> rat" where
  "estimate_cost_usd model u =
     (case price_per_million model of
        (in_pm, out_pm) \<Rightarrow>
          of_nat (input_tokens u) * in_pm / 1000000
          + of_nat (output_tokens u) * out_pm / 1000000
          + of_nat (cache_creation_input_tokens u) * (in_pm * (125 / 100)) / 1000000
          + of_nat (cache_read_input_tokens u) * (in_pm * (10 / 100)) / 1000000)"

record serve_response =
  sr_text :: string
  sr_tokens_in :: nat
  sr_tokens_out :: nat
  sr_cost_usd :: rat
  sr_error :: "string option"

partial_function (option) serve_turns ::
  "'w driver_env \<Rightarrow> string option \<Rightarrow> 'w session \<Rightarrow> string option \<Rightarrow> 'w \<Rightarrow>
   ((agent_error, string option \<times> 'w session) result \<times> 'w) option" where
  "serve_turns de inp s final w =
     (case agent_turn (de_agent de) inp s w of (r, s1, w1) \<Rightarrow>
        (case r of
           Inl e \<Rightarrow> Some (Inl e, w1)
         | Inr out \<Rightarrow>
             (case out of
                AwaitUser \<Rightarrow> Some (Inr (reply_text (ss_history s1) final, s1), w1)
              | Exit \<Rightarrow> Some (Inr (reply_text (ss_history s1) final, s1), w1)
              | ContinueImmediately \<Rightarrow> serve_turns de None s1 (reply_text (ss_history s1) final) w1
              | Sleep secs \<Rightarrow> serve_turns de None s1 (reply_text (ss_history s1) final) (de_sleep de secs w1))))"

definition serve_one_turn ::
  "'w driver_env \<Rightarrow> string \<Rightarrow> permission_mode \<Rightarrow> string \<Rightarrow> 'w \<Rightarrow> ((string, serve_response) result \<times> 'w) option" where
  "serve_one_turn de model mode prompt w =
     (case open_session de model mode w of
        (Inl e, w1) \<Rightarrow> Some (Inl e, w1)
      | (Inr s, w1) \<Rightarrow>
          (case serve_turns de (Some prompt) s None w1 of
             None \<Rightarrow> None
           | Some (Inl e, w2) \<Rightarrow> Some (Inl (show_agent_error e), w2)
           | Some (Inr (final, s1), w2) \<Rightarrow>
               Some (Inr \<lparr>sr_text = (case final of Some t \<Rightarrow> t | None \<Rightarrow> []),
                          sr_tokens_in = input_tokens (ss_usage_total s1),
                          sr_tokens_out = output_tokens (ss_usage_total s1),
                          sr_cost_usd = estimate_cost_usd (cfg_model (ss_config s1)) (ss_usage_total s1),
                          sr_error = None\<rparr>, w2)))"

text \<open>Print mode gathers the texts of the turns without tool calls and keeps an error for the end.\<close>

definition gather_text :: "conversation_item list \<Rightarrow> string option \<Rightarrow> string option" where
  "gather_text h old =
     (if h = [] then old
      else (case last h of
              Assistant_item (Some t) us \<Rightarrow>
                if us = [] then Some ((case old of Some acc \<Rightarrow> acc | None \<Rightarrow> []) @ t) else old
            | _ \<Rightarrow> old))"

partial_function (option) print_turns ::
  "'w driver_env \<Rightarrow> 'w text_delta_sink option \<Rightarrow> string option \<Rightarrow> 'w session \<Rightarrow> string option \<Rightarrow> 'w \<Rightarrow>
   (string option \<times> agent_error option \<times> 'w session \<times> 'w) option" where
  "print_turns de sink inp s final w =
     (case agent_turn_inner (de_agent de) inp sink s w of (r, s1, w1) \<Rightarrow>
        (case r of
           Inl e \<Rightarrow> Some (final, Some e, s1, w1)
         | Inr out \<Rightarrow>
             (let final1 = gather_text (ss_history s1) final;
                  w2 = fold (de_show_tool de) (reply_uses (ss_history s1)) w1
              in case out of
                   AwaitUser \<Rightarrow> Some (final1, None, s1, w2)
                 | Exit \<Rightarrow> Some (final1, None, s1, w2)
                 | ContinueImmediately \<Rightarrow> print_turns de sink None s1 final1 w2
                 | Sleep secs \<Rightarrow> print_turns de sink None s1 final1 (de_sleep de secs w2))))"

section \<open>What the drivers read\<close>

text \<open>
  In a paired history an assistant item with tool calls is always followed by its results, so the
  last item never carries a call.
\<close>

lemma paired_reply_uses: "paired h \<Longrightarrow> reply_uses h = []"
proof (induction h rule: paired.induct)
  case (4 t us h)
  show ?case
  proof (cases "us = []")
    case True
    with 4 show ?thesis by (auto simp: reply_uses_def split: if_splits)
  next
    case False
    with 4(3) obtain rs h' where h: "h = ToolResults_item rs # h'" "paired h'"
      by (auto split: list.splits conversation_item.splits)
    with 4(2)[OF False h(1) refl h(2)] show ?thesis by (simp add: reply_uses_def split: if_splits)
  qed
qed (simp_all add: reply_uses_def split: if_splits)

lemma open_session_cases:
  assumes "open_session de model mode w = (Inr s, w')"
  obtains gate llm now w2 where "de_gate de = Inr gate"
    "s = fst (apply_policy_to_session (de_policy de) (de_regex_error de) (de_warn_row de)
       (session_new now (driver_config model mode PRINT_MODE_MAX_TOKENS) overlay_config_default llm gate (de_tools de)) w2)"
proof -
  obtain gate where g: "de_gate de = Inr gate"
    using assms by (auto simp: open_session_def split: sum.splits)
  obtain p w1 where p: "de_provider de w = (p, w1)" by fastforce
  obtain llm where l: "p = Inr llm" using assms g p by (auto simp: open_session_def split: sum.splits)
  obtain now w2 where n: "de_instant de w1 = (now, w2)" by fastforce
  let ?a = "apply_policy_to_session (de_policy de) (de_regex_error de) (de_warn_row de)
      (session_new now (driver_config model mode PRINT_MODE_MAX_TOKENS) overlay_config_default llm gate (de_tools de)) w2"
  obtain t w3 where a: "?a = (t, w3)" by (metis surj_pair)
  have "s = t" using assms by (simp add: open_session_def g p l n a)
  then have "s = fst ?a" by (simp add: a)
  with g show ?thesis by (rule that)
qed

lemma open_session_facts:
  assumes "open_session de model mode w = (Inr s, w')"
  shows "ss_history s = []" "ss_max_turns s = 0" "ss_turn_index s = 0" "paired (ss_history s)"
  using assms by (auto elim!: open_session_cases simp: frame session_new_def)

lemma eval_turns_exact:
  assumes "eval_turns de n inp s final count used w = (Inr (final', count', used'), w')" "paired (ss_history s)"
  shows "used' = used \<and> count' \<le> count + n"
  using assms
proof (induction n arbitrary: inp s final count used w)
  case (Suc n)
  obtain r s1 w1 where run: "agent_turn (de_agent de) inp s w = (r, s1, w1)" by (metis prod_cases3)
  have p1: "paired (ss_history s1)" by (rule agent_turn_paired[OF run[unfolded agent_turn_def] Suc.prems(2)])
  have step: "used' = used @ map rtu_name (reply_uses (ss_history s1)) \<and> count' \<le> Suc count + n"
    if "eval_turns de n None s1 f (Suc count) (used @ map rtu_name (reply_uses (ss_history s1))) w2
        = (Inr (final', count', used'), w')" for f w2
    by (rule Suc.IH[OF that p1])
  from Suc.prems(1) run step show ?case
    by (auto simp: paired_reply_uses[OF p1] Let_def split: sum.splits turn_outcome.splits)
qed simp

text \<open>A driver to try the properties on: one fixed answer, no tools, no rules.\<close>

definition still_driver :: "llm_result \<Rightarrow> unit driver_env" where
  "still_driver r =
     \<lparr>de_agent = still_env, de_gate = Inr [], de_tools = [], de_provider = (\<lambda>w. (Inr (demo_llm r), w)),
      de_policy = policy_file_default, de_regex_error = (\<lambda>_. None), de_warn_row = (\<lambda>_ _ w. w),
      de_instant = (\<lambda>w. (0, w)), de_sleep = (\<lambda>_ w. w), de_show_tool = (\<lambda>_ w. w)\<rparr>"

lemma still_session:
  "open_session (still_driver r) model mode () =
     (Inr (fst (apply_policy_to_session policy_file_default (\<lambda>_. None) (\<lambda>_ _ w. w)
        (session_new 0 (driver_config model mode PRINT_MODE_MAX_TOKENS) overlay_config_default (demo_llm r) [] []) ())), ())"
  by (simp add: open_session_def still_driver_def split: prod.splits)

text \<open>
  No evaluation ever records a tool: whatever the provider answers and the tools do, the list
  of tools used is empty, because the harness looks only at the last item of the history, which
  after a turn with tool calls holds their results. So a case that expects a tool never passes,
  and the turn limit, which bounds the loop itself, is never reported as exceeded.
\<close>
theorem evaluation_records_no_tools:
  assumes "eval_one de model mode c w = (r, w')"
  shows "er_tools_used r = [] \<and> (expected_tool_used c \<noteq> [] \<longrightarrow> \<not> er_passed r)
    \<and> (\<forall>cap. ec_max_turns c = Some cap \<longrightarrow> er_turn_count r \<le> cap)"
proof -
  obtain res w1 where run: "run_eval_case de model mode c w = (res, w1)" by fastforce
  obtain final count used where t: "(case res of Inr t \<Rightarrow> t | Inl e \<Rightarrow> (''[run error] '' @ e, 0, [])) = (final, count, used)"
    by (metis prod_cases3)
  let ?cap = "case ec_max_turns c of Some n \<Rightarrow> n | None \<Rightarrow> 20"
  have u: "used = [] \<and> count \<le> ?cap"
  proof (cases res)
    case (Inl e)
    with t show ?thesis by simp
  next
    case (Inr x)
    with t have "run_eval_case de model mode c w = (Inr (final, count, used), w1)" using run by simp
    then obtain s w2 f where o: "open_session de model mode w = (Inr s, w2)"
      and e: "eval_turns de ?cap (Some (ec_prompt c)) s None 0 [] w2 = (Inr (f, count, used), w1)"
      by (auto simp: run_eval_case_def split: sum.splits prod.splits)
    from eval_turns_exact[OF e open_session_facts(4)[OF o]] show ?thesis by simp
  qed
  have r: "r = \<lparr>er_name = ec_name c, er_passed = list_all cr_passed (eval_criteria c final count used),
      er_turn_count = count, er_final_text = take_chars 800 final, er_tools_used = used,
      er_criteria = eval_criteria c final count used\<rparr>"
    using assms by (simp add: eval_one_def run t Let_def)
  have "\<not> list_all cr_passed (eval_criteria c final count [])" if "expected_tool_used c \<noteq> []"
  proof -
    from that obtain n ns where "expected_tool_used c = n # ns" by (cases "expected_tool_used c") auto
    then show ?thesis by (simp add: eval_criteria_def criterion_def)
  qed
  with u show ?thesis by (auto simp: r)
qed

lemma evaluation_records_no_tools_witness:
  "let c = \<lparr>ec_name = ''t'', ec_prompt = ''read it'', expected_contains = [], forbidden_strings = [],
            expected_tool_used = [''Read''], ec_max_turns = None\<rparr>;
       resp = \<lparr>rs_content = [ToolUse ''u'' ''Read'' JNull], rs_stop_reason = StopToolUse, rs_usage = None\<rparr>
   in \<not> er_passed (fst (eval_one (still_driver (Inr resp)) ''m'' Default_mode c ()))"
proof -
  let ?c = "\<lparr>ec_name = ''t'', ec_prompt = ''read it'', expected_contains = [], forbidden_strings = [],
            expected_tool_used = [''Read''], ec_max_turns = None\<rparr>"
  let ?r = "Inr \<lparr>rs_content = [ToolUse ''u'' ''Read'' JNull], rs_stop_reason = StopToolUse, rs_usage = None\<rparr>"
  obtain r w' where e: "eval_one (still_driver ?r) ''m'' Default_mode ?c () = (r, w')" by (metis surj_pair)
  from evaluation_records_no_tools[OF e] have "\<not> er_passed r" by simp
  then show ?thesis by (simp add: e)
qed

section \<open>Termination of the loops\<close>

text \<open>How many turns a session with a budget has left.\<close>

definition turns_left :: "'w session \<Rightarrow> nat" where
  "turns_left s = ss_max_turns s - ss_turn_index s"

lemma turn_spends_budget:
  assumes "agent_turn_inner env inp od s w = (Inr ContinueImmediately, s', w')" "0 < ss_max_turns s"
  shows "turns_left s' < turns_left s" "0 < ss_max_turns s'"
  using turn_counting[OF assms(1)] assms(2) by (auto simp: turns_left_def turn_budget_reached_def split: if_splits)

lemma turn_never_sleeps: "agent_turn_inner env inp od s w = (Inr out, s', w') \<Longrightarrow> out = AwaitUser \<or> out = ContinueImmediately"
  using turn_counting[of env inp od s w "Inr out" s' w'] by (cases out) auto

lemma serve_turns_terminates: "0 < ss_max_turns s \<Longrightarrow> serve_turns de inp s final w \<noteq> None"
proof (induction "turns_left s" arbitrary: inp s final w rule: less_induct)
  case less
  obtain r s1 w1 where run: "agent_turn_inner (de_agent de) inp None s w = (r, s1, w1)" by (metis prod_cases3)
  show ?case
  proof (cases "r = Inr ContinueImmediately")
    case True
    with run less show ?thesis
      by (subst serve_turns.simps) (simp add: agent_turn_def turn_spends_budget[OF run[unfolded True] less.prems])
  next
    case False
    then show ?thesis using turn_never_sleeps run
      by (subst serve_turns.simps) (cases r; fastforce simp: agent_turn_def)
  qed
qed

lemma print_turns_terminates: "0 < ss_max_turns s \<Longrightarrow> print_turns de sink inp s final w \<noteq> None"
proof (induction "turns_left s" arbitrary: inp s final w rule: less_induct)
  case less
  obtain r s1 w1 where run: "agent_turn_inner (de_agent de) inp sink s w = (r, s1, w1)" by (metis prod_cases3)
  show ?case
  proof (cases "r = Inr ContinueImmediately")
    case True
    with run less show ?thesis
      by (subst print_turns.simps) (simp add: Let_def turn_spends_budget[OF run[unfolded True] less.prems])
  next
    case False
    then show ?thesis using turn_never_sleeps run
      by (subst print_turns.simps) (cases r; fastforce simp: Let_def)
  qed
qed



lemma divergence_cong:
  "ss_verifier s1 = ss_verifier s \<Longrightarrow> gate_total env s1 = gate_total env s"
  "ss_llm s1 = ss_llm s \<Longrightarrow> never_stops env od s1 = never_stops env od s"
  by (simp_all add: gate_total_def never_stops_def)

lemma still_never_stops:
  assumes "ss_llm s = demo_llm (Inr resp)" "rs_stop_reason resp \<in> {StopToolUse, MaxTokens, PauseTurn}"
  shows "never_stops still_env None s"
  using assms by (auto simp: never_stops_def call_model_def Let_def still_env_def demo_llm_def)

lemma serve_turns_diverges:
  assumes "serve_turns de inp s final w = Some res" "paired (ss_history s)" "ss_max_turns s = 0"
    "gate_total (de_agent de) s" "never_stops (de_agent de) None s"
  shows False
proof -
  have "paired (ss_history s) \<and> ss_max_turns s = 0 \<and> gate_total (de_agent de) s \<and> never_stops (de_agent de) None s
      \<longrightarrow> False"
  proof (rule serve_turns.raw_induct[OF _ assms(1), where P = "\<lambda>de inp s final w res.
        paired (ss_history s) \<and> ss_max_turns s = 0 \<and> gate_total (de_agent de) s \<and> never_stops (de_agent de) None s
        \<longrightarrow> False"], intro impI, elim conjE)
    fix f and de :: "'a driver_env" and inp and s :: "'a session" and final w res
    assume IH: "\<And>de inp s final w res. f de inp s final w = Some res \<Longrightarrow>
        paired (ss_history s) \<and> ss_max_turns s = 0 \<and> gate_total (de_agent de) s \<and> never_stops (de_agent de) None s
        \<longrightarrow> False"
      and eq: "(case agent_turn (de_agent de) inp s w of (r, s1, w1) \<Rightarrow>
        (case r of
           Inl e \<Rightarrow> Some (Inl e, w1)
         | Inr out \<Rightarrow>
             (case out of
                AwaitUser \<Rightarrow> Some (Inr (reply_text (ss_history s1) final, s1), w1)
              | ContinueImmediately \<Rightarrow> f de None s1 (reply_text (ss_history s1) final) w1
              | Sleep secs \<Rightarrow> f de None s1 (reply_text (ss_history s1) final) (de_sleep de secs w1)
              | Exit \<Rightarrow> Some (Inr (reply_text (ss_history s1) final, s1), w1)))) = Some res"
      and p: "paired (ss_history s)" and m: "ss_max_turns s = 0" and g: "gate_total (de_agent de) s"
      and n: "never_stops (de_agent de) None s"
    obtain r s1 w1 where run: "agent_turn_inner (de_agent de) inp None s w = (r, s1, w1)" by (metis prod_cases3)
    have "r = Inr ContinueImmediately"
      by (rule never_stops_continues[OF run p n g]) (simp add: turn_budget_reached_def m)
    with eq run have "f de None s1 (reply_text (ss_history s1) final) w1 = Some res" by (simp add: agent_turn_def)
    from IH[OF this] agent_turn_paired[OF run p] agent_turn_settings[OF run] m g n
      divergence_cong(1)[of s1 s "de_agent de"] divergence_cong(2)[of s1 s "de_agent de" None]
    show False by simp
  qed
  with assms(2-5) show False by blast
qed

text \<open>
  Without a budget the server has none: the session it builds has no turn limit, so a
  provider that keeps asking for tools (or keeps being cut off or paused) keeps the request
  running forever.
\<close>
theorem server_request_may_never_end:
  assumes "open_session de model mode w = (Inr s, w1)"
    and "gate_total (de_agent de) s" "never_stops (de_agent de) None s"
  shows "serve_one_turn de model mode prompt w = None"
proof (rule ccontr)
  assume "serve_one_turn de model mode prompt w \<noteq> None"
  then obtain res where "serve_turns de (Some prompt) s None w1 = Some res"
    by (auto simp: serve_one_turn_def assms(1) split: option.splits)
  from serve_turns_diverges[OF this open_session_facts(4)[OF assms(1)] open_session_facts(2)[OF assms(1)] assms(2,3)]
  show False .
qed

lemma server_request_may_never_end_witness:
  "let resp = \<lparr>rs_content = [ToolUse ''u'' ''Read'' JNull], rs_stop_reason = StopToolUse, rs_usage = None\<rparr>
   in serve_one_turn (still_driver (Inr resp)) ''m'' Default_mode ''hi'' () = None"
proof -
  let ?r = "Inr \<lparr>rs_content = [ToolUse ''u'' ''Read'' JNull], rs_stop_reason = StopToolUse, rs_usage = None\<rparr>"
  let ?s = "fst (apply_policy_to_session policy_file_default (\<lambda>_. None) (\<lambda>_ _ w. w)
      (session_new 0 (driver_config ''m'' Default_mode PRINT_MODE_MAX_TOKENS) overlay_config_default (demo_llm ?r) [] []) ())"
  have llm: "ss_llm ?s = demo_llm ?r" and rules: "ss_verifier ?s = []" by (simp_all add: frame session_new_def)
  have "gate_total (de_agent (still_driver ?r)) ?s"
    using still_gate[of ?r] divergence_cong(1)[of ?s "demo_session ?r" still_env] rules
    by (simp add: still_driver_def demo_session_def session_new_def)
  moreover have "never_stops (de_agent (still_driver ?r)) None ?s"
    using still_never_stops[OF llm] by (simp add: still_driver_def)
  ultimately show ?thesis
    unfolding Let_def by (rule server_request_may_never_end[OF still_session])
qed

end
