(* ===== verification/Fleet.thy ===== *)
theory Fleet
  imports Drivers "HOL-Library.Word"
begin

text \<open>
  Sub-agents of \<open>crates/aether-cli/src/main.rs\<close>: the process-wide registry \<open>FleetRegistry\<close> and the
  \<open>Agent\<close> tool, which runs a fresh session of at most \<open>SUB_AGENT_MAX_TURNS\<close> turns. The registry is
  part of the world, behind a getter and a setter; the cancel flag a task shares with its running
  agent is kept in the task. Parsing the tool's input and the system time are parameters. A panic
  of the gate, which no bundled rule can cause, is passed on like an error of the turn.
\<close>

section \<open>The registry\<close>

datatype sub_agent_status = Running | Done | Cancelled | Error

record sub_agent_task =
  sat_id :: "64 word"
  sat_description :: string
  sat_started_at :: nat
  sat_status :: sub_agent_status
  sat_preview :: "string option"
  sat_cancel_flag :: bool

record fleet_registry =
  next_id :: "64 word"
  fl_tasks :: "sub_agent_task list"

definition fleet_default :: fleet_registry where
  "fleet_default = \<lparr>next_id = 0, fl_tasks = []\<rparr>"

definition new_task :: "64 word \<Rightarrow> string \<Rightarrow> nat \<Rightarrow> sub_agent_task" where
  "new_task i description now =
     \<lparr>sat_id = i, sat_description = description, sat_started_at = now, sat_status = Running,
      sat_preview = None, sat_cancel_flag = False\<rparr>"

definition fleet_register :: "string \<Rightarrow> nat \<Rightarrow> fleet_registry \<Rightarrow> 64 word \<times> fleet_registry" where
  "fleet_register description now fl =
     (next_id fl, \<lparr>next_id = next_id fl + 1, fl_tasks = fl_tasks fl @ [new_task (next_id fl) description now]\<rparr>)"

definition close_task :: "string option \<Rightarrow> bool \<Rightarrow> sub_agent_task \<Rightarrow> sub_agent_task" where
  "close_task pv error t = t\<lparr>sat_status := (if error then Error else Done), sat_preview := pv\<rparr>"

fun update_first :: "('a \<Rightarrow> bool) \<Rightarrow> ('a \<Rightarrow> 'a) \<Rightarrow> 'a list \<Rightarrow> 'a list" where
  "update_first P f [] = []"
| "update_first P f (t # ts) = (if P t then f t # ts else t # update_first P f ts)"

definition fleet_finish :: "64 word \<Rightarrow> string option \<Rightarrow> bool \<Rightarrow> fleet_registry \<Rightarrow> fleet_registry" where
  "fleet_finish i pv error fl =
     fl\<lparr>fl_tasks := update_first (\<lambda>t. sat_id t = i) (close_task pv error) (fl_tasks fl)\<rparr>"

definition fleet_cancel :: "64 word \<Rightarrow> fleet_registry \<Rightarrow> bool \<times> fleet_registry" where
  "fleet_cancel i fl =
     (let hit = (\<lambda>t. sat_id t = i \<and> sat_status t = Running)
      in (list_ex hit (fl_tasks fl),
          fl\<lparr>fl_tasks := update_first hit (\<lambda>t. t\<lparr>sat_cancel_flag := True\<rparr>) (fl_tasks fl)\<rparr>))"

definition fleet_list :: "fleet_registry \<Rightarrow> sub_agent_task list" where
  "fleet_list fl = fl_tasks fl"

text \<open>What the running agent reads through its own handle of the flag.\<close>

definition fleet_cancelled :: "64 word \<Rightarrow> fleet_registry \<Rightarrow> bool" where
  "fleet_cancelled i fl = (case find (\<lambda>t. sat_id t = i) (fl_tasks fl) of Some t \<Rightarrow> sat_cancel_flag t | None \<Rightarrow> False)"

section \<open>The Agent tool\<close>

definition SUB_AGENT_MAX_TURNS :: nat where
  "SUB_AGENT_MAX_TURNS = 20"

definition SUB_AGENT_MAX_TOKENS :: nat where
  "SUB_AGENT_MAX_TOKENS = 8192"

record agent_input =
  ai_description :: "string option"
  ai_prompt :: string
  ai_subagent_type :: "string option"

record 'w agent_tool =
  at_provider :: "'w llm_provider"
  at_model :: string
  at_permission_mode :: permission_mode

record 'w fleet_env =
  fe_driver :: "'w driver_env"
  fe_fleet :: "'w \<Rightarrow> fleet_registry"
  fe_put_fleet :: "fleet_registry \<Rightarrow> 'w \<Rightarrow> 'w"
  fe_parse :: "json \<Rightarrow> (string, agent_input) result"
  fe_builtins :: "'w tool_registry"
  fe_system_time :: "'w \<Rightarrow> nat \<times> 'w"

definition first_line_or :: "string \<Rightarrow> string \<Rightarrow> string" where
  "first_line_or dflt s = (case str_lines s of [] \<Rightarrow> dflt | l # _ \<Rightarrow> l)"

definition task_description :: "agent_input \<Rightarrow> string" where
  "task_description inp =
     (case ai_description inp of
        Some d \<Rightarrow> d
      | None \<Rightarrow> take_chars 64 (first_line_or ''sub-agent'' (ai_prompt inp)))"

definition finish_in_world :: "'w fleet_env \<Rightarrow> 64 word \<Rightarrow> string option \<Rightarrow> bool \<Rightarrow> 'w \<Rightarrow> 'w" where
  "finish_in_world fe i pv error w = fe_put_fleet fe (fleet_finish i pv error (fe_fleet fe w)) w"

datatype sub_agent_end = Cancelled_by_user | Failed agent_error | Completed "string option"

fun sub_agent_turns ::
  "'w fleet_env \<Rightarrow> 64 word \<Rightarrow> nat \<Rightarrow> string option \<Rightarrow> 'w session \<Rightarrow> string option \<Rightarrow> 'w \<Rightarrow> sub_agent_end \<times> 'w" where
  "sub_agent_turns fe i 0 inp s final w = (Completed final, w)"
| "sub_agent_turns fe i (Suc n) inp s final w =
     (if fleet_cancelled i (fe_fleet fe w) then (Cancelled_by_user, w)
      else (case agent_turn (de_agent (fe_driver fe)) inp s w of
              (Inl e, s1, w1) \<Rightarrow> (Failed e, w1)
            | (Inr out, s1, w1) \<Rightarrow>
                (let final1 = reply_text (ss_history s1) final
                 in case out of
                      AwaitUser \<Rightarrow> (Completed final1, w1)
                    | Exit \<Rightarrow> (Completed final1, w1)
                    | ContinueImmediately \<Rightarrow> sub_agent_turns fe i n None s1 final1 w1
                    | Sleep secs \<Rightarrow> sub_agent_turns fe i n None s1 final1 (de_sleep (fe_driver fe) secs w1))))"

definition sub_agent_session :: "'w fleet_env \<Rightarrow> 'w agent_tool \<Rightarrow> compiled_rule list \<Rightarrow> nat \<Rightarrow> 'w session" where
  "sub_agent_session fe ag gate now =
     session_new now (driver_config (at_model ag) (at_permission_mode ag) SUB_AGENT_MAX_TOKENS)
       overlay_config_default (at_provider ag) gate (fe_builtins fe)"

definition conclude :: "'w fleet_env \<Rightarrow> 64 word \<Rightarrow> sub_agent_end \<Rightarrow> 'w \<Rightarrow> (tool_error, string) result \<times> 'w" where
  "conclude fe i e w =
     (case e of
        Cancelled_by_user \<Rightarrow>
          (Inr ''(sub-agent cancelled by user)'', finish_in_world fe i (Some ''(cancelled)'') True w)
      | Failed err \<Rightarrow>
          (Inl (IoError (''sub-agent: '' @ show_agent_error err)),
           finish_in_world fe i (Some (''error: '' @ show_agent_error err)) True w)
      | Completed final \<Rightarrow>
          (let final_text = (case final of
                 Some t \<Rightarrow> t | None \<Rightarrow> ''(sub-agent exhausted turn budget without final reply)'')
           in (Inr final_text, finish_in_world fe i (Some (take_chars 80 (first_line_or [] final_text))) False w)))"

definition run_agent_tool :: "'w fleet_env \<Rightarrow> 'w agent_tool \<Rightarrow> json \<Rightarrow> 'w \<Rightarrow> (tool_error, string) result \<times> 'w" where
  "run_agent_tool fe ag input w =
     (case fe_parse fe input of
        Inl e \<Rightarrow> (Inl (SchemaViolation e), w)
      | Inr inp \<Rightarrow>
          (case fe_system_time fe w of
             (now, w1) \<Rightarrow>
               (case fleet_register (task_description inp) now (fe_fleet fe w1) of
                  (i, fl) \<Rightarrow>
                    (let w2 = fe_put_fleet fe fl w1
                     in case de_gate (fe_driver fe) of
                          Inl e \<Rightarrow> (Inl (SchemaViolation (''gate: '' @ e)), w2)
                        | Inr gate \<Rightarrow>
                            (case de_instant (fe_driver fe) w2 of
                               (t0, w3) \<Rightarrow>
                                 (case sub_agent_turns fe i SUB_AGENT_MAX_TURNS (Some (ai_prompt inp))
                                    (sub_agent_session fe ag gate t0) None w3 of
                                    (e, w4) \<Rightarrow> conclude fe i e w4))))))"

section \<open>The registry as a map\<close>

datatype fleet_op = OpRegister string nat | OpFinish "64 word" "string option" bool | OpCancel "64 word"

fun fleet_exec :: "fleet_op \<Rightarrow> fleet_registry \<Rightarrow> fleet_registry" where
  "fleet_exec (OpRegister d now) fl = snd (fleet_register d now fl)"
| "fleet_exec (OpFinish i pv error) fl = fleet_finish i pv error fl"
| "fleet_exec (OpCancel i) fl = snd (fleet_cancel i fl)"

text \<open>The specification: a counter and a map from ids to tasks.\<close>

type_synonym fleet_spec = "nat \<times> (64 word \<rightharpoonup> sub_agent_task)"

fun spec_exec :: "fleet_op \<Rightarrow> fleet_spec \<Rightarrow> fleet_spec" where
  "spec_exec (OpRegister d now) (n, m) = (Suc n, m(word_of_nat n \<mapsto> new_task (word_of_nat n) d now))"
| "spec_exec (OpFinish i pv error) (n, m) =
     (n, case m i of None \<Rightarrow> m | Some t \<Rightarrow> m(i \<mapsto> close_task pv error t))"
| "spec_exec (OpCancel i) (n, m) =
     (n, case m i of
           None \<Rightarrow> m
         | Some t \<Rightarrow> if sat_status t = Running then m(i \<mapsto> t\<lparr>sat_cancel_flag := True\<rparr>) else m)"

definition task_map :: "fleet_registry \<Rightarrow> 64 word \<rightharpoonup> sub_agent_task" where
  "task_map fl = map_of (map (\<lambda>t. (sat_id t, t)) (fl_tasks fl))"

definition fleet_abs :: "fleet_registry \<Rightarrow> fleet_spec" where
  "fleet_abs fl = (length (fl_tasks fl), task_map fl)"

definition fleet_ok :: "fleet_registry \<Rightarrow> bool" where
  "fleet_ok fl \<longleftrightarrow>
     map sat_id (fl_tasks fl) = map word_of_nat [0..<length (fl_tasks fl)]
     \<and> next_id fl = word_of_nat (length (fl_tasks fl))
     \<and> list_all (\<lambda>t. sat_status t \<noteq> Cancelled) (fl_tasks fl)"

definition registers :: "fleet_op list \<Rightarrow> nat" where
  "registers ops = length (filter (\<lambda>op. case op of OpRegister d now \<Rightarrow> True | _ \<Rightarrow> False) ops)"

lemma update_first_ids:
  assumes "\<And>t. sat_id (f t) = sat_id t"
  shows "map sat_id (update_first P f ts) = map sat_id ts"
  using assms by (induction ts) auto

lemma update_first_length [simp]: "length (update_first P f ts) = length ts"
  by (induction ts) auto

lemma update_first_all: "list_all Q ts \<Longrightarrow> (\<And>t. Q t \<Longrightarrow> Q (f t)) \<Longrightarrow> list_all Q (update_first P f ts)"
  by (induction ts) auto

lemma update_first_absent: "\<not> list_ex P ts \<Longrightarrow> update_first P f ts = ts"
  by (induction ts) auto

lemma update_first_map:
  assumes "distinct (map sat_id ts)" "\<And>t. sat_id (f t) = sat_id t"
  shows "map_of (map (\<lambda>t. (sat_id t, t)) (update_first (\<lambda>t. sat_id t = i \<and> Q t) f ts)) =
     (let m = map_of (map (\<lambda>t. (sat_id t, t)) ts)
      in case m i of None \<Rightarrow> m | Some t \<Rightarrow> if Q t then m(i \<mapsto> f t) else m)"
  using assms(1)
proof (induction ts)
  case (Cons t ts)
  show ?case
  proof (cases "sat_id t = i")
    case True
    with Cons.prems have "i \<notin> sat_id ` set ts" by auto
    then have "\<not> list_ex (\<lambda>t. sat_id t = i \<and> Q t) ts" by (force simp: list_ex_iff)
    with True show ?thesis
      by (auto simp: assms(2) update_first_absent Let_def fun_eq_iff)
  next
    case False
    with Cons show ?thesis by (auto simp: Let_def fun_upd_twist split: option.splits)
  qed
qed (simp add: Let_def)

lemma distinct_ids: "n \<le> 2 ^ 64 \<Longrightarrow> distinct (map (word_of_nat :: nat \<Rightarrow> 64 word) [0..<n])"
  by (auto simp: distinct_map inj_on_def word_of_nat_eq_iff take_bit_nat_eq_self)

lemma task_map_update:
  assumes "fleet_ok fl" "length (fl_tasks fl) \<le> 2 ^ 64" "\<And>t. sat_id (f t) = sat_id t"
  shows "task_map (fl\<lparr>fl_tasks := update_first (\<lambda>t. sat_id t = i \<and> Q t) f (fl_tasks fl)\<rparr>) =
     (case task_map fl i of
        None \<Rightarrow> task_map fl
      | Some t \<Rightarrow> if Q t then (task_map fl)(i \<mapsto> f t) else task_map fl)"
proof -
  have "distinct (map sat_id (fl_tasks fl))"
    using assms(1,2) distinct_ids by (simp add: fleet_ok_def)
  from update_first_map[OF this assms(3), of i Q] show ?thesis
    unfolding task_map_def Let_def by simp
qed

lemma fleet_step:
  assumes "fleet_ok fl" "length (fl_tasks fl) + registers [op] \<le> 2 ^ 64"
  shows "fleet_ok (fleet_exec op fl)" "fleet_abs (fleet_exec op fl) = spec_exec op (fleet_abs fl)"
    "length (fl_tasks (fleet_exec op fl)) = length (fl_tasks fl) + registers [op]"
proof -
  have len: "length (fl_tasks fl) \<le> 2 ^ 64" using assms(2) by simp
  have "fleet_ok (fleet_exec op fl) \<and> fleet_abs (fleet_exec op fl) = spec_exec op (fleet_abs fl)
      \<and> length (fl_tasks (fleet_exec op fl)) = length (fl_tasks fl) + registers [op]"
  proof (cases op)
    case (OpRegister d now)
    let ?i = "word_of_nat (length (fl_tasks fl)) :: 64 word"
    have "Suc (length (fl_tasks fl)) \<le> 2 ^ 64" using assms(2) OpRegister by (simp add: registers_def)
    from distinct_ids[OF this] have "?i \<notin> set (map sat_id (fl_tasks fl))"
      using assms(1) by (simp add: fleet_ok_def)
    then have "task_map fl ?i = None" by (force simp: task_map_def map_of_eq_None_iff)
    then have "task_map (snd (fleet_register d now fl)) = (task_map fl)(?i \<mapsto> new_task ?i d now)"
      using assms(1) by (auto simp: task_map_def fleet_register_def fleet_ok_def new_task_def map_add_def
          split: option.splits)
    then show ?thesis using assms(1) OpRegister
      by (simp add: fleet_abs_def fleet_ok_def fleet_register_def registers_def new_task_def)
  next
    case (OpFinish i pv error)
    have ids: "\<And>t. sat_id (close_task pv error t) = sat_id t" by (simp add: close_task_def)
    have "list_all (\<lambda>t. sat_status t \<noteq> Cancelled) (update_first (\<lambda>t. sat_id t = i) (close_task pv error) (fl_tasks fl))"
      using assms(1) by (intro update_first_all) (auto simp: fleet_ok_def close_task_def)
    with task_map_update[OF assms(1) len ids, of i "\<lambda>_. True"] show ?thesis using assms(1) OpFinish
      by (simp add: fleet_abs_def fleet_ok_def fleet_finish_def registers_def update_first_ids[OF ids]
          split: option.splits)
  next
    case (OpCancel i)
    let ?f = "\<lambda>t :: sub_agent_task. t\<lparr>sat_cancel_flag := True\<rparr>"
    have ids: "\<And>t. sat_id (?f t) = sat_id t" by simp
    have "list_all (\<lambda>t. sat_status t \<noteq> Cancelled)
        (update_first (\<lambda>t. sat_id t = i \<and> sat_status t = Running) ?f (fl_tasks fl))"
      using assms(1) by (intro update_first_all) (auto simp: fleet_ok_def)
    with task_map_update[OF assms(1) len ids, of i "\<lambda>t. sat_status t = Running"] show ?thesis using assms(1) OpCancel
      by (simp add: fleet_abs_def fleet_ok_def fleet_cancel_def registers_def update_first_ids[OF ids] Let_def)
  qed
  then show "fleet_ok (fleet_exec op fl)" "fleet_abs (fleet_exec op fl) = spec_exec op (fleet_abs fl)"
    "length (fl_tasks (fleet_exec op fl)) = length (fl_tasks fl) + registers [op]" by blast+
qed

lemma registers_Cons: "registers (op # ops) = registers [op] + registers ops"
  by (simp add: registers_def)

lemma fleet_run:
  assumes "fleet_ok fl" "length (fl_tasks fl) + registers ops \<le> 2 ^ 64"
  shows "fleet_ok (fold fleet_exec ops fl) \<and> fleet_abs (fold fleet_exec ops fl) = fold spec_exec ops (fleet_abs fl)
    \<and> length (fl_tasks (fold fleet_exec ops fl)) = length (fl_tasks fl) + registers ops"
  using assms
proof (induction ops arbitrary: fl)
  case (Cons op ops)
  have "length (fl_tasks fl) + registers [op] \<le> 2 ^ 64" using Cons.prems(2) by (simp add: registers_Cons[of op ops])
  from fleet_step[OF Cons.prems(1) this] Cons.IH[of "fleet_exec op fl"] Cons.prems(2) show ?case
    by (simp add: registers_Cons[of op ops])
qed (simp add: registers_def)

lemma fleet_ok_default: "fleet_ok fleet_default"
  by (simp add: fleet_ok_def fleet_default_def)

lemma cancel_answer:
  assumes "fleet_ok fl" "length (fl_tasks fl) \<le> 2 ^ 64"
  shows "fst (fleet_cancel i fl) \<longleftrightarrow> (\<exists>t. task_map fl i = Some t \<and> sat_status t = Running)"
proof -
  have "distinct (map fst (map (\<lambda>t. (sat_id t, t)) (fl_tasks fl)))"
    using assms distinct_ids by (simp add: fleet_ok_def comp_def)
  from map_of_eq_Some_iff[OF this] show ?thesis
    by (auto simp: fleet_cancel_def list_ex_iff task_map_def image_iff Let_def)
qed

text \<open>
  C37. The registry is a map from ids to tasks: after any sequence of registrations, finishes and
  cancellations its tasks are those of the specification that keeps a counter and a map, ids are
  handed out in order and never reused, \<open>cancel\<close> answers yes exactly for a registered task that is
  still running, and no task ever has the status \<open>Cancelled\<close>: a cancelled sub-agent ends as an
  error.
\<close>
theorem registry_refines_map:
  assumes "registers ops \<le> 2 ^ 64"
  shows "let fl = fold fleet_exec ops fleet_default
    in fleet_abs fl = fold spec_exec ops (0, Map.empty)
       \<and> map sat_id (fleet_list fl) = map word_of_nat [0..<registers ops]
       \<and> (\<forall>i. fst (fleet_cancel i fl) \<longleftrightarrow> (\<exists>t. task_map fl i = Some t \<and> sat_status t = Running))
       \<and> (\<forall>t \<in> set (fleet_list fl). sat_status t \<noteq> Cancelled)"
proof -
  let ?fl = "fold fleet_exec ops fleet_default"
  have d: "length (fl_tasks fleet_default) = 0" "fleet_abs fleet_default = (0, Map.empty)"
    by (simp_all add: fleet_default_def fleet_abs_def task_map_def)
  from fleet_run[OF fleet_ok_default, of ops] assms d
  have r: "fleet_ok ?fl" "fleet_abs ?fl = fold spec_exec ops (0, Map.empty)" "length (fl_tasks ?fl) = registers ops"
    by simp_all
  from r(1,3) cancel_answer[OF r(1)] assms r(2) show ?thesis
    by (simp add: Let_def fleet_ok_def fleet_list_def list_all_iff)
qed

lemma registry_refines_map_witness:
  "map sat_id (fleet_list (fold fleet_exec [OpRegister ''a'' 1, OpRegister ''b'' 2, OpCancel 0, OpFinish 1 None False]
     fleet_default)) = [0, 1]"
  using registry_refines_map[of "[OpRegister ''a'' 1, OpRegister ''b'' 2, OpCancel 0, OpFinish 1 None False]"]
  by (simp add: Let_def registers_def upt_conv_Cons)

section \<open>The tool and the policy\<close>

text \<open>A task whose gate does not build is never finished: its entry stays as registered.\<close>

lemma gate_failure_leaves_task_running:
  assumes "fe_parse fe input = Inr inp" "de_gate (fe_driver fe) = Inl m" "fe_system_time fe w = (now, w1)"
  shows "run_agent_tool fe ag input w =
    (Inl (SchemaViolation (''gate: '' @ m)),
     fe_put_fleet fe (snd (fleet_register (task_description inp) now (fe_fleet fe w1))) w1)"
  using assms by (simp add: run_agent_tool_def Let_def split: prod.splits)

lemma sub_agent_executor:
  "ss_executor (sub_agent_session fe ag gate now) = executor_new (at_permission_mode ag)"
  by (simp add: sub_agent_session_def session_new_def driver_config_def)

lemma run_one_fresh:
  assumes "registry_get reg (rtu_name tu) = Some t" "\<not> tool_streaming t"
    and "tool_run t (rtu_input tu) w = (Inr out, w')"
  shows "run_one env reg tu (executor_new BypassPermissions) w =
    (mk_result tu (maybe_truncate_output (rtu_name tu) out) False, executor_new BypassPermissions, w')"
  using assms
  by (simp add: run_one_def eval_nat_numeral advance_def call_before_def is_policy_blocked_def match_arg_filter_def
      decide_call_def decide_def executor_new_def call_hook_def dispatch_def tool_outcome_def call_after_def
      shape_output_def task_result_def Let_def)

text \<open>
  A sub-agent runs outside the operator's policy. The same call to a tool on the blocklist is
  refused, without any effect, in the session the policy was applied to, and carried out in the
  session the Agent tool builds, because that session never has the policy applied.
\<close>
theorem sub_agents_escape_the_policy:
  assumes "rtu_name tu \<in> set (tool_blocklist p)"
    and "apply_policy_to_session p regex_error warn parent w0 = (parent', w1)"
    and "at_permission_mode ag = BypassPermissions"
    and "registry_get reg (rtu_name tu) = Some t" "\<not> tool_streaming t"
    and "tool_run t (rtu_input tu) w = (Inr out, w')"
  shows "execute env reg [tu] (ss_executor parent') w
      = ([mk_result tu (blocked_text (rtu_name tu)) True], ss_executor parent', w)
    \<and> execute env reg [tu] (ss_executor (sub_agent_session fe ag gate now)) w
      = ([mk_result tu (maybe_truncate_output (rtu_name tu) out) False], executor_new BypassPermissions, w')"
proof
  have "parent' = fst (apply_policy_to_session p regex_error warn parent w0)" using assms(2) by simp
  then have "ex_policy_blocklist (ss_executor parent') = tool_blocklist p"
    using assms(1) by (auto simp: apply_policy_to_session_def frame)
  then have "is_policy_blocked (ss_executor parent') (rtu_name tu)"
    using assms(1) by (auto simp: is_policy_blocked_def list_ex_iff)
  then show "execute env reg [tu] (ss_executor parent') w
      = ([mk_result tu (blocked_text (rtu_name tu)) True], ss_executor parent', w)"
    by (simp add: execute.simps(2) run_one_def eval_nat_numeral advance_def call_before_def task_result_def Let_def)
  show "execute env reg [tu] (ss_executor (sub_agent_session fe ag gate now)) w
      = ([mk_result tu (maybe_truncate_output (rtu_name tu) out) False], executor_new BypassPermissions, w')"
    unfolding sub_agent_executor assms(3)
    by (simp add: execute.simps(2) run_one_fresh[OF assms(4-6)] Let_def)
qed

lemma sub_agents_escape_the_policy_witness:
  "\<forall>fe. let reg = register (demo_tool ''Bash'') [];
       ag = \<lparr>at_provider = \<lparr>pr_complete = (\<lambda>_ w. (Inl RateLimited, w)),
              pr_complete_streamed = (\<lambda>_ _ w. (Inl RateLimited, w)), pr_name = []\<rparr>,
             at_model = ''m'', at_permission_mode = BypassPermissions\<rparr>
   in fst (execute demo_env reg [demo_use ''a'' ''Bash''] (ss_executor (sub_agent_session fe ag [] 0)) 7)
      = [mk_result (demo_use ''a'' ''Bash'') ''ok'' False]"
proof
  fix fe :: "nat fleet_env"
  let ?p = "policy_file_default\<lparr>tool_blocklist := [''Bash'']\<rparr>"
  let ?llm = "\<lparr>pr_complete = (\<lambda>_ w. (Inl RateLimited, w)), pr_complete_streamed = (\<lambda>_ _ w. (Inl RateLimited, w)), pr_name = []\<rparr>
      :: nat llm_provider"
  let ?ag = "\<lparr>at_provider = ?llm, at_model = ''m'', at_permission_mode = BypassPermissions\<rparr>"
  let ?parent = "session_new 0 session_config_default overlay_config_default ?llm [] []"
  let ?reg = "register (demo_tool ''Bash'') [] :: nat tool_registry"
  let ?u = "demo_use ''a'' ''Bash''"
  obtain parent' w1 where a: "apply_policy_to_session ?p (\<lambda>_. None) (\<lambda>_ _ w. w) ?parent 0 = (parent', w1)"
    by (metis surj_pair)
  have "execute demo_env ?reg [?u] (ss_executor (sub_agent_session fe ?ag [] 0)) 7
      = ([mk_result ?u (maybe_truncate_output (rtu_name ?u) ''ok'') False], executor_new BypassPermissions, Suc 7)"
    using sub_agents_escape_the_policy[OF _ a, where tu = ?u and reg = ?reg and t = "demo_tool ''Bash''" and w = 7
        and out = "''ok''" and w' = "Suc 7" and ag = ?ag and fe = fe and gate = "[]" and now = 0 and env = demo_env]
    by (simp add: demo_use_def demo_tool_def registry_get_register)
  then show "let reg = register (demo_tool ''Bash'') []; ag = ?ag
    in fst (execute demo_env reg [?u] (ss_executor (sub_agent_session fe ag [] 0)) 7) = [mk_result ?u ''ok'' False]"
    by (simp add: Let_def maybe_truncate_output_def MAX_TOOL_OUTPUT_CHARS_def)
qed

end
