(* ===== verification/Utf8.thy ===== *)
theory Utf8
  imports Rust_Strings
begin

text \<open>
  More of the standard library: UTF-8 validation and lossy decoding (\<open>String::from_utf8\<close>,
  \<open>String::from_utf8_lossy\<close>), slicing at a byte index, and splitting, replacing and counting by
  a pattern. A slice of a \<open>str\<close> at an index inside a character is a panic, \<open>None\<close>.
\<close>

section \<open>Decoding\<close>

text \<open>
  One step of the decoder on a non-empty byte sequence: whether a well-formed character starts here,
  and its length, or the length of the ill-formed prefix that one replacement character stands for.
\<close>

definition cont_at :: "string \<Rightarrow> nat \<Rightarrow> bool" where
  "cont_at s i \<longleftrightarrow> i < length s \<and> is_cont (s ! i)"

definition second_ok :: "nat \<Rightarrow> string \<Rightarrow> bool" where
  "second_ok b s \<longleftrightarrow> cont_at s 1 \<and>
     (let c = byte_of (s ! 1) in
       (b = 224 \<longrightarrow> 160 \<le> c) \<and> (b = 237 \<longrightarrow> c < 160) \<and> (b = 240 \<longrightarrow> 144 \<le> c) \<and> (b = 244 \<longrightarrow> c < 144))"

definition utf8_step :: "string \<Rightarrow> bool \<times> nat" where
  "utf8_step s =
     (let b = byte_of (hd s) in
      if b < 128 then (True, 1)
      else if 194 \<le> b \<and> b < 224 then (if cont_at s 1 then (True, 2) else (False, 1))
      else if 224 \<le> b \<and> b < 240 then
        (if \<not> second_ok b s then (False, 1) else if cont_at s 2 then (True, 3) else (False, 2))
      else if 240 \<le> b \<and> b < 245 then
        (if \<not> second_ok b s then (False, 1)
         else if \<not> cont_at s 2 then (False, 2)
         else if cont_at s 3 then (True, 4) else (False, 3))
      else (False, 1))"

lemma utf8_step_pos: "0 < snd (utf8_step s)"
  by (simp add: utf8_step_def Let_def)

function utf8_valid :: "string \<Rightarrow> bool" where
  "utf8_valid s = (if s = [] then True else fst (utf8_step s) \<and> utf8_valid (drop (snd (utf8_step s)) s))"
  by pat_completeness auto
termination
  by (relation "measure length") (auto intro!: diff_less simp: utf8_step_pos)

function utf8_lossy :: "string \<Rightarrow> string" where
  "utf8_lossy s =
     (if s = [] then []
      else (if fst (utf8_step s) then take (snd (utf8_step s)) s else [CHR 0xEF, CHR 0xBF, CHR 0xBD])
           @ utf8_lossy (drop (snd (utf8_step s)) s))"
  by pat_completeness auto
termination
  by (relation "measure length") (auto intro!: diff_less simp: utf8_step_pos)

declare utf8_valid.simps [simp del] utf8_lossy.simps [simp del]

lemma utf8_lossy_valid: "utf8_valid s \<Longrightarrow> utf8_lossy s = s"
proof (induction s rule: utf8_lossy.induct)
  case (1 s)
  show ?case
  proof (cases "s = []")
    case False
    with 1 show ?thesis
      using utf8_valid.simps[of s] by (subst utf8_lossy.simps) simp
  qed (simp add: utf8_lossy.simps)
qed

lemma utf8_valid_ascii: "list_all (\<lambda>c. byte_of c < 128) s \<Longrightarrow> utf8_valid s"
proof (induction s)
  case Nil
  then show ?case by (simp add: utf8_valid.simps)
next
  case (Cons c s)
  then show ?case by (subst utf8_valid.simps) (simp add: utf8_step_def)
qed

section \<open>Slices\<close>

definition is_char_boundary :: "string \<Rightarrow> nat \<Rightarrow> bool" where
  "is_char_boundary s i \<longleftrightarrow> i = 0 \<or> i = length s \<or> (i < length s \<and> \<not> is_cont (s ! i))"

definition slice_to :: "string \<Rightarrow> nat \<Rightarrow> string option" where
  "slice_to s i = (if is_char_boundary s i then Some (take i s) else None)"

definition slice_from :: "string \<Rightarrow> nat \<Rightarrow> string option" where
  "slice_from s i = (if is_char_boundary s i then Some (drop i s) else None)"

section \<open>Patterns\<close>

text \<open>
  \<open>s.split(p)\<close>, \<open>s.matches(p).count()\<close>, \<open>s.replace(p, r)\<close> and \<open>s.replacen(p, r, 1)\<close>. The empty
  pattern matches before every character and at the end.
\<close>

function str_split :: "string \<Rightarrow> string \<Rightarrow> string list" where
  "str_split p s =
     (if p = [] then [] # str_chars s @ [[]]
      else (case str_find p s of
              None \<Rightarrow> [s]
            | Some k \<Rightarrow> take k s # str_split p (drop (k + length p) s)))"
  by pat_completeness auto
termination
proof (relation "measure (\<lambda>(p, s). length s)", goal_cases)
  case (2 p s k)
  then have "k + length p \<le> length s" using str_find_Some by blast
  with 2 show ?case by (cases p) auto
qed simp

fun match_count :: "string \<Rightarrow> string \<Rightarrow> nat" where
  "match_count p [] = (if p = [] then 1 else 0)"
| "match_count p (c # s) =
     (if p = [] then char_count (c # s) + 1
      else if prefix p (c # s) then Suc (match_count p (drop (length p - 1) s))
      else match_count p s)"

definition replace_all_matches :: "string \<Rightarrow> string \<Rightarrow> string \<Rightarrow> string" where
  "replace_all_matches p r s =
     (if p = [] then r @ concat (map (\<lambda>c. c @ r) (str_chars s)) else str_replace p r s)"

definition replace_first :: "string \<Rightarrow> string \<Rightarrow> string \<Rightarrow> string" where
  "replace_first p r s =
     (case str_find p s of None \<Rightarrow> s | Some k \<Rightarrow> take k s @ r @ drop (k + length p) s)"

declare str_split.simps [simp del]

text \<open>Counting and replacing, in terms of splitting and joining.\<close>

lemma str_join_Cons: "xs \<noteq> [] \<Longrightarrow> str_join p (x # xs) = x @ p @ str_join p xs"
  by (cases xs) auto

lemma str_split_nonempty [simp]: "str_split p s \<noteq> []"
  by (subst str_split.simps) (simp split: option.splits)

lemma str_join_chars: "str_join r ([] # cs @ [[]]) = r @ concat (map (\<lambda>c. c @ r) cs)"
  by (induction cs) (auto simp: str_join_Cons)

lemma str_split_empty [simp]: "str_split [] s = [] # str_chars s @ [[]]"
  by (simp add: str_split.simps)

lemma str_join_split: "str_join p (str_split p s) = s"
proof (induction p s rule: str_split.induct)
  case (1 p s)
  show ?case
  proof (cases "p = []")
    case True
    then show ?thesis using str_join_chars[of "[]" "str_chars s"] by (simp add: map_idI)
  next
    case False
    show ?thesis
    proof (cases "str_find p s")
      case (Some k)
      then have "take (length p) (drop k s) = p" by (simp add: str_find_Some)
      then have "s = take k s @ p @ drop (k + length p) s"
        by (metis append_take_drop_id drop_drop add.commute)
      with 1 Some False show ?thesis by (simp add: str_split.simps[of p s] str_join_Cons)
    qed (simp add: str_split.simps[of p s] False)
  qed
qed

lemma str_split_Cons:
  "p \<noteq> [] \<Longrightarrow> \<not> prefix p (c # s) \<Longrightarrow>
   str_split p (c # s) = (c # hd (str_split p s)) # tl (str_split p s)"
  by (subst (1 2 3) str_split.simps) (auto split: option.splits)

lemma str_split_prefix:
  "p \<noteq> [] \<Longrightarrow> prefix p s \<Longrightarrow> str_split p s = [] # str_split p (drop (length p) s)"
  by (subst str_split.simps) (cases s; auto split: option.splits)

lemma match_count_split: "Suc (match_count p s) = length (str_split p s)"
proof (induction p s rule: match_count.induct)
  case (1 p)
  then show ?case by (simp add: str_split.simps[of p "[]"])
next
  case (2 p c s)
  show ?case
  proof (cases "p = []")
    case True
    then show ?thesis by (simp add: char_count_def)
  next
    case False
    then have d: "drop (length p) (c # s) = drop (length p - 1) s" by (cases p) auto
    show ?thesis
    proof (cases "prefix p (c # s)")
      case True
      with 2 False d show ?thesis by (simp add: str_split_prefix)
    next
      case np: False
      with 2 False show ?thesis by (simp add: str_split_Cons[OF False np])
    qed
  qed
qed

lemma str_replace_split: "p \<noteq> [] \<Longrightarrow> str_replace p r s = str_join r (str_split p s)"
proof (induction p r s rule: str_replace.induct)
  case (1 n b)
  then show ?case by (simp add: str_split.simps[of n "[]"])
next
  case (2 n b c s)
  show ?case
  proof (cases "prefix n (c # s)")
    case True
    with 2 show ?thesis by (simp add: str_split_prefix str_join_Cons del: drop_Suc_Cons)
  next
    case False
    with 2 show ?thesis
      by (cases "str_split n s") (auto simp: str_split_Cons[OF 2(3) False] str_join_Cons split: list.splits,
        metis append_Cons str_join.simps(2) str_join_Cons)
  qed
qed

lemma replace_all_split: "replace_all_matches p r s = str_join r (str_split p s)"
  by (cases "p = []") (simp_all add: replace_all_matches_def str_replace_split str_join_chars[simplified])

lemma replace_first_split:
  assumes "match_count p s = 1"
  shows "replace_first p r s = str_join r (str_split p s)"
proof (cases "p = []")
  case True
  with assms match_count_split[of p s] have "s = []" by simp
  with True show ?thesis by (simp add: replace_first_def)
next
  case False
  have two: "length (str_split p s) = 2" using match_count_split[of p s] assms by simp
  then obtain k where k: "str_find p s = Some k"
    using False by (cases "str_find p s") (simp_all add: str_split.simps[of p s])
  with False have "str_split p s = take k s # str_split p (drop (k + length p) s)" by (simp add: str_split.simps[of p s])
  moreover from this two obtain z where "str_split p (drop (k + length p) s) = [z]" by (auto simp: length_Suc_conv numeral_2_eq_2)
  moreover from this have "z = drop (k + length p) s" using str_join_split[of p "drop (k + length p) s"] by simp
  ultimately show ?thesis using k by (simp add: replace_first_def)
qed

end
