(* ===== verification/BuiltinTools.thy ===== *)
theory BuiltinTools
  imports Executor Utf8 "HOL-Library.Product_Lexorder"
begin

text \<open>
  The built-in tools of \<open>crates/aether-tools/src/builtin.rs\<close> that work on files and on the task
  list: \<open>Read\<close>, \<open>Write\<close>, \<open>Edit\<close>, \<open>NotebookEdit\<close>, \<open>MemoryRead\<close>, \<open>MemoryWrite\<close>, \<open>TodoRead\<close>,
  \<open>TodoWrite\<close>, with the helpers they share. The file system is a set of operations on the world;
  deserialisation of the input and of a notebook are parameters. The outer \<open>option\<close> is \<open>None\<close> for a
  panic.
\<close>

section \<open>Shared helpers\<close>

definition absolute_path :: "string \<Rightarrow> (tool_error, string) result" where
  "absolute_path p =
     (if prefix ''/'' p then Inr p else Inl (SchemaViolation (''path must be absolute: '' @ p)))"

definition ELLIPSIS :: string where
  "ELLIPSIS = [CHR 0xE2, CHR 0x80, CHR 0xA6]"

text \<open>\<open>&s[..max]\<close> panics when \<open>max\<close> falls inside a character.\<close>

definition truncate_text :: "string \<Rightarrow> nat \<Rightarrow> string option" where
  "truncate_text s mx =
     (if length s \<le> mx then Some s
      else map_option (\<lambda>out. out @ nl @ ''['' @ ELLIPSIS @ ''truncated '' @ show_nat (length s - mx) @ '' bytes]'')
             (slice_to s mx))"

definition omission_marker :: "nat \<Rightarrow> string" where
  "omission_marker omitted =
     nl @ nl @ ''['' @ ELLIPSIS @ show_nat omitted @ '' bytes omitted'' @ ELLIPSIS @ '']'' @ nl @ nl"

definition truncate_smart :: "string \<Rightarrow> nat \<Rightarrow> string option" where
  "truncate_smart s mx =
     (if length s \<le> mx then Some s
      else
        (let head = min (mx * 2 div 3) (length s);
             tail = min (mx div 3) (length s - head);
             omitted = length s - head - tail
         in case (slice_to s head, slice_from s (length s - tail)) of
              (Some a, Some b) \<Rightarrow>
                Some (a @ omission_marker omitted @ b)
            | _ \<Rightarrow> None))"

definition MAX_TOOL_OUTPUT :: nat where
  "MAX_TOOL_OUTPUT = 200000"

definition looks_binary :: "string \<Rightarrow> bool" where
  "looks_binary bytes \<longleftrightarrow> CHR 0x00 \<in> set (take 8192 bytes)"

text \<open>\<open>{n:width$}\<close>: right-aligned.\<close>

definition pad_left :: "nat \<Rightarrow> string \<Rightarrow> string" where
  "pad_left n s = replicate (n - length s) CHR '' '' @ s"

section \<open>Inputs and parameters\<close>

record read_input =
  ri_file_path :: string
  ri_offset :: "nat option"
  ri_limit :: "nat option"

record write_input =
  wi_file_path :: string
  wi_content :: string

record edit_input =
  ei_file_path :: string
  ei_old_string :: string
  ei_new_string :: string
  ei_replace_all :: bool

record memory_write_input =
  mw_name :: string
  mw_content :: string
  mw_append :: bool

record notebook_edit_input =
  nb_path :: string
  nb_new_source :: string
  nb_cell_id :: "string option"
  nb_cell_index :: "nat option"
  nb_cell_type :: "string option"
  nb_edit_mode :: "string option"

record todo_item =
  td_content :: string
  td_status :: string

datatype io_error = NotFound string | OtherIo string

fun show_io_error :: "io_error \<Rightarrow> string" where
  "show_io_error (NotFound e) = e"
| "show_io_error (OtherIo e) = e"

record 'w file_env =
  fs_read :: "string \<Rightarrow> 'w \<Rightarrow> (io_error, string) result \<times> 'w"
  fs_write :: "string \<Rightarrow> string \<Rightarrow> 'w \<Rightarrow> (io_error, unit) result \<times> 'w"
  fs_open_append :: "string \<Rightarrow> 'w \<Rightarrow> (io_error, unit) result \<times> 'w"
  fs_append :: "string \<Rightarrow> string \<Rightarrow> 'w \<Rightarrow> (io_error, unit) result \<times> 'w"
  fs_create_dirs :: "string \<Rightarrow> 'w \<Rightarrow> (io_error, unit) result \<times> 'w"
  fs_home :: "string option"
  fs_alphanumeric :: "string \<Rightarrow> bool"
  fs_parse_json :: "string \<Rightarrow> (string, json) result"
  fs_pretty :: "json \<Rightarrow> (string, string) result"

type_synonym tool_answer = "(tool_error, string) result option"

section \<open>Read\<close>

definition number_line :: "nat \<times> string \<Rightarrow> string" where
  "number_line il = pad_left 6 (show_nat (fst il)) @ [CHR 0x09] @ snd il @ nl"

definition selected_lines :: "nat \<Rightarrow> nat \<Rightarrow> string list \<Rightarrow> (nat \<times> string) list" where
  "selected_lines start limit ls = take limit (filter (\<lambda>il. start \<le> fst il) (List.enumerate 1 ls))"

definition read_start :: "read_input \<Rightarrow> nat" where
  "read_start inp = max 1 (case ri_offset inp of None \<Rightarrow> 1 | Some n \<Rightarrow> n)"

definition read_limit :: "read_input \<Rightarrow> nat" where
  "read_limit inp = (case ri_limit inp of None \<Rightarrow> 2000 | Some n \<Rightarrow> n)"

definition numbered_text :: "read_input \<Rightarrow> string \<Rightarrow> string" where
  "numbered_text inp bytes =
     concat (map number_line (selected_lines (read_start inp) (read_limit inp) (str_lines (utf8_lossy bytes))))"

definition show_file :: "read_input \<Rightarrow> string \<Rightarrow> tool_answer" where
  "show_file inp bytes =
     (if bytes = [] then Some (Inr ''[empty file]'')
      else if looks_binary bytes then
        Some (Inr (''[binary file: '' @ show_nat (length bytes) @ '' bytes '' @ [CHR 0xE2, CHR 0x80, CHR 0x94]
          @ '' refusing to inline. Use Bash with '' @ [CHR 0x60] @ ''file'' @ [CHR 0x60] @ '', '' @ [CHR 0x60] @ ''head''
          @ [CHR 0x60] @ '', or a domain-specific tool.]''))
      else if selected_lines (read_start inp) (read_limit inp) (str_lines (utf8_lossy bytes)) = [] then
        Some (Inr (''[no lines in range '' @ [CHR 0xE2, CHR 0x80, CHR 0x94] @ '' file has ''
          @ show_nat (length (str_lines (utf8_lossy bytes))) @ '' lines, requested start='' @ show_nat (read_start inp) @ '']''))
      else map_option Inr (truncate_text (numbered_text inp bytes) MAX_TOOL_OUTPUT))"

definition read_tool :: "'w file_env \<Rightarrow> read_input \<Rightarrow> 'w \<Rightarrow> tool_answer \<times> 'w" where
  "read_tool env inp w =
     (case absolute_path (ri_file_path inp) of
        Inl e \<Rightarrow> (Some (Inl e), w)
      | Inr path \<Rightarrow>
          (case fs_read env path w of
             (Inl e, w1) \<Rightarrow> (Some (Inl (IoError (path @ '': '' @ show_io_error e))), w1)
           | (Inr bytes, w1) \<Rightarrow> (show_file inp bytes, w1)))"

section \<open>Write\<close>

definition write_tool :: "'w file_env \<Rightarrow> write_input \<Rightarrow> 'w \<Rightarrow> tool_answer \<times> 'w" where
  "write_tool env inp w =
     (case absolute_path (wi_file_path inp) of
        Inl e \<Rightarrow> (Some (Inl e), w)
      | Inr path \<Rightarrow>
          (case fs_write env path (wi_content inp) w of
             (Inl e, w1) \<Rightarrow> (Some (Inl (IoError (path @ '': '' @ show_io_error e))), w1)
           | (Inr _, w1) \<Rightarrow>
               (Some (Inr (''wrote '' @ show_nat (length (wi_content inp)) @ '' bytes to '' @ path)), w1)))"

section \<open>Edit\<close>

text \<open>The new content and the number of replacements, or the error.\<close>

definition edit_text :: "edit_input \<Rightarrow> string \<Rightarrow> string \<Rightarrow> (tool_error, string \<times> nat) result" where
  "edit_text inp path text =
     (if ei_old_string inp = ei_new_string inp then
        Inl (SchemaViolation ''old_string and new_string are identical'')
      else
        (let n = match_count (ei_old_string inp) text in
         if n = 0 then Inl (SchemaViolation (''old_string not found in '' @ path))
         else if 1 < n \<and> \<not> ei_replace_all inp then
           Inl (SchemaViolation (''old_string matches '' @ show_nat n @ '' times '' @ [CHR 0xE2, CHR 0x80, CHR 0x94]
             @ '' provide more context or set replace_all=true''))
         else
           Inr (if ei_replace_all inp then replace_all_matches (ei_old_string inp) (ei_new_string inp) text
                else replace_first (ei_old_string inp) (ei_new_string inp) text, n)))"

definition edit_report :: "string \<Rightarrow> nat \<Rightarrow> string" where
  "edit_report path n =
     ''edited '' @ path @ '' ('' @ show_nat n @ '' replacement'' @ (if n = 1 then [] else ''s'') @ '' made)''"

definition edit_tool :: "'w file_env \<Rightarrow> edit_input \<Rightarrow> 'w \<Rightarrow> tool_answer \<times> 'w" where
  "edit_tool env inp w =
     (case absolute_path (ei_file_path inp) of
        Inl e \<Rightarrow> (Some (Inl e), w)
      | Inr path \<Rightarrow>
          (case fs_read env path w of
             (Inl e, w1) \<Rightarrow> (Some (Inl (IoError (path @ '': '' @ show_io_error e))), w1)
           | (Inr bytes, w1) \<Rightarrow>
               (if \<not> utf8_valid bytes then (Some (Inl (SchemaViolation ''file is not valid UTF-8'')), w1)
                else (case edit_text inp path bytes of
                        Inl e \<Rightarrow> (Some (Inl e), w1)
                      | Inr (new_text, n) \<Rightarrow>
                          (case fs_write env path new_text w1 of
                             (Inl e, w2) \<Rightarrow> (Some (Inl (IoError (path @ '': '' @ show_io_error e))), w2)
                           | (Inr _, w2) \<Rightarrow> (Some (Inr (edit_report path n)), w2))))))"

section \<open>Memory\<close>

definition safe_name :: "'w file_env \<Rightarrow> string \<Rightarrow> string" where
  "safe_name env name =
     concat (filter (\<lambda>c. is_alphanumeric (fs_alphanumeric env) c \<or> c = ''-'' \<or> c = ''_'') (str_chars name))"

definition memory_dir :: "'w file_env \<Rightarrow> string" where
  "memory_dir env = (case fs_home env of Some h \<Rightarrow> path_join h ''.aether/memory'' | None \<Rightarrow> ''.aether/memory'')"

definition memory_path :: "'w file_env \<Rightarrow> string \<Rightarrow> string" where
  "memory_path env name = path_join (memory_dir env) (name @ ''.md'')"

definition memory_read_tool :: "'w file_env \<Rightarrow> string \<Rightarrow> 'w \<Rightarrow> tool_answer \<times> 'w" where
  "memory_read_tool env name w =
     (let safe = safe_name env name; path = memory_path env safe in
      if safe = [] then (Some (Inl (SchemaViolation ''name must contain alphanumeric chars'')), w)
      else (case fs_read env path w of
              (Inr content, w1) \<Rightarrow>
                (if utf8_valid content then (map_option Inr (truncate_text content MAX_TOOL_OUTPUT), w1)
                 else (Some (Inl (IoError ''read: stream did not contain valid UTF-8'')), w1))
            | (Inl (NotFound e), w1) \<Rightarrow>
                (Some (Inl (IoError (''memory entry '' @ [CHR 0x27] @ safe @ [CHR 0x27] @ '' not found at '' @ path))), w1)
            | (Inl e, w1) \<Rightarrow> (Some (Inl (IoError (''read: '' @ show_io_error e))), w1)))"

definition memory_write_tool :: "'w file_env \<Rightarrow> memory_write_input \<Rightarrow> 'w \<Rightarrow> tool_answer \<times> 'w" where
  "memory_write_tool env inp w =
     (let safe = safe_name env (mw_name inp); path = memory_path env safe;
          quoted = [CHR 0x27] @ safe @ [CHR 0x27];
          size = show_nat (length (mw_content inp))
      in if safe = [] then (Some (Inl (SchemaViolation ''name must contain alphanumeric chars'')), w)
         else (case fs_create_dirs env (memory_dir env) w of
                 (Inl e, w1) \<Rightarrow> (Some (Inl (IoError (''create memory dir: '' @ show_io_error e))), w1)
               | (Inr _, w1) \<Rightarrow>
                   (if mw_append inp then
                      (case fs_open_append env path w1 of
                         (Inl e, w2) \<Rightarrow> (Some (Inl (IoError (''open: '' @ show_io_error e))), w2)
                       | (Inr _, w2) \<Rightarrow>
                           (case fs_append env path (mw_content inp) w2 of
                              (Inl e, w3) \<Rightarrow> (Some (Inl (IoError (''write: '' @ show_io_error e))), w3)
                            | (Inr _, w3) \<Rightarrow>
                                (Some (Inr (''Appended '' @ size @ '' bytes to memory entry '' @ quoted)), w3)))
                    else
                      (case fs_write env path (mw_content inp) w1 of
                         (Inl e, w2) \<Rightarrow> (Some (Inl (IoError (''write: '' @ show_io_error e))), w2)
                       | (Inr _, w2) \<Rightarrow>
                           (Some (Inr (''Wrote '' @ size @ '' bytes to memory entry '' @ quoted @ '' ('' @ path @ '')'')), w2)))))"

section \<open>The task list\<close>

type_synonym todo_state = "(string \<times> string) list"

definition todo_mark :: "string \<Rightarrow> string" where
  "todo_mark status =
     (if status = ''completed'' then ''x'' else if status = ''in_progress'' then ''~'' else '' '')"

definition render_todos :: "todo_state \<Rightarrow> string" where
  "render_todos st =
     concat (map (\<lambda>(i, status, content).
       pad_left 2 (show_nat i) @ ''. ['' @ todo_mark status @ ''] '' @ content @ nl) (List.enumerate 1 st))
     @ nl @ ''[totals: '' @ show_nat (length (filter (\<lambda>t. todo_mark (fst t) = '' '') st)) @ '' pending, ''
     @ show_nat (length (filter (\<lambda>t. todo_mark (fst t) = ''~'') st)) @ '' in_progress, ''
     @ show_nat (length (filter (\<lambda>t. todo_mark (fst t) = ''x'') st)) @ '' completed]''"

definition todo_write_tool :: "todo_item list \<Rightarrow> todo_state \<Rightarrow> string \<times> todo_state" where
  "todo_write_tool items st =
     (let new_state = map (\<lambda>t. (td_status t, td_content t)) items in (render_todos new_state, new_state))"

definition todo_read_tool :: "todo_state \<Rightarrow> string" where
  "todo_read_tool st = (if st = [] then ''(no todos in current session)'' else render_todos st)"

section \<open>Notebooks\<close>

text \<open>
  Assignment through \<open>IndexMut\<close> on a JSON value: objects are sorted maps, \<open>null\<close> becomes an object,
  anything else is a panic.
\<close>

definition json_set :: "string \<Rightarrow> json \<Rightarrow> json \<Rightarrow> json option" where
  "json_set k v j =
     (case j of
        JObj kvs \<Rightarrow> Some (JObj (if k \<in> fst ` set kvs then AList.update k v kvs else insort_key fst (k, v) kvs))
      | JNull \<Rightarrow> Some (JObj [(k, v)])
      | _ \<Rightarrow> None)"

definition find_cell :: "notebook_edit_input \<Rightarrow> json list \<Rightarrow> (tool_error, nat) result" where
  "find_cell inp cells =
     (case (nb_cell_id inp, nb_cell_index inp) of
        (Some i, _) \<Rightarrow>
          (case List.find (\<lambda>k. Option.bind (json_get (cells ! k) ''id'') json_as_str = Some i) [0..<length cells] of
             Some k \<Rightarrow> Inr k
           | None \<Rightarrow> Inl (SchemaViolation (''cell_id not found: '' @ i)))
      | (None, Some k) \<Rightarrow>
          (if length cells \<le> k
           then Inl (SchemaViolation (''cell_index '' @ show_nat k @ '' out of range (0..'' @ show_nat (length cells) @ '')''))
           else Inr k)
      | (None, None) \<Rightarrow> Inl (SchemaViolation ''must provide cell_id or cell_index''))"

definition replace_cell :: "notebook_edit_input \<Rightarrow> json \<Rightarrow> json option" where
  "replace_cell inp cell =
     Option.bind (json_set ''source'' (JStr (nb_new_source inp)) cell) (\<lambda>c1.
     Option.bind (case nb_cell_type inp of Some t \<Rightarrow> json_set ''cell_type'' (JStr t) c1 | None \<Rightarrow> Some c1) (\<lambda>c2.
     if json_get c2 ''outputs'' \<noteq> None \<and> json_get c2 ''cell_type'' = Some (JStr ''code'')
     then Option.bind (json_set ''outputs'' (JArr []) c2) (json_set ''execution_count'' JNull)
     else Some c2))"

definition new_cell :: "notebook_edit_input \<Rightarrow> json" where
  "new_cell inp =
     (let t = (case nb_cell_type inp of Some t \<Rightarrow> t | None \<Rightarrow> ''code'')
      in JObj [(''cell_type'', JStr t), (''execution_count'', JNull), (''metadata'', JObj []),
               (''outputs'', if t = ''code'' then JArr [] else JNull), (''source'', JStr (nb_new_source inp))])"

definition edit_mode :: "notebook_edit_input \<Rightarrow> string" where
  "edit_mode inp = (case nb_edit_mode inp of Some m \<Rightarrow> m | None \<Rightarrow> ''replace'')"

definition edit_cells ::
  "notebook_edit_input \<Rightarrow> nat \<Rightarrow> json list \<Rightarrow> (tool_error, json list) result option" where
  "edit_cells inp k cells =
     (if edit_mode inp = ''replace'' then
        map_option (\<lambda>c. Inr (cells[k := c])) (replace_cell inp (cells ! k))
      else if edit_mode inp = ''insert'' then
        Some (Inr (take (k + 1) cells @ [new_cell inp] @ drop (k + 1) cells))
      else if edit_mode inp = ''delete'' then Some (Inr (take k cells @ drop (k + 1) cells))
      else Some (Inl (SchemaViolation (''unknown edit_mode: '' @ edit_mode inp))))"

definition edit_notebook :: "notebook_edit_input \<Rightarrow> json \<Rightarrow> (tool_error, nat \<times> json) result option" where
  "edit_notebook inp nb =
     (case (nb, json_get nb ''cells'') of
        (JObj kvs, Some (JArr cells)) \<Rightarrow>
          (case find_cell inp cells of
             Inl e \<Rightarrow> Some (Inl e)
           | Inr k \<Rightarrow>
               map_option (\<lambda>r. case r of
                   Inl e \<Rightarrow> Inl e
                 | Inr cells' \<Rightarrow> Inr (k, JObj (AList.update ''cells'' (JArr cells') kvs)))
                 (edit_cells inp k cells))
      | _ \<Rightarrow> Some (Inl (SchemaViolation (''notebook has no '' @ [CHR 0x60] @ ''cells'' @ [CHR 0x60] @ '' array''))))"

definition notebook_edit_tool :: "'w file_env \<Rightarrow> notebook_edit_input \<Rightarrow> 'w \<Rightarrow> tool_answer \<times> 'w" where
  "notebook_edit_tool env inp w =
     (case absolute_path (nb_path inp) of
        Inl e \<Rightarrow> (Some (Inl e), w)
      | Inr path \<Rightarrow>
          (if \<not> suffix ''.ipynb'' (nb_path inp) then (Some (Inl (SchemaViolation (''not a .ipynb file: '' @ path))), w)
           else (case fs_read env path w of
                   (Inl e, w1) \<Rightarrow> (Some (Inl (IoError (path @ '': '' @ show_io_error e))), w1)
                 | (Inr bytes, w1) \<Rightarrow>
                     (case fs_parse_json env bytes of
                        Inl e \<Rightarrow> (Some (Inl (SchemaViolation (''parse notebook: '' @ e))), w1)
                      | Inr nb \<Rightarrow>
                          (case edit_notebook inp nb of
                             None \<Rightarrow> (None, w1)
                           | Some (Inl e) \<Rightarrow> (Some (Inl e), w1)
                           | Some (Inr (k, nb')) \<Rightarrow>
                               (case fs_pretty env nb' of
                                  Inl e \<Rightarrow> (Some (Inl (SchemaViolation (''encode notebook: '' @ e))), w1)
                                | Inr buf \<Rightarrow>
                                    (case fs_write env path buf w1 of
                                       (Inl e, w2) \<Rightarrow> (Some (Inl (IoError (''write: '' @ show_io_error e))), w2)
                                     | (Inr _, w2) \<Rightarrow>
                                         (Some (Inr (edit_mode inp @ '' cell #'' @ show_nat k @ '' in '' @ path)), w2))))))))"

section \<open>Properties of Edit\<close>

lemma edit_text_split:
  "edit_text inp path body =
     (let pieces = str_split (ei_old_string inp) body; n = length pieces - 1
      in if ei_old_string inp = ei_new_string inp then
           Inl (SchemaViolation ''old_string and new_string are identical'')
         else if n = 0 then Inl (SchemaViolation (''old_string not found in '' @ path))
         else if 1 < n \<and> \<not> ei_replace_all inp then
           Inl (SchemaViolation (''old_string matches '' @ show_nat n @ '' times '' @ [CHR 0xE2, CHR 0x80, CHR 0x94]
             @ '' provide more context or set replace_all=true''))
         else Inr (str_join (ei_new_string inp) pieces, n))"
proof -
  have n: "match_count (ei_old_string inp) body = length (str_split (ei_old_string inp) body) - 1"
    using match_count_split[of "ei_old_string inp" body] by simp
  have "replace_first (ei_old_string inp) (ei_new_string inp) body
      = str_join (ei_new_string inp) (str_split (ei_old_string inp) body)"
    if "match_count (ei_old_string inp) body \<noteq> 0" "\<not> 1 < match_count (ei_old_string inp) body"
    using that by (intro replace_first_split) simp
  then show ?thesis by (simp add: edit_text_def n Let_def replace_all_split)
qed

text \<open>
  C11. Edit rewrites the file as splitting and joining. For a readable UTF-8 file, split at the old
  string into pieces (joined again by it they are the file): the call changes nothing and says so
  when both strings are equal, when the old one does not occur, or when it occurs more than once
  without \<open>replace_all\<close>; otherwise what is written is the pieces joined by the new string, and the
  number reported is the number of joints.
\<close>
theorem edit_is_split_and_join:
  assumes "prefix ''/'' (ei_file_path inp)" "fs_read env (ei_file_path inp) w = (Inr body, w1)" "utf8_valid body"
  shows "let old = ei_old_string inp; new = ei_new_string inp;
             pieces = str_split old body; n = length pieces - 1
    in str_join old pieces = body
       \<and> (if old = new \<or> n = 0 \<or> (1 < n \<and> \<not> ei_replace_all inp)
          then \<exists>e. edit_tool env inp w = (Some (Inl (SchemaViolation e)), w1)
          else edit_tool env inp w =
            (case fs_write env (ei_file_path inp) (str_join new pieces) w1 of
               (Inl e, w2) \<Rightarrow> (Some (Inl (IoError (ei_file_path inp @ '': '' @ show_io_error e))), w2)
             | (Inr _, w2) \<Rightarrow> (Some (Inr (edit_report (ei_file_path inp) n)), w2)))"
  using assms by (simp add: Let_def str_join_split edit_tool_def absolute_path_def edit_text_split)

text \<open>A file system of one map.\<close>

definition map_env :: "(string \<rightharpoonup> string) file_env" where
  "map_env =
     \<lparr>fs_read = (\<lambda>p fs. (case fs p of Some c \<Rightarrow> Inr c | None \<Rightarrow> Inl (NotFound ''No such file''), fs)),
      fs_write = (\<lambda>p c fs. (Inr (), fs(p \<mapsto> c))),
      fs_open_append = (\<lambda>p fs. (Inr (), fs)),
      fs_append = (\<lambda>p c fs. (Inr (), fs(p \<mapsto> (case fs p of Some d \<Rightarrow> d | None \<Rightarrow> []) @ c))),
      fs_create_dirs = (\<lambda>p fs. (Inr (), fs)),
      fs_home = Some ''/root'', fs_alphanumeric = (\<lambda>_. False),
      fs_parse_json = (\<lambda>_. Inl ''no parser''), fs_pretty = (\<lambda>_. Inr [])\<rparr>"

lemma edit_is_split_and_join_witness:
  "fst (edit_tool map_env \<lparr>ei_file_path = ''/f'', ei_old_string = ''b'', ei_new_string = ''xy'', ei_replace_all = False\<rparr>
     [''/f'' \<mapsto> ''abc'']) = Some (Inr (edit_report ''/f'' 1))"
proof -
  have "str_split ''b'' ''abc'' = [''a'', ''c'']" by code_simp
  then show ?thesis
    using edit_is_split_and_join[of "\<lparr>ei_file_path = ''/f'', ei_old_string = ''b'', ei_new_string = ''xy'', ei_replace_all = False\<rparr>"
      map_env "[''/f'' \<mapsto> ''abc'']" "''abc''" "[''/f'' \<mapsto> ''abc'']"]
    by (simp add: map_env_def utf8_valid_ascii byte_of_def)
qed

text \<open>Overlapping occurrences are counted once: an old string that occurs twice is accepted as unique.\<close>

lemma overlapping_counts_as_unique:
  "edit_text \<lparr>ei_file_path = ''/f'', ei_old_string = ''aa'', ei_new_string = ''b'', ei_replace_all = False\<rparr> ''/f'' ''aaa''
     = Inr (''ba'', 1)"
  by code_simp

section \<open>Properties of Read\<close>

lemma truncate_text_None: "truncate_text s mx = None \<longleftrightarrow> mx < length s \<and> 0 < mx \<and> is_cont (s ! mx)"
  by (auto simp: truncate_text_def slice_to_def is_char_boundary_def)

text \<open>
  C40. When \<open>Read\<close> panics. Reading a text file that can be read panics exactly when the numbered text
  is longer than the 200000 bytes allowed and the cut falls inside a character; every other call
  returns an answer.
\<close>
theorem read_panics_exactly:
  "fst (read_tool env inp w) = None \<longleftrightarrow>
     prefix ''/'' (ri_file_path inp)
     \<and> (\<exists>bytes w1. fs_read env (ri_file_path inp) w = (Inr bytes, w1) \<and> bytes \<noteq> [] \<and> \<not> looks_binary bytes
          \<and> MAX_TOOL_OUTPUT < length (numbered_text inp bytes) \<and> is_cont (numbered_text inp bytes ! MAX_TOOL_OUTPUT))"
proof -
  have empty: "selected_lines (read_start inp) (read_limit inp) (str_lines (utf8_lossy b)) = [] \<Longrightarrow> numbered_text inp b = []" for b
    by (simp add: numbered_text_def)
  have "show_file inp b = None \<longleftrightarrow> b \<noteq> [] \<and> \<not> looks_binary b
      \<and> MAX_TOOL_OUTPUT < length (numbered_text inp b) \<and> is_cont (numbered_text inp b ! MAX_TOOL_OUTPUT)" for b
    using empty[of b] truncate_text_None[of "numbered_text inp b" MAX_TOOL_OUTPUT]
    by (auto simp: show_file_def MAX_TOOL_OUTPUT_def)
  then show ?thesis
    by (auto simp: read_tool_def absolute_path_def split: sum.splits prod.splits)
qed

text \<open>One line of enough two-byte characters is such a file.\<close>

definition e_acute :: string where
  "e_acute = [CHR 0xC3, CHR 0xA9]"

lemma utf8_valid_e_acute: "utf8_valid (concat (replicate n e_acute))"
  by (induction n) (simp_all add: utf8_valid.simps e_acute_def utf8_step_def cont_at_def is_cont_def byte_of_def)

lemma e_acute_nth: "k < 2 * n \<Longrightarrow> concat (replicate n e_acute) ! k = (if even k then CHR 0xC3 else CHR 0xA9)"
proof (induction n arbitrary: k)
  case (Suc n)
  then show ?case by (cases k; cases "k - 1") (auto simp: e_acute_def)
qed simp

lemma length_e_acute [simp]: "length (concat (replicate n e_acute)) = 2 * n"
  by (induction n) (simp_all add: e_acute_def)

lemma set_e_acute: "set (concat (replicate n e_acute)) \<subseteq> {CHR 0xC3, CHR 0xA9}"
  by (induction n) (auto simp: e_acute_def)

lemma read_panics_on_wide_line:
  assumes "prefix ''/'' path" "fs_read env path w = (Inr (concat (replicate 100000 e_acute)), w1)"
  shows "fst (read_tool env \<lparr>ri_file_path = path, ri_offset = None, ri_limit = None\<rparr> w) = None"
proof -
  let ?c = "concat (replicate 100000 e_acute)"
  let ?i = "\<lparr>ri_file_path = path, ri_offset = None, ri_limit = None\<rparr>"
  have ne: "?c \<noteq> []" using length_e_acute[of 100000] by (metis length_0_conv mult_eq_0_iff numeral_neq_zero)
  have "CHR 0x0A \<notin> set ?c" "CHR 0x00 \<notin> set ?c" using set_e_acute[of 100000] by auto
  then have lines: "str_lines ?c = [?c]" and "CHR 0x00 \<notin> set (take 8192 ?c)"
    using ne set_take_subset[of 8192 ?c] by (blast intro: str_lines_single)+
  then have txt_ok: "\<not> looks_binary ?c" unfolding looks_binary_def by blast
  have "numbered_text ?i ?c = pad_left 6 (show_nat 1) @ [CHR 0x09] @ ?c @ nl"
    by (simp add: numbered_text_def selected_lines_def read_start_def read_limit_def number_line_def lines
        utf8_lossy_valid utf8_valid_e_acute)
  moreover have "pad_left 6 (show_nat 1) = ''     1''" by code_simp
  ultimately have n: "numbered_text ?i ?c = ''     1'' @ [CHR 0x09] @ ?c @ nl" by simp
  have "numbered_text ?i ?c ! MAX_TOOL_OUTPUT = ?c ! (MAX_TOOL_OUTPUT - 7)"
    unfolding n by (simp add: nth_append MAX_TOOL_OUTPUT_def)
  also have "\<dots> = CHR 0xA9" by (simp add: e_acute_nth MAX_TOOL_OUTPUT_def)
  finally have "is_cont (numbered_text ?i ?c ! MAX_TOOL_OUTPUT)" by (simp add: is_cont_def byte_of_def)
  moreover have "MAX_TOOL_OUTPUT < length (numbered_text ?i ?c)"
    unfolding n by (simp add: MAX_TOOL_OUTPUT_def)
  ultimately have "truncate_text (numbered_text ?i ?c) MAX_TOOL_OUTPUT = None"
    by (simp add: truncate_text_None MAX_TOOL_OUTPUT_def)
  moreover have "selected_lines (read_start ?i) (read_limit ?i) (str_lines (utf8_lossy ?c)) \<noteq> []"
    using n by (auto simp: numbered_text_def)
  ultimately show ?thesis
    using assms ne txt_ok by (simp add: read_tool_def absolute_path_def show_file_def)
qed

text \<open>The number column comes off again.\<close>

definition strip_number :: "string \<Rightarrow> string" where
  "strip_number l = drop 1 (dropWhile (\<lambda>c. c \<noteq> CHR 0x09) l)"

lemma digit_plain: "is_digit c \<Longrightarrow> c \<noteq> CHR 0x09 \<and> c \<noteq> CHR 0x0A"
  by (auto simp: is_digit_def byte_of_def)

lemma pad_left_plain:
  "c \<in> set (pad_left n (show_nat i)) \<Longrightarrow> c \<noteq> CHR 0x09 \<and> c \<noteq> CHR 0x0A"
  using show_nat_digits[of i] digit_plain by (auto simp: pad_left_def list_all_iff split: if_splits)

definition no_cr_end :: "string \<Rightarrow> bool" where
  "no_cr_end l \<longleftrightarrow> l = [] \<or> last l \<noteq> CHR 0x0D"

lemma str_lines_number:
  assumes "\<forall>il \<in> set ils. CHR 0x0A \<notin> set (snd il) \<and> no_cr_end (snd il)"
  shows "map strip_number (str_lines (concat (map number_line ils))) = map snd ils"
  using assms
proof (induction ils)
  case (Cons il ils)
  let ?l = "pad_left 6 (show_nat (fst il)) @ [CHR 0x09] @ snd il"
  have "CHR 0x0A \<notin> set ?l" using pad_left_plain[of "CHR 0x0A"] Cons.prems by auto
  then have "str_lines (concat (map number_line (il # ils))) = strip_cr ?l # str_lines (concat (map number_line ils))"
    using str_lines_append[of ?l "concat (map number_line ils)"] by (simp add: number_line_def nl_def)
  moreover have "strip_cr ?l = ?l" using Cons.prems by (auto simp: strip_cr_def no_cr_end_def)
  moreover have "strip_number ?l = snd il"
    using pad_left_plain[of _ 6 "fst il"] by (simp add: strip_number_def dropWhile_append)
  ultimately show ?case using Cons by simp
qed simp

lemma selected_all:
  assumes "length ls \<le> n"
  shows "selected_lines 1 n ls = List.enumerate 1 ls"
proof -
  have "filter (\<lambda>il. 1 \<le> fst il) (List.enumerate 1 ls) = List.enumerate 1 ls"
    by (rule filter_eq_self) (auto simp: in_set_enumerate_eq)
  with assms show ?thesis by (simp add: selected_lines_def)
qed

text \<open>
  What was written is what is read. When a file system returns after a write what was written,
  a non-empty text of at most 2000 lines written by \<open>Write\<close> comes back from \<open>Read\<close> line by line,
  each behind its number; the conditions are that it is UTF-8, shows no sign of being binary, no line
  ends in a carriage return, and the numbered text fits in the output.
\<close>
theorem read_after_write:
  assumes "prefix ''/'' path"
    and "fs_write env path content w = (Inr (), w1)" "fs_read env path w1 = (Inr content, w2)"
    and "content \<noteq> []" "\<not> looks_binary content" "utf8_valid content"
    and "length (str_lines content) \<le> 2000" "list_all no_cr_end (str_lines content)"
    and "length (numbered_text \<lparr>ri_file_path = path, ri_offset = None, ri_limit = None\<rparr> content) \<le> MAX_TOOL_OUTPUT"
  shows "snd (write_tool env \<lparr>wi_file_path = path, wi_content = content\<rparr> w) = w1
    \<and> (\<exists>out. read_tool env \<lparr>ri_file_path = path, ri_offset = None, ri_limit = None\<rparr> w1 = (Some (Inr out), w2)
         \<and> map strip_number (str_lines out) = str_lines content)"
proof -
  let ?i = "\<lparr>ri_file_path = path, ri_offset = None, ri_limit = None\<rparr>"
  have sel: "selected_lines (read_start ?i) (read_limit ?i) (str_lines (utf8_lossy content)) = List.enumerate 1 (str_lines content)"
    using assms(6) selected_all[OF assms(7)] by (simp add: read_start_def read_limit_def utf8_lossy_valid)
  have "str_lines content \<noteq> []" using assms(4) by (subst str_lines.simps) (simp split: list.splits)
  then have ne: "List.enumerate 1 (str_lines content) \<noteq> []" by (metis length_enumerate length_0_conv)
  have "\<forall>il \<in> set (List.enumerate 1 (str_lines content)). CHR 0x0A \<notin> set (snd il) \<and> no_cr_end (snd il)"
    using str_lines_no_nl[of content] assms(8) by (auto simp: in_set_enumerate_eq list_all_iff)
  then have shown: "map strip_number (str_lines (numbered_text ?i content)) = str_lines content"
    using str_lines_number by (simp add: numbered_text_def sel)
  have "show_file ?i content = Some (Inr (numbered_text ?i content))"
    using assms(4,5,9) ne by (simp add: show_file_def sel truncate_text_def)
  with shown show ?thesis
    using assms(1,2,3) by (simp add: write_tool_def read_tool_def absolute_path_def)
qed

lemma read_after_write_witness:
  "\<exists>out. fst (read_tool map_env \<lparr>ri_file_path = ''/f'', ri_offset = None, ri_limit = None\<rparr> [''/f'' \<mapsto> ''ab'']) = Some (Inr out)
     \<and> map strip_number (str_lines out) = [''ab'']"
proof -
  have n: "str_lines ''ab'' = [''ab'']" "utf8_valid ''ab''"
    by (simp_all add: str_lines_single utf8_valid_ascii byte_of_def)
  have "numbered_text \<lparr>ri_file_path = ''/f'', ri_offset = None, ri_limit = None\<rparr> ''ab''
      = pad_left 6 (show_nat 1) @ [CHR 0x09] @ ''ab'' @ nl"
    by (simp add: numbered_text_def selected_lines_def read_start_def read_limit_def number_line_def n utf8_lossy_valid)
  moreover have "length (pad_left 6 (show_nat 1)) = 6" by code_simp
  ultimately have "length (numbered_text \<lparr>ri_file_path = ''/f'', ri_offset = None, ri_limit = None\<rparr> ''ab'') \<le> MAX_TOOL_OUTPUT"
    by (simp add: MAX_TOOL_OUTPUT_def nl_def)
  moreover have "\<not> looks_binary ''ab''" by (simp add: looks_binary_def)
  moreover note n
  ultimately show ?thesis
    using read_after_write[of "''/f''" map_env "''ab''" Map.empty "[''/f'' \<mapsto> ''ab'']" "[''/f'' \<mapsto> ''ab'']"]
    by (auto simp: map_env_def no_cr_end_def)
qed

section \<open>Properties of the memory tools\<close>

definition ascii_free :: "(string \<Rightarrow> bool) \<Rightarrow> bool" where
  "ascii_free table \<longleftrightarrow> (\<forall>ch. table ch \<longrightarrow> (\<forall>b \<in> set ch. 128 \<le> byte_of b))"

lemma safe_name_plain:
  assumes "ascii_free (fs_alphanumeric env)" "b \<in> set (safe_name env name)"
  shows "b \<noteq> CHR ''/'' \<and> b \<noteq> CHR ''.''"
proof -
  from assms(2) obtain c where c: "b \<in> set c" "is_alphanumeric (fs_alphanumeric env) c \<or> c = ''-'' \<or> c = ''_''"
    by (auto simp: safe_name_def)
  show ?thesis
  proof (cases "\<exists>a. c = [a]")
    case True
    with c show ?thesis by (auto simp: is_alphanumeric_def is_digit_def byte_of_def)
  next
    case False
    with c have "fs_alphanumeric env c" by (auto simp: is_alphanumeric_def split: list.splits)
    with assms(1) c(1) have "128 \<le> byte_of b" unfolding ascii_free_def by blast
    then show ?thesis by (auto simp: byte_of_def)
  qed
qed

text \<open>
  The memory tools stay inside the memory directory. Whatever name is given, what \<open>MemoryWrite\<close>
  does to the world is nothing, the creation of the memory directory, or after it one write, or the
  opening and an append, of one file directly in that directory, whose name has no slash and no dot;
  \<open>MemoryRead\<close> reads nothing else.
\<close>
theorem memory_stays_inside:
  assumes "ascii_free (fs_alphanumeric env)"
  shows "let safe = safe_name env (mw_name inp); path = path_join (memory_dir env) (safe @ ''.md'');
             w1 = snd (fs_create_dirs env (memory_dir env) w)
    in set safe \<inter> {CHR ''/'', CHR ''.''} = {}
       \<and> snd (memory_write_tool env inp w) \<in>
           {w, w1, snd (fs_write env path (mw_content inp) w1), snd (fs_open_append env path w1),
            snd (fs_append env path (mw_content inp) (snd (fs_open_append env path w1)))}
       \<and> snd (memory_read_tool env (mw_name inp) w) \<in> {w, snd (fs_read env path w)}
       \<and> (safe = [] \<longrightarrow> snd (memory_write_tool env inp w) = w \<and> snd (memory_read_tool env (mw_name inp) w) = w)"
proof -
  have "set (safe_name env (mw_name inp)) \<inter> {CHR ''/'', CHR ''.''} = {}"
    using safe_name_plain[OF assms] by blast
  then show ?thesis
    by (auto simp: Let_def memory_write_tool_def memory_read_tool_def memory_path_def split: sum.splits prod.splits io_error.splits)
qed

lemma memory_stays_inside_witness:
  "snd (memory_read_tool map_env ''../x'' Map.empty)
     \<in> {Map.empty, snd (fs_read map_env (path_join (memory_dir map_env) (safe_name map_env ''../x'' @ ''.md'')) Map.empty)}"
proof -
  have "ascii_free (fs_alphanumeric map_env)" by (simp add: ascii_free_def map_env_def)
  from memory_stays_inside[OF this, of "\<lparr>mw_name = ''../x'', mw_content = [], mw_append = False\<rparr>" Map.empty]
  show ?thesis by (simp add: Let_def)
qed

text \<open>Different names can denote one entry: the characters that are not kept are simply dropped.\<close>

lemma memory_names_collide: "memory_path map_env (safe_name map_env ''v1.2'') = memory_path map_env (safe_name map_env ''v12'')"
  by code_simp

section \<open>Properties of the task list\<close>

lemma todo_read_shows_last_write:
  "items \<noteq> [] \<Longrightarrow> todo_read_tool (snd (todo_write_tool items st)) = fst (todo_write_tool items st)"
  by (simp add: todo_read_tool_def todo_write_tool_def Let_def)

text \<open>Every entry is counted once: a status the tool does not know counts as pending.\<close>

lemma todo_totals:
  "length (filter (\<lambda>t. todo_mark (fst t) = '' '') st) + length (filter (\<lambda>t. todo_mark (fst t) = ''~'') st)
   + length (filter (\<lambda>t. todo_mark (fst t) = ''x'') st) = length st"
  by (induction st) (auto simp: todo_mark_def)

end
