(* ===== verification/ShellTools.thy ===== *)
theory ShellTools
  imports BuiltinTools
begin

text \<open>
  The tools of \<open>crates/aether-tools/src/builtin.rs\<close> that run a program or list a directory:
  \<open>Bash\<close> with and without streaming, \<open>Grep\<close>, \<open>LS\<close>, and the decoder used by \<open>WebSearch\<close>. The
  child process, the timers and the cancellation flag are outside: a parameter says which of them
  ended the wait and what had been read by then.
\<close>

section \<open>Bash\<close>

record bash_input =
  bi_command :: string
  bi_timeout :: "nat option"

definition DEFAULT_BASH_TIMEOUT_MS :: nat where
  "DEFAULT_BASH_TIMEOUT_MS = 120000"

definition MAX_BASH_TIMEOUT_MS :: nat where
  "MAX_BASH_TIMEOUT_MS = 600000"

definition bash_timeout :: "bash_input \<Rightarrow> nat" where
  "bash_timeout inp =
     min (case bi_timeout inp of None \<Rightarrow> DEFAULT_BASH_TIMEOUT_MS | Some t \<Rightarrow> t) MAX_BASH_TIMEOUT_MS"

definition show_int :: "int \<Rightarrow> string" where
  "show_int i = (if i < 0 then ''-'' @ show_nat (nat (- i)) else show_nat (nat i))"

definition exit_code :: "int option \<Rightarrow> int" where
  "exit_code c = (case c of Some k \<Rightarrow> k | None \<Rightarrow> -1)"

definition bash_report :: "string \<Rightarrow> int \<Rightarrow> tool_answer" where
  "bash_report combined code =
     map_option (\<lambda>t. Inr (if code \<noteq> 0 then t @ nl @ ''[exit code: '' @ show_int code @ '']'' else t))
       (truncate_smart (if combined = [] then ''(no output)'' @ nl else combined) MAX_TOOL_OUTPUT)"

definition bash_interrupted :: "bash_input \<Rightarrow> bool \<Rightarrow> tool_answer" where
  "bash_interrupted inp cancelled =
     Some (Inl (IoError (if cancelled then ''cancelled by user (Ctrl-C)''
       else ''command timed out after '' @ show_nat (bash_timeout inp) @ ''ms'')))"

definition merge_output :: "string \<Rightarrow> string \<Rightarrow> string" where
  "merge_output out err =
     (let c = (if out \<noteq> [] then utf8_lossy out else [])
      in if err \<noteq> [] then (if c \<noteq> [] \<and> last c \<noteq> CHR 0x0A then c @ nl else c) @ utf8_lossy err else c)"

text \<open>
  How the wait of \<open>run\<close> ends: both streams at their end and the process gone, an I/O error, or
  the timer or the cancellation first.
\<close>

datatype bash_wait = Finished_io string string "int option" | Failed_io string | Interrupted

definition bash_run :: "bash_input \<Rightarrow> string option \<Rightarrow> bash_wait \<Rightarrow> bool \<Rightarrow> tool_answer" where
  "bash_run inp spawn_error wait cancelled =
     (case spawn_error of
        Some e \<Rightarrow> Some (Inl (IoError (''spawn: '' @ e)))
      | None \<Rightarrow>
          (case wait of
             Finished_io out err code \<Rightarrow> bash_report (merge_output out err) (exit_code code)
           | Failed_io e \<Rightarrow> Some (Inl (IoError (''io: '' @ e)))
           | Interrupted \<Rightarrow> bash_interrupted inp cancelled))"

text \<open>
  How the wait of \<open>run_streamed\<close> ends. Only then does it wait for the process, whose exit code is
  given, and look at the flags.
\<close>

datatype stream_wait = All_collected | Timer_elapsed | Cancel_seen

definition stream_line :: "bool \<times> string \<Rightarrow> string" where
  "stream_line l = (if fst l then snd l else ''[err] '' @ snd l)"

definition bash_run_streamed ::
  "bash_input \<Rightarrow> string option \<Rightarrow> (bool \<times> string) list \<Rightarrow> stream_wait \<Rightarrow> int option \<Rightarrow> bool \<Rightarrow>
   string list \<times> tool_answer" where
  "bash_run_streamed inp spawn_error ls wait code cancelled =
     (case spawn_error of
        Some e \<Rightarrow> ([], Some (Inl (IoError (''spawn: '' @ e))))
      | None \<Rightarrow>
          (map stream_line ls,
           (let timed_out = (case wait of Cancel_seen \<Rightarrow> True | _ \<Rightarrow> False)
            in if timed_out \<or> cancelled then bash_interrupted inp cancelled
               else bash_report (concat (map (\<lambda>l. snd l @ nl) ls)) (exit_code code))))"

text \<open>
  The timer that \<open>run\<close> reports as an error is taken for a normal end by \<open>run_streamed\<close>: after it
  elapsed the tool still waits for the process, and then reports its exit code.
\<close>

lemma streamed_timeout_is_success:
  "snd (bash_run_streamed inp None [] Timer_elapsed (Some 0) False) = Some (Inr (''(no output)'' @ nl))"
  "bash_run inp None Interrupted False
     = Some (Inl (IoError (''command timed out after '' @ show_nat (bash_timeout inp) @ ''ms'')))"
  by (simp_all add: bash_run_streamed_def bash_run_def bash_report_def bash_interrupted_def truncate_smart_def
      exit_code_def MAX_TOOL_OUTPUT_def nl_def)

lemma truncate_smart_bounds:
  assumes "truncate_smart s mx = Some t" "mx < length s"
  shows "\<exists>a b m. t = a @ m @ b \<and> prefix a s \<and> suffix b s \<and> length a + length b \<in> {mx - 1, mx}"
proof -
  let ?a = "take (mx * 2 div 3) s" and ?b = "drop (length s - mx div 3) s"
  have l: "min (mx * 2 div 3) (length s) = mx * 2 div 3" "min (mx div 3) (length s - mx * 2 div 3) = mx div 3"
    using assms(2) by auto
  have "\<exists>m. t = ?a @ m @ ?b"
    using assms by (auto simp: truncate_smart_def l Let_def slice_to_def slice_from_def split: if_splits)
  moreover have "length ?a + length ?b = mx * 2 div 3 + mx div 3" using assms(2) by auto
  moreover have "mx * 2 div 3 + mx div 3 \<in> {mx - 1, mx}" by auto
  ultimately show ?thesis by (metis suffix_drop take_is_prefix)
qed

section \<open>Grep\<close>

record grep_input =
  gi_pattern :: string
  gi_path :: "string option"
  gi_glob :: "string option"
  gi_output_mode :: "string option"
  gi_case_insensitive :: bool
  gi_line_numbers :: "bool option"
  gi_context :: "nat option"
  gi_head_limit :: "nat option"
  gi_file_type :: "string option"

definition grep_mode :: "grep_input \<Rightarrow> string" where
  "grep_mode inp = (case gi_output_mode inp of Some m \<Rightarrow> m | None \<Rightarrow> ''files_with_matches'')"

definition mode_args :: "grep_input \<Rightarrow> (tool_error, string list) result" where
  "mode_args inp =
     (if grep_mode inp = ''files_with_matches'' then Inr [''-l'']
      else if grep_mode inp = ''count'' then Inr [''-c'']
      else if grep_mode inp = ''content'' then
        Inr ((if gi_line_numbers inp \<noteq> Some False then [''-n''] else [])
             @ (case gi_context inp of Some c \<Rightarrow> [''-C'' @ show_nat c] | None \<Rightarrow> []))
      else Inl (SchemaViolation (''invalid output_mode: '' @ grep_mode inp)))"

definition grep_args :: "grep_input \<Rightarrow> (tool_error, string list) result" where
  "grep_args inp =
     (case mode_args inp of
        Inl e \<Rightarrow> Inl e
      | Inr args \<Rightarrow>
          Inr ([''--no-heading''] @ args
               @ (if gi_case_insensitive inp then [''-i''] else [])
               @ (case gi_glob inp of Some g \<Rightarrow> [''--glob'', g] | None \<Rightarrow> [])
               @ (case gi_file_type inp of Some t \<Rightarrow> [''--type'', t] | None \<Rightarrow> [])
               @ [gi_pattern inp]
               @ (case gi_path inp of Some p \<Rightarrow> [p] | None \<Rightarrow> [])))"

text \<open>
  \<open>rg\<close> answers an error of starting it, or an exit code (absent when killed by a signal) with its
  two streams. \<open>status.success()\<close> is exit code 0.
\<close>

definition grep_answer :: "grep_input \<Rightarrow> int option \<Rightarrow> string \<Rightarrow> string \<Rightarrow> tool_answer" where
  "grep_answer inp code out err =
     (if exit_code code = 1 then Some (Inr ''(no matches)'')
      else if code \<noteq> Some 0 then
        Some (Inl (IoError (''ripgrep exit '' @ show_int (exit_code code) @ '': '' @ utf8_lossy err)))
      else map_option Inr
        (truncate_text
          (str_join nl (take (case gi_head_limit inp of Some n \<Rightarrow> n | None \<Rightarrow> 250) (str_lines (utf8_lossy out))))
          MAX_TOOL_OUTPUT))"

definition grep_tool ::
  "(string list \<Rightarrow> 'w \<Rightarrow> (string, int option \<times> string \<times> string) result \<times> 'w) \<Rightarrow> grep_input \<Rightarrow> 'w \<Rightarrow> tool_answer \<times> 'w" where
  "grep_tool rg inp w =
     (case grep_args inp of
        Inl e \<Rightarrow> (Some (Inl e), w)
      | Inr args \<Rightarrow>
          (case rg args w of
             (Inl e, w1) \<Rightarrow> (Some (Inl (IoError (''ripgrep: '' @ e))), w1)
           | (Inr (code, out, err), w1) \<Rightarrow> (grep_answer inp code out err, w1)))"

text \<open>
  Nothing separates the pattern from the options: a pattern that begins with dashes is an option of
  \<open>rg\<close>, and \<open>Grep\<close> counts as a tool that changes nothing and may run beside others.
\<close>

lemma grep_pattern_can_be_an_option:
  "grep_args \<lparr>gi_pattern = ''--pre=./run.sh'', gi_path = Some ''.'', gi_glob = None, gi_output_mode = None,
      gi_case_insensitive = False, gi_line_numbers = None, gi_context = None, gi_head_limit = None, gi_file_type = None\<rparr>
     = Inr [''--no-heading'', ''-l'', ''--pre=./run.sh'', ''.'']"
  "\<not> is_mutating ''Grep''" "is_parallel_safe ''Grep''"
  by (simp_all add: grep_args_def mode_args_def grep_mode_def is_mutating_def is_parallel_safe_def)

section \<open>LS\<close>

text \<open>
  The entries left by the ignore patterns, each with whether it is a directory; \<open>lower\<close> is
  \<open>str::to_lowercase\<close>.
\<close>

definition ls_body :: "(string \<Rightarrow> string) \<Rightarrow> (bool \<times> string) list \<Rightarrow> string" where
  "ls_body lower items =
     str_join nl (map (\<lambda>(is_dir, n). if is_dir then n @ ''/'' else n)
       (sort_key (\<lambda>(is_dir, n). (\<not> is_dir, lower n)) items))"

definition ls_answer ::
  "(string \<Rightarrow> string) \<Rightarrow> (string \<Rightarrow> bool) \<Rightarrow> string \<Rightarrow> (bool \<times> string) list \<Rightarrow> string" where
  "ls_answer lower ignored path entries =
     (let items = filter (\<lambda>e. \<not> ignored (snd e)) entries
      in if items = [] then ''(empty directory: '' @ path @ '')'' else path @ '':'' @ nl @ ls_body lower items)"

section \<open>Percent decoding\<close>

text \<open>\<open>u8::from_str_radix(_, 16)\<close> of two bytes, where a leading plus sign is allowed.\<close>

definition hex_value :: "char \<Rightarrow> nat option" where
  "hex_value c =
     (let b = byte_of c in
      if 48 \<le> b \<and> b \<le> 57 then Some (b - 48)
      else if 65 \<le> b \<and> b \<le> 70 then Some (b - 55)
      else if 97 \<le> b \<and> b \<le> 102 then Some (b - 87) else None)"

definition hex_byte :: "char \<Rightarrow> char \<Rightarrow> nat option" where
  "hex_byte a b =
     (if a = CHR ''+'' then hex_value b
      else Option.bind (hex_value a) (\<lambda>x. map_option (\<lambda>y. 16 * x + y) (hex_value b)))"

text \<open>\<open>out.push(b as char)\<close>: the byte becomes the character of that code.\<close>

definition latin1_char :: "nat \<Rightarrow> string" where
  "latin1_char b = (if b < 128 then [char_of b] else [char_of (192 + b div 64), char_of (128 + b mod 64)])"

fun percent_decode :: "string \<Rightarrow> string" where
  "percent_decode [] = []"
| "percent_decode [a] = latin1_char (byte_of a)"
| "percent_decode [a, b] = latin1_char (byte_of a) @ latin1_char (byte_of b)"
| "percent_decode (a # b # c # s) =
     (case (if a = CHR ''%'' then hex_byte b c else None) of
        Some v \<Rightarrow> latin1_char v @ percent_decode s
      | None \<Rightarrow> latin1_char (byte_of a) @ percent_decode (b # c # s))"

text \<open>Bytes are taken for characters: the two bytes of an accented letter come out as two letters.\<close>

lemma percent_decode_is_latin1:
  "percent_decode ''%C3%A9'' = [CHR 0xC3, CHR 0x83, CHR 0xC2, CHR 0xA9]"
  by code_simp

end
