(* ===== verification/Shuttle.thy ===== *)
theory Shuttle
  imports Rust_Strings "HOL-Library.Word" "HOL-Library.Multiset"
begin

unbundle bit_operations_syntax

text \<open>
  The deterministic interleaving explorer \<open>crates/aether-shuttle\<close>: schedules and their identifiers
  (\<open>schedule.rs\<close>), the replaying scheduler and the simulation with lock states (\<open>scheduler.rs\<close>), and
  the generation of schedules (\<open>explorer.rs\<close>). Thread, lock and channel ids are natural numbers; the
  generator state and the hash are 64-bit words. A remainder by zero threads is a panic, \<open>None\<close>.
\<close>

section \<open>Schedules\<close>

datatype step_kind =
    Compute
  | Acquire nat
  | Release nat
  | Wait nat
  | Send nat
  | Recv nat
  | Spawn nat
  | Exit_thread

record schedule_step =
  thread :: nat
  kind :: step_kind

type_synonym schedule = "schedule_step list"

definition show_step :: "schedule_step \<Rightarrow> string" where
  "show_step s =
     ''T'' @ show_nat (thread s) @ '': ''
     @ (case kind s of
          Compute \<Rightarrow> ''compute''
        | Acquire l \<Rightarrow> ''acquire(lock='' @ show_nat l @ '')''
        | Release l \<Rightarrow> ''release(lock='' @ show_nat l @ '')''
        | Wait c \<Rightarrow> ''wait(cvar='' @ show_nat c @ '')''
        | Send c \<Rightarrow> ''send(ch='' @ show_nat c @ '')''
        | Recv c \<Rightarrow> ''recv(ch='' @ show_nat c @ '')''
        | Spawn t \<Rightarrow> ''spawn(T'' @ show_nat t @ '')''
        | Exit_thread \<Rightarrow> ''exit'')"

definition thread_count_of :: "schedule \<Rightarrow> nat" where
  "thread_count_of steps = length (remdups (map thread steps))"

fun debug_kind :: "step_kind \<Rightarrow> string" where
  "debug_kind Compute = ''Compute''"
| "debug_kind (Acquire l) = ''Acquire { lock_id: '' @ show_nat l @ '' }''"
| "debug_kind (Release l) = ''Release { lock_id: '' @ show_nat l @ '' }''"
| "debug_kind (Wait c) = ''Wait { condvar_id: '' @ show_nat c @ '' }''"
| "debug_kind (Send c) = ''Send { channel_id: '' @ show_nat c @ '' }''"
| "debug_kind (Recv c) = ''Recv { channel_id: '' @ show_nat c @ '' }''"
| "debug_kind (Spawn t) = ''Spawn { child: '' @ show_nat t @ '' }''"
| "debug_kind Exit_thread = ''Exit''"

definition hex_char :: "nat \<Rightarrow> char" where
  "hex_char d = (if d < 10 then char_of (48 + d) else char_of (87 + d))"

text \<open>\<open>{h:016x}\<close>: sixteen lower-case hexadecimal digits.\<close>

definition hex16 :: "64 word \<Rightarrow> string" where
  "hex16 h = map (\<lambda>i. hex_char (unat h div 16 ^ i mod 16)) (rev [0..<16])"

definition djb2 :: "string \<Rightarrow> 64 word" where
  "djb2 bytes = foldl (\<lambda>h b. h * 33 + word_of_nat (byte_of b)) 5381 bytes"

definition schedule_id :: "schedule \<Rightarrow> string" where
  "schedule_id steps =
     hex16 (djb2 (str_join ''|'' (map (\<lambda>s. show_nat (thread s) @ '':'' @ debug_kind (kind s)) steps)))"

definition swap_at :: "nat \<Rightarrow> 'a list \<Rightarrow> 'a list" where
  "swap_at i xs = xs[i := xs ! Suc i, Suc i := xs ! i]"

definition swap_adjacent_pairs :: "schedule \<Rightarrow> schedule list" where
  "swap_adjacent_pairs steps =
     map (\<lambda>i. swap_at i steps)
       (filter (\<lambda>i. thread (steps ! i) \<noteq> thread (steps ! Suc i)) [0..<length steps - 1])"

section \<open>The scheduler\<close>

record scheduler =
  sc_schedule :: schedule
  sc_cursor :: nat

definition scheduler_new :: "schedule \<Rightarrow> scheduler" where
  "scheduler_new s = \<lparr>sc_schedule = s, sc_cursor = 0\<rparr>"

definition next_thread :: "scheduler \<Rightarrow> nat option \<times> scheduler" where
  "next_thread sc =
     (if length (sc_schedule sc) \<le> sc_cursor sc then (None, sc)
      else (Some (thread (sc_schedule sc ! sc_cursor sc)), sc\<lparr>sc_cursor := sc_cursor sc + 1\<rparr>))"

definition peek_step :: "scheduler \<Rightarrow> schedule_step option" where
  "peek_step sc = (if sc_cursor sc < length (sc_schedule sc) then Some (sc_schedule sc ! sc_cursor sc) else None)"

definition is_done :: "scheduler \<Rightarrow> bool" where
  "is_done sc = (length (sc_schedule sc) \<le> sc_cursor sc)"

definition record_step :: "schedule_step \<Rightarrow> scheduler \<Rightarrow> scheduler" where
  "record_step s sc =
     (if sc_cursor sc = length (sc_schedule sc)
      then sc\<lparr>sc_schedule := sc_schedule sc @ [s], sc_cursor := sc_cursor sc + 1\<rparr> else sc)"

section \<open>Lock states and simulation\<close>

record lock_state =
  held_by :: "(nat, nat) hmap"
  waiting_for :: "(nat, nat) hmap"

definition lock_state_default :: lock_state where
  "lock_state_default = \<lparr>held_by = [], waiting_for = []\<rparr>"

definition try_acquire :: "nat \<Rightarrow> nat \<Rightarrow> lock_state \<Rightarrow> bool \<times> lock_state" where
  "try_acquire t l ls =
     (let take_it = (True, \<lparr>held_by = hm_put l t (held_by ls), waiting_for = hm_del t (waiting_for ls)\<rparr>)
      in case hm_get (held_by ls) l of
           None \<Rightarrow> take_it
         | Some holder \<Rightarrow>
             if holder \<noteq> t then (False, ls\<lparr>waiting_for := hm_put t l (waiting_for ls)\<rparr>) else take_it)"

definition release_lock :: "nat \<Rightarrow> nat \<Rightarrow> lock_state \<Rightarrow> lock_state" where
  "release_lock t l ls =
     (if hm_get (held_by ls) l = Some t then ls\<lparr>held_by := hm_del l (held_by ls)\<rparr> else ls)"

definition is_deadlocked :: "nat list \<Rightarrow> lock_state \<Rightarrow> bool" where
  "is_deadlocked ts ls = (ts \<noteq> [] \<and> list_all (\<lambda>t. hm_get (waiting_for ls) t \<noteq> None) ts)"

definition waiting_threads :: "lock_state \<Rightarrow> nat list" where
  "waiting_threads ls = hm_keys (waiting_for ls)"

datatype run_outcome =
    Clean
  | Deadlock "nat list"
  | Panic nat string
  | AssertionFailure string
  | Incomplete "nat list"

fun simulate_from :: "lock_state \<Rightarrow> nat list \<Rightarrow> schedule \<Rightarrow> run_outcome" where
  "simulate_from ls exited [] =
     (if waiting_threads ls \<noteq> [] then Deadlock (waiting_threads ls) else Clean)"
| "simulate_from ls exited (s # ss) =
     (case kind s of
        Acquire l \<Rightarrow>
          (case try_acquire (thread s) l ls of
             (True, ls') \<Rightarrow> simulate_from ls' exited ss
           | (False, ls') \<Rightarrow>
               (if is_deadlocked (waiting_threads ls') ls' then Deadlock (waiting_threads ls')
                else simulate_from ls' exited ss))
      | Release l \<Rightarrow> simulate_from (release_lock (thread s) l ls) exited ss
      | Exit_thread \<Rightarrow> simulate_from ls (List.insert (thread s) exited) ss
      | _ \<Rightarrow> simulate_from ls exited ss)"

definition simulate :: "schedule \<Rightarrow> run_outcome" where
  "simulate steps = simulate_from lock_state_default [] steps"

section \<open>The explorer\<close>

datatype exploration_strategy = Random "64 word" | Exhaustive | PartialOrder

record explorer =
  ex_thread_count :: nat
  ex_steps :: nat
  ex_strategy :: exploration_strategy
  ex_rng_state :: "64 word"
  ex_cursor :: nat

definition explorer_new :: "nat \<Rightarrow> nat \<Rightarrow> exploration_strategy \<Rightarrow> explorer" where
  "explorer_new threads steps strategy =
     \<lparr>ex_thread_count = threads, ex_steps = steps, ex_strategy = strategy,
      ex_rng_state = (case strategy of Random seed \<Rightarrow> seed | _ \<Rightarrow> 42), ex_cursor = 0\<rparr>"

definition xorshift :: "64 word \<Rightarrow> 64 word" where
  "xorshift x0 =
     (let x1 = x0 XOR push_bit 13 x0;
          x2 = x1 XOR drop_bit 7 x1
      in x2 XOR push_bit 17 x2)"

text \<open>One random step: two draws, the lock counter, and the new generator state.\<close>

definition random_step :: "nat \<Rightarrow> nat \<Rightarrow> 64 word \<Rightarrow> schedule_step \<times> nat \<times> 64 word" where
  "random_step threads lock_counter rng =
     (let r1 = xorshift rng;
          r2 = xorshift r1;
          t = unat r1 mod threads;
          c = unat r2 mod 4;
          (k, lock_counter') =
            (if c = 0 then (Compute, lock_counter)
             else if c = 1 then (Acquire (lock_counter mod 4), lock_counter)
             else if c = 2 then
               (Release (if lock_counter = 0 then 0 else (lock_counter - 1) mod 4), lock_counter - 1)
             else (Acquire ((lock_counter + 1) mod 4), lock_counter + 1))
      in (\<lparr>thread = t, kind = k\<rparr>, lock_counter', r2))"

fun random_steps :: "nat \<Rightarrow> nat \<Rightarrow> nat \<Rightarrow> 64 word \<Rightarrow> schedule \<times> 64 word" where
  "random_steps threads 0 lock_counter rng = ([], rng)"
| "random_steps threads (Suc n) lock_counter rng =
     (case random_step threads lock_counter rng of
        (s, lock_counter', rng') \<Rightarrow>
          (case random_steps threads n lock_counter' rng' of (ss, rng'') \<Rightarrow> (s # ss, rng'')))"

fun nth_steps :: "nat \<Rightarrow> nat \<Rightarrow> nat \<Rightarrow> schedule" where
  "nth_steps threads 0 idx = []"
| "nth_steps threads (Suc n) idx =
     \<lparr>thread = idx mod threads, kind = Compute\<rparr> # nth_steps threads n (idx div threads)"

definition nth_schedule :: "explorer \<Rightarrow> nat \<Rightarrow> schedule" where
  "nth_schedule ex n = nth_steps (ex_thread_count ex) (ex_steps ex) n"

definition next_schedule :: "explorer \<Rightarrow> (schedule \<times> explorer) option" where
  "next_schedule ex =
     (if ex_thread_count ex = 0 \<and> 0 < ex_steps ex then None
      else Some (case ex_strategy ex of
                   Exhaustive \<Rightarrow> (nth_schedule ex (ex_cursor ex), ex\<lparr>ex_cursor := ex_cursor ex + 1\<rparr>)
                 | _ \<Rightarrow>
                     (case random_steps (ex_thread_count ex) (ex_steps ex) 0 (ex_rng_state ex) of
                        (s, rng) \<Rightarrow> (s, ex\<lparr>ex_rng_state := rng\<rparr>))))"

text \<open>The first \<open>n\<close> schedules an explorer yields.\<close>

fun schedules :: "nat \<Rightarrow> explorer \<Rightarrow> schedule list option" where
  "schedules 0 ex = Some []"
| "schedules (Suc n) ex =
     (case next_schedule ex of
        None \<Rightarrow> None
      | Some (s, ex') \<Rightarrow> map_option ((#) s) (schedules n ex'))"

text \<open>
  The loop of \<open>perturb_schedules\<close>; every round adds at least one schedule, so it ends.
\<close>

function perturb_loop :: "nat \<Rightarrow> schedule list \<Rightarrow> schedule list \<Rightarrow> schedule list" where
  "perturb_loop wanted results layer =
     (if length results < wanted then
        (let next = concat (map swap_adjacent_pairs layer)
         in if next = [] then results else perturb_loop wanted (results @ next) next)
      else results)"
  by pat_completeness auto
termination
  by (relation "measure (\<lambda>(wanted, results, layer). wanted - length results)") (auto simp del: concat_eq_Nil_conv intro!: diff_less_mono2)

declare perturb_loop.simps [simp del]

definition perturb_schedules :: "schedule \<Rightarrow> nat \<Rightarrow> schedule list" where
  "perturb_schedules seed wanted =
     take wanted (perturb_loop wanted (swap_adjacent_pairs seed) (swap_adjacent_pairs seed))"

section \<open>The simulation finds contention\<close>

text \<open>Who holds a lock after a sequence of steps without contention: the specification.\<close>

definition own_step :: "nat \<Rightarrow> nat option \<Rightarrow> schedule_step \<Rightarrow> nat option" where
  "own_step l owner s =
     (if kind s = Acquire l then Some (thread s)
      else if kind s = Release l \<and> owner = Some (thread s) then None
      else owner)"

definition owner_after :: "nat \<Rightarrow> schedule \<Rightarrow> nat option" where
  "owner_after l steps = foldl (own_step l) None steps"

definition contends :: "(nat \<Rightarrow> nat option) \<Rightarrow> schedule_step \<Rightarrow> bool" where
  "contends owners s =
     (case kind s of
        Acquire l \<Rightarrow> (case owners l of None \<Rightarrow> False | Some h \<Rightarrow> h \<noteq> thread s)
      | _ \<Rightarrow> False)"

fun first_contender :: "(nat \<Rightarrow> nat option) \<Rightarrow> schedule \<Rightarrow> nat option" where
  "first_contender owners [] = None"
| "first_contender owners (s # ss) =
     (if contends owners s then Some (thread s) else first_contender (\<lambda>l. own_step l (owners l) s) ss)"

lemma hm_one [simp]:
  "hm_put k v [] = [(k, v)]" "hm_get [(k, v)] k = Some v" "hm_keys [(k, v)] = [k]" "hm_del k [] = []"
  by (simp_all add: hm_put_def hm_get_def hm_keys_def hm_del_def)

lemma simulate_from_exact:
  assumes "waiting_for ls = []"
  shows "simulate_from ls exited steps =
    (case first_contender (hm_get (held_by ls)) steps of None \<Rightarrow> Clean | Some t \<Rightarrow> Deadlock [t])"
  using assms
proof (induction steps arbitrary: ls exited)
  case Nil
  then show ?case by (simp add: waiting_threads_def hm_keys_def)
next
  case (Cons s ss)
  let ?own = "\<lambda>l. own_step l (hm_get (held_by ls) l) s"
  show ?case
  proof (cases "contends (hm_get (held_by ls)) s")
    case True
    then obtain l h where "kind s = Acquire l" "hm_get (held_by ls) l = Some h" "h \<noteq> thread s"
      by (auto simp: contends_def split: step_kind.splits option.splits)
    then show ?thesis using True Cons.prems
      by (simp add: try_acquire_def Let_def is_deadlocked_def waiting_threads_def)
  next
    case False
    show ?thesis
    proof (cases "kind s")
      case (Acquire l)
      let ?ls = "\<lparr>held_by = hm_put l (thread s) (held_by ls), waiting_for = []\<rparr>"
      have "try_acquire (thread s) l ls = (True, ?ls)"
        using False Acquire Cons.prems by (auto simp: try_acquire_def contends_def Let_def split: option.splits)
      moreover have "hm_get (held_by ?ls) = ?own"
        by (auto simp: hm.get_put own_step_def Acquire fun_eq_iff)
      ultimately show ?thesis using Cons.IH[of ?ls] False Acquire by simp
    next
      case (Release l)
      have "hm_get (held_by (release_lock (thread s) l ls)) = ?own"
        by (auto simp: release_lock_def hm.get_del own_step_def Release fun_eq_iff)
      moreover have "waiting_for (release_lock (thread s) l ls) = []"
        using Cons.prems by (simp add: release_lock_def)
      ultimately show ?thesis using Cons.IH[of "release_lock (thread s) l ls"] False Release by simp
    qed (use Cons False in \<open>simp_all add: own_step_def\<close>)
  qed
qed

lemma first_contender_None:
  "first_contender owners steps = None \<longleftrightarrow>
     \<not> (\<exists>before l t after h. steps = before @ \<lparr>thread = t, kind = Acquire l\<rparr> # after
           \<and> foldl (own_step l) (owners l) before = Some h \<and> h \<noteq> t)"
proof (induction steps arbitrary: owners)
  case (Cons s ss)
  have now: "contends owners s \<longleftrightarrow>
      (\<exists>l t h. s = \<lparr>thread = t, kind = Acquire l\<rparr> \<and> owners l = Some h \<and> h \<noteq> t)"
    by (cases s) (auto simp: contends_def split: step_kind.splits option.splits)
  have split: "(\<exists>before l t after h. s # ss = before @ \<lparr>thread = t, kind = Acquire l\<rparr> # after
           \<and> foldl (own_step l) (owners l) before = Some h \<and> h \<noteq> t) \<longleftrightarrow>
      contends owners s \<or> (\<exists>before l t after h. ss = before @ \<lparr>thread = t, kind = Acquire l\<rparr> # after
           \<and> foldl (own_step l) (own_step l (owners l) s) before = Some h \<and> h \<noteq> t)" (is "?L \<longleftrightarrow> _ \<or> ?R")
  proof
    assume ?L
    then obtain before l t after h where b: "s # ss = before @ \<lparr>thread = t, kind = Acquire l\<rparr> # after"
      "foldl (own_step l) (owners l) before = Some h" "h \<noteq> t" by blast
    show "contends owners s \<or> ?R"
    proof (cases before)
      case Nil
      with b show ?thesis unfolding now by auto
    next
      case (Cons x xs)
      with b have "ss = xs @ \<lparr>thread = t, kind = Acquire l\<rparr> # after"
        "foldl (own_step l) (own_step l (owners l) s) xs = Some h" by auto
      with b(3) show ?thesis by blast
    qed
  next
    assume "contends owners s \<or> ?R"
    then show ?L
    proof
      assume "contends owners s"
      then obtain l t h where "s = \<lparr>thread = t, kind = Acquire l\<rparr>" "owners l = Some h" "h \<noteq> t"
        unfolding now by blast
      then have "s # ss = [] @ \<lparr>thread = t, kind = Acquire l\<rparr> # ss" "foldl (own_step l) (owners l) [] = Some h" "h \<noteq> t"
        by simp_all
      then show ?L by blast
    next
      assume ?R
      then obtain before l t after h where "ss = before @ \<lparr>thread = t, kind = Acquire l\<rparr> # after"
        "foldl (own_step l) (own_step l (owners l) s) before = Some h" "h \<noteq> t" by blast
      then have "s # ss = (s # before) @ \<lparr>thread = t, kind = Acquire l\<rparr> # after"
        "foldl (own_step l) (owners l) (s # before) = Some h" "h \<noteq> t" by simp_all
      then show ?L by blast
    qed
  qed
  from Cons.IH[of "\<lambda>l. own_step l (owners l) s"] show ?case unfolding split by simp
qed simp

text \<open>
  The simulation reports exactly contention. Its answer is \<open>Deadlock\<close>, with the one thread
  that has to wait, as soon as a step acquires a lock that another thread holds, and \<open>Clean\<close>
  otherwise; no other outcome is ever produced. In particular a schedule whose holder releases the
  lock later is reported as a deadlock all the same.
\<close>
theorem simulation_reports_contention:
  "simulate steps = (case first_contender (\<lambda>_. None) steps of None \<Rightarrow> Clean | Some t \<Rightarrow> Deadlock [t])
   \<and> (simulate steps = Clean \<longleftrightarrow>
        \<not> (\<exists>before l t after h. steps = before @ \<lparr>thread = t, kind = Acquire l\<rparr> # after
              \<and> owner_after l before = Some h \<and> h \<noteq> t))"
proof
  have d: "hm_get (held_by lock_state_default) = (\<lambda>_. None)" by (simp add: lock_state_default_def fun_eq_iff)
  show sim: "simulate steps = (case first_contender (\<lambda>_. None) steps of None \<Rightarrow> Clean | Some t \<Rightarrow> Deadlock [t])"
    using simulate_from_exact[of lock_state_default "[]" steps] by (simp add: simulate_def d) (simp add: lock_state_default_def)
  from first_contender_None[of "\<lambda>_. None" steps]
  show "simulate steps = Clean \<longleftrightarrow>
        \<not> (\<exists>before l t after h. steps = before @ \<lparr>thread = t, kind = Acquire l\<rparr> # after
              \<and> owner_after l before = Some h \<and> h \<noteq> t)"
    unfolding sim owner_after_def by (auto split: option.splits)
qed

text \<open>Three steps that no execution deadlocks on.\<close>

lemma contention_is_not_deadlock:
  "simulate [\<lparr>thread = 0, kind = Acquire 0\<rparr>, \<lparr>thread = 1, kind = Acquire 0\<rparr>, \<lparr>thread = 0, kind = Release 0\<rparr>]
     = Deadlock [1]"
  by code_simp

section \<open>The exhaustive strategy\<close>

definition encode :: "nat \<Rightarrow> schedule \<Rightarrow> nat" where
  "encode threads ss = foldr (\<lambda>s acc. thread s + threads * acc) ss 0"

definition plain_schedule :: "nat \<Rightarrow> nat \<Rightarrow> schedule \<Rightarrow> bool" where
  "plain_schedule threads m ss \<longleftrightarrow> length ss = m \<and> list_all (\<lambda>s. thread s < threads \<and> kind s = Compute) ss"

lemma nth_steps_plain: "0 < threads \<Longrightarrow> plain_schedule threads m (nth_steps threads m n)"
  by (induction threads m n rule: nth_steps.induct) (auto simp: plain_schedule_def)

lemma encode_nth_steps: "n < threads ^ m \<Longrightarrow> encode threads (nth_steps threads m n) = n"
proof (induction threads m n rule: nth_steps.induct)
  case (2 threads m n)
  have "n div threads < threads ^ m"
    using 2(2) by (metis less_mult_imp_div_less mult.commute power_Suc)
  with 2(1) show ?case by (simp add: encode_def)
qed (simp add: encode_def)

lemma nth_steps_encode: "plain_schedule threads m ss \<Longrightarrow> nth_steps threads m (encode threads ss) = ss"
  by (induction ss arbitrary: m) (auto simp: plain_schedule_def encode_def)

lemma encode_bound: "plain_schedule threads m ss \<Longrightarrow> encode threads ss < threads ^ m"
proof (induction ss arbitrary: m)
  case (Cons s ss)
  then obtain m' where m: "m = Suc m'" "plain_schedule threads m' ss" "thread s < threads"
    by (auto simp: plain_schedule_def)
  have "encode threads ss + 1 \<le> threads ^ m'" using Cons.IH[OF m(2)] by simp
  then have "threads * (encode threads ss + 1) \<le> threads * threads ^ m'" by (rule mult_le_mono2)
  with m(3) show ?case by (simp add: encode_def m(1))
qed (simp add: plain_schedule_def encode_def)

lemma schedules_exhaustive:
  assumes "ex_strategy ex = Exhaustive" "0 < ex_thread_count ex"
  shows "schedules n ex = Some (map (nth_schedule ex) [ex_cursor ex..<ex_cursor ex + n])"
  using assms
proof (induction n arbitrary: ex)
  case (Suc n)
  let ?ex = "ex\<lparr>ex_cursor := ex_cursor ex + 1\<rparr>"
  have same: "nth_schedule ?ex = nth_schedule ex" by (simp add: nth_schedule_def fun_eq_iff)
  have "[ex_cursor ex..<ex_cursor ex + Suc n] = ex_cursor ex # [ex_cursor ex + 1..<ex_cursor ex + 1 + n]"
    by (simp add: upt_conv_Cons)
  with Suc.IH[of ?ex] Suc.prems same show ?case by (simp add: next_schedule_def)
qed simp

text \<open>
  The exhaustive strategy is exhaustive: the first \<open>threads ^ steps\<close> schedules are pairwise
  different and are exactly the interleavings of that length, each as a sequence of computing
  steps.
\<close>
theorem exhaustive_exploration:
  assumes "0 < threads"
  shows "\<exists>ss. schedules (threads ^ m) (explorer_new threads m Exhaustive) = Some ss \<and> distinct ss
    \<and> set ss = {s. length s = m \<and> list_all (\<lambda>x. thread x < threads \<and> kind x = Compute) s}"
proof -
  let ?ex = "explorer_new threads m Exhaustive"
  let ?f = "nth_steps threads m"
  have s: "schedules (threads ^ m) ?ex = Some (map ?f [0..<threads ^ m])"
    using schedules_exhaustive[of ?ex "threads ^ m"] assms
    by (simp add: explorer_new_def nth_schedule_def[abs_def])
  have "inj_on ?f {0..<threads ^ m}"
    by (rule inj_on_inverseI[where g = "encode threads"]) (simp add: encode_nth_steps)
  then have "distinct (map ?f [0..<threads ^ m])" by (simp add: distinct_map)
  moreover have "set (map ?f [0..<threads ^ m]) = {s. plain_schedule threads m s}"
  proof
    show "set (map ?f [0..<threads ^ m]) \<subseteq> {s. plain_schedule threads m s}"
      using nth_steps_plain[OF assms] by auto
    show "{s. plain_schedule threads m s} \<subseteq> set (map ?f [0..<threads ^ m])"
    proof
      fix s assume "s \<in> {s. plain_schedule threads m s}"
      then have "s = ?f (encode threads s)" "encode threads s < threads ^ m"
        using nth_steps_encode encode_bound by auto
      then show "s \<in> set (map ?f [0..<threads ^ m])" by (metis atLeast0LessThan image_eqI lessThan_iff set_map set_upt)
    qed
  qed
  ultimately show ?thesis using s by (simp add: plain_schedule_def)
qed

lemma exhaustive_exploration_witness:
  "\<exists>ss. schedules 8 (explorer_new 2 3 Exhaustive) = Some ss \<and> distinct ss"
  using exhaustive_exploration[of 2 3] by auto

section \<open>Perturbed schedules\<close>

definition program_order :: "nat \<Rightarrow> schedule \<Rightarrow> schedule" where
  "program_order t ss = filter (\<lambda>s. thread s = t) ss"

definition reorders :: "schedule \<Rightarrow> schedule \<Rightarrow> bool" where
  "reorders ss ss' \<longleftrightarrow> mset ss' = mset ss \<and> (\<forall>t. program_order t ss' = program_order t ss)"

lemma reorders_refl: "reorders ss ss"
  by (simp add: reorders_def)

lemma reorders_trans: "reorders a b \<Longrightarrow> reorders b c \<Longrightarrow> reorders a c"
  by (simp add: reorders_def)

lemma swap_at_split:
  assumes "Suc i < length xs"
  shows "xs = take i xs @ xs ! i # xs ! Suc i # drop (i + 2) xs"
    "swap_at i xs = take i xs @ xs ! Suc i # xs ! i # drop (i + 2) xs"
proof -
  show e: "xs = take i xs @ xs ! i # xs ! Suc i # drop (i + 2) xs"
    using assms by (metis Cons_nth_drop_Suc Suc_lessD add_2_eq_Suc' append_take_drop_id)
  have "length (take i xs) = i" using assms by simp
  then have "(take i xs @ a # b # ys)[i := c, Suc i := d] = take i xs @ c # d # ys" for a b c d ys
    by (simp add: list_update_append)
  from this[of "xs ! i" "xs ! Suc i" "drop (i + 2) xs"] e
  show "swap_at i xs = take i xs @ xs ! Suc i # xs ! i # drop (i + 2) xs"
    unfolding swap_at_def by metis
qed

lemma swap_reorders:
  assumes "Suc i < length ss" "thread (ss ! i) \<noteq> thread (ss ! Suc i)"
  shows "reorders ss (swap_at i ss)"
proof -
  let ?a = "ss ! i" and ?b = "ss ! Suc i" and ?l = "take i ss" and ?r = "drop (i + 2) ss"
  have "mset (?l @ ?b # ?a # ?r) = mset (?l @ ?a # ?b # ?r)" by simp
  moreover have "program_order t (?l @ ?b # ?a # ?r) = program_order t (?l @ ?a # ?b # ?r)" for t
    using assms(2) by (auto simp: program_order_def)
  ultimately show ?thesis
    using swap_at_split[OF assms(1)] unfolding reorders_def by metis
qed

lemma swap_adjacent_reorders: "ss' \<in> set (swap_adjacent_pairs ss) \<Longrightarrow> reorders ss ss'"
  by (auto simp: swap_adjacent_pairs_def intro!: swap_reorders)

lemma swap_adjacent_again:
  assumes "ss' \<in> set (swap_adjacent_pairs ss)"
  shows "swap_adjacent_pairs ss' \<noteq> []"
proof -
  from assms obtain i where "i < length ss - 1" "thread (ss ! i) \<noteq> thread (ss ! Suc i)" "ss' = swap_at i ss"
    unfolding swap_adjacent_pairs_def by auto
  then have i: "Suc i < length ss" "thread (ss ! i) \<noteq> thread (ss ! Suc i)" "ss' = swap_at i ss" by simp_all
  have "length ss' = length ss" "ss' ! i = ss ! Suc i" "ss' ! Suc i = ss ! i"
    using i by (simp_all add: swap_at_def)
  with i(1,2) have "i \<in> set [0..<length ss' - 1]" "thread (ss' ! i) \<noteq> thread (ss' ! Suc i)" by simp_all
  then show ?thesis by (auto simp: swap_adjacent_pairs_def filter_empty_conv simp del: set_upt)
qed

lemma perturb_loop_reorders:
  assumes "\<forall>s \<in> set results \<union> set layer. reorders seed s" "s \<in> set (perturb_loop wanted results layer)"
  shows "reorders seed s"
  using assms
proof (induction wanted results layer rule: perturb_loop.induct)
  case (1 wanted results layer)
  let ?next = "concat (map swap_adjacent_pairs layer)"
  have "\<forall>s \<in> set ?next. reorders seed s"
    using 1(2) swap_adjacent_reorders reorders_trans by fastforce
  with 1(2) have all: "\<forall>s \<in> set (results @ ?next) \<union> set ?next. reorders seed s" by auto
  have "perturb_loop wanted results layer =
      (if length results < wanted \<and> ?next \<noteq> [] then perturb_loop wanted (results @ ?next) ?next else results)"
    by (subst perturb_loop.simps) (simp add: Let_def del: concat_eq_Nil_conv)
  with 1(1)[OF _ refl _ all] 1(2,3) show ?case by (auto simp del: concat_eq_Nil_conv split: if_splits)
qed

lemma perturb_loop_length:
  assumes "layer \<noteq> []" "\<forall>s \<in> set layer. swap_adjacent_pairs s \<noteq> []"
  shows "wanted \<le> length (perturb_loop wanted results layer)"
  using assms
proof (induction wanted results layer rule: perturb_loop.induct)
  case (1 wanted results layer)
  let ?next = "concat (map swap_adjacent_pairs layer)"
  have n: "?next \<noteq> []" "\<forall>s \<in> set ?next. swap_adjacent_pairs s \<noteq> []"
    using 1(2,3) swap_adjacent_again by (auto simp: neq_Nil_conv)
  show ?case
  proof (cases "length results < wanted")
    case True
    with 1(1)[OF True refl n(1) n] n show ?thesis by (subst perturb_loop.simps) (simp add: Let_def del: concat_eq_Nil_conv)
  next
    case False
    then show ?thesis by (subst perturb_loop.simps) simp
  qed
qed

text \<open>
  Perturbation only reorders across threads: every schedule it yields has the same steps as
  the seed and keeps the program order of every thread, at most as many are returned as asked
  for, and exactly as many whenever two neighbouring steps belong to different threads. The loop
  always ends.
\<close>
theorem perturbation_keeps_program_order:
  "(\<forall>s \<in> set (perturb_schedules seed n). mset s = mset seed \<and> (\<forall>t. program_order t s = program_order t seed))
   \<and> length (perturb_schedules seed n) \<le> n
   \<and> (swap_adjacent_pairs seed \<noteq> [] \<longrightarrow> length (perturb_schedules seed n) = n)"
proof (intro conjI impI)
  let ?l = "swap_adjacent_pairs seed"
  have "\<forall>s \<in> set ?l \<union> set ?l. reorders seed s" using swap_adjacent_reorders by auto
  from perturb_loop_reorders[OF this] show "\<forall>s \<in> set (perturb_schedules seed n).
      mset s = mset seed \<and> (\<forall>t. program_order t s = program_order t seed)"
    by (auto simp: perturb_schedules_def reorders_def dest!: in_set_takeD)
  show "length (perturb_schedules seed n) \<le> n" by (simp add: perturb_schedules_def)
  show "length (perturb_schedules seed n) = n" if "?l \<noteq> []"
    using perturb_loop_length[OF that, of n ?l] swap_adjacent_again by (simp add: perturb_schedules_def min_def)
qed

lemma perturbation_keeps_program_order_witness:
  "let seed = [\<lparr>thread = 0, kind = Acquire 0\<rparr>, \<lparr>thread = 1, kind = Acquire 1\<rparr>, \<lparr>thread = 0, kind = Release 0\<rparr>]
   in length (perturb_schedules seed 5) = 5"
proof -
  let ?seed = "[\<lparr>thread = 0, kind = Acquire 0\<rparr>, \<lparr>thread = 1, kind = Acquire 1\<rparr>, \<lparr>thread = 0, kind = Release 0\<rparr>]"
  have "swap_adjacent_pairs ?seed \<noteq> []" by (simp add: swap_adjacent_pairs_def upt_conv_Cons)
  with perturbation_keeps_program_order[of ?seed 5] show ?thesis by (simp add: Let_def)
qed

end
