(* ===== verification/LockGraph.thy ===== *)
theory LockGraph
  imports Rust_Strings
begin

text \<open>
  The lock-order analysis \<open>crates/aether-lockgraph\<close>: the graph and its cycle search (\<open>graph.rs\<close>), the
  recorder of lock events (\<open>recorder.rs\<close>) and the scan of a source file for runs of \<open>.lock()\<close> calls
  (\<open>parser.rs\<close>, with the regex match as a parameter). Thread and lock ids are natural numbers. The
  set \<open>on_stack\<close> of the search is written but never read, so it is left out.
\<close>

section \<open>The graph\<close>

record lock_node =
  ln_id :: nat
  ln_name :: string

record lock_order_edge =
  le_from :: nat
  le_to :: nat
  observed_on_thread :: nat
  le_context :: "string option"

record cycle =
  lock_ids :: "nat list"
  lock_names :: "string list"

record lock_graph =
  lg_nodes :: "lock_node list"
  lg_edges :: "lock_order_edge list"

definition lock_graph_default :: lock_graph where
  "lock_graph_default = \<lparr>lg_nodes = [], lg_edges = []\<rparr>"

definition add_node :: "nat \<Rightarrow> string \<Rightarrow> lock_graph \<Rightarrow> lock_graph" where
  "add_node i name g =
     (if \<not> list_ex (\<lambda>n. ln_id n = i) (lg_nodes g)
      then g\<lparr>lg_nodes := lg_nodes g @ [\<lparr>ln_id = i, ln_name = name\<rparr>]\<rparr> else g)"

definition add_edge :: "nat \<Rightarrow> nat \<Rightarrow> nat \<Rightarrow> lock_graph \<Rightarrow> lock_graph" where
  "add_edge a b t g =
     (if \<not> list_ex (\<lambda>e. le_from e = a \<and> le_to e = b) (lg_edges g)
      then g\<lparr>lg_edges := lg_edges g @ [\<lparr>le_from = a, le_to = b, observed_on_thread = t, le_context = None\<rparr>]\<rparr>
      else g)"

section \<open>The recorder\<close>

datatype lock_event = Acquire nat nat string | Release nat nat

record recorder =
  rc_events :: "lock_event list"
  rc_held :: "(nat, nat list) hmap"
  rc_names :: "(nat, string) hmap"

definition recorder_new :: recorder where
  "recorder_new = \<lparr>rc_events = [], rc_held = [], rc_names = []\<rparr>"

definition drop_lock :: "nat \<Rightarrow> nat \<Rightarrow> (nat, nat list) hmap \<Rightarrow> (nat, nat list) hmap" where
  "drop_lock t l held =
     (case hm_get held t of
        None \<Rightarrow> held
      | Some stack \<Rightarrow> hm_put t (filter (\<lambda>i. i \<noteq> l) stack) held)"

definition record_event :: "lock_event \<Rightarrow> recorder \<Rightarrow> recorder" where
  "record_event ev r =
     (let r1 = (case ev of
                  Acquire t l name \<Rightarrow>
                    r\<lparr>rc_names := hm_put l name (rc_names r),
                      rc_held := hm_entry t [] (\<lambda>stack. stack @ [l]) (rc_held r)\<rparr>
                | Release t l \<Rightarrow> r\<lparr>rc_held := drop_lock t l (rc_held r)\<rparr>)
      in r1\<lparr>rc_events := rc_events r1 @ [ev]\<rparr>)"

fun build_step :: "lock_event \<Rightarrow> lock_graph \<times> (nat, nat list) hmap \<Rightarrow> lock_graph \<times> (nat, nat list) hmap" where
  "build_step (Acquire t l name) (g, held) =
     (let stack = (case hm_get held t of None \<Rightarrow> [] | Some s \<Rightarrow> s)
      in (fold (\<lambda>h. add_edge h l t) stack (add_node l name g), hm_put t (stack @ [l]) held))"
| "build_step (Release t l) (g, held) = (g, drop_lock t l held)"

definition build_graph :: "lock_event list \<Rightarrow> lock_graph" where
  "build_graph events = fst (fold build_step events (lock_graph_default, []))"

section \<open>The cycle search\<close>

definition neighbours :: "(nat, nat list) hmap \<Rightarrow> nat \<Rightarrow> nat list" where
  "neighbours adj v = hm_values adj v"

definition adjacency :: "lock_order_edge list \<Rightarrow> (nat, nat list) hmap" where
  "adjacency es = hm_multi (map (\<lambda>e. (le_from e, le_to e)) es)"

definition add_cycle :: "(nat, string) hmap \<Rightarrow> nat list \<Rightarrow> cycle list \<Rightarrow> cycle list" where
  "add_cycle names stack cycles =
     (if list_ex (\<lambda>c. lock_ids c = stack) cycles then cycles
      else cycles @ [\<lparr>lock_ids = stack,
                      lock_names = map (\<lambda>i. case hm_get names i of Some n \<Rightarrow> n | None \<Rightarrow> ''?'') stack\<rparr>])"

text \<open>
  The loop of \<open>dfs_cycles\<close> over the neighbours of the top of the stack; the call of \<open>dfs_cycles\<close> on a
  new node is the inner application.
\<close>

function dfs_cycles ::
  "(nat, nat list) hmap \<Rightarrow> (nat, string) hmap \<Rightarrow> nat \<Rightarrow> nat list \<Rightarrow> nat list \<Rightarrow> nat list \<times> cycle list \<Rightarrow>
   nat list \<times> cycle list" where
  "dfs_cycles adj names start stack [] st = st"
| "dfs_cycles adj names start stack (nxt # ns) st =
     (if nxt = start \<and> 1 < length stack then
        dfs_cycles adj names start stack ns (fst st, add_cycle names stack (snd st))
      else if nxt \<notin> set (fst st) then
        dfs_cycles adj names start stack ns
          (dfs_cycles adj names start (stack @ [nxt]) (neighbours adj nxt) (nxt # fst st, snd st))
      else dfs_cycles adj names start stack ns st)"
  by pat_completeness auto

lemma dfs_visited_dom:
  "dfs_cycles_dom (adj, names, start, stack, ns, st) \<Longrightarrow>
     set (fst st) \<subseteq> set (fst (dfs_cycles adj names start stack ns st))"
  by (induction adj names start stack ns st rule: dfs_cycles.pinduct) (force simp: dfs_cycles.psimps)+

lemma neighbours_outside: "v \<notin> dom (hm_get adj) \<Longrightarrow> neighbours adj v = []"
  by (auto simp: neighbours_def hm_values_def dom_def split: option.splits)

lemma finite_adj [simp]: "finite (dom (hm_get adj))"
  by (simp add: hm_get_def[abs_def] finite_dom_map_of)

termination dfs_cycles
proof (relation "inv_image (finite_psubset <*lex*> less_than)
    (\<lambda>(adj, names, start, stack, ns, st). (dom (hm_get adj) - set (fst st), length ns))", goal_cases)
  case 1
  show ?case by (intro wf_inv_image wf_lex_prod wf_finite_psubset wf_less_than)
next
  case (2 adj names start stack nxt ns st)
  then show ?case by simp
next
  case (3 adj names start stack nxt ns st)
  then show ?case
    using neighbours_outside[of nxt adj] by (cases "nxt \<in> dom (hm_get adj)") (auto simp: finite_psubset_def)
next
  case (4 adj names start stack nxt ns st)
  from dfs_visited_dom[OF 4(3)] show ?case by (auto simp: finite_psubset_def)
next
  case (5 adj names start stack nxt ns st)
  then show ?case by simp
qed

definition search_from ::
  "(nat, nat list) hmap \<Rightarrow> (nat, string) hmap \<Rightarrow> nat \<Rightarrow> nat list \<times> cycle list \<Rightarrow> nat list \<times> cycle list" where
  "search_from adj names start st =
     (if start \<in> set (fst st) then st
      else dfs_cycles adj names start [start] (neighbours adj start) (start # fst st, snd st))"

definition find_cycles :: "lock_graph \<Rightarrow> cycle list" where
  "find_cycles g =
     snd (fold (search_from (adjacency (lg_edges g)) (fold (\<lambda>n. hm_put (ln_id n) (ln_name n)) (lg_nodes g) []))
       (map ln_id (lg_nodes g)) ([], []))"

section \<open>The source scan\<close>

record lock_seq =
  ls_locks :: "string list"
  line_start :: nat

fun scan_source_lines :: "(string \<Rightarrow> string option) \<Rightarrow> nat \<Rightarrow> string list \<Rightarrow> nat \<Rightarrow> string list \<Rightarrow> lock_seq list" where
  "scan_source_lines lock_of idx [] start current =
     (if 2 \<le> length current then [\<lparr>ls_locks = current, line_start = start\<rparr>] else [])"
| "scan_source_lines lock_of idx (l # ls) start current =
     (case lock_of l of
        Some name \<Rightarrow> scan_source_lines lock_of (Suc idx) ls (if current = [] then idx + 1 else start) (current @ [name])
      | None \<Rightarrow>
          (if 2 \<le> length current then [\<lparr>ls_locks = current, line_start = start\<rparr>] else [])
          @ scan_source_lines lock_of (Suc idx) ls start [])"

definition parse_lock_order :: "(string \<Rightarrow> string option) \<Rightarrow> string \<Rightarrow> lock_seq list" where
  "parse_lock_order lock_of source = scan_source_lines lock_of 0 (str_lines source) 0 []"

section \<open>The recorded order\<close>

definition edge_in :: "lock_graph \<Rightarrow> nat \<Rightarrow> nat \<Rightarrow> bool" where
  "edge_in g a b = list_ex (\<lambda>e. le_from e = a \<and> le_to e = b) (lg_edges g)"

text \<open>Thread \<open>t\<close> holds \<open>a\<close> after the events: acquired and not released since.\<close>

definition holds :: "nat \<Rightarrow> nat \<Rightarrow> lock_event list \<Rightarrow> bool" where
  "holds t a events \<longleftrightarrow> (\<exists>before name after. events = before @ Acquire t a name # after \<and> Release t a \<notin> set after)"

definition stack_of :: "(nat, nat list) hmap \<Rightarrow> nat \<Rightarrow> nat list" where
  "stack_of held t = (case hm_get held t of None \<Rightarrow> [] | Some s \<Rightarrow> s)"

lemma edge_in_add_edge: "edge_in (add_edge a b t g) x y \<longleftrightarrow> edge_in g x y \<or> (x = a \<and> y = b)"
  by (auto simp: add_edge_def edge_in_def)

lemma edge_in_fold: "edge_in (fold (\<lambda>h. add_edge h l t) hs g) x y \<longleftrightarrow> edge_in g x y \<or> (x \<in> set hs \<and> y = l)"
  by (induction hs arbitrary: g) (auto simp: edge_in_add_edge)

lemma edge_in_add_node [simp]: "edge_in (add_node i n g) x y = edge_in g x y"
  by (simp add: add_node_def edge_in_def)

lemma stack_of_drop:
  "stack_of (drop_lock t l held) u = (if u = t then filter (\<lambda>i. i \<noteq> l) (stack_of held t) else stack_of held u)"
  by (auto simp: stack_of_def drop_lock_def hm.get_put split: option.splits)

lemma holds_Nil [simp]: "\<not> holds t a []"
  by (simp add: holds_def)

lemma holds_snoc:
  "holds t a (events @ [ev]) \<longleftrightarrow>
     (\<exists>name. ev = Acquire t a name) \<or> (holds t a events \<and> ev \<noteq> Release t a)"
proof
  assume "holds t a (events @ [ev])"
  then obtain before name after where e: "events @ [ev] = before @ Acquire t a name # after" "Release t a \<notin> set after"
    unfolding holds_def by blast
  show "(\<exists>name. ev = Acquire t a name) \<or> (holds t a events \<and> ev \<noteq> Release t a)"
  proof (cases after rule: rev_cases)
    case Nil
    with e show ?thesis by simp
  next
    case (snoc as x)
    with e have "events = before @ Acquire t a name # as" "ev = x" by auto
    with e(2) snoc show ?thesis unfolding holds_def by auto
  qed
next
  assume "(\<exists>name. ev = Acquire t a name) \<or> (holds t a events \<and> ev \<noteq> Release t a)"
  then show "holds t a (events @ [ev])"
  proof
    assume "\<exists>name. ev = Acquire t a name"
    then obtain name where "events @ [ev] = events @ Acquire t a name # []" by auto
    then show ?thesis unfolding holds_def by (metis empty_iff empty_set)
  next
    assume h: "holds t a events \<and> ev \<noteq> Release t a"
    then obtain before name after where "events = before @ Acquire t a name # after" "Release t a \<notin> set after"
      unfolding holds_def by blast
    with h have "events @ [ev] = before @ Acquire t a name # (after @ [ev])" "Release t a \<notin> set (after @ [ev])"
      by auto
    then show ?thesis unfolding holds_def by blast
  qed
qed

definition ordered_by :: "lock_event list \<Rightarrow> nat \<Rightarrow> nat \<Rightarrow> bool" where
  "ordered_by events a b \<longleftrightarrow>
     (\<exists>before t name after. events = before @ Acquire t b name # after \<and> holds t a before)"

lemma ordered_by_snoc:
  "ordered_by (events @ [ev]) a b \<longleftrightarrow>
     ordered_by events a b \<or> (\<exists>t name. ev = Acquire t b name \<and> holds t a events)"
proof
  assume "ordered_by (events @ [ev]) a b"
  then obtain before t name after where e: "events @ [ev] = before @ Acquire t b name # after" "holds t a before"
    unfolding ordered_by_def by blast
  then show "ordered_by events a b \<or> (\<exists>t name. ev = Acquire t b name \<and> holds t a events)"
    unfolding ordered_by_def by (cases after rule: rev_cases) auto
next
  assume "ordered_by events a b \<or> (\<exists>t name. ev = Acquire t b name \<and> holds t a events)"
  then show "ordered_by (events @ [ev]) a b"
    unfolding ordered_by_def by (metis append.assoc append_Cons)
qed

lemma build_step_effect:
  assumes "build_step ev (g, held) = (g', held')"
  shows "edge_in g' a b \<longleftrightarrow> edge_in g a b \<or> (\<exists>t name. ev = Acquire t b name \<and> a \<in> set (stack_of held t))"
    "set (stack_of held' t) =
       (case ev of
          Acquire u l name \<Rightarrow> (if u = t then insert l (set (stack_of held t)) else set (stack_of held t))
        | Release u l \<Rightarrow> (if u = t then set (stack_of held t) - {l} else set (stack_of held t)))"
proof -
  show "edge_in g' a b \<longleftrightarrow> edge_in g a b \<or> (\<exists>t name. ev = Acquire t b name \<and> a \<in> set (stack_of held t))"
    using assms by (cases ev) (auto simp: edge_in_fold stack_of_def Let_def)
  show "set (stack_of held' t) =
       (case ev of
          Acquire u l name \<Rightarrow> (if u = t then insert l (set (stack_of held t)) else set (stack_of held t))
        | Release u l \<Rightarrow> (if u = t then set (stack_of held t) - {l} else set (stack_of held t)))"
  proof (cases ev)
    case (Acquire u l name)
    with assms show ?thesis by (auto simp: stack_of_def hm.get_put Let_def)
  next
    case (Release u l)
    with assms show ?thesis by (auto simp: stack_of_drop)
  qed
qed

lemma build_graph_snoc:
  "\<exists>g held. fold build_step events (lock_graph_default, []) = (g, held)
     \<and> (\<forall>a b. edge_in g a b \<longleftrightarrow> ordered_by events a b) \<and> (\<forall>t a. a \<in> set (stack_of held t) \<longleftrightarrow> holds t a events)"
proof (induction events rule: rev_induct)
  case Nil
  show ?case by (simp add: edge_in_def lock_graph_default_def ordered_by_def stack_of_def)
next
  case (snoc ev events)
  then obtain g held where IH: "fold build_step events (lock_graph_default, []) = (g, held)"
    "\<And>a b. edge_in g a b \<longleftrightarrow> ordered_by events a b" "\<And>t a. a \<in> set (stack_of held t) \<longleftrightarrow> holds t a events" by blast
  obtain g' held' where s: "build_step ev (g, held) = (g', held')" by fastforce
  have "fold build_step (events @ [ev]) (lock_graph_default, []) = (g', held')" by (simp add: IH(1) s)
  moreover have "edge_in g' a b \<longleftrightarrow> ordered_by (events @ [ev]) a b" for a b
    using build_step_effect(1)[OF s] by (simp add: IH(2,3) ordered_by_snoc)
  moreover have "a \<in> set (stack_of held' t) \<longleftrightarrow> holds t a (events @ [ev])" for a t
    using IH(3) unfolding build_step_effect(2)[OF s] holds_snoc by (cases ev) auto
  ultimately show ?case by blast
qed

text \<open>
  C10. The recorded graph is the observed lock order: there is an edge from \<open>a\<close> to \<open>b\<close> exactly when
  some thread acquired \<open>b\<close> while it held \<open>a\<close>, that is, after acquiring \<open>a\<close> and before releasing it.
\<close>
theorem recorded_order_is_exact:
  "edge_in (build_graph events) a b \<longleftrightarrow>
     (\<exists>before t name after. events = before @ Acquire t b name # after \<and> holds t a before)"
  unfolding ordered_by_def[symmetric] using build_graph_snoc[of events] by (auto simp: build_graph_def)

section \<open>What the search reports\<close>

definition edge_rel :: "(nat, nat list) hmap \<Rightarrow> nat \<Rightarrow> nat \<Rightarrow> bool" where
  "edge_rel adj a b \<longleftrightarrow> b \<in> set (neighbours adj a)"

definition genuine :: "(nat, nat list) hmap \<Rightarrow> nat list \<Rightarrow> bool" where
  "genuine adj c \<longleftrightarrow>
     2 \<le> length c \<and> distinct c \<and> successively (edge_rel adj) c \<and> edge_rel adj (last c) (hd c)"

definition all_genuine :: "(nat, nat list) hmap \<Rightarrow> cycle list \<Rightarrow> bool" where
  "all_genuine adj cs \<longleftrightarrow> list_all (\<lambda>c. genuine adj (lock_ids c)) cs \<and> distinct (map lock_ids cs)"

text \<open>The stack is a path from the start over visited nodes.\<close>

definition path_stack :: "(nat, nat list) hmap \<Rightarrow> nat \<Rightarrow> nat list \<Rightarrow> nat list \<Rightarrow> bool" where
  "path_stack adj start stack vis \<longleftrightarrow>
     stack \<noteq> [] \<and> hd stack = start \<and> distinct stack \<and> set stack \<subseteq> set vis \<and> successively (edge_rel adj) stack"

lemma dfs_visited: "set (fst st) \<subseteq> set (fst (dfs_cycles adj names start stack ns st))"
  by (induction adj names start stack ns st rule: dfs_cycles.induct) force+

lemma dfs_keeps_cycles: "snd st \<noteq> [] \<Longrightarrow> snd (dfs_cycles adj names start stack ns st) \<noteq> []"
  by (induction adj names start stack ns st rule: dfs_cycles.induct) (auto simp: add_cycle_def)

lemma path_stack_push:
  assumes "path_stack adj start stack vis" "edge_rel adj (last stack) nxt" "nxt \<notin> set vis"
  shows "path_stack adj start (stack @ [nxt]) (nxt # vis)"
  using assms by (auto simp: path_stack_def successively_append_iff)

lemma path_stack_mono: "path_stack adj start stack vis \<Longrightarrow> set vis \<subseteq> set vis' \<Longrightarrow> path_stack adj start stack vis'"
  by (auto simp: path_stack_def)

lemma add_cycle_genuine:
  "all_genuine adj cs \<Longrightarrow> genuine adj stack \<Longrightarrow> all_genuine adj (add_cycle names stack cs)"
  by (auto simp: all_genuine_def add_cycle_def list_ex_iff)

lemma dfs_genuine:
  assumes "path_stack adj start stack (fst st)" "\<forall>v \<in> set ns. edge_rel adj (last stack) v" "all_genuine adj (snd st)"
  shows "all_genuine adj (snd (dfs_cycles adj names start stack ns st))"
  using assms
proof (induction adj names start stack ns st rule: dfs_cycles.induct)
  case (2 adj names start stack nxt ns st)
  note prems = 2(5-7)
  show ?case
  proof (cases "nxt = start \<and> 1 < length stack")
    case True
    with prems have "genuine adj stack" by (auto simp: genuine_def path_stack_def)
    with add_cycle_genuine[OF prems(3)] 2(1)[OF True] prems True show ?thesis by simp
  next
    case False
    show ?thesis
    proof (cases "nxt \<in> set (fst st)")
      case True
      with 2(4)[OF False] prems False show ?thesis by auto
    next
      case new: False
      let ?inner = "dfs_cycles adj names start (stack @ [nxt]) (neighbours adj nxt) (nxt # fst st, snd st)"
      have p: "path_stack adj start (stack @ [nxt]) (nxt # fst st)"
        by (rule path_stack_push) (use prems new in simp_all)
      have "all_genuine adj (snd ?inner)"
        by (rule 2(2)[OF False new]) (use p prems in \<open>simp_all add: edge_rel_def\<close>)
      moreover have "path_stack adj start stack (fst ?inner)"
        by (rule path_stack_mono[OF prems(1)]) (use dfs_visited[of "(nxt # fst st, snd st)"] in auto)
      ultimately have "all_genuine adj (snd (dfs_cycles adj names start stack ns ?inner))"
        using prems(2) by (intro 2(3)[OF False new]) simp_all
      with False new show ?thesis by auto
    qed
  qed
qed simp

lemma find_cycles_genuine:
  "all_genuine adj (snd st) \<Longrightarrow> all_genuine adj (snd (fold (search_from adj names) starts st))"
proof (induction starts arbitrary: st)
  case (Cons v vs)
  have "all_genuine adj (snd (search_from adj names v st))"
    using dfs_genuine[of adj v "[v]" "(v # fst st, snd st)" "neighbours adj v" names] Cons.prems
    by (simp add: search_from_def path_stack_def edge_rel_def)
  from Cons.IH[OF this] show ?case by simp
qed simp

lemma neighbours_adjacency: "b \<in> set (neighbours (adjacency es) a) \<longleftrightarrow> (\<exists>e \<in> set es. le_from e = a \<and> le_to e = b)"
  by (auto simp: neighbours_def adjacency_def hm_values_multi image_iff)

lemma edge_rel_adjacency [simp]: "edge_rel (adjacency (lg_edges g)) a b = edge_in g a b"
  by (auto simp: edge_rel_def neighbours_adjacency edge_in_def list_ex_iff)

section \<open>The cycles the search cannot miss\<close>

text \<open>
  What a call has explored: every node it newly visited has all its neighbours visited, and if one
  of them is the start, a cycle was reported.
\<close>

definition explored :: "(nat, nat list) hmap \<Rightarrow> nat \<Rightarrow> nat set \<Rightarrow> nat list \<times> cycle list \<Rightarrow> bool" where
  "explored adj start vs st \<longleftrightarrow>
     (\<forall>v \<in> vs. \<forall>u. edge_rel adj v u \<longrightarrow> u \<in> set (fst st) \<and> (u = start \<longrightarrow> snd st \<noteq> []))"

lemma explored_mono:
  "explored adj start vs st \<Longrightarrow> set (fst st) \<subseteq> set (fst st') \<Longrightarrow> (snd st \<noteq> [] \<Longrightarrow> snd st' \<noteq> []) \<Longrightarrow> explored adj start vs st'"
  unfolding explored_def by blast

lemma dfs_explores:
  assumes "start \<in> set (fst st)" "stack \<noteq> []"
  shows "set ns \<subseteq> set (fst (dfs_cycles adj names start stack ns st))
    \<and> (start \<in> set ns \<and> 1 < length stack \<longrightarrow> snd (dfs_cycles adj names start stack ns st) \<noteq> [])
    \<and> explored adj start (set (fst (dfs_cycles adj names start stack ns st)) - set (fst st))
        (dfs_cycles adj names start stack ns st)"
  using assms
proof (induction adj names start stack ns st rule: dfs_cycles.induct)
  case (1 adj names start stack st)
  then show ?case by (simp add: explored_def)
next
  case (2 adj names start stack nxt ns st)
  note prems = 2(5,6)
  show ?case
  proof (cases "nxt = start \<and> 1 < length stack")
    case True
    let ?st = "(fst st, add_cycle names stack (snd st))"
    have ne: "snd ?st \<noteq> []" by (auto simp: add_cycle_def)
    note IH = 2(1)[OF True, simplified fst_conv, OF prems]
    have "start \<in> set (fst (dfs_cycles adj names start stack ns ?st))"
      using dfs_visited[of ?st adj names start stack ns] prems(1) by (simp add: subset_iff)
    with IH dfs_keeps_cycles[OF ne] True show ?thesis by simp
  next
    case False
    show ?thesis
    proof (cases "nxt \<in> set (fst st)")
      case True
      have "nxt \<in> set (fst (dfs_cycles adj names start stack ns st))" using dfs_visited[of st adj names start stack ns] True by blast
      with 2(4)[OF False _ prems] True False show ?thesis by auto
    next
      case new: False
      let ?in = "dfs_cycles adj names start (stack @ [nxt]) (neighbours adj nxt) (nxt # fst st, snd st)"
      let ?out = "dfs_cycles adj names start stack ns ?in"
      have I: "set (neighbours adj nxt) \<subseteq> set (fst ?in)" "start \<in> set (neighbours adj nxt) \<Longrightarrow> snd ?in \<noteq> []"
          "explored adj start (set (fst ?in) - insert nxt (set (fst st))) ?in"
        using 2(2)[OF False new] prems by simp_all
      have v: "insert nxt (set (fst st)) \<subseteq> set (fst ?in)" using dfs_visited[of "(nxt # fst st, snd st)"] by simp
      have O: "set ns \<subseteq> set (fst ?out)" "start \<in> set ns \<and> 1 < length stack \<longrightarrow> snd ?out \<noteq> []"
          "explored adj start (set (fst ?out) - set (fst ?in)) ?out"
        using 2(3)[OF False new] prems v by auto
      have w: "set (fst ?in) \<subseteq> set (fst ?out)" by (rule dfs_visited)
      have k: "snd ?in \<noteq> [] \<Longrightarrow> snd ?out \<noteq> []" by (rule dfs_keeps_cycles)
      have "explored adj start {nxt} ?in"
        using I(1,2) by (auto simp: explored_def edge_rel_def)
      then have "explored adj start {nxt} ?out" by (rule explored_mono[OF _ w k])
      moreover have "explored adj start (set (fst ?in) - insert nxt (set (fst st))) ?out"
        by (rule explored_mono[OF I(3) w k])
      ultimately have "explored adj start (set (fst ?out) - set (fst st)) ?out"
        using O(3) unfolding explored_def by blast
      moreover have "nxt \<in> set (fst ?out)" using v w by blast
      moreover have "nxt = start \<longrightarrow> \<not> 1 < length stack" using False by blast
      ultimately show ?thesis using False new O(1,2) by auto
    qed
  qed
qed

lemma search_keeps_cycles: "snd st \<noteq> [] \<Longrightarrow> snd (fold (search_from adj names) starts st) \<noteq> []"
  by (induction starts arbitrary: st) (auto simp: search_from_def dfs_keeps_cycles)

lemma first_search_finds:
  assumes "(edge_rel adj)\<^sup>*\<^sup>* start v" "v \<noteq> start" "edge_rel adj v start"
  shows "snd (search_from adj names start ([], [])) \<noteq> []"
proof -
  let ?r = "dfs_cycles adj names start [start] (neighbours adj start) ([start], [])"
  have e: "set (neighbours adj start) \<subseteq> set (fst ?r)" "explored adj start (set (fst ?r) - {start}) ?r"
    using dfs_explores[of start "([start], [])" "[start]" "neighbours adj start" adj names] by simp_all
  have s: "start \<in> set (fst ?r)" using dfs_visited[of "([start], [])" adj names start "[start]" "neighbours adj start"] by simp
  from assms(1) have "v \<in> set (fst ?r)"
  proof (induction rule: rtranclp_induct)
    case (step x y)
    show ?case
    proof (cases "x = start")
      case True
      with step(2) e(1) show ?thesis unfolding edge_rel_def by blast
    next
      case False
      with step(2,3) e(2) show ?thesis unfolding explored_def by blast
    qed
  qed (rule s)
  with assms(2,3) e(2) have "snd ?r \<noteq> []" unfolding explored_def by blast
  then show ?thesis by (simp add: search_from_def)
qed

text \<open>
  Every reported deadlock risk is genuine: its locks are at least two, pairwise different,
  each ordered before the next and the last before the first, and no risk is reported twice. And
  a cycle through the first recorded lock is never missed: then some risk is reported.
\<close>
theorem reported_cycles_are_genuine:
  "(\<forall>c \<in> set (find_cycles g). 2 \<le> length (lock_ids c) \<and> distinct (lock_ids c)
      \<and> successively (edge_in g) (lock_ids c) \<and> edge_in g (last (lock_ids c)) (hd (lock_ids c)))
   \<and> distinct (map lock_ids (find_cycles g))
   \<and> (\<forall>n ns v. lg_nodes g = n # ns \<and> v \<noteq> ln_id n \<and> (edge_in g)\<^sup>*\<^sup>* (ln_id n) v \<and> edge_in g v (ln_id n)
        \<longrightarrow> find_cycles g \<noteq> [])"
proof -
  let ?adj = "adjacency (lg_edges g)"
  let ?names = "fold (\<lambda>n. hm_put (ln_id n) (ln_name n)) (lg_nodes g) []"
  have rel: "edge_rel ?adj = edge_in g" by (simp add: fun_eq_iff)
  have "all_genuine ?adj (find_cycles g)"
    unfolding find_cycles_def by (rule find_cycles_genuine) (simp add: all_genuine_def)
  then have "(\<forall>c \<in> set (find_cycles g). 2 \<le> length (lock_ids c) \<and> distinct (lock_ids c)
      \<and> successively (edge_in g) (lock_ids c) \<and> edge_in g (last (lock_ids c)) (hd (lock_ids c)))
   \<and> distinct (map lock_ids (find_cycles g))"
    by (simp add: all_genuine_def genuine_def rel list_all_iff)
  moreover have "find_cycles g \<noteq> []"
    if "lg_nodes g = n # ns" "v \<noteq> ln_id n" "(edge_in g)\<^sup>*\<^sup>* (ln_id n) v" "edge_in g v (ln_id n)" for n ns v
  proof -
    have "snd (search_from ?adj ?names (ln_id n) ([], [])) \<noteq> []"
      by (rule first_search_finds[where v = v]) (use that rel in simp_all)
    from search_keeps_cycles[OF this, of ?adj ?names "map ln_id ns"] that(1) show ?thesis
      by (simp add: find_cycles_def)
  qed
  ultimately show ?thesis by blast
qed

definition ab_ba_events :: "lock_event list" where
  "ab_ba_events =
     [Acquire 0 0 ''a'', Acquire 0 1 ''b'', Release 0 1, Release 0 0,
      Acquire 1 1 ''b'', Acquire 1 0 ''a'', Release 1 0, Release 1 1]"

lemma ab_ba_graph:
  "lg_nodes (build_graph ab_ba_events) = [\<lparr>ln_id = 0, ln_name = ''a''\<rparr>, \<lparr>ln_id = 1, ln_name = ''b''\<rparr>]"
  "edge_in (build_graph ab_ba_events) 0 1" "edge_in (build_graph ab_ba_events) 1 0"
  by code_simp+

lemma reported_cycles_are_genuine_witness: "find_cycles (build_graph ab_ba_events) \<noteq> []"
proof -
  have "(edge_in (build_graph ab_ba_events))\<^sup>*\<^sup>* 0 1" using ab_ba_graph(2) by (rule r_into_rtranclp)
  then have "\<exists>n ns. lg_nodes (build_graph ab_ba_events) = n # ns \<and> 1 \<noteq> ln_id n
      \<and> (edge_in (build_graph ab_ba_events))\<^sup>*\<^sup>* (ln_id n) 1 \<and> edge_in (build_graph ab_ba_events) 1 (ln_id n)"
    using ab_ba_graph by simp
  then show ?thesis using reported_cycles_are_genuine[of "build_graph ab_ba_events"] by blast
qed

text \<open>
  Other cycles can be missed, against the promise to return all of them: nodes stay visited, so a
  cycle behind the first lock that does not pass through it is explored but never closed.
\<close>

lemma missed_cycle:
  "let g = build_graph
     [Acquire 0 0 ''a'', Acquire 0 1 ''b'', Acquire 0 2 ''c'', Release 0 2, Release 0 1, Release 0 0,
      Acquire 1 2 ''c'', Acquire 1 1 ''b'']
   in edge_in g 1 2 \<and> edge_in g 2 1 \<and> find_cycles g = []"
  by code_simp

end
