(* ===== verification/Flow.thy ===== *)
theory Flow
  imports Rust_Strings "HOL-Library.Product_Lexorder"
begin

text \<open>
  The cross-file taint graph \<open>crates/aether-flow\<close>: detection of sources and sinks (\<open>source.rs\<close>,
  \<open>sink.rs\<close>), the scan that builds the graph (\<open>lib.rs\<close>), and the search for paths (\<open>graph.rs\<close>).
  A path of the file system is the list of its components, which is what \<open>PathBuf\<close> compares. The
  regular expressions, the file contents, and the classification of characters outside ASCII are
  parameters; the tree below a root is what \<open>read_dir\<close> and \<open>is_dir\<close> answer.
\<close>

section \<open>Nodes, edges, paths\<close>

type_synonym file_path = "string list"

datatype source_kind = EnvVar | CliArg | FileRead | HttpRequest | UserInput | DbRead

datatype sink_kind = FileWrite | HttpSend | Exec | DbQuery | Log | Deserialize

record taint_source =
  src_file :: file_path
  src_line :: nat
  src_kind :: source_kind
  src_symbol :: string

record taint_sink =
  snk_file :: file_path
  snk_line :: nat
  snk_kind :: sink_kind
  snk_symbol :: string

record inter_node =
  int_file :: file_path
  int_line :: nat
  int_symbol :: string

datatype taint_node =
    Source taint_source
  | Sink taint_sink
  | Inter inter_node

fun node_file :: "taint_node \<Rightarrow> file_path" where
  "node_file (Source s) = src_file s"
| "node_file (Sink s) = snk_file s"
| "node_file (Inter n) = int_file n"

fun node_line :: "taint_node \<Rightarrow> nat" where
  "node_line (Source s) = src_line s"
| "node_line (Sink s) = snk_line s"
| "node_line (Inter n) = int_line n"

fun node_symbol :: "taint_node \<Rightarrow> string" where
  "node_symbol (Source s) = src_symbol s"
| "node_symbol (Sink s) = snk_symbol s"
| "node_symbol (Inter n) = int_symbol n"

fun is_source :: "taint_node \<Rightarrow> bool" where
  "is_source (Source _) = True"
| "is_source _ = False"

fun is_sink :: "taint_node \<Rightarrow> bool" where
  "is_sink (Sink _) = True"
| "is_sink _ = False"

datatype edge_label = DataFlow | Call | Return

record taint_edge =
  te_from :: nat
  te_to :: nat
  te_label :: edge_label

record taint_path =
  tp_nodes :: "nat list"
  tp_source_kind :: source_kind
  tp_sink_kind :: sink_kind

record taint_graph =
  tg_nodes :: "taint_node list"
  tg_edges :: "taint_edge list"

definition taint_graph_default :: taint_graph where
  "taint_graph_default = \<lparr>tg_nodes = [], tg_edges = []\<rparr>"

definition add_taint_node :: "taint_node \<Rightarrow> taint_graph \<Rightarrow> nat \<times> taint_graph" where
  "add_taint_node n g = (length (tg_nodes g), g\<lparr>tg_nodes := tg_nodes g @ [n]\<rparr>)"

definition add_taint_edge :: "nat \<Rightarrow> nat \<Rightarrow> edge_label \<Rightarrow> taint_graph \<Rightarrow> taint_graph" where
  "add_taint_edge a b l g = g\<lparr>tg_edges := tg_edges g @ [\<lparr>te_from = a, te_to = b, te_label = l\<rparr>]\<rparr>"

definition source_count :: "taint_graph \<Rightarrow> nat" where
  "source_count g = length (filter is_source (tg_nodes g))"

definition sink_count :: "taint_graph \<Rightarrow> nat" where
  "sink_count g = length (filter is_sink (tg_nodes g))"

section \<open>The search\<close>

definition flow_adjacency :: "taint_graph \<Rightarrow> (nat, nat list) hmap" where
  "flow_adjacency g = hm_multi (map (\<lambda>e. (te_from e, te_to e)) (tg_edges g))"

text \<open>Queueing the unvisited neighbours of a node.\<close>

definition visit_neighbour ::
  "nat list \<Rightarrow> nat \<Rightarrow> (nat \<times> nat list) list \<times> nat list \<Rightarrow> (nat \<times> nat list) list \<times> nat list" where
  "visit_neighbour path nxt st =
     (case st of (queue, visited) \<Rightarrow>
        if nxt \<in> set visited then (queue, visited)
        else (queue @ [(nxt, path @ [nxt])], nxt # visited))"

definition extend_queue ::
  "nat list \<Rightarrow> nat list \<Rightarrow> (nat \<times> nat list) list \<Rightarrow> nat list \<Rightarrow> (nat \<times> nat list) list \<times> nat list" where
  "extend_queue path ns queue visited = fold (visit_neighbour path) ns (queue, visited)"

lemma extend_queue_Cons [simp]:
  "extend_queue path (n # ns) queue visited =
     (if n \<in> set visited then extend_queue path ns queue visited
      else extend_queue path ns (queue @ [(n, path @ [n])]) (n # visited))"
  by (simp add: extend_queue_def visit_neighbour_def)

lemma extend_queue_Nil [simp]: "extend_queue path [] queue visited = (queue, visited)"
  by (simp add: extend_queue_def)

text \<open>The nodes that some edge enters.\<close>

definition targets :: "(nat, nat list) hmap \<Rightarrow> nat set" where
  "targets adj = (\<Union>kv \<in> set adj. set (snd kv))"

lemma finite_targets [simp]: "finite (targets adj)"
  by (simp add: targets_def)

lemma hm_values_targets: "set (hm_values adj v) \<subseteq> targets adj"
proof (cases "hm_get adj v")
  case (Some vs)
  then have "(v, vs) \<in> set adj" by (rule hm_get_SomeD)
  then show ?thesis using Some by (force simp: hm_values_def targets_def)
qed (simp add: hm_values_def)

lemma extend_queue_measure:
  "extend_queue path ns queue visited = (queue', visited') \<Longrightarrow> set ns \<subseteq> T \<Longrightarrow> finite T \<Longrightarrow>
   length queue' + card (T - set visited') = length queue + card (T - set visited)"
proof (induction ns arbitrary: queue visited)
  case (Cons n ns)
  show ?case
  proof (cases "n \<in> set visited")
    case False
    have "n \<in> T - set visited" using False Cons.prems by auto
    then have "Suc (card (T - set (n # visited))) = card (T - set visited)"
      using Cons.prems(3) by (metis Diff_insert card_Suc_Diff1 finite_Diff list.simps(15))
    with Cons.IH[of "queue @ [(n, path @ [n])]" "n # visited"] Cons.prems False show ?thesis by simp
  qed (use Cons in auto)
qed simp

lemma extend_queue_decreases:
  assumes "(queue', visited') = extend_queue path (hm_values adj v) queue visited"
  shows "length queue' + card (targets adj - set visited')
    < Suc (length queue + card (targets adj - set visited))"
  using extend_queue_measure[OF assms[symmetric] hm_values_targets finite_targets] by simp

text \<open>
  One source's loop. A node id outside the graph is an index panic: \<open>None\<close>.
\<close>

function bfs_loop ::
  "taint_graph \<Rightarrow> (nat, nat list) hmap \<Rightarrow> nat \<Rightarrow> nat \<Rightarrow> (nat \<times> nat list) list \<Rightarrow> nat list \<Rightarrow>
   taint_path list \<Rightarrow> taint_path list option" where
  "bfs_loop g adj max_depth src [] visited paths = Some paths"
| "bfs_loop g adj max_depth src ((cur, path) # queue) visited paths =
     (if max_depth < length path then bfs_loop g adj max_depth src queue visited paths
      else if length (tg_nodes g) \<le> cur then None
      else (case tg_nodes g ! cur of
              Sink snk \<Rightarrow>
                (if cur \<noteq> src then
                   (case tg_nodes g ! src of
                      Source s \<Rightarrow>
                        bfs_loop g adj max_depth src queue visited
                          (paths @ [\<lparr>tp_nodes = path, tp_source_kind = src_kind s, tp_sink_kind = snk_kind snk\<rparr>])
                    | _ \<Rightarrow> bfs_loop g adj max_depth src queue visited paths)
                 else (case extend_queue path (hm_values adj cur) queue visited of
                         (queue', visited') \<Rightarrow> bfs_loop g adj max_depth src queue' visited' paths))
            | _ \<Rightarrow> (case extend_queue path (hm_values adj cur) queue visited of
                     (queue', visited') \<Rightarrow> bfs_loop g adj max_depth src queue' visited' paths)))"
  by pat_completeness auto
termination
  by (relation "measure (\<lambda>(g, adj, d, src, queue, visited, paths). length queue + card (targets adj - set visited))")
    (simp_all add: extend_queue_decreases)

definition find_taint_paths :: "nat \<Rightarrow> taint_graph \<Rightarrow> taint_path list option" where
  "find_taint_paths max_depth g =
     foldl (\<lambda>acc src. case acc of
                        None \<Rightarrow> None
                      | Some paths \<Rightarrow>
                          bfs_loop g (flow_adjacency g) max_depth src [(src, [src])] [src] paths)
       (Some []) (filter (\<lambda>i. is_source (tg_nodes g ! i)) [0..<length (tg_nodes g)])"

section \<open>What the search finds\<close>

definition flow_edge :: "taint_graph \<Rightarrow> nat \<Rightarrow> nat \<Rightarrow> bool" where
  "flow_edge g a b \<longleftrightarrow> (\<exists>e \<in> set (tg_edges g). te_from e = a \<and> te_to e = b)"

definition sink_at :: "taint_graph \<Rightarrow> nat \<Rightarrow> bool" where
  "sink_at g v = is_sink (tg_nodes g ! v)"

definition source_at :: "taint_graph \<Rightarrow> nat \<Rightarrow> bool" where
  "source_at g v = (v < length (tg_nodes g) \<and> is_source (tg_nodes g ! v))"

text \<open>A walk that leaves no sink, given by its nodes.\<close>

definition open_walk :: "taint_graph \<Rightarrow> nat \<Rightarrow> nat list \<Rightarrow> nat \<Rightarrow> bool" where
  "open_walk g src p v \<longleftrightarrow>
     p \<noteq> [] \<and> hd p = src \<and> last p = v \<and> successively (flow_edge g) p \<and> list_all (\<lambda>u. \<not> sink_at g u) (butlast p)"

definition edges_in_range :: "taint_graph \<Rightarrow> bool" where
  "edges_in_range g \<longleftrightarrow> list_all (\<lambda>e. te_to e < length (tg_nodes g)) (tg_edges g)"

lemma neighbours_flow_edge: "b \<in> set (hm_values (flow_adjacency g) a) \<longleftrightarrow> flow_edge g a b"
  by (auto simp: flow_adjacency_def hm_values_multi flow_edge_def image_iff)

lemma open_walk_snoc_iff:
  "p \<noteq> [] \<Longrightarrow> open_walk g src (p @ [v]) w \<longleftrightarrow>
     w = v \<and> open_walk g src p (last p) \<and> \<not> sink_at g (last p) \<and> flow_edge g (last p) v"
  by (cases p rule: rev_cases) (auto simp: open_walk_def successively_append_iff hd_append butlast_append)

lemma open_walk_last: "open_walk g src p u \<Longrightarrow> p \<noteq> [] \<and> last p = u"
  by (simp add: open_walk_def)

lemma open_walk_snoc:
  "open_walk g src p u \<Longrightarrow> \<not> sink_at g u \<Longrightarrow> flow_edge g u v \<Longrightarrow> open_walk g src (p @ [v]) v"
  using open_walk_last[of g src p u] by (simp add: open_walk_snoc_iff)

lemma open_walk_split:
  assumes "open_walk g src p v"
  obtains "p = [src]" "v = src"
  | p' u where "p = p' @ [v]" "open_walk g src p' u" "\<not> sink_at g u" "flow_edge g u v"
proof (cases p rule: rev_cases)
  case Nil
  with assms show ?thesis by (simp add: open_walk_def)
next
  case (snoc p' w)
  show ?thesis
  proof (cases "p' = []")
    case True
    with assms snoc that(1) show ?thesis by (simp add: open_walk_def)
  next
    case False
    with assms snoc that(2)[of p' "last p'"] show ?thesis by (simp add: open_walk_snoc_iff)
  qed
qed

text \<open>
  The invariant of a source's loop, over the entries taken from the queue so far and those still
  in it: every entry is a walk, every visited node has exactly one, lengths do not decrease along
  the queue and differ by at most one inside it, and every taken node that is expanded has all
  its neighbours entered, at most one step longer.
\<close>

definition expanded :: "taint_graph \<Rightarrow> nat \<Rightarrow> nat \<times> nat list \<Rightarrow> bool" where
  "expanded g d e \<longleftrightarrow> length (snd e) \<le> d \<and> \<not> sink_at g (fst e)"

definition bfs_inv ::
  "taint_graph \<Rightarrow> nat \<Rightarrow> nat \<Rightarrow> (nat \<times> nat list) list \<Rightarrow> (nat \<times> nat list) list \<Rightarrow> nat list \<Rightarrow> bool" where
  "bfs_inv g d src taken queue visited \<longleftrightarrow>
     distinct (map fst (taken @ queue)) \<and> fst ` set (taken @ queue) = set visited
     \<and> (src, [src]) \<in> set (taken @ queue)
     \<and> (\<forall>e \<in> set (taken @ queue). open_walk g src (snd e) (fst e) \<and> fst e < length (tg_nodes g))
     \<and> sorted (map (length \<circ> snd) (taken @ queue))
     \<and> (\<forall>e \<in> set queue. length (snd e) \<le> Suc (length (snd (hd queue))))
     \<and> (\<forall>e \<in> set taken. expanded g d e \<longrightarrow>
          (\<forall>w. flow_edge g (fst e) w \<longrightarrow> (\<exists>f \<in> set (taken @ queue). fst f = w \<and> length (snd f) \<le> Suc (length (snd e)))))"

definition reported :: "taint_graph \<Rightarrow> nat \<Rightarrow> nat \<times> nat list \<Rightarrow> bool" where
  "reported g d e \<longleftrightarrow> length (snd e) \<le> d \<and> sink_at g (fst e)"

definition path_of :: "taint_graph \<Rightarrow> nat \<Rightarrow> nat \<times> nat list \<Rightarrow> taint_path" where
  "path_of g src e =
     (case (tg_nodes g ! src, tg_nodes g ! fst e) of
        (Source s, Sink k) \<Rightarrow> \<lparr>tp_nodes = snd e, tp_source_kind = src_kind s, tp_sink_kind = snk_kind k\<rparr>
      | _ \<Rightarrow> undefined)"

text \<open>What \<open>extend_queue\<close> appends: one entry, one step longer, for every unvisited neighbour.\<close>

lemma extend_queue_entries:
  "extend_queue path ns queue visited = (queue', visited') \<Longrightarrow>
   \<exists>new. queue' = queue @ map (\<lambda>n. (n, path @ [n])) new \<and> set new = set ns - set visited
     \<and> distinct new \<and> set visited' = set visited \<union> set ns"
proof (induction ns arbitrary: queue visited)
  case (Cons n ns)
  show ?case
  proof (cases "n \<in> set visited")
    case True
    with Cons.IH[of queue visited] Cons.prems show ?thesis by auto
  next
    case False
    with Cons.prems Cons.IH[of "queue @ [(n, path @ [n])]" "n # visited"]
    obtain new where "queue' = (queue @ [(n, path @ [n])]) @ map (\<lambda>n. (n, path @ [n])) new"
      "set new = set ns - set (n # visited)" "distinct new" "set visited' = set (n # visited) \<union> set ns"
      by auto
    with False show ?thesis by (intro exI[of _ "n # new"]) auto
  qed
qed (auto intro: exI[of _ "[]"])

lemma bfs_inv_start: "source_at g src \<Longrightarrow> bfs_inv g d src [] [(src, [src])] [src]"
  by (simp add: bfs_inv_def open_walk_def source_at_def)

lemma bfs_inv_skip:
  assumes "bfs_inv g d src taken (e # queue) visited" "\<not> expanded g d e"
  shows "bfs_inv g d src (taken @ [e]) queue visited"
proof -
  have "\<forall>f \<in> set queue. length (snd f) \<le> Suc (length (snd (hd queue)))"
  proof (cases queue)
    case (Cons h q)
    with assms(1) have "length (snd e) \<le> length (snd h)" by (simp add: bfs_inv_def sorted_append)
    with assms(1) Cons show ?thesis by (fastforce simp: bfs_inv_def)
  qed simp
  with assms show ?thesis unfolding bfs_inv_def by simp
qed

lemma bfs_inv_expand:
  assumes inv: "bfs_inv g d src taken ((v, p) # queue) visited" and ns: "\<not> sink_at g v" and ok: "edges_in_range g"
    and ext: "extend_queue p (hm_values (flow_adjacency g) v) queue visited = (queue', visited')"
  shows "bfs_inv g d src (taken @ [(v, p)]) queue' visited'"
proof -
  obtain new where q': "queue' = queue @ map (\<lambda>n. (n, p @ [n])) new"
    and new: "set new = {w. flow_edge g v w} - set visited" "distinct new"
    and vis': "set visited' = set visited \<union> {w. flow_edge g v w}"
    using extend_queue_entries[OF ext] by (auto simp: neighbours_flow_edge[symmetric])
  let ?old = "taken @ (v, p) # queue"
  have all: "taken @ [(v, p)] @ queue' = ?old @ map (\<lambda>n. (n, p @ [n])) new" by (simp add: q')
  have d: "distinct (map fst ?old)" "fst ` set ?old = set visited" "sorted (map (length \<circ> snd) ?old)"
    and src: "(src, [src]) \<in> set ?old" and walks: "\<forall>e \<in> set ?old. open_walk g src (snd e) (fst e) \<and> fst e < length (tg_nodes g)"
    and near: "\<forall>e \<in> set ((v, p) # queue). length (snd e) \<le> Suc (length p)"
    and closed: "\<forall>e \<in> set taken. expanded g d e \<longrightarrow>
          (\<forall>w. flow_edge g (fst e) w \<longrightarrow> (\<exists>f \<in> set ?old. fst f = w \<and> length (snd f) \<le> Suc (length (snd e))))"
    using inv by (simp_all add: bfs_inv_def)
  have range: "w < length (tg_nodes g)" if "flow_edge g v w" for w
    using that ok by (auto simp: flow_edge_def edges_in_range_def list_all_iff)
  have low: "\<forall>e \<in> set taken. length (snd e) \<le> length p" using d(3) by (auto simp: sorted_append)
  have "\<forall>e \<in> set queue. length p \<le> length (snd e)" using d(3) by (auto simp: sorted_append)
  then have near': "\<forall>e \<in> set queue'. length (snd e) \<le> Suc (length (snd (hd queue')))"
    using near by (cases queue; cases new) (fastforce simp: q')+
  have step: "\<exists>f \<in> set (taken @ [(v, p)] @ queue'). fst f = w \<and> length (snd f) \<le> Suc (length p)"
    if "flow_edge g v w" for w
  proof (cases "w \<in> set visited")
    case True
    then obtain f where "f \<in> set ?old" "fst f = w" using d(2) by (metis imageE)
    moreover from this have "length (snd f) \<le> Suc (length p)" using near low by auto
    ultimately show ?thesis unfolding all by auto
  next
    case False
    with that new(1) have "w \<in> set new" by auto
    then show ?thesis unfolding all by force
  qed
  have closed': "\<forall>e \<in> set (taken @ [(v, p)]). expanded g d e \<longrightarrow>
      (\<forall>w. flow_edge g (fst e) w \<longrightarrow> (\<exists>f \<in> set (taken @ [(v, p)] @ queue'). fst f = w \<and> length (snd f) \<le> Suc (length (snd e))))"
  proof (intro ballI impI allI)
    fix e w assume e: "e \<in> set (taken @ [(v, p)])" "expanded g d e" "flow_edge g (fst e) w"
    show "\<exists>f \<in> set (taken @ [(v, p)] @ queue'). fst f = w \<and> length (snd f) \<le> Suc (length (snd e))"
    proof (cases "e \<in> set taken")
      case True
      with closed e obtain f where "f \<in> set ?old" "fst f = w \<and> length (snd f) \<le> Suc (length (snd e))" by blast
      moreover have "set ?old \<subseteq> set (taken @ [(v, p)] @ queue')" unfolding all by auto
      ultimately show ?thesis by blast
    qed (use e step in simp)
  qed
  have "distinct (map fst (taken @ [(v, p)] @ queue'))"
    unfolding all using d(1,2) new by (auto simp: comp_def)
  moreover have "fst ` set (taken @ [(v, p)] @ queue') = set visited'"
    unfolding all using d(2) new vis' by (auto simp: image_Un image_image)
  moreover have "sorted (map (length \<circ> snd) (taken @ [(v, p)] @ queue'))"
    unfolding all using d(3) near low by (auto simp: sorted_append sorted_map comp_def)
  moreover have "\<forall>e \<in> set (taken @ [(v, p)] @ queue'). open_walk g src (snd e) (fst e) \<and> fst e < length (tg_nodes g)"
    unfolding all using walks new ns range by (auto intro: open_walk_snoc)
  moreover have "(src, [src]) \<in> set (taken @ [(v, p)] @ queue')" unfolding all using src by auto
  ultimately show ?thesis
    unfolding bfs_inv_def append_assoc using near' closed' by blast
qed

lemma bfs_inv_source: "source_at g src \<Longrightarrow> \<not> sink_at g src"
  by (cases "tg_nodes g ! src") (auto simp: source_at_def sink_at_def)

text \<open>One round of the loop, by what becomes of the entry at the head of the queue.\<close>

lemma bfs_loop_step:
  assumes "source_at g src" "fst e < length (tg_nodes g)"
  shows "bfs_loop g adj d src (e # queue) visited paths =
    (if expanded g d e then
       (case extend_queue (snd e) (hm_values adj (fst e)) queue visited of
          (queue', visited') \<Rightarrow> bfs_loop g adj d src queue' visited' paths)
     else bfs_loop g adj d src queue visited
            (paths @ map (path_of g src) (filter (reported g d) [e])))"
  using assms
  by (cases e; cases "tg_nodes g ! fst e"; cases "tg_nodes g ! src")
    (auto simp: source_at_def sink_at_def expanded_def reported_def path_of_def)

declare bfs_loop.simps(2) [simp del]

lemma bfs_loop_result:
  assumes "source_at g src" "edges_in_range g" "bfs_inv g d src taken queue visited"
  shows "\<exists>rest V. bfs_inv g d src (taken @ rest) [] V
    \<and> (\<forall>paths. bfs_loop g (flow_adjacency g) d src queue visited paths
          = Some (paths @ map (path_of g src) (filter (reported g d) rest)))"
  using assms(3)
proof (induction "length queue + card (targets (flow_adjacency g) - set visited)"
    arbitrary: taken queue visited rule: less_induct)
  case less
  show ?case
  proof (cases queue)
    case Nil
    with less.prems show ?thesis by (intro exI[of _ "[]"] exI[of _ visited]) simp
  next
    case (Cons e q)
    then have e: "fst e < length (tg_nodes g)" using less.prems by (simp add: bfs_inv_def)
    show ?thesis
    proof (cases "expanded g d e")
      case True
      obtain q' v' where ext: "extend_queue (snd e) (hm_values (flow_adjacency g) (fst e)) q visited = (q', v')" by fastforce
      from True have r: "\<not> reported g d e" "\<not> sink_at g (fst e)" by (auto simp: expanded_def reported_def)
      have inv: "bfs_inv g d src (taken @ [e]) q' v'"
        using bfs_inv_expand[of g d src taken "fst e" "snd e" q visited q' v'] less.prems Cons r(2) assms(2) ext by simp
      have "length q' + card (targets (flow_adjacency g) - set v')
          < length queue + card (targets (flow_adjacency g) - set visited)"
        using extend_queue_decreases[OF ext[symmetric]] Cons by simp
      from less.hyps[OF this inv] obtain rest V where
        "bfs_inv g d src (taken @ e # rest) [] V"
        "\<And>paths. bfs_loop g (flow_adjacency g) d src q' v' paths = Some (paths @ map (path_of g src) (filter (reported g d) rest))"
        by auto
      then show ?thesis
        using r(1) ext by (intro exI[of _ "e # rest"] exI[of _ V]) (simp add: Cons bfs_loop_step[OF assms(1) e] True)
    next
      case False
      have "bfs_inv g d src (taken @ [e]) q visited" using bfs_inv_skip less.prems Cons False by blast
      from less.hyps[OF _ this] obtain rest V where
        "bfs_inv g d src (taken @ e # rest) [] V"
        "\<And>paths. bfs_loop g (flow_adjacency g) d src q visited paths
           = Some (paths @ map (path_of g src) (filter (reported g d) rest))"
        by (auto simp: Cons)
      then show ?thesis
        by (intro exI[of _ "e # rest"] exI[of _ V]) (simp add: Cons bfs_loop_step[OF assms(1) e] False)
    qed
  qed
qed

text \<open>What the finished loop knows: no walk within the depth is shorter than the entry of its end.\<close>

lemma bfs_shortest:
  assumes "bfs_inv g d src E [] V" "open_walk g src p v" "length p \<le> Suc d"
  shows "\<exists>r. (v, r) \<in> set E \<and> length r \<le> length p"
  using assms(2,3)
proof (induction p arbitrary: v rule: length_induct)
  case (1 p)
  from 1(2) show ?case
  proof (cases rule: open_walk_split)
    case 1
    with assms(1) show ?thesis by (auto simp: bfs_inv_def)
  next
    case (2 p' u)
    with "1.IH" "1.prems" obtain r where r: "(u, r) \<in> set E" "length r \<le> length p'" by fastforce
    with 2 "1.prems" have "expanded g d (u, r)" by (simp add: expanded_def)
    with assms(1) r 2 obtain f where "f \<in> set E" "fst f = v" "length (snd f) \<le> Suc (length r)"
      by (fastforce simp: bfs_inv_def)
    with r 2 show ?thesis by (intro exI[of _ "snd f"]) auto
  qed
qed

text \<open>The report of one source.\<close>

definition report_ok :: "taint_graph \<Rightarrow> nat \<Rightarrow> nat \<Rightarrow> taint_path list \<Rightarrow> bool" where
  "report_ok g d s ps \<longleftrightarrow>
     distinct (map (last \<circ> tp_nodes) ps)
     \<and> (\<forall>x \<in> set ps. open_walk g s (tp_nodes x) (last (tp_nodes x))
          \<and> (\<forall>q. open_walk g s q (last (tp_nodes x)) \<longrightarrow> length (tp_nodes x) \<le> length q)
          \<and> (\<exists>a k. tg_nodes g ! s = Source a \<and> tg_nodes g ! last (tp_nodes x) = Sink k
               \<and> tp_source_kind x = src_kind a \<and> tp_sink_kind x = snk_kind k))
     \<and> (\<forall>t. (\<exists>x \<in> set ps. last (tp_nodes x) = t) \<longleftrightarrow>
          t < length (tg_nodes g) \<and> sink_at g t \<and> (\<exists>p. open_walk g s p t \<and> length p \<le> d))"

lemma path_of_source:
  assumes "source_at g s" "sink_at g (fst e)"
  shows "tp_nodes (path_of g s e) = snd e"
    and "\<exists>a k. tg_nodes g ! s = Source a \<and> tg_nodes g ! fst e = Sink k
      \<and> tp_source_kind (path_of g s e) = src_kind a \<and> tp_sink_kind (path_of g s e) = snk_kind k"
  using assms by (cases "tg_nodes g ! s"; cases "tg_nodes g ! fst e"; simp add: path_of_def source_at_def sink_at_def)+

lemma source_report:
  assumes s: "source_at g s" and "edges_in_range g"
  obtains ps where "report_ok g d s ps"
    "\<And>paths. bfs_loop g (flow_adjacency g) d s [(s, [s])] [s] paths = Some (paths @ ps)"
proof -
  from bfs_loop_result[OF s assms(2) bfs_inv_start[OF s, of d]] obtain E V where
    inv: "bfs_inv g d s E [] V" and run: "\<And>paths. bfs_loop g (flow_adjacency g) d s [(s, [s])] [s] paths
      = Some (paths @ map (path_of g s) (filter (reported g d) E))"
    by (metis append_Nil)
  let ?R = "filter (reported g d) E"
  have walk: "open_walk g s (snd e) (fst e)" "fst e < length (tg_nodes g)" if "e \<in> set E" for e
    using inv that by (simp_all add: bfs_inv_def)
  have nodes: "tp_nodes (path_of g s e) = snd e" "last (snd e) = fst e" if "e \<in> set ?R" for e
    using that path_of_source(1)[OF s, of e] walk[of e] by (auto simp: reported_def open_walk_def)
  have uniq: "r = r'" if "(v, r) \<in> set E" "(v, r') \<in> set E" for v r r'
    using inv that by (auto simp: bfs_inv_def dest: eq_key_imp_eq_value)
  have short: "length (snd e) \<le> length q" if "e \<in> set ?R" "open_walk g s q (fst e)" for e q
  proof (cases "length q \<le> Suc d")
    case True
    with bfs_shortest[OF inv that(2)] obtain r where "(fst e, r) \<in> set E" "length r \<le> length q" by auto
    with uniq[of "fst e" "snd e" r] that(1) show ?thesis by simp
  qed (use that in \<open>simp add: reported_def\<close>)
  have "map (last \<circ> tp_nodes) (map (path_of g s) ?R) = map fst ?R"
    using nodes by (auto intro!: map_cong)
  moreover have "distinct (map fst ?R)" using inv by (simp add: bfs_inv_def distinct_map_filter)
  ultimately have dist: "distinct (map (last \<circ> tp_nodes) (map (path_of g s) ?R))" by argo
  have ends: "(\<exists>x \<in> set (map (path_of g s) ?R). last (tp_nodes x) = t) \<longleftrightarrow>
      t < length (tg_nodes g) \<and> sink_at g t \<and> (\<exists>p. open_walk g s p t \<and> length p \<le> d)" (is "?L \<longleftrightarrow> ?W") for t
  proof
    assume ?L
    then obtain e where "e \<in> set ?R" "fst e = t" using nodes by auto
    with walk[of e] show ?W by (auto simp: reported_def)
  next
    assume w: ?W
    then obtain p r where "open_walk g s p t" "length p \<le> d" "(t, r) \<in> set E" "length r \<le> length p"
      using bfs_shortest[OF inv] by (meson le_SucI)
    with w have "(t, r) \<in> set ?R" by (simp add: reported_def)
    with nodes[OF this] show ?L by (intro bexI[of _ "path_of g s (t, r)"]) auto
  qed
  have "report_ok g d s (map (path_of g s) ?R)"
    unfolding report_ok_def
  proof (intro conjI ballI allI dist ends)
    fix x assume "x \<in> set (map (path_of g s) ?R)"
    then obtain e where e: "e \<in> set ?R" "x = path_of g s e" by auto
    then show "open_walk g s (tp_nodes x) (last (tp_nodes x))" using nodes walk by simp
    show "open_walk g s q (last (tp_nodes x)) \<longrightarrow> length (tp_nodes x) \<le> length q" for q
      using e nodes short by simp
    show "\<exists>a k. tg_nodes g ! s = Source a \<and> tg_nodes g ! last (tp_nodes x) = Sink k
        \<and> tp_source_kind x = src_kind a \<and> tp_sink_kind x = snk_kind k"
      using e nodes path_of_source(2)[OF s, of e] by (simp add: reported_def)
  qed
  with run that show ?thesis by blast
qed

lemma reports_of_sources:
  assumes "edges_in_range g" "list_all (source_at g) srcs"
  shows "\<exists>pss. list_all2 (report_ok g d) srcs pss \<and>
    foldl (\<lambda>acc src. case acc of
                        None \<Rightarrow> None
                      | Some paths \<Rightarrow>
                          bfs_loop g (flow_adjacency g) d src [(src, [src])] [src] paths) (Some acc) srcs
      = Some (acc @ concat pss)"
  using assms(2)
proof (induction srcs arbitrary: acc)
  case (Cons s srcs)
  then obtain ps where ps: "report_ok g d s ps"
    "\<And>paths. bfs_loop g (flow_adjacency g) d s [(s, [s])] [s] paths = Some (paths @ ps)"
    using source_report[OF _ assms(1), of s d] by auto
  from Cons.IH[of "acc @ ps"] Cons.prems obtain pss where
    "list_all2 (report_ok g d) srcs pss"
    "foldl (\<lambda>acc src. case acc of
                        None \<Rightarrow> None
                      | Some paths \<Rightarrow>
                          bfs_loop g (flow_adjacency g) d src [(src, [src])] [src] paths) (Some (acc @ ps)) srcs
      = Some ((acc @ ps) @ concat pss)"
    by auto
  with ps show ?case by (intro exI[of _ "ps # pss"]) simp
qed (simp add: exI[of _ "[]"])

text \<open>Two different sources have no path in common, so the reports combine.\<close>

definition ends_of :: "taint_path \<Rightarrow> nat \<times> nat" where
  "ends_of x = (hd (tp_nodes x), last (tp_nodes x))"

lemma report_starts: "report_ok g d s ps \<Longrightarrow> x \<in> set ps \<Longrightarrow> hd (tp_nodes x) = s"
  by (auto simp: report_ok_def open_walk_def)

lemma list_all2_memD1: "list_all2 R xs ys \<Longrightarrow> x \<in> set xs \<Longrightarrow> \<exists>y \<in> set ys. R x y"
  by (induction rule: list_all2_induct) auto

lemma list_all2_memD2: "list_all2 R xs ys \<Longrightarrow> y \<in> set ys \<Longrightarrow> \<exists>x \<in> set xs. R x y"
  by (induction rule: list_all2_induct) auto

lemma reports_distinct:
  assumes "list_all2 (report_ok g d) srcs pss" "distinct srcs"
  shows "distinct (map ends_of (concat pss))"
  using assms
proof (induction rule: list_all2_induct)
  case (Cons s srcs ps pss)
  have "distinct (map ends_of ps)"
    using Cons.hyps(1) unfolding report_ok_def
    by (auto simp: distinct_map ends_of_def inj_on_def)
  moreover have "ends_of x \<noteq> ends_of y" if x: "x \<in> set ps" and y: "y \<in> set (concat pss)" for x y
  proof -
    from y obtain qs where "qs \<in> set pss" "y \<in> set qs" by auto
    with list_all2_memD2[OF Cons.hyps(2)] report_starts have "hd (tp_nodes y) \<in> set srcs" by metis
    with report_starts[OF Cons.hyps(1) x] Cons.prems show ?thesis by (auto simp: ends_of_def)
  qed
  ultimately show ?case using Cons.IH Cons.prems by fastforce
qed simp

definition exact_report :: "taint_graph \<Rightarrow> nat \<Rightarrow> taint_path list \<Rightarrow> bool" where
  "exact_report g d ps \<longleftrightarrow>
    distinct (map (\<lambda>x. (hd (tp_nodes x), last (tp_nodes x))) ps)
    \<and> (\<forall>s t. (\<exists>x \<in> set ps. hd (tp_nodes x) = s \<and> last (tp_nodes x) = t) \<longleftrightarrow>
         source_at g s \<and> t < length (tg_nodes g) \<and> sink_at g t \<and> (\<exists>p. open_walk g s p t \<and> length p \<le> d))
    \<and> (\<forall>x \<in> set ps. \<exists>a k.
         tg_nodes g ! hd (tp_nodes x) = Source a \<and> tg_nodes g ! last (tp_nodes x) = Sink k
         \<and> tp_source_kind x = src_kind a \<and> tp_sink_kind x = snk_kind k
         \<and> open_walk g (hd (tp_nodes x)) (tp_nodes x) (last (tp_nodes x))
         \<and> (\<forall>q. open_walk g (hd (tp_nodes x)) q (last (tp_nodes x)) \<longrightarrow> length (tp_nodes x) \<le> length q))"

lemma search_exact:
  assumes "edges_in_range g"
  shows "\<exists>ps. find_taint_paths d g = Some ps \<and> exact_report g d ps"
proof -
  let ?srcs = "filter (\<lambda>i. is_source (tg_nodes g ! i)) [0..<length (tg_nodes g)]"
  have srcs: "list_all (source_at g) ?srcs" by (auto simp: list_all_iff source_at_def)
  from reports_of_sources[OF assms srcs, of d "[]"] obtain pss where
    pss: "list_all2 (report_ok g d) ?srcs pss" and run: "find_taint_paths d g = Some (concat pss)"
    by (auto simp: find_taint_paths_def)
  have in_pss: "\<exists>s ps. source_at g s \<and> ps \<in> set pss \<and> report_ok g d s ps \<and> x \<in> set ps" if "x \<in> set (concat pss)" for x
  proof -
    from that obtain ps where ps: "ps \<in> set pss" "x \<in> set ps" by auto
    with list_all2_memD2[OF pss] obtain s where "s \<in> set ?srcs" "report_ok g d s ps" by blast
    with srcs ps show ?thesis unfolding list_all_iff by blast
  qed
  have of_src: "\<exists>ps. ps \<in> set pss \<and> report_ok g d s ps" if "source_at g s" for s
  proof -
    from that have "s \<in> set ?srcs" by (simp add: source_at_def)
    from list_all2_memD1[OF pss this] show ?thesis by blast
  qed
  show ?thesis
    unfolding exact_report_def
  proof (intro exI[of _ "concat pss"] conjI run allI ballI)
    show "distinct (map (\<lambda>x. (hd (tp_nodes x), last (tp_nodes x))) (concat pss))"
      using reports_distinct[OF pss] by (simp add: ends_of_def[abs_def])
    show "(\<exists>x \<in> set (concat pss). hd (tp_nodes x) = s \<and> last (tp_nodes x) = t) \<longleftrightarrow>
         source_at g s \<and> t < length (tg_nodes g) \<and> sink_at g t \<and> (\<exists>p. open_walk g s p t \<and> length p \<le> d)" for s t
    proof
      assume "\<exists>x \<in> set (concat pss). hd (tp_nodes x) = s \<and> last (tp_nodes x) = t"
      then obtain x where x: "x \<in> set (concat pss)" "hd (tp_nodes x) = s" "last (tp_nodes x) = t" by blast
      from in_pss[OF x(1)] obtain s' ps where "source_at g s'" "report_ok g d s' ps" "x \<in> set ps" by blast
      with report_starts[of g d s' ps x] x(2,3)
      show "source_at g s \<and> t < length (tg_nodes g) \<and> sink_at g t \<and> (\<exists>p. open_walk g s p t \<and> length p \<le> d)"
        unfolding report_ok_def by blast
    next
      assume r: "source_at g s \<and> t < length (tg_nodes g) \<and> sink_at g t \<and> (\<exists>p. open_walk g s p t \<and> length p \<le> d)"
      from of_src r obtain ps where ps: "ps \<in> set pss" "report_ok g d s ps" by blast
      with r obtain x where "x \<in> set ps" "last (tp_nodes x) = t" unfolding report_ok_def by blast
      with ps report_starts[of g d s ps x] show "\<exists>x \<in> set (concat pss). hd (tp_nodes x) = s \<and> last (tp_nodes x) = t"
        by auto
    qed
    fix x assume "x \<in> set (concat pss)"
    from in_pss[OF this] obtain s ps where "report_ok g d s ps" "x \<in> set ps" by blast
    with report_starts[of g d s ps x] show "\<exists>a k.
         tg_nodes g ! hd (tp_nodes x) = Source a \<and> tg_nodes g ! last (tp_nodes x) = Sink k
         \<and> tp_source_kind x = src_kind a \<and> tp_sink_kind x = snk_kind k
         \<and> open_walk g (hd (tp_nodes x)) (tp_nodes x) (last (tp_nodes x))
         \<and> (\<forall>q. open_walk g (hd (tp_nodes x)) q (last (tp_nodes x)) \<longrightarrow> length (tp_nodes x) \<le> length q)"
      unfolding report_ok_def by blast
  qed
qed

text \<open>
  C7. The search is exact. On a graph whose edges stay inside it, it never panics and reports, once
  each, exactly the pairs of a source and a sink that a walk of at most \<open>max_depth\<close> nodes connects
  without passing through another sink; what it reports is a shortest such walk, with the kinds of
  its two ends.
\<close>
theorem taint_paths_exact:
  assumes "edges_in_range g"
  shows "\<exists>ps. find_taint_paths d g = Some ps
    \<and> distinct (map (\<lambda>x. (hd (tp_nodes x), last (tp_nodes x))) ps)
    \<and> (\<forall>s t. (\<exists>x \<in> set ps. hd (tp_nodes x) = s \<and> last (tp_nodes x) = t) \<longleftrightarrow>
         source_at g s \<and> t < length (tg_nodes g) \<and> sink_at g t \<and> (\<exists>p. open_walk g s p t \<and> length p \<le> d))
    \<and> (\<forall>x \<in> set ps. \<exists>a k.
         tg_nodes g ! hd (tp_nodes x) = Source a \<and> tg_nodes g ! last (tp_nodes x) = Sink k
         \<and> tp_source_kind x = src_kind a \<and> tp_sink_kind x = snk_kind k
         \<and> open_walk g (hd (tp_nodes x)) (tp_nodes x) (last (tp_nodes x))
         \<and> (\<forall>q. open_walk g (hd (tp_nodes x)) q (last (tp_nodes x)) \<longrightarrow> length (tp_nodes x) \<le> length q))"
  using search_exact[OF assms, of d] unfolding exact_report_def .

text \<open>A source, a node between, and two sinks in a row.\<close>

definition demo_graph :: taint_graph where
  "demo_graph =
     \<lparr>tg_nodes =
        [Source \<lparr>src_file = [''a.rs''], src_line = 1, src_kind = EnvVar, src_symbol = ''key''\<rparr>,
         Inter \<lparr>int_file = [''a.rs''], int_line = 2, int_symbol = ''key''\<rparr>,
         Sink \<lparr>snk_file = [''a.rs''], snk_line = 3, snk_kind = Log, snk_symbol = ''key''\<rparr>,
         Sink \<lparr>snk_file = [''a.rs''], snk_line = 4, snk_kind = Exec, snk_symbol = ''key''\<rparr>],
      tg_edges = map (\<lambda>(a, b). \<lparr>te_from = a, te_to = b, te_label = DataFlow\<rparr>) [(0, 1), (1, 2), (2, 3), (1, 0)]\<rparr>"

lemma taint_paths_exact_witness:
  "\<exists>ps. find_taint_paths 5 demo_graph = Some ps \<and> distinct (map (\<lambda>x. (hd (tp_nodes x), last (tp_nodes x))) ps)"
  using taint_paths_exact[of demo_graph 5] by (auto simp: edges_in_range_def demo_graph_def)

end
