(* ===== verification/FlowScan.thy ===== *)
theory FlowScan
  imports Flow
begin

text \<open>
  How the taint graph of \<open>crates/aether-flow\<close> is built (\<open>lib.rs\<close>, \<open>source.rs\<close>, \<open>sink.rs\<close>): the files
  under the roots, the sources, sinks and assignments on their lines, and the edges between nodes
  of one symbol in document order.
\<close>

section \<open>Parameters\<close>

text \<open>
  The compiled patterns, named by language and kind: the capture groups from the first on, and
  whether a sink pattern matches. \<open>fx_ident\<close> is the first match of the identifier pattern.
\<close>

record flow_env =
  fx_source :: "bool \<Rightarrow> source_kind \<Rightarrow> string \<Rightarrow> string option list option"
  fx_sink :: "bool \<Rightarrow> sink_kind \<Rightarrow> string \<Rightarrow> bool"
  fx_ident :: "string \<Rightarrow> string option"
  fx_alphabetic :: "string \<Rightarrow> bool"
  fx_alphanumeric :: "string \<Rightarrow> bool"
  fx_read :: "file_path \<Rightarrow> string option"

record flow_config =
  max_path_depth :: nat
  extensions :: "string list"
  cross_file_symbol_flow :: bool

definition flow_config_default :: flow_config where
  "flow_config_default =
     \<lparr>max_path_depth = 12, extensions = [''rs'', ''py''], cross_file_symbol_flow = True\<rparr>"

section \<open>Files\<close>

text \<open>\<open>Path::extension\<close> of the last component.\<close>

definition file_extension :: "string \<Rightarrow> string option" where
  "file_extension n =
     (if n = ''..'' then None
      else let ps = split_on CHR ''.'' n
           in if length ps = 1 \<or> str_join ''.'' (butlast ps) = [] then None else Some (last ps))"

definition path_extension :: "file_path \<Rightarrow> string option" where
  "path_extension p = (if p = [] then None else file_extension (last p))"

text \<open>What \<open>read_dir\<close> yields below a directory: an unreadable directory has no entries.\<close>

datatype dir_entry = File_entry string | Dir_entry string "dir_entry list"

definition skipped_dir :: "string \<Rightarrow> bool" where
  "skipped_dir n \<longleftrightarrow> prefix ''.'' n \<or> n \<in> {''target'', ''node_modules'', ''__pycache__''}"

fun collect_entry :: "string list \<Rightarrow> file_path \<Rightarrow> dir_entry \<Rightarrow> file_path list" where
  "collect_entry exts dir (File_entry n) =
     (case path_extension (dir @ [n]) of
        Some ext \<Rightarrow> if ext \<in> set exts then [dir @ [n]] else []
      | None \<Rightarrow> [])"
| "collect_entry exts dir (Dir_entry n es) =
     (if skipped_dir n then [] else concat (map (collect_entry exts (dir @ [n])) es))"

definition collect_recursive :: "string list \<Rightarrow> file_path \<Rightarrow> dir_entry list \<Rightarrow> file_path list" where
  "collect_recursive exts dir es = concat (map (collect_entry exts dir) es)"

definition collect_files :: "string list \<Rightarrow> (file_path \<times> dir_entry list) list \<Rightarrow> file_path list" where
  "collect_files exts roots = sort (concat (map (\<lambda>(dir, es). collect_recursive exts dir es) roots))"

section \<open>Sources and sinks\<close>

definition source_kinds :: "source_kind list" where
  "source_kinds = [EnvVar, CliArg, FileRead, HttpRequest, UserInput, DbRead]"

fun source_kind_name :: "source_kind \<Rightarrow> string" where
  "source_kind_name EnvVar = ''env''"
| "source_kind_name CliArg = ''cli''"
| "source_kind_name FileRead = ''file''"
| "source_kind_name HttpRequest = ''http''"
| "source_kind_name UserInput = ''stdin''"
| "source_kind_name DbRead = ''db''"

definition is_python :: "file_path \<Rightarrow> bool" where
  "is_python p \<longleftrightarrow> path_extension p = Some ''py''"

definition bound_symbol :: "source_kind \<Rightarrow> string option list \<Rightarrow> string" where
  "bound_symbol k groups =
     (case map the (filter (\<lambda>g. g \<noteq> None) groups) of
        s # _ \<Rightarrow> s
      | [] \<Rightarrow> ''<source:'' @ source_kind_name k @ ''>'')"

definition detect_sources :: "flow_env \<Rightarrow> file_path \<Rightarrow> string \<Rightarrow> taint_source list" where
  "detect_sources fx p content =
     concat (map (\<lambda>(i, line).
       concat (map (\<lambda>k. case fx_source fx (is_python p) k line of
                          None \<Rightarrow> []
                        | Some groups \<Rightarrow>
                            [\<lparr>src_file = p, src_line = i, src_kind = k, src_symbol = bound_symbol k groups\<rparr>])
               source_kinds))
       (List.enumerate 1 (str_lines content)))"

definition sink_kinds :: "sink_kind list" where
  "sink_kinds = [FileWrite, HttpSend, Exec, DbQuery, Log, Deserialize]"

fun sink_kind_name :: "sink_kind \<Rightarrow> string" where
  "sink_kind_name FileWrite = ''file_write''"
| "sink_kind_name HttpSend = ''http_send''"
| "sink_kind_name Exec = ''exec''"
| "sink_kind_name DbQuery = ''db_query''"
| "sink_kind_name Log = ''log''"
| "sink_kind_name Deserialize = ''deserialize''"

definition extract_symbol_near :: "flow_env \<Rightarrow> string \<Rightarrow> string option" where
  "extract_symbol_near fx line = fx_ident fx (str_trim_start line)"

definition detect_sinks :: "flow_env \<Rightarrow> file_path \<Rightarrow> string \<Rightarrow> taint_sink list" where
  "detect_sinks fx p content =
     concat (map (\<lambda>(i, line).
       map (\<lambda>k. \<lparr>snk_file = p, snk_line = i, snk_kind = k,
                 snk_symbol = (case extract_symbol_near fx line of Some s \<Rightarrow> s | None \<Rightarrow> sink_kind_name k)\<rparr>)
         (filter (\<lambda>k. fx_sink fx (is_python p) k line) sink_kinds))
       (List.enumerate 1 (str_lines content)))"

section \<open>Assignments\<close>

definition is_ident :: "flow_env \<Rightarrow> string \<Rightarrow> bool" where
  "is_ident fx s \<longleftrightarrow>
     s \<noteq> [] \<and> (is_alphabetic (fx_alphabetic fx) (hd (str_chars s)) \<or> hd (str_chars s) = ''_'')
     \<and> list_all (\<lambda>c. is_alphanumeric (fx_alphanumeric fx) c \<or> c = ''_'') (str_chars s)"

definition let_assignment :: "flow_env \<Rightarrow> string \<Rightarrow> (string \<times> string) option" where
  "let_assignment fx trimmed =
     (case strip_prefix ''let '' trimmed of
        None \<Rightarrow> None
      | Some after_let \<Rightarrow>
          (let rest = str_trim (trim_start_matches ''mut'' after_let)
           in case str_find ''='' rest of
                None \<Rightarrow> None
              | Some eq \<Rightarrow>
                  (let lhs = str_trim (hd (split_on CHR '':'' (take eq rest)));
                       rhs = str_trim (drop (eq + 1) rest)
                   in if is_ident fx lhs then Some (lhs, rhs) else None)))"

definition plain_assignment :: "flow_env \<Rightarrow> string \<Rightarrow> (string \<times> string) option" where
  "plain_assignment fx trimmed =
     (case str_find ''='' trimmed of
        None \<Rightarrow> None
      | Some eq \<Rightarrow>
          (let before = str_trim (take eq trimmed);
               is_comparison = ((eq + 1 < length trimmed \<and> trimmed ! (eq + 1) = CHR ''='')
                 \<or> (0 < eq \<and> trimmed ! (eq - 1) \<in> set ''!<>=''))
           in if \<not> is_comparison \<and> is_ident fx before then Some (before, str_trim (drop (eq + 1) trimmed))
              else None))"

definition parse_assignment :: "flow_env \<Rightarrow> string \<Rightarrow> (string \<times> string) option" where
  "parse_assignment fx line =
     (case let_assignment fx (str_trim line) of
        Some r \<Rightarrow> Some r
      | None \<Rightarrow> plain_assignment fx (str_trim line))"

section \<open>The graph\<close>

type_synonym scan_state = "taint_graph \<times> (string, nat list) hmap"

definition record_node :: "taint_node \<Rightarrow> scan_state \<Rightarrow> scan_state" where
  "record_node n st =
     (case st of (g, symbol_to_nodes) \<Rightarrow>
        (case add_taint_node n g of
           (i, g') \<Rightarrow> (g', hm_entry (node_symbol n) [] (\<lambda>ids. ids @ [i]) symbol_to_nodes)))"

definition assignment_nodes :: "flow_env \<Rightarrow> file_path \<Rightarrow> string \<Rightarrow> taint_node list" where
  "assignment_nodes fx p content =
     concat (map (\<lambda>(i, line).
       case parse_assignment fx line of
         Some (lhs, _) \<Rightarrow>
           if 1 < length lhs \<and> lhs \<noteq> ''_''
           then [Inter \<lparr>int_file = p, int_line = i, int_symbol = lhs\<rparr>] else []
       | None \<Rightarrow> [])
       (List.enumerate 1 (str_lines content)))"

definition scan_file :: "flow_env \<Rightarrow> file_path \<Rightarrow> scan_state \<Rightarrow> scan_state" where
  "scan_file fx p st =
     (case fx_read fx p of
        None \<Rightarrow> st
      | Some content \<Rightarrow>
          fold record_node (assignment_nodes fx p content)
            (fold record_node (map Sink (detect_sinks fx p content))
              (fold record_node (map Source (detect_sources fx p content)) st)))"

text \<open>The order on nodes is that of their file and line; the sort is stable.\<close>

definition document_key :: "taint_graph \<Rightarrow> nat \<Rightarrow> file_path \<times> nat" where
  "document_key g i = (node_file (tg_nodes g ! i), node_line (tg_nodes g ! i))"

definition windows2 :: "'a list \<Rightarrow> ('a \<times> 'a) list" where
  "windows2 xs = zip xs (drop 1 xs)"

definition wire_pair :: "nat \<times> nat \<Rightarrow> taint_graph \<Rightarrow> taint_graph" where
  "wire_pair ab g =
     (if \<not> is_sink (tg_nodes g ! fst ab) then add_taint_edge (fst ab) (snd ab) DataFlow g else g)"

definition wire_symbol :: "nat list \<Rightarrow> taint_graph \<Rightarrow> taint_graph" where
  "wire_symbol ids g =
     (if length ids < 2 then g
      else fold wire_pair (windows2 (sort_key (document_key g) ids)) g)"

definition build_taint_graph :: "flow_env \<Rightarrow> (file_path \<times> dir_entry list) list \<Rightarrow> flow_config \<Rightarrow> taint_graph" where
  "build_taint_graph fx roots cfg =
     (case fold (scan_file fx) (collect_files (extensions cfg) roots) (taint_graph_default, []) of
        (g, symbol_to_nodes) \<Rightarrow>
          if cross_file_symbol_flow cfg then fold wire_symbol (map snd symbol_to_nodes) g else g)"

section \<open>The edges of a built graph\<close>

text \<open>The nodes of one symbol, in document order.\<close>

definition symbol_order :: "taint_graph \<Rightarrow> string \<Rightarrow> nat list" where
  "symbol_order g s =
     sort_key (document_key g) (filter (\<lambda>i. node_symbol (tg_nodes g ! i) = s) [0..<length (tg_nodes g)])"

definition scan_ok :: "scan_state \<Rightarrow> bool" where
  "scan_ok st \<longleftrightarrow>
     (case st of (g, syms) \<Rightarrow>
        tg_edges g = [] \<and> hm_ok syms
        \<and> (\<forall>s. hm_values syms s = filter (\<lambda>i. node_symbol (tg_nodes g ! i) = s) [0..<length (tg_nodes g)]))"

lemma scan_ok_default: "scan_ok (taint_graph_default, [])"
  by (simp add: scan_ok_def taint_graph_default_def hm_values_def)

lemma filter_nth_snoc:
  "filter (\<lambda>i. P ((xs @ [x]) ! i)) [0..<length xs] = filter (\<lambda>i. P (xs ! i)) [0..<length xs]"
  by (rule filter_cong) (auto simp: nth_append)

lemma record_node_ok: "scan_ok st \<Longrightarrow> scan_ok (record_node n st)"
  unfolding scan_ok_def record_node_def add_taint_node_def
  by (auto simp: hm_ok_entry hm_values_entry filter_nth_snoc[where P = "\<lambda>m. node_symbol m = _"])

lemma fold_invariant: "(\<And>x st. P st \<Longrightarrow> P (f x st)) \<Longrightarrow> P st \<Longrightarrow> P (fold f xs st)"
  by (induction xs arbitrary: st) auto

lemma scan_file_ok: "scan_ok st \<Longrightarrow> scan_ok (scan_file fx p st)"
  unfolding scan_file_def by (auto split: option.splits intro!: fold_invariant[of scan_ok] record_node_ok)

lemma scan_all_ok: "scan_ok (fold (scan_file fx) ps (taint_graph_default, []))"
  by (intro fold_invariant[of scan_ok] scan_file_ok scan_ok_default)

lemma wire_pair_simps [simp]:
  "tg_nodes (wire_pair ab g) = tg_nodes g"
  "sink_at (wire_pair ab g) a = sink_at g a"
  "flow_edge (wire_pair ab g) a b \<longleftrightarrow> flow_edge g a b \<or> (ab = (a, b) \<and> \<not> sink_at g a)"
  by (auto simp: wire_pair_def add_taint_edge_def flow_edge_def sink_at_def)

lemma wire_windows:
  "tg_nodes (fold wire_pair ws g) = tg_nodes g
   \<and> (flow_edge (fold wire_pair ws g) a b \<longleftrightarrow> flow_edge g a b \<or> ((a, b) \<in> set ws \<and> \<not> sink_at g a))"
  by (induction ws arbitrary: g) auto

lemma wire_symbol_char:
  "tg_nodes (wire_symbol ids g) = tg_nodes g"
  "flow_edge (wire_symbol ids g) a b \<longleftrightarrow>
     flow_edge g a b \<or> ((a, b) \<in> set (windows2 (sort_key (document_key g) ids)) \<and> \<not> sink_at g a)"
proof -
  have "length ids < 2 \<Longrightarrow> windows2 (sort_key (document_key g) ids) = []"
    by (simp add: windows2_def)
  then show "tg_nodes (wire_symbol ids g) = tg_nodes g"
    "flow_edge (wire_symbol ids g) a b \<longleftrightarrow>
     flow_edge g a b \<or> ((a, b) \<in> set (windows2 (sort_key (document_key g) ids)) \<and> \<not> sink_at g a)"
    using wire_windows[of "windows2 (sort_key (document_key g) ids)" g] by (auto simp: wire_symbol_def)
qed

lemma document_key_nodes: "tg_nodes g' = tg_nodes g \<Longrightarrow> document_key g' = document_key g"
  by (simp add: document_key_def fun_eq_iff)

lemma wire_all:
  "tg_nodes (fold wire_symbol idss g) = tg_nodes g
   \<and> (flow_edge (fold wire_symbol idss g) a b \<longleftrightarrow>
        flow_edge g a b
        \<or> (\<exists>ids \<in> set idss. (a, b) \<in> set (windows2 (sort_key (document_key g) ids))) \<and> \<not> sink_at g a)"
proof (induction idss arbitrary: g)
  case (Cons ids idss)
  have "document_key (wire_symbol ids g) = document_key g" "sink_at (wire_symbol ids g) a = sink_at g a"
    using document_key_nodes[OF wire_symbol_char(1)] by (simp_all add: sink_at_def wire_symbol_char(1))
  note keys = this
  have n: "tg_nodes (fold wire_symbol idss (wire_symbol ids g)) = tg_nodes g"
    using Cons[of "wire_symbol ids g"] wire_symbol_char(1) by metis
  have "flow_edge (fold wire_symbol idss (wire_symbol ids g)) a b \<longleftrightarrow>
      flow_edge (wire_symbol ids g) a b
      \<or> (\<exists>ids \<in> set idss. (a, b) \<in> set (windows2 (sort_key (document_key g) ids))) \<and> \<not> sink_at g a"
    using Cons[of "wire_symbol ids g"] unfolding keys by (rule conjunct2)
  then show ?case unfolding fold_simps wire_symbol_char(2) n by auto
qed simp

lemma set_windows2: "(a, b) \<in> set (windows2 xs) \<longleftrightarrow> (\<exists>i. Suc i < length xs \<and> xs ! i = a \<and> xs ! Suc i = b)"
proof -
  have "Suc i < length xs \<longleftrightarrow> i < length (drop 1 xs)" for i by auto
  then show ?thesis by (auto simp: windows2_def set_zip)
qed

lemma built_edge:
  assumes "cross_file_symbol_flow cfg" "g = build_taint_graph fx roots cfg"
  shows "flow_edge g a b \<longleftrightarrow>
    (\<exists>s i. Suc i < length (symbol_order g s) \<and> symbol_order g s ! i = a \<and> symbol_order g s ! Suc i = b) \<and> \<not> sink_at g a"
proof -
  obtain g0 syms where st: "fold (scan_file fx) (collect_files (extensions cfg) roots) (taint_graph_default, []) = (g0, syms)"
    by fastforce
  have ok: "scan_ok (g0, syms)" using scan_all_ok[of fx] st by metis
  have g: "g = fold wire_symbol (map snd syms) g0" using assms st by (simp add: build_taint_graph_def)
  have nodes: "tg_nodes g = tg_nodes g0" using wire_all[of "map snd syms" g0] g by simp
  have order: "symbol_order g s = sort_key (document_key g0) (hm_values syms s)" for s
    using ok nodes document_key_nodes[OF nodes] by (simp add: symbol_order_def scan_ok_def)
  have "\<not> flow_edge g0 a b" using ok by (simp add: scan_ok_def flow_edge_def)
  then have e: "flow_edge g a b \<longleftrightarrow>
      (\<exists>ids \<in> snd ` set syms. (a, b) \<in> set (windows2 (sort_key (document_key g0) ids))) \<and> \<not> sink_at g0 a"
    using wire_all[of "map snd syms" g0 a b] g by simp
  have "(\<exists>ids \<in> snd ` set syms. (a, b) \<in> set (windows2 (sort_key (document_key g0) ids)))
      \<longleftrightarrow> (\<exists>s. (a, b) \<in> set (windows2 (symbol_order g s)))"
  proof
    assume "\<exists>ids \<in> snd ` set syms. (a, b) \<in> set (windows2 (sort_key (document_key g0) ids))"
    then obtain s ids where "(s, ids) \<in> set syms" "(a, b) \<in> set (windows2 (sort_key (document_key g0) ids))" by auto
    moreover from this ok have "hm_values syms s = ids"
      using hm_get_Some_iff[of syms s ids] hm_values_Some[of syms s ids] by (simp add: scan_ok_def)
    ultimately show "\<exists>s. (a, b) \<in> set (windows2 (symbol_order g s))" using order by metis
  next
    assume "\<exists>s. (a, b) \<in> set (windows2 (symbol_order g s))"
    then obtain s where w: "(a, b) \<in> set (windows2 (sort_key (document_key g0) (hm_values syms s)))" using order by auto
    show "\<exists>ids \<in> snd ` set syms. (a, b) \<in> set (windows2 (sort_key (document_key g0) ids))"
    proof (cases "hm_get syms s")
      case None
      with w show ?thesis by (simp add: hm_values_def windows2_def)
    next
      case (Some ids)
      then show ?thesis using w hm_get_SomeD[OF Some] hm_values_Some[OF Some] by (force intro: bexI[of _ ids])
    qed
  qed
  with e show ?thesis by (auto simp: set_windows2 sink_at_def nodes)
qed

section \<open>What a scan reports\<close>

lemma symbol_order_set:
  "a \<in> set (symbol_order g s) \<longleftrightarrow> a < length (tg_nodes g) \<and> node_symbol (tg_nodes g ! a) = s"
  by (auto simp: symbol_order_def)

lemma symbol_order_distinct: "distinct (symbol_order g s)"
  by (simp add: symbol_order_def)

text \<open>A node's only successor is the next node of its symbol.\<close>

lemma built_successor:
  assumes "cross_file_symbol_flow cfg" "g = build_taint_graph fx roots cfg"
    and "L = symbol_order g s" "k < length L"
  shows "flow_edge g (L ! k) w \<longleftrightarrow> Suc k < length L \<and> w = L ! Suc k \<and> \<not> sink_at g (L ! k)"
proof
  assume "flow_edge g (L ! k) w"
  then obtain s' i where i: "Suc i < length (symbol_order g s')" "symbol_order g s' ! i = L ! k"
    "symbol_order g s' ! Suc i = w" "\<not> sink_at g (L ! k)"
    using built_edge[OF assms(1,2)] by auto
  have "L ! k \<in> set (symbol_order g s')" using i by (metis Suc_lessD nth_mem)
  moreover have "L ! k \<in> set (symbol_order g s)" using assms(3,4) by simp
  ultimately have "s' = s" by (simp add: symbol_order_set)
  with i assms(3,4) have "i = k" using symbol_order_distinct[of g s] by (auto simp: nth_eq_iff_index_eq)
  with i \<open>s' = s\<close> assms(3) show "Suc k < length L \<and> w = L ! Suc k \<and> \<not> sink_at g (L ! k)" by auto
next
  assume "Suc k < length L \<and> w = L ! Suc k \<and> \<not> sink_at g (L ! k)"
  then show "flow_edge g (L ! k) w" using built_edge[OF assms(1,2)] assms(3) by auto
qed

lemma built_walk:
  assumes b: "cross_file_symbol_flow cfg" "g = build_taint_graph fx roots cfg"
    and L: "L = symbol_order g s" "i < length L"
  shows "open_walk g (L ! i) p v \<longleftrightarrow>
    (\<exists>m. i + m < length L \<and> p = take (Suc m) (drop i L) \<and> v = L ! (i + m) \<and> (\<forall>k < m. \<not> sink_at g (L ! (i + k))))"
proof
  assume "open_walk g (L ! i) p v"
  then show "\<exists>m. i + m < length L \<and> p = take (Suc m) (drop i L) \<and> v = L ! (i + m) \<and> (\<forall>k < m. \<not> sink_at g (L ! (i + k)))"
  proof (induction p arbitrary: v rule: length_induct)
    case (1 p)
    from "1.prems" show ?case
    proof (cases rule: open_walk_split)
      case 1
      with L show ?thesis by (intro exI[of _ 0]) (simp add: take_Suc_conv_app_nth)
    next
      case (2 p' u)
      with "1.IH" obtain m where m: "i + m < length L" "p' = take (Suc m) (drop i L)" "u = L ! (i + m)"
        "\<forall>k < m. \<not> sink_at g (L ! (i + k))" by auto
      with 2(4) built_successor[OF b L(1) m(1)] have v: "Suc (i + m) < length L" "v = L ! Suc (i + m)" by auto
      with m 2(1,3) show ?thesis
        by (intro exI[of _ "Suc m"]) (auto simp: take_Suc_conv_app_nth[of "Suc m"] less_Suc_eq)
    qed
  qed
next
  assume "\<exists>m. i + m < length L \<and> p = take (Suc m) (drop i L) \<and> v = L ! (i + m) \<and> (\<forall>k < m. \<not> sink_at g (L ! (i + k)))"
  then obtain m where m: "i + m < length L" "p = take (Suc m) (drop i L)" "v = L ! (i + m)"
    "\<forall>k < m. \<not> sink_at g (L ! (i + k))" by auto
  have "i + m < length L \<Longrightarrow> (\<forall>k < m. \<not> sink_at g (L ! (i + k))) \<Longrightarrow> open_walk g (L ! i) (take (Suc m) (drop i L)) (L ! (i + m))"
  proof (induction m)
    case 0
    then show ?case by (simp add: take_Suc_conv_app_nth open_walk_def)
  next
    case (Suc m)
    then have w: "open_walk g (L ! i) (take (Suc m) (drop i L)) (L ! (i + m))" by simp
    have "flow_edge g (L ! (i + m)) (L ! (i + Suc m))"
      using built_successor[OF b L(1), of "i + m"] Suc.prems by simp
    with w Suc.prems have "open_walk g (L ! i) (take (Suc m) (drop i L) @ [L ! (i + Suc m)]) (L ! (i + Suc m))"
      by (intro open_walk_snoc) auto
    with Suc.prems show ?case by (simp add: take_Suc_conv_app_nth[of "Suc m"])
  qed
  with m show "open_walk g (L ! i) p v" by simp
qed

lemma built_in_range:
  assumes "cross_file_symbol_flow cfg" "g = build_taint_graph fx roots cfg"
  shows "edges_in_range g"
  unfolding edges_in_range_def list_all_iff
proof
  fix e assume "e \<in> set (tg_edges g)"
  then have "flow_edge g (te_from e) (te_to e)" by (auto simp: flow_edge_def)
  then obtain s i where "Suc i < length (symbol_order g s)" "symbol_order g s ! Suc i = te_to e"
    using built_edge[OF assms] by auto
  then show "te_to e < length (tg_nodes g)" by (metis nth_mem symbol_order_set)
qed

text \<open>
  What a scan of a program reports. With the symbol flow on, the search on the built graph never
  panics, and it pairs a source exactly with the next sink of the same symbol in document order
  (file, then line), when at most \<open>max_depth\<close> nodes of that symbol, both ends included, lie from one
  to the other; the path consists of these nodes. So a sink hides every later sink of its symbol.
\<close>
theorem scan_reports_next_sink:
  assumes "cross_file_symbol_flow cfg" "g = build_taint_graph fx roots cfg"
  shows "\<exists>ps. find_taint_paths d g = Some ps
    \<and> (\<forall>p. (\<exists>x \<in> set ps. tp_nodes x = p) \<longleftrightarrow>
        (\<exists>s i m. let L = symbol_order g s
           in i + m < length L \<and> p = take (Suc m) (drop i L) \<and> Suc m \<le> d
              \<and> source_at g (L ! i) \<and> sink_at g (L ! (i + m)) \<and> (\<forall>k < m. \<not> sink_at g (L ! (i + k)))))"
proof -
  obtain ps where ps: "find_taint_paths d g = Some ps" and all: "exact_report g d ps"
    using search_exact[OF built_in_range[OF assms], of d] by (elim exE conjE)
  note ends = all[unfolded exact_report_def, THEN conjunct2, THEN conjunct1, rule_format]
  have walks: "open_walk g (hd (tp_nodes x)) (tp_nodes x) (last (tp_nodes x))" if "x \<in> set ps" for x
    using all[unfolded exact_report_def, THEN conjunct2, THEN conjunct2] that by meson
  have same: "L = symbol_order g s \<Longrightarrow> i + m < length L \<Longrightarrow> i + m' < length L \<Longrightarrow> L ! (i + m) = L ! (i + m') \<Longrightarrow> m = m'"
    for L s i m m' using symbol_order_distinct[of g s] by (auto simp: nth_eq_iff_index_eq)
  show ?thesis
  proof (intro exI[of _ ps] conjI ps allI iffI)
    fix p assume "\<exists>x \<in> set ps. tp_nodes x = p"
    then obtain x where x: "x \<in> set ps" "tp_nodes x = p" by blast
    with ends[of "hd p" "last p"] obtain q where e: "source_at g (hd p)" "sink_at g (last p)"
      and q: "open_walk g (hd p) q (last p)" "length q \<le> d" by blast
    let ?s = "node_symbol (tg_nodes g ! hd p)"
    let ?L = "symbol_order g ?s"
    from e(1) have "hd p \<in> set ?L" by (simp add: symbol_order_set source_at_def)
    then obtain i where i: "i < length ?L" "?L ! i = hd p" by (auto simp: in_set_conv_nth)
    have "open_walk g (?L ! i) p (last p)" using walks[OF x(1)] x(2) i(2) by simp
    from built_walk[OF assms refl i(1), THEN iffD1, OF this] obtain m where
      m: "i + m < length ?L" "p = take (Suc m) (drop i ?L)" "last p = ?L ! (i + m)" "\<forall>k < m. \<not> sink_at g (?L ! (i + k))"
      by blast
    have "open_walk g (?L ! i) q (last p)" using q(1) i(2) by simp
    from built_walk[OF assms refl i(1), THEN iffD1, OF this] obtain m' where
      m': "i + m' < length ?L" "q = take (Suc m') (drop i ?L)" "last p = ?L ! (i + m')" by blast
    from same[OF refl m(1) m'(1)] m(3) m'(3) have "m = m'" by simp
    with m' q(2) have "Suc m \<le> d" by simp
    with m e i show "\<exists>s i m. let L = symbol_order g s
           in i + m < length L \<and> p = take (Suc m) (drop i L) \<and> Suc m \<le> d
              \<and> source_at g (L ! i) \<and> sink_at g (L ! (i + m)) \<and> (\<forall>k < m. \<not> sink_at g (L ! (i + k)))"
      by (intro exI[of _ ?s] exI[of _ i] exI[of _ m]) (simp add: Let_def)
  next
    fix p assume "\<exists>s i m. let L = symbol_order g s
           in i + m < length L \<and> p = take (Suc m) (drop i L) \<and> Suc m \<le> d
              \<and> source_at g (L ! i) \<and> sink_at g (L ! (i + m)) \<and> (\<forall>k < m. \<not> sink_at g (L ! (i + k)))"
    then obtain s i m L where L: "L = symbol_order g s" and m: "i + m < length L" "p = take (Suc m) (drop i L)" "Suc m \<le> d"
      "source_at g (L ! i)" "sink_at g (L ! (i + m))" "\<forall>k < m. \<not> sink_at g (L ! (i + k))"
      unfolding Let_def by blast
    have i: "i < length L" using m(1) by simp
    have "open_walk g (L ! i) p (L ! (i + m))" using built_walk[OF assms L i] m by blast
    moreover have "length p \<le> d" using m by simp
    moreover have "L ! (i + m) < length (tg_nodes g)" using m(1) L by (metis nth_mem symbol_order_set)
    ultimately obtain x where x: "x \<in> set ps" "hd (tp_nodes x) = L ! i" "last (tp_nodes x) = L ! (i + m)"
      using ends[of "L ! i" "L ! (i + m)"] m(4,5) by blast
    have "open_walk g (L ! i) (tp_nodes x) (L ! (i + m))" using walks[OF x(1)] x(2,3) by simp
    from built_walk[OF assms L i, THEN iffD1, OF this] obtain m' where
      "i + m' < length L" "tp_nodes x = take (Suc m') (drop i L)" "L ! (i + m) = L ! (i + m')" by blast
    with same[OF L m(1)] m(2) x(1) show "\<exists>x \<in> set ps. tp_nodes x = p" by metis
  qed
qed

text \<open>A program with one file, whose lines are the kinds of the nodes they hold.\<close>

definition demo_flow :: "string \<Rightarrow> flow_env" where
  "demo_flow content =
     \<lparr>fx_source = (\<lambda>py k line. if k = EnvVar \<and> line = ''source'' then Some [Some ''key''] else None),
      fx_sink = (\<lambda>py k line. k = Log \<and> line = ''sink''),
      fx_ident = (\<lambda>line. Some ''key''),
      fx_alphabetic = (\<lambda>_. False), fx_alphanumeric = (\<lambda>_. False),
      fx_read = (\<lambda>p. Some content)\<rparr>"

definition demo_roots :: "(file_path \<times> dir_entry list) list" where
  "demo_roots = [([''src''], [File_entry ''a.rs'', Dir_entry ''target'' [File_entry ''b.rs'']])]"

lemma scan_reports_next_sink_witness:
  "\<exists>ps. find_taint_paths 12 (build_taint_graph (demo_flow (''source'' @ nl @ ''sink'')) demo_roots flow_config_default) = Some ps"
  using scan_reports_next_sink[of flow_config_default _ "demo_flow (''source'' @ nl @ ''sink'')" demo_roots 12, OF _ refl]
  by (auto simp: flow_config_default_def)

text \<open>
  Three consequences on concrete programs. A sink after another one is not reported; a flow into a
  source is an edge, against the comment in \<open>build_taint_graph\<close>; and one hop needs a depth of two.
\<close>

lemma second_sink_is_hidden:
  "map_option (map tp_nodes) (find_taint_paths 12
     (build_taint_graph (demo_flow (''source'' @ nl @ ''sink'' @ nl @ ''sink'')) demo_roots flow_config_default))
   = Some [[0, 1]]"
  by code_simp

lemma edge_into_source:
  "flow_edge (build_taint_graph (demo_flow (''source'' @ nl @ ''source'')) demo_roots flow_config_default) 0 1"
  by code_simp

lemma one_hop_needs_depth_two:
  "find_taint_paths 1 (build_taint_graph (demo_flow (''source'' @ nl @ ''sink'')) demo_roots flow_config_default)
   = Some []"
  by code_simp

text \<open>\<open>trim_start_matches("mut")\<close> also cuts the beginning of a name.\<close>

lemma mutex_is_read_as_ex:
  "parse_assignment (demo_flow []) ''let mutex = 1;'' = Some (''ex'', ''1;'')"
  by code_simp

end
