(* ===== verification/Int64.thy ===== *)
theory Int64
  imports Rust_Strings "HOL-Library.Word"
begin

text \<open>
  What the analysis crates use of Rust's \<open>i64\<close>: a 64-bit word read as signed, its bounds, checked
  arithmetic, printing and parsing.
\<close>

section \<open>Bounds and checked arithmetic\<close>

definition i64_min :: "64 word" where "i64_min = word_of_int (- (2 ^ 63))"
definition i64_max :: "64 word" where "i64_max = word_of_int (2 ^ 63 - 1)"

definition checked :: "int \<Rightarrow> 64 word option" where
  "checked n = (if - (2 ^ 63) \<le> n \<and> n < 2 ^ 63 then Some (word_of_int n) else None)"

section \<open>Printing and parsing\<close>

definition show_i64 :: "64 word \<Rightarrow> string" where
  "show_i64 w = (if sint w < 0 then ''-'' @ show_nat (nat (- sint w)) else show_nat (nat (sint w)))"

definition parse_i64 :: "string \<Rightarrow> 64 word option" where
  "parse_i64 s =
     (let neg = (s \<noteq> [] \<and> hd s = CHR 0x2D);
          ds = (if s \<noteq> [] \<and> (hd s = CHR 0x2D \<or> hd s = CHR 0x2B) then tl s else s);
          n = foldl (\<lambda>n c. n * 10 + (int (byte_of c) - 48)) 0 ds
      in if ds = [] \<or> \<not> list_all is_digit ds then None else checked (if neg then - n else n))"

section \<open>Facts\<close>

lemma sint_inj: "sint (a :: 64 word) = sint b \<longleftrightarrow> a = b"
  by (auto intro: signed_word_eqI)

lemma sint_i64: "- (2 ^ 63) \<le> sint (w :: 64 word)" "sint (w :: 64 word) < 2 ^ 63"
  using sint_greater_eq[of w] sint_less[of w] by simp_all

lemma sint_i64_bounds [simp]: "sint i64_min = - (2 ^ 63)" "sint i64_max = 2 ^ 63 - 1"
  by (simp_all add: i64_min_def i64_max_def)

lemma sint_succ: "sint (w :: 64 word) < 2 ^ 63 - 1 \<Longrightarrow> sint (w + 1) = sint w + 1"
  using sint_i64[of w] by (simp add: signed_take_bit_int_eq_self sint_word_ariths)

lemma sint_pred: "- (2 ^ 63) < sint (w :: 64 word) \<Longrightarrow> sint (w - 1) = sint w - 1"
  using sint_i64[of w] by (simp add: signed_take_bit_int_eq_self sint_word_ariths)

end
