(* ===== verification/SymExpr.thy ===== *)
theory SymExpr
  imports Int64 "HOL-Library.Signed_Division"
begin

unbundle bit_operations_syntax

text \<open>
  The symbolic expressions of \<open>crates/aether-symexec/src/expr.rs\<close>: their printing, simplification and
  free variables. An \<open>i64\<close> is a 64-bit word read as signed. The meaning of an expression, which the code
  only has in its comments, is the evaluator below; simplification is proved to keep it. A panic of the
  code (the overflow of a signed division) is \<open>None\<close>.
\<close>

section \<open>Expressions\<close>

datatype arith_op = Add | Sub | Mul | Div | Mod | BitAnd | BitOr | BitXor | Shl | Shr

datatype cmp_rel = Eq | Ne | Lt | Le | Gt | Ge

datatype expr =
    Sym string
  | Int_lit "64 word"
  | Bool_lit bool
  | BinOp arith_op expr expr
  | Cmp cmp_rel expr expr
  | Not_expr expr
  | And_expr "expr list"
  | Or_expr "expr list"
  | Ite expr expr expr
  | App string "expr list"

fun show_arith_op :: "arith_op \<Rightarrow> string" where
  "show_arith_op Add = ''+''"
| "show_arith_op Sub = ''-''"
| "show_arith_op Mul = ''*''"
| "show_arith_op Div = ''/''"
| "show_arith_op Mod = ''%''"
| "show_arith_op BitAnd = ''&''"
| "show_arith_op BitOr = ''|''"
| "show_arith_op BitXor = ''^''"
| "show_arith_op Shl = ''<<''"
| "show_arith_op Shr = ''>>''"

fun show_cmp_rel :: "cmp_rel \<Rightarrow> string" where
  "show_cmp_rel Eq = ''==''"
| "show_cmp_rel Ne = ''!=''"
| "show_cmp_rel Lt = ''<''"
| "show_cmp_rel Le = ''<=''"
| "show_cmp_rel Gt = ''>''"
| "show_cmp_rel Ge = ''>=''"

fun show_expr :: "expr \<Rightarrow> string" where
  "show_expr (Sym s) = s"
| "show_expr (Int_lit n) = show_i64 n"
| "show_expr (Bool_lit b) = (if b then ''true'' else ''false'')"
| "show_expr (BinOp op l r) = ''('' @ show_expr l @ '' '' @ show_arith_op op @ '' '' @ show_expr r @ '')''"
| "show_expr (Cmp rel l r) = ''('' @ show_expr l @ '' '' @ show_cmp_rel rel @ '' '' @ show_expr r @ '')''"
| "show_expr (Not_expr e) = [CHR 0xC2, CHR 0xAC] @ show_expr e"
| "show_expr (And_expr es) =
     ''('' @ str_join ('' '' @ [CHR 0xE2, CHR 0x88, CHR 0xA7] @ '' '') (map show_expr es) @ '')''"
| "show_expr (Or_expr es) =
     ''('' @ str_join ('' '' @ [CHR 0xE2, CHR 0x88, CHR 0xA8] @ '' '') (map show_expr es) @ '')''"
| "show_expr (Ite c t e) = ''('' @ show_expr c @ '' ? '' @ show_expr t @ '' : '' @ show_expr e @ '')''"
| "show_expr (App f es) = f @ ''('' @ str_join '', '' (map show_expr es) @ '')''"

section \<open>Arithmetic\<close>

text \<open>\<open>b as u32\<close> keeps the low 32 bits; \<open>checked_shl\<close> and \<open>checked_shr\<close> refuse 64 and more.\<close>

definition shift_amount :: "64 word \<Rightarrow> nat option" where
  "shift_amount b = (let s = unat (ucast b :: 32 word) in if s < 64 then Some s else None)"

definition division_overflows :: "64 word \<Rightarrow> 64 word \<Rightarrow> bool" where
  "division_overflows a b \<longleftrightarrow> sint a = - (2 ^ 63) \<and> sint b = -1"

definition eval_arith :: "arith_op \<Rightarrow> 64 word \<Rightarrow> 64 word \<Rightarrow> 64 word option option" where
  "eval_arith op a b =
     (case op of
        Add \<Rightarrow> Some (checked (sint a + sint b))
      | Sub \<Rightarrow> Some (checked (sint a - sint b))
      | Mul \<Rightarrow> Some (checked (sint a * sint b))
      | Div \<Rightarrow>
          if b = 0 then Some None
          else if division_overflows a b then None else Some (Some (word_of_int (sint a sdiv sint b)))
      | Mod \<Rightarrow>
          if b = 0 then Some None
          else if division_overflows a b then None else Some (Some (word_of_int (sint a smod sint b)))
      | BitAnd \<Rightarrow> Some (Some (a AND b))
      | BitOr \<Rightarrow> Some (Some (a OR b))
      | BitXor \<Rightarrow> Some (Some (a XOR b))
      | Shl \<Rightarrow> Some (if 0 \<le> sint b then map_option (\<lambda>s. push_bit s a) (shift_amount b) else None)
      | Shr \<Rightarrow> Some (if 0 \<le> sint b then map_option (\<lambda>s. signed_drop_bit s a) (shift_amount b) else None))"

fun eval_cmp :: "cmp_rel \<Rightarrow> 64 word \<Rightarrow> 64 word \<Rightarrow> bool" where
  "eval_cmp Eq a b = (a = b)"
| "eval_cmp Ne a b = (a \<noteq> b)"
| "eval_cmp Lt a b = (sint a < sint b)"
| "eval_cmp Le a b = (sint a \<le> sint b)"
| "eval_cmp Gt a b = (sint b < sint a)"
| "eval_cmp Ge a b = (sint b \<le> sint a)"

section \<open>Simplification\<close>

definition simplify_and :: "expr list \<Rightarrow> expr" where
  "simplify_and es =
     (let simplified = filter (\<lambda>e. e \<noteq> Bool_lit True) es in
      if Bool_lit False \<in> set simplified then Bool_lit False
      else (case simplified of [] \<Rightarrow> Bool_lit True | [e] \<Rightarrow> e | _ \<Rightarrow> And_expr simplified))"

definition simplify_or :: "expr list \<Rightarrow> expr" where
  "simplify_or es =
     (let simplified = filter (\<lambda>e. e \<noteq> Bool_lit False) es in
      if Bool_lit True \<in> set simplified then Bool_lit True
      else (case simplified of [] \<Rightarrow> Bool_lit False | [e] \<Rightarrow> e | _ \<Rightarrow> Or_expr simplified))"

definition simplify_not :: "expr \<Rightarrow> expr" where
  "simplify_not e =
     (case e of Bool_lit b \<Rightarrow> Bool_lit (\<not> b) | Not_expr e' \<Rightarrow> e' | _ \<Rightarrow> Not_expr e)"

definition simplify_bin :: "arith_op \<Rightarrow> expr \<Rightarrow> expr \<Rightarrow> expr option" where
  "simplify_bin op l r =
     (case (l, r) of
        (Int_lit a, Int_lit b) \<Rightarrow>
          map_option (\<lambda>res. case res of Some n \<Rightarrow> Int_lit n | None \<Rightarrow> BinOp op l r) (eval_arith op a b)
      | _ \<Rightarrow> Some (BinOp op l r))"

definition simplify_cmp :: "cmp_rel \<Rightarrow> expr \<Rightarrow> expr \<Rightarrow> expr" where
  "simplify_cmp rel l r =
     (case (l, r) of (Int_lit a, Int_lit b) \<Rightarrow> Bool_lit (eval_cmp rel a b) | _ \<Rightarrow> Cmp rel l r)"

fun simplify :: "expr \<Rightarrow> expr option" where
  "simplify (Not_expr e) = map_option simplify_not (simplify e)"
| "simplify (And_expr es) = map_option simplify_and (those (map simplify es))"
| "simplify (Or_expr es) = map_option simplify_or (those (map simplify es))"
| "simplify (BinOp op l r) =
     Option.bind (simplify l) (\<lambda>l'. Option.bind (simplify r) (\<lambda>r'. simplify_bin op l' r'))"
| "simplify (Cmp rel l r) =
     Option.bind (simplify l) (\<lambda>l'. map_option (\<lambda>r'. simplify_cmp rel l' r') (simplify r))"
| "simplify e = Some e"

section \<open>Variables\<close>

fun collect_vars :: "expr \<Rightarrow> string list" where
  "collect_vars (Sym s) = [s]"
| "collect_vars (BinOp op l r) = collect_vars l @ collect_vars r"
| "collect_vars (Cmp rel l r) = collect_vars l @ collect_vars r"
| "collect_vars (Not_expr e) = collect_vars e"
| "collect_vars (And_expr es) = concat (map collect_vars es)"
| "collect_vars (Or_expr es) = concat (map collect_vars es)"
| "collect_vars (Ite c t e) = collect_vars c @ collect_vars t @ collect_vars e"
| "collect_vars (App f es) = concat (map collect_vars es)"
| "collect_vars (Int_lit n) = []"
| "collect_vars (Bool_lit b) = []"

definition free_vars :: "expr \<Rightarrow> string list" where
  "free_vars e = sort_dedup (collect_vars e)"

definition is_concrete :: "expr \<Rightarrow> bool" where
  "is_concrete e \<longleftrightarrow> free_vars e = []"

section \<open>Meaning\<close>

datatype sym_value = IntV "64 word" | BoolV bool

fun bool_of :: "sym_value \<Rightarrow> bool option" where
  "bool_of (BoolV b) = Some b"
| "bool_of (IntV n) = None"

text \<open>Values of the variables and of the uninterpreted functions are given.\<close>

fun eval ::
  "(string \<Rightarrow> sym_value) \<Rightarrow> (string \<Rightarrow> sym_value list \<Rightarrow> sym_value) \<Rightarrow> expr \<Rightarrow> sym_value option" where
  "eval env fn (Sym s) = Some (env s)"
| "eval env fn (Int_lit n) = Some (IntV n)"
| "eval env fn (Bool_lit b) = Some (BoolV b)"
| "eval env fn (BinOp op l r) =
     (case (eval env fn l, eval env fn r) of
        (Some (IntV a), Some (IntV b)) \<Rightarrow>
          (case eval_arith op a b of Some (Some n) \<Rightarrow> Some (IntV n) | _ \<Rightarrow> None)
      | _ \<Rightarrow> None)"
| "eval env fn (Cmp rel l r) =
     (case (eval env fn l, eval env fn r) of
        (Some (IntV a), Some (IntV b)) \<Rightarrow> Some (BoolV (eval_cmp rel a b))
      | _ \<Rightarrow> None)"
| "eval env fn (Not_expr e) = map_option (\<lambda>b. BoolV (\<not> b)) (Option.bind (eval env fn e) bool_of)"
| "eval env fn (And_expr es) =
     map_option (\<lambda>bs. BoolV (list_all id bs)) (those (map (\<lambda>e. Option.bind (eval env fn e) bool_of) es))"
| "eval env fn (Or_expr es) =
     map_option (\<lambda>bs. BoolV (list_ex id bs)) (those (map (\<lambda>e. Option.bind (eval env fn e) bool_of) es))"
| "eval env fn (Ite c t e) =
     (case eval env fn c of
        Some (BoolV b) \<Rightarrow> if b then eval env fn t else eval env fn e
      | _ \<Rightarrow> None)"
| "eval env fn (App f es) = map_option (fn f) (those (map (eval env fn) es))"

definition truth :: "(string \<Rightarrow> sym_value) \<Rightarrow> (string \<Rightarrow> sym_value list \<Rightarrow> sym_value) \<Rightarrow> expr \<Rightarrow> bool option" where
  "truth env fn e = Option.bind (eval env fn e) bool_of"


section \<open>Simplification keeps the meaning\<close>

lemma truth_iff: "truth env fn e = Some b \<longleftrightarrow> eval env fn e = Some (BoolV b)"
  unfolding truth_def by (auto simp: bind_eq_Some_conv elim: bool_of.elims)

lemma truth_fn: "truth env fn = (\<lambda>e. Option.bind (eval env fn e) bool_of)"
  by (simp add: truth_def fun_eq_iff)

lemma bind_bool_of: "Option.bind (map_option (\<lambda>x. BoolV (g x)) y) bool_of = map_option g y"
  by (cases y) simp_all

lemma truth_simps [simp]:
  "truth env fn (Bool_lit b) = Some b"
  "truth env fn (Not_expr e) = map_option Not (truth env fn e)"
  "truth env fn (And_expr es) = map_option (list_all id) (those (map (truth env fn) es))"
  "truth env fn (Or_expr es) = map_option (list_ex id) (those (map (truth env fn) es))"
  by (simp_all only: truth_fn eval.simps bind_bool_of Option.bind.bind_lunit bool_of.simps)

lemma eval_connectives:
  "eval env fn (Not_expr e) = map_option BoolV (truth env fn (Not_expr e))"
  "eval env fn (And_expr es) = map_option BoolV (truth env fn (And_expr es))"
  "eval env fn (Or_expr es) = map_option BoolV (truth env fn (Or_expr es))"
  by (simp_all add: option.map_comp comp_def) (simp_all add: truth_fn)

lemma truth_And_iff:
  "truth env fn (And_expr es) = Some b \<longleftrightarrow>
   (\<forall>e \<in> set es. truth env fn e \<noteq> None) \<and> b = (\<forall>e \<in> set es. truth env fn e = Some True)"
proof (cases "\<forall>e \<in> set es. truth env fn e \<noteq> None")
  case True
  then have "(the (truth env fn e)) = (truth env fn e = Some True)" if "e \<in> set es" for e
    using that by (metis option.collapse option.sel)
  then show ?thesis using True by (auto simp: those_map list_all_iff simp del: not_None_eq)
qed (auto simp: those_map)

lemma truth_Or_iff:
  "truth env fn (Or_expr es) = Some b \<longleftrightarrow>
   (\<forall>e \<in> set es. truth env fn e \<noteq> None) \<and> b = (\<exists>e \<in> set es. truth env fn e = Some True)"
proof (cases "\<forall>e \<in> set es. truth env fn e \<noteq> None")
  case True
  then have "(the (truth env fn e)) = (truth env fn e = Some True)" if "e \<in> set es" for e
    using that by (metis option.collapse option.sel)
  then show ?thesis using True by (auto simp: those_map list_ex_iff simp del: not_None_eq)
qed (auto simp: those_map)

lemma simplify_and_truth:
  assumes "truth env fn (And_expr es) = Some b"
  shows "truth env fn (simplify_and es) = Some b"
proof -
  define ss where "ss = filter (\<lambda>e. e \<noteq> Bool_lit True) es"
  have ss: "truth env fn (And_expr ss) = Some b"
    using assms unfolding truth_And_iff ss_def by auto
  show ?thesis
  proof (cases "Bool_lit False \<in> set ss")
    case True
    then have "b = False" using ss unfolding truth_And_iff by (metis truth_simps(1) option.inject)
    then show ?thesis using True by (simp add: simplify_and_def flip: ss_def)
  next
    case False
    then show ?thesis
      using ss by (cases ss rule: remdups_adj.cases) (auto simp: simplify_and_def simp flip: ss_def split: option.splits)
  qed
qed

lemma simplify_or_truth:
  assumes "truth env fn (Or_expr es) = Some b"
  shows "truth env fn (simplify_or es) = Some b"
proof -
  define ss where "ss = filter (\<lambda>e. e \<noteq> Bool_lit False) es"
  have ss: "truth env fn (Or_expr ss) = Some b"
    using assms unfolding truth_Or_iff ss_def by auto
  show ?thesis
  proof (cases "Bool_lit True \<in> set ss")
    case True
    then have "b = True" using ss unfolding truth_Or_iff by (metis truth_simps(1))
    then show ?thesis using True by (simp add: simplify_or_def flip: ss_def)
  next
    case False
    then show ?thesis
      using ss by (cases ss rule: remdups_adj.cases) (auto simp: simplify_or_def simp flip: ss_def split: option.splits)
  qed
qed

lemma simplify_not_truth: "truth env fn (Not_expr e) = Some b \<Longrightarrow> truth env fn (simplify_not e) = Some b"
  by (auto simp: simplify_not_def split: expr.splits) (auto simp: option.map_comp comp_def)

text \<open>A step of simplification may lose a failure (of an operand that is dropped), never a value.\<close>

definition improves :: "(string \<Rightarrow> sym_value) \<Rightarrow> (string \<Rightarrow> sym_value list \<Rightarrow> sym_value) \<Rightarrow> expr \<Rightarrow> bool" where
  "improves env fn e \<longleftrightarrow>
     (\<forall>v. eval env fn e = Some v \<longrightarrow> (\<exists>e'. simplify e = Some e' \<and> eval env fn e' = Some v))"

lemma improves_truth:
  assumes "improves env fn e" and "truth env fn e = Some b"
  shows "\<exists>e'. simplify e = Some e' \<and> truth env fn e' = Some b"
  using assms unfolding improves_def truth_iff by blast

lemma improves_those:
  assumes "\<And>e. e \<in> set es \<Longrightarrow> improves env fn e" and "\<forall>e \<in> set es. truth env fn e \<noteq> None"
  shows "\<exists>es'. those (map simplify es) = Some es' \<and>
               list_all2 (\<lambda>e e'. truth env fn e' = truth env fn e) es es'"
  using assms
proof (induction es)
  case (Cons e es)
  obtain b where b: "truth env fn e = Some b" using Cons.prems(2) by auto
  obtain e' where "simplify e = Some e'" "truth env fn e' = Some b"
    using improves_truth[OF Cons.prems(1) b] by auto
  moreover have "\<exists>es'. those (map simplify es) = Some es' \<and>
               list_all2 (\<lambda>e e'. truth env fn e' = truth env fn e) es es'"
    using Cons.IH Cons.prems by simp
  ultimately show ?case using b by auto
qed simp

lemma those_truth_cong:
  "list_all2 (\<lambda>e e'. truth env fn e' = truth env fn e) es es' \<Longrightarrow>
   those (map (truth env fn) es') = those (map (truth env fn) es)"
  by (induction rule: list_all2_induct) (simp_all cong: option.case_cong)

lemma improves_and:
  assumes "\<And>e. e \<in> set es \<Longrightarrow> improves env fn e"
  shows "improves env fn (And_expr es)"
  unfolding improves_def
proof (intro allI impI)
  fix v
  assume "eval env fn (And_expr es) = Some v"
  then obtain b where v: "v = BoolV b" and b: "truth env fn (And_expr es) = Some b"
    unfolding eval_connectives by blast
  obtain es' where es': "those (map simplify es) = Some es'"
      "list_all2 (\<lambda>e e'. truth env fn e' = truth env fn e) es es'"
    using improves_those[OF assms] b[unfolded truth_And_iff] by blast
  have "truth env fn (And_expr es') = Some b"
    using b those_truth_cong[OF es'(2)] by simp
  from simplify_and_truth[OF this] show "\<exists>e'. simplify (And_expr es) = Some e' \<and> eval env fn e' = Some v"
    using es'(1) by (simp add: v truth_iff)
qed

lemma improves_or:
  assumes "\<And>e. e \<in> set es \<Longrightarrow> improves env fn e"
  shows "improves env fn (Or_expr es)"
  unfolding improves_def
proof (intro allI impI)
  fix v
  assume "eval env fn (Or_expr es) = Some v"
  then obtain b where v: "v = BoolV b" and b: "truth env fn (Or_expr es) = Some b"
    unfolding eval_connectives by blast
  obtain es' where es': "those (map simplify es) = Some es'"
      "list_all2 (\<lambda>e e'. truth env fn e' = truth env fn e) es es'"
    using improves_those[OF assms] b[unfolded truth_Or_iff] by blast
  have "truth env fn (Or_expr es') = Some b"
    using b those_truth_cong[OF es'(2)] by simp
  from simplify_or_truth[OF this] show "\<exists>e'. simplify (Or_expr es) = Some e' \<and> eval env fn e' = Some v"
    using es'(1) by (simp add: v truth_iff)
qed

lemma improves_not:
  assumes "improves env fn e"
  shows "improves env fn (Not_expr e)"
  unfolding improves_def
proof (intro allI impI)
  fix v
  assume "eval env fn (Not_expr e) = Some v"
  then obtain b where v: "v = BoolV (\<not> b)" and b: "truth env fn e = Some b"
    unfolding eval_connectives by auto
  from improves_truth[OF assms b] obtain e' where "simplify e = Some e'" "truth env fn e' = Some b" by blast
  then show "\<exists>e''. simplify (Not_expr e) = Some e'' \<and> eval env fn e'' = Some v"
    using simplify_not_truth[of env fn e' "\<not> b"] by (simp add: v truth_iff)
qed

lemma simplify_bin_eval:
  "eval env fn (BinOp op l r) = Some v \<Longrightarrow>
   \<exists>e'. simplify_bin op l r = Some e' \<and> eval env fn e' = Some v"
  by (cases l; cases r) (auto simp: simplify_bin_def split: option.split_asm)

lemma simplify_cmp_eval: "eval env fn (Cmp rel l r) = Some v \<Longrightarrow> eval env fn (simplify_cmp rel l r) = Some v"
  by (cases l; cases r) (simp_all add: simplify_cmp_def)

lemma eval_operands:
  "eval env fn (BinOp op l r) = Some v \<Longrightarrow> \<exists>a b. eval env fn l = Some a \<and> eval env fn r = Some b"
  "eval env fn (Cmp rel l r) = Some v \<Longrightarrow> \<exists>a b. eval env fn l = Some a \<and> eval env fn r = Some b"
  by (auto split: option.splits sym_value.splits)

lemma improves_bin:
  assumes "improves env fn l" and "improves env fn r"
  shows "improves env fn (BinOp op l r)"
  unfolding improves_def
proof (intro allI impI)
  fix v
  assume v: "eval env fn (BinOp op l r) = Some v"
  from eval_operands(1)[OF v] assms obtain l' r' where l': "simplify l = Some l'" "eval env fn l' = eval env fn l"
      and r': "simplify r = Some r'" "eval env fn r' = eval env fn r"
    unfolding improves_def by metis
  have "eval env fn (BinOp op l' r') = Some v" using v l'(2) r'(2) by simp
  from simplify_bin_eval[OF this] show "\<exists>e'. simplify (BinOp op l r) = Some e' \<and> eval env fn e' = Some v"
    using l'(1) r'(1) by simp
qed

lemma improves_cmp:
  assumes "improves env fn l" and "improves env fn r"
  shows "improves env fn (Cmp rel l r)"
  unfolding improves_def
proof (intro allI impI)
  fix v
  assume v: "eval env fn (Cmp rel l r) = Some v"
  from eval_operands(2)[OF v] assms obtain l' r' where l': "simplify l = Some l'" "eval env fn l' = eval env fn l"
      and r': "simplify r = Some r'" "eval env fn r' = eval env fn r"
    unfolding improves_def by metis
  have "eval env fn (Cmp rel l' r') = Some v" using v l'(2) r'(2) by simp
  from simplify_cmp_eval[OF this] show "\<exists>e'. simplify (Cmp rel l r) = Some e' \<and> eval env fn e' = Some v"
    using l'(1) r'(1) by simp
qed

lemma simplify_improves: "improves env fn e"
  by (induction e) (auto intro: improves_not improves_and improves_or improves_bin improves_cmp simp: improves_def[of _ _ "Sym _"]
     improves_def[of _ _ "Int_lit _"] improves_def[of _ _ "Bool_lit _"] improves_def[of _ _ "Ite _ _ _"] improves_def[of _ _ "App _ _"])

section \<open>Normal forms\<close>

lemma those_ex: "(\<And>x. x \<in> set xs \<Longrightarrow> \<exists>y. f x = Some y) \<Longrightarrow> \<exists>ys. those (map f xs) = Some ys"
  by (force simp: those_map)

lemma those_fixed: "(\<And>x. x \<in> set xs \<Longrightarrow> f x = Some x) \<Longrightarrow> those (map f xs) = Some xs"
  by (induction xs) simp_all

lemma those_mem: "those (map f xs) = Some ys \<Longrightarrow> y \<in> set ys \<Longrightarrow> \<exists>x \<in> set xs. f x = Some y"
  by (fastforce simp: those_map split: if_splits)

fun literal :: "expr \<Rightarrow> bool" where
  "literal (Int_lit n) = True"
| "literal e = False"

fun negation_or_bool :: "expr \<Rightarrow> bool" where
  "negation_or_bool (Bool_lit b) = True"
| "negation_or_bool (Not_expr e) = True"
| "negation_or_bool e = False"

fun folds :: "arith_op \<Rightarrow> expr \<Rightarrow> expr \<Rightarrow> bool" where
  "folds op (Int_lit a) (Int_lit b) = (eval_arith op a b \<noteq> Some None)"
| "folds op l r = False"

text \<open>The shapes simplification returns.\<close>

fun normal :: "expr \<Rightarrow> bool" where
  "normal (Not_expr e) = (normal e \<and> \<not> negation_or_bool e)"
| "normal (And_expr es) = (2 \<le> length es \<and> (\<forall>e \<in> set es. normal e \<and> (\<forall>b. e \<noteq> Bool_lit b)))"
| "normal (Or_expr es) = (2 \<le> length es \<and> (\<forall>e \<in> set es. normal e \<and> (\<forall>b. e \<noteq> Bool_lit b)))"
| "normal (BinOp op l r) = (normal l \<and> normal r \<and> \<not> folds op l r)"
| "normal (Cmp rel l r) = (normal l \<and> normal r \<and> \<not> (literal l \<and> literal r))"
| "normal e = True"

lemma simplify_and_normal:
  assumes "\<forall>e \<in> set es. normal e"
  shows "normal (simplify_and es)"
proof -
  define ss where "ss = filter (\<lambda>e. e \<noteq> Bool_lit True) es"
  have ss: "\<forall>e \<in> set ss. normal e \<and> e \<noteq> Bool_lit True" using assms by (auto simp: ss_def)
  show ?thesis
  proof (cases "Bool_lit False \<in> set ss")
    case False
    then have "\<forall>e \<in> set ss. \<forall>b. e \<noteq> Bool_lit b" using ss by (metis (full_types))
    then show ?thesis
      using ss False by (cases ss rule: remdups_adj.cases) (auto simp: simplify_and_def simp flip: ss_def)
  qed (simp add: simplify_and_def flip: ss_def)
qed

lemma simplify_or_normal:
  assumes "\<forall>e \<in> set es. normal e"
  shows "normal (simplify_or es)"
proof -
  define ss where "ss = filter (\<lambda>e. e \<noteq> Bool_lit False) es"
  have ss: "\<forall>e \<in> set ss. normal e \<and> e \<noteq> Bool_lit False" using assms by (auto simp: ss_def)
  show ?thesis
  proof (cases "Bool_lit True \<in> set ss")
    case False
    then have "\<forall>e \<in> set ss. \<forall>b. e \<noteq> Bool_lit b" using ss by (metis (full_types))
    then show ?thesis
      using ss False by (cases ss rule: remdups_adj.cases) (auto simp: simplify_or_def simp flip: ss_def)
  qed (simp add: simplify_or_def flip: ss_def)
qed

lemma simplify_not_normal: "normal e \<Longrightarrow> normal (simplify_not e)"
  by (cases e) (auto simp: simplify_not_def)

lemma simplify_bin_normal:
  "normal l \<Longrightarrow> normal r \<Longrightarrow> simplify_bin op l r = Some e \<Longrightarrow> normal e"
  by (cases l; cases r) (auto simp: simplify_bin_def split: option.splits)

lemma simplify_cmp_normal: "normal l \<Longrightarrow> normal r \<Longrightarrow> normal (simplify_cmp rel l r)"
  by (cases l; cases r) (simp_all add: simplify_cmp_def)

lemma simplify_normal: "simplify e = Some e' \<Longrightarrow> normal e'"
proof (induction e arbitrary: e')
  case (BinOp op l r)
  then show ?case by (auto simp: bind_eq_Some_conv intro: simplify_bin_normal)
next
  case (Cmp rel l r)
  then show ?case by (auto simp: bind_eq_Some_conv intro: simplify_cmp_normal)
next
  case (Not_expr e)
  then show ?case by (auto intro: simplify_not_normal)
next
  case (And_expr es)
  then show ?case by (auto intro!: simplify_and_normal dest: those_mem)
next
  case (Or_expr es)
  then show ?case by (auto intro!: simplify_or_normal dest: those_mem)
qed auto

lemma simplify_and_fixed:
  assumes "2 \<le> length es" and "\<forall>e \<in> set es. \<forall>b. e \<noteq> Bool_lit b"
  shows "simplify_and es = And_expr es"
proof -
  have "filter (\<lambda>e. e \<noteq> Bool_lit True) es = es" using assms(2) by (simp add: filter_id_conv)
  then show ?thesis
    using assms by (cases es rule: remdups_adj.cases) (auto simp: simplify_and_def Let_def simp del: filter.simps)
qed

lemma simplify_or_fixed:
  assumes "2 \<le> length es" and "\<forall>e \<in> set es. \<forall>b. e \<noteq> Bool_lit b"
  shows "simplify_or es = Or_expr es"
proof -
  have "filter (\<lambda>e. e \<noteq> Bool_lit False) es = es" using assms(2) by (simp add: filter_id_conv)
  then show ?thesis
    using assms by (cases es rule: remdups_adj.cases) (auto simp: simplify_or_def Let_def simp del: filter.simps)
qed

lemma normal_simplify: "normal e \<Longrightarrow> simplify e = Some e"
proof (induction e)
  case (BinOp op l r)
  then show ?case by (cases l; cases r) (auto simp: simplify_bin_def)
next
  case (Cmp rel l r)
  then show ?case by (cases l; cases r) (auto simp: simplify_cmp_def)
next
  case (Not_expr e)
  then show ?case by (cases e) (auto simp: simplify_not_def)
qed (auto simp: those_fixed simplify_and_fixed simplify_or_fixed)

lemma simplify_idempotent: "simplify e = Some e' \<Longrightarrow> simplify e' = Some e'"
  by (rule normal_simplify[OF simplify_normal])

section \<open>Where simplification panics\<close>

text \<open>No division or remainder is folded: then nothing panics.\<close>

fun division_free :: "expr \<Rightarrow> bool" where
  "division_free (BinOp op l r) = (op \<noteq> Div \<and> op \<noteq> Mod \<and> division_free l \<and> division_free r)"
| "division_free (Cmp rel l r) = (division_free l \<and> division_free r)"
| "division_free (Not_expr e) = division_free e"
| "division_free (And_expr es) = (\<forall>e \<in> set es. division_free e)"
| "division_free (Or_expr es) = (\<forall>e \<in> set es. division_free e)"
| "division_free e = True"

lemma eval_arith_total: "op \<noteq> Div \<Longrightarrow> op \<noteq> Mod \<Longrightarrow> eval_arith op a b \<noteq> None"
  by (cases op) (simp_all add: eval_arith_def)

lemma simplify_bin_total: "op \<noteq> Div \<Longrightarrow> op \<noteq> Mod \<Longrightarrow> simplify_bin op l r \<noteq> None"
  using eval_arith_total by (cases l; cases r) (simp_all add: simplify_bin_def)

lemma simplify_total: "division_free e \<Longrightarrow> simplify e \<noteq> None"
proof (induction e)
  case (BinOp op l r)
  then show ?case using simplify_bin_total by (auto simp: bind_eq_None_conv)
qed (auto simp: bind_eq_None_conv intro!: those_ex)

lemma simplify_panics: "simplify (BinOp Div (Int_lit (word_of_int (- (2 ^ 63)))) (Int_lit (- 1))) = None"
  by (simp add: simplify_bin_def eval_arith_def division_overflows_def)

section \<open>Variables of a simplified expression\<close>

lemma set_free_vars: "set (free_vars e) = set (collect_vars e)"
  by (simp add: free_vars_def)

lemma simplify_vars: "simplify e = Some e' \<Longrightarrow> set (collect_vars e') \<subseteq> set (collect_vars e)"
proof (induction e arbitrary: e')
  case (BinOp op l r)
  from BinOp.prems obtain l' r' where "simplify l = Some l'" "simplify r = Some r'" "simplify_bin op l' r' = Some e'"
    by (auto simp: bind_eq_Some_conv)
  moreover from this(3) have "set (collect_vars e') \<subseteq> set (collect_vars l') \<union> set (collect_vars r')"
    by (cases l'; cases r') (auto simp: simplify_bin_def split: option.splits)
  ultimately show ?case using BinOp.IH by fastforce
next
  case (Cmp rel l r)
  from Cmp.prems obtain l' r' where "simplify l = Some l'" "simplify r = Some r'" "simplify_cmp rel l' r' = e'"
    by (auto simp: bind_eq_Some_conv)
  moreover from this(3) have "set (collect_vars e') \<subseteq> set (collect_vars l') \<union> set (collect_vars r')"
    by (cases l'; cases r') (auto simp: simplify_cmp_def)
  ultimately show ?case using Cmp.IH by fastforce
next
  case (Not_expr e)
  from Not_expr.prems obtain x where x: "simplify e = Some x" "simplify_not x = e'" by auto
  then have "set (collect_vars e') \<subseteq> set (collect_vars x)" by (cases x) (auto simp: simplify_not_def)
  then show ?case using Not_expr.IH[OF x(1)] by simp
next
  case (And_expr es)
  from And_expr.prems obtain xs where xs: "those (map simplify es) = Some xs" "simplify_and xs = e'" by auto
  have "set (collect_vars e') \<subseteq> \<Union> (set ` collect_vars ` set xs)"
    unfolding xs(2)[symmetric] simplify_and_def Let_def
    by (auto split: list.split simp: filter_eq_Cons_iff)
  then show ?case using those_mem[OF xs(1)] And_expr.IH by fastforce
next
  case (Or_expr es)
  from Or_expr.prems obtain xs where xs: "those (map simplify es) = Some xs" "simplify_or xs = e'" by auto
  have "set (collect_vars e') \<subseteq> \<Union> (set ` collect_vars ` set xs)"
    unfolding xs(2)[symmetric] simplify_or_def Let_def
    by (auto split: list.split simp: filter_eq_Cons_iff)
  then show ?case using those_mem[OF xs(1)] Or_expr.IH by fastforce
qed auto

text \<open>
  C25. Simplifying an expression keeps its meaning: where the expression has a value (for some values of the
  variables and functions), simplification does not panic and its result has the same value; the result is
  in normal form (simplifying it again changes nothing) and mentions no variable the expression did not.
\<close>
theorem simplify_keeps_meaning:
  assumes "eval env fn e = Some v"
  shows "\<exists>e'. simplify e = Some e' \<and> eval env fn e' = Some v \<and> simplify e' = Some e' \<and>
              set (free_vars e') \<subseteq> set (free_vars e)"
  using simplify_improves[of env fn e] assms simplify_idempotent simplify_vars
  unfolding improves_def set_free_vars by blast

lemma simplify_keeps_meaning_witness:
  "\<exists>e'. simplify (And_expr [Bool_lit True, Cmp Gt (BinOp Add (Int_lit 2) (Int_lit 3)) (Sym ''x'')]) = Some e' \<and>
        eval (\<lambda>_. IntV 4) (\<lambda>_ _. IntV 0) e' = Some (BoolV True) \<and> simplify e' = Some e' \<and>
        set (free_vars e') \<subseteq>
          set (free_vars (And_expr [Bool_lit True, Cmp Gt (BinOp Add (Int_lit 2) (Int_lit 3)) (Sym ''x'')]))"
  by (rule simplify_keeps_meaning) (simp add: eval_arith_def checked_def)

lemma fold_panics_shape:
  "eval_arith op a b = None \<longleftrightarrow> (op = Div \<or> op = Mod) \<and> sint a = - (2 ^ 63) \<and> sint b = - 1"
proof (cases "b = 0")
  case False
  then show ?thesis by (cases op) (auto simp: eval_arith_def division_overflows_def)
qed (cases op; simp add: eval_arith_def)

text \<open>
  Constant folding panics on exactly one pair of literals: dividing the least \<open>i64\<close> by minus one, or
  taking that remainder. Zero divisors, overflows of the other operations and shifts out of range leave
  the expression as it is, and an expression without division never panics.
\<close>
theorem simplify_panics_exactly:
  "simplify (BinOp op (Int_lit a) (Int_lit b)) = None \<longleftrightarrow>
     (op = Div \<or> op = Mod) \<and> sint a = - (2 ^ 63) \<and> sint b = - 1"
  unfolding fold_panics_shape[symmetric] by (simp add: simplify_bin_def)

end
