(* ===== verification/SymTypes.thy ===== *)
theory SymTypes
  imports SymExpr
begin

text \<open>
  A type discipline for the symbolic expressions of \<open>crates/aether-symexec/src/expr.rs\<close>. The code has one
  type \<open>Expr\<close> for integers and conditions alike; the relation below says which expressions are used
  consistently. Simplification keeps types, values have the type of their expression, and a well-typed
  expression whose arithmetic cannot fail has a value.
\<close>

section \<open>Typing\<close>

datatype sym_type = Int_type | Bool_type

text \<open>The types of the variables and the signatures of the uninterpreted functions are given.\<close>

inductive has_type ::
  "(string \<Rightarrow> sym_type) \<Rightarrow> (string \<Rightarrow> sym_type list \<times> sym_type) \<Rightarrow> expr \<Rightarrow> sym_type \<Rightarrow> bool" for G S where
  Sym_type: "G s = t \<Longrightarrow> has_type G S (Sym s) t"
| Int_lit_type: "has_type G S (Int_lit n) Int_type"
| Bool_lit_type: "has_type G S (Bool_lit b) Bool_type"
| BinOp_type: "has_type G S l Int_type \<Longrightarrow> has_type G S r Int_type \<Longrightarrow> has_type G S (BinOp op l r) Int_type"
| Cmp_type: "has_type G S l Int_type \<Longrightarrow> has_type G S r Int_type \<Longrightarrow> has_type G S (Cmp rel l r) Bool_type"
| Not_type: "has_type G S e Bool_type \<Longrightarrow> has_type G S (Not_expr e) Bool_type"
| And_type: "(\<And>e. e \<in> set es \<Longrightarrow> has_type G S e Bool_type) \<Longrightarrow> has_type G S (And_expr es) Bool_type"
| Or_type: "(\<And>e. e \<in> set es \<Longrightarrow> has_type G S e Bool_type) \<Longrightarrow> has_type G S (Or_expr es) Bool_type"
| Ite_type: "has_type G S c Bool_type \<Longrightarrow> has_type G S a t \<Longrightarrow> has_type G S b t \<Longrightarrow> has_type G S (Ite c a b) t"
| App_type: "S f = (map snd ets, t) \<Longrightarrow> (\<And>e u. (e, u) \<in> set ets \<Longrightarrow> has_type G S e u) \<Longrightarrow>
    has_type G S (App f (map fst ets)) t"

inductive_simps has_type_simps [simp]:
  "has_type G S (Sym s) t" "has_type G S (Int_lit n) t" "has_type G S (Bool_lit b) t"
  "has_type G S (BinOp op l r) t" "has_type G S (Cmp rel l r) t" "has_type G S (Not_expr e) t"
  "has_type G S (And_expr es) t" "has_type G S (Or_expr es) t" "has_type G S (Ite c a b) t"

inductive_cases App_typeE: "has_type G S (App f es) t"

fun type_of_value :: "sym_value \<Rightarrow> sym_type" where
  "type_of_value (IntV n) = Int_type"
| "type_of_value (BoolV b) = Bool_type"

lemma type_of_value_simps [simp]:
  "type_of_value v = Int_type \<longleftrightarrow> (\<exists>n. v = IntV n)" "type_of_value v = Bool_type \<longleftrightarrow> (\<exists>b. v = BoolV b)"
  by (cases v; simp)+

definition env_typed :: "(string \<Rightarrow> sym_type) \<Rightarrow> (string \<Rightarrow> sym_value) \<Rightarrow> bool" where
  "env_typed G env \<longleftrightarrow> (\<forall>x. type_of_value (env x) = G x)"

definition fn_typed ::
  "(string \<Rightarrow> sym_type list \<times> sym_type) \<Rightarrow> (string \<Rightarrow> sym_value list \<Rightarrow> sym_value) \<Rightarrow> bool" where
  "fn_typed S fn \<longleftrightarrow> (\<forall>f vs. map type_of_value vs = fst (S f) \<longrightarrow> type_of_value (fn f vs) = snd (S f))"

text \<open>The operations of \<open>eval_arith\<close> that give a result for all operands.\<close>

definition total_op :: "arith_op \<Rightarrow> bool" where
  "total_op op \<longleftrightarrow> op \<in> {BitAnd, BitOr, BitXor}"

fun total_arith :: "expr \<Rightarrow> bool" where
  "total_arith (BinOp op l r) = (total_op op \<and> total_arith l \<and> total_arith r)"
| "total_arith (Cmp rel l r) = (total_arith l \<and> total_arith r)"
| "total_arith (Not_expr e) = total_arith e"
| "total_arith (And_expr es) = (\<forall>e \<in> set es. total_arith e)"
| "total_arith (Or_expr es) = (\<forall>e \<in> set es. total_arith e)"
| "total_arith (Ite c a b) = (total_arith c \<and> total_arith a \<and> total_arith b)"
| "total_arith (App f es) = (\<forall>e \<in> set es. total_arith e)"
| "total_arith e = True"

section \<open>Values have the type of their expression\<close>

lemma value_type:
  "has_type G S e t \<Longrightarrow> env_typed G env \<Longrightarrow> fn_typed S fn \<Longrightarrow> eval env fn e = Some v \<Longrightarrow> type_of_value v = t"
proof (induction arbitrary: v rule: has_type.induct)
  case (Sym_type s t)
  then show ?case by (auto simp: env_typed_def)
next
  case (App_type f ets t)
  then obtain vs where vs: "those (map (eval env fn) (map fst ets)) = Some vs" "v = fn f vs" by auto
  have "type_of_value (vs ! i) = snd (ets ! i)" if i: "i < length vs" for i
    using those_Some_map[OF vs(1)] i App_type.IH[of "fst (ets ! i)" "snd (ets ! i)" "vs ! i"] App_type.prems
    by (auto simp: list_all2_conv_all_nth)
  moreover have "length vs = length ets" using those_Some_map[OF vs(1)] by (simp add: list_all2_conv_all_nth)
  ultimately have "map type_of_value vs = map snd ets" by (auto intro: nth_equalityI)
  with App_type show ?case by (simp add: fn_typed_def vs(2))
next
  case (Ite_type c a t b)
  then show ?case by (auto split: option.splits sym_value.splits if_splits)
qed (auto split: option.splits sym_value.splits)

lemma total_op_defined: "total_op op \<Longrightarrow> \<exists>n. eval_arith op a b = Some (Some n)"
  by (auto simp: total_op_def eval_arith_def)

lemma value_exists:
  "has_type G S e t \<Longrightarrow> env_typed G env \<Longrightarrow> fn_typed S fn \<Longrightarrow> total_arith e \<Longrightarrow> eval env fn e \<noteq> None"
proof (induction rule: has_type.induct)
  case (BinOp_type l r op)
  then obtain v w where "eval env fn l = Some v" "eval env fn r = Some w" by auto
  moreover from this obtain a b where "v = IntV a" "w = IntV b"
    using value_type[OF BinOp_type.hyps(1)] value_type[OF BinOp_type.hyps(2)] BinOp_type.prems by fastforce
  ultimately show ?case using BinOp_type.prems total_op_defined[of op a b] by auto
next
  case (Cmp_type l r rel)
  then obtain v w where "eval env fn l = Some v" "eval env fn r = Some w" by auto
  moreover from this obtain a b where "v = IntV a" "w = IntV b"
    using value_type[OF Cmp_type.hyps(1)] value_type[OF Cmp_type.hyps(2)] Cmp_type.prems by fastforce
  ultimately show ?case by simp
next
  case (Not_type e)
  then obtain v where "eval env fn e = Some v" by auto
  moreover from this obtain b where "v = BoolV b" using value_type[OF Not_type.hyps] Not_type.prems by fastforce
  ultimately show ?case by simp
next
  case (And_type es)
  have "Option.bind (eval env fn e) bool_of \<noteq> None" if e: "e \<in> set es" for e
    using And_type.IH[OF e] value_type[OF And_type.hyps[OF e]] And_type.prems e by fastforce
  then have "those (map (\<lambda>e. Option.bind (eval env fn e) bool_of) es) \<noteq> None" by (intro those_total) blast
  then show ?case by simp
next
  case (Or_type es)
  have "Option.bind (eval env fn e) bool_of \<noteq> None" if e: "e \<in> set es" for e
    using Or_type.IH[OF e] value_type[OF Or_type.hyps[OF e]] Or_type.prems e by fastforce
  then have "those (map (\<lambda>e. Option.bind (eval env fn e) bool_of) es) \<noteq> None" by (intro those_total) blast
  then show ?case by simp
next
  case (Ite_type c a t b)
  then obtain v where "eval env fn c = Some v" by auto
  moreover from this obtain x where "v = BoolV x"
    using value_type[OF Ite_type.hyps(1)] Ite_type.prems by fastforce
  ultimately show ?case using Ite_type by auto
next
  case (App_type f ets t)
  have "\<forall>e \<in> set (map fst ets). eval env fn e \<noteq> None" using App_type by force
  then have "those (map (eval env fn) (map fst ets)) \<noteq> None" by (rule those_total)
  then show ?case by auto
qed auto

section \<open>Simplification keeps types\<close>

lemma simplify_not_type: "has_type G S e Bool_type \<Longrightarrow> has_type G S (simplify_not e) Bool_type"
  by (cases e) (auto simp: simplify_not_def)

lemma simplify_and_cases:
  "(\<exists>b. simplify_and es = Bool_lit b) \<or> simplify_and es \<in> set es \<or>
   (\<exists>xs. set xs \<subseteq> set es \<and> simplify_and es = And_expr xs)"
proof -
  have "set (filter (\<lambda>e. e \<noteq> Bool_lit True) es) \<subseteq> set es" by simp
  then show ?thesis
    unfolding simplify_and_def Let_def
    by (cases "filter (\<lambda>e. e \<noteq> Bool_lit True) es" rule: remdups_adj.cases) auto
qed

lemma simplify_and_type: "\<forall>e \<in> set es. has_type G S e Bool_type \<Longrightarrow> has_type G S (simplify_and es) Bool_type"
  using simplify_and_cases[of es] by fastforce

lemma simplify_or_cases:
  "(\<exists>b. simplify_or es = Bool_lit b) \<or> simplify_or es \<in> set es \<or>
   (\<exists>xs. set xs \<subseteq> set es \<and> simplify_or es = Or_expr xs)"
proof -
  have "set (filter (\<lambda>e. e \<noteq> Bool_lit False) es) \<subseteq> set es" by simp
  then show ?thesis
    unfolding simplify_or_def Let_def
    by (cases "filter (\<lambda>e. e \<noteq> Bool_lit False) es" rule: remdups_adj.cases) auto
qed

lemma simplify_or_type: "\<forall>e \<in> set es. has_type G S e Bool_type \<Longrightarrow> has_type G S (simplify_or es) Bool_type"
  using simplify_or_cases[of es] by fastforce

lemma simplify_bin_type:
  "simplify_bin op l r = Some e \<Longrightarrow> has_type G S l Int_type \<Longrightarrow> has_type G S r Int_type \<Longrightarrow> has_type G S e Int_type"
  by (cases l; cases r) (auto simp: simplify_bin_def split: option.splits)

lemma simplify_cmp_type:
  "has_type G S l Int_type \<Longrightarrow> has_type G S r Int_type \<Longrightarrow> has_type G S (simplify_cmp rel l r) Bool_type"
  by (cases l; cases r) (auto simp: simplify_cmp_def)

lemma those_types:
  assumes "those (map simplify es) = Some xs"
    and "\<And>e e'. e \<in> set es \<Longrightarrow> simplify e = Some e' \<Longrightarrow> has_type G S e' t"
  shows "\<forall>x \<in> set xs. has_type G S x t"
  using those_Some_map[OF assms(1)] assms(2) by (fastforce simp: list_all2_conv_all_nth in_set_conv_nth)

lemma simplify_type: "has_type G S e t \<Longrightarrow> simplify e = Some e' \<Longrightarrow> has_type G S e' t"
proof (induction arbitrary: e' rule: has_type.induct)
  case (BinOp_type l r op)
  then show ?case by (auto simp: bind_eq_Some_conv intro: simplify_bin_type)
next
  case (Cmp_type l r rel)
  then show ?case by (auto simp: bind_eq_Some_conv intro: simplify_cmp_type)
next
  case (Not_type e)
  then show ?case by (auto intro: simplify_not_type)
next
  case (And_type es)
  then show ?case by (auto intro!: simplify_and_type elim!: those_types)
next
  case (Or_type es)
  then show ?case by (auto intro!: simplify_or_type elim!: those_types)
next
  case (App_type f ets t)
  then show ?case by (auto intro: has_type.App_type)
qed auto



end
