(* ===== verification/SymSlice.thy ===== *)
theory SymSlice
  imports SymExpr
begin

text \<open>
  Control-flow graphs and backward slicing: \<open>crates/aether-symexec/src/cfg.rs\<close>, \<open>slice.rs\<close> and
  \<open>slice_all_sinks\<close> of \<open>lib.rs\<close>. A slice is \<open>None\<close> where simplifying a path condition panics. The
  specification is in terms of the runs of the graph that enter the target: lists of edges.
\<close>

section \<open>Control-flow graphs\<close>

record instr =
  in_label :: string
  in_lhs :: "string option"
  in_rhs :: "expr option"
  in_is_source :: bool
  in_is_sink :: bool

definition instr_assign :: "string \<Rightarrow> expr \<Rightarrow> instr" where
  "instr_assign lhs rhs =
     \<lparr>in_label = lhs @ '' = '' @ show_expr rhs, in_lhs = Some lhs, in_rhs = Some rhs,
      in_is_source = False, in_is_sink = False\<rparr>"

definition instr_source :: "string \<Rightarrow> expr \<Rightarrow> instr" where
  "instr_source lhs rhs =
     (let i = instr_assign lhs rhs in
      i\<lparr>in_is_source := True, in_label := ''[SOURCE] '' @ in_label i\<rparr>)"

definition instr_sink :: "string \<Rightarrow> instr" where
  "instr_sink label =
     \<lparr>in_label = ''[SINK] '' @ label, in_lhs = None, in_rhs = None, in_is_source = False, in_is_sink = True\<rparr>"

definition instr_stmt :: "string \<Rightarrow> instr" where
  "instr_stmt label =
     \<lparr>in_label = label, in_lhs = None, in_rhs = None, in_is_source = False, in_is_sink = False\<rparr>"

record basic_block =
  bb_id :: nat
  bb_label :: string
  bb_instrs :: "instr list"

definition new_block :: "nat \<Rightarrow> string \<Rightarrow> basic_block" where
  "new_block i label = \<lparr>bb_id = i, bb_label = label, bb_instrs = []\<rparr>"

definition push_instr :: "instr \<Rightarrow> basic_block \<Rightarrow> basic_block" where
  "push_instr i b = b\<lparr>bb_instrs := bb_instrs b @ [i]\<rparr>"

record cfg_edge =
  ce_from :: nat
  ce_to :: nat
  ce_condition :: "expr option"

record cfg =
  cfg_blocks :: "(nat, basic_block) hmap"
  cfg_edges :: "cfg_edge list"
  cfg_entry :: nat

definition cfg_default :: cfg where
  "cfg_default = \<lparr>cfg_blocks = [], cfg_edges = [], cfg_entry = 0\<rparr>"

definition cfg_add_block :: "basic_block \<Rightarrow> cfg \<Rightarrow> cfg" where
  "cfg_add_block b g = g\<lparr>cfg_blocks := hm_put (bb_id b) b (cfg_blocks g)\<rparr>"

definition cfg_add_edge :: "nat \<Rightarrow> nat \<Rightarrow> expr option \<Rightarrow> cfg \<Rightarrow> cfg" where
  "cfg_add_edge a b c g = g\<lparr>cfg_edges := cfg_edges g @ [\<lparr>ce_from = a, ce_to = b, ce_condition = c\<rparr>]\<rparr>"

definition predecessors :: "cfg \<Rightarrow> nat \<Rightarrow> (nat \<times> expr option) list" where
  "predecessors g b = map (\<lambda>e. (ce_from e, ce_condition e)) (filter (\<lambda>e. ce_to e = b) (cfg_edges g))"

definition successors :: "cfg \<Rightarrow> nat \<Rightarrow> (nat \<times> expr option) list" where
  "successors g b = map (\<lambda>e. (ce_to e, ce_condition e)) (filter (\<lambda>e. ce_from e = b) (cfg_edges g))"

definition sink_blocks :: "cfg \<Rightarrow> nat list" where
  "sink_blocks g = map bb_id (filter (\<lambda>b. list_ex in_is_sink (bb_instrs b)) (map snd (cfg_blocks g)))"

definition source_blocks :: "cfg \<Rightarrow> nat list" where
  "source_blocks g = map bb_id (filter (\<lambda>b. list_ex in_is_source (bb_instrs b)) (map snd (cfg_blocks g)))"

section \<open>Slices\<close>

record slice_path =
  sp_blocks :: "nat list"
  sp_condition :: expr
  sp_free_vars :: "string list"
  sp_from_source :: bool

record slice_result =
  sr_target :: nat
  sr_paths :: "slice_path list"
  sr_blocks :: "nat list"

record slice_config =
  sc_max_depth :: nat
  sc_max_paths :: nat
  sc_sources_only :: bool

definition slice_config_default :: slice_config where
  "slice_config_default = \<lparr>sc_max_depth = 20, sc_max_paths = 500, sc_sources_only = False\<rparr>"

definition satisfiable_trivially :: "slice_path \<Rightarrow> bool option" where
  "satisfiable_trivially p = map_option (\<lambda>e. e \<noteq> Bool_lit False) (simplify (sp_condition p))"

definition path_condition :: "expr list \<Rightarrow> expr option" where
  "path_condition conds =
     (case conds of [] \<Rightarrow> Some (Bool_lit True) | [c] \<Rightarrow> Some c | _ \<Rightarrow> simplify (And_expr conds))"

text \<open>An entry of the queue: the current block, the path from the target back to it, the conditions met.\<close>

type_synonym slice_item = "nat \<times> nat list \<times> expr list"

definition from_source :: "cfg \<Rightarrow> nat list \<Rightarrow> bool" where
  "from_source g rev_path = (case rev rev_path of [] \<Rightarrow> False | b # _ \<Rightarrow> b \<in> set (source_blocks g))"

definition emit_path :: "cfg \<Rightarrow> nat list \<Rightarrow> expr list \<Rightarrow> slice_path option" where
  "emit_path g rev_path conds =
     map_option
       (\<lambda>pc. \<lparr>sp_blocks = rev rev_path, sp_condition = pc, sp_free_vars = free_vars pc,
             sp_from_source = from_source g rev_path\<rparr>)
       (path_condition conds)"

definition at_entry :: "cfg \<Rightarrow> nat \<Rightarrow> bool" where
  "at_entry g cur \<longleftrightarrow> predecessors g cur = [] \<or> cur = cfg_entry g"

definition expand_item :: "cfg \<Rightarrow> slice_item \<Rightarrow> slice_item list" where
  "expand_item g item =
     (case item of (cur, rev_path, conds) \<Rightarrow>
        map (\<lambda>(pred, c). (pred, rev_path @ [pred], case c of None \<Rightarrow> conds | Some c \<Rightarrow> conds @ [c]))
          (predecessors g cur))"

text \<open>
  The loop. A path is emitted at the entry, at a block without predecessors and at the depth limit;
  the loop stops once \<open>max_paths\<close> paths were emitted, with what it has. Below the limit the entries
  are replaced by longer ones, which the weight counts.
\<close>

definition mark_visited :: "slice_item list \<Rightarrow> nat list \<Rightarrow> nat list" where
  "mark_visited items visited = fold (\<lambda>item. List.insert (fst item)) items visited"

definition item_weight :: "cfg \<Rightarrow> slice_config \<Rightarrow> slice_item \<Rightarrow> nat" where
  "item_weight g config item =
     (length (cfg_edges g) + 1) ^ (Suc (sc_max_depth config) - length (fst (snd item)))"

definition queue_weight :: "cfg \<Rightarrow> slice_config \<Rightarrow> slice_item list \<Rightarrow> nat" where
  "queue_weight g config queue = sum_list (map (item_weight g config) queue)"

lemma queue_weight_simps [simp]:
  "queue_weight g config [] = 0"
  "queue_weight g config (item # queue) = item_weight g config item + queue_weight g config queue"
  "queue_weight g config (xs @ ys) = queue_weight g config xs + queue_weight g config ys"
  by (simp_all add: queue_weight_def)

lemma item_weight_pos: "0 < item_weight g config item"
  by (simp add: item_weight_def)

lemma expand_item_weight:
  assumes "length rev_path \<le> sc_max_depth config"
  shows "queue_weight g config (expand_item g (cur, rev_path, conds)) < item_weight g config (cur, rev_path, conds)"
proof -
  define k where "k = (length (cfg_edges g) + 1) ^ (sc_max_depth config - length rev_path)"
  have "item_weight g config item = k" if "item \<in> set (expand_item g (cur, rev_path, conds))" for item
    using that by (auto simp: expand_item_def item_weight_def k_def)
  then have "map (item_weight g config) (expand_item g (cur, rev_path, conds)) =
      map (\<lambda>_. k) (expand_item g (cur, rev_path, conds))"
    by simp
  then have "queue_weight g config (expand_item g (cur, rev_path, conds)) =
      length (expand_item g (cur, rev_path, conds)) * k"
    by (simp add: queue_weight_def map_replicate_const sum_list_replicate)
  also have "\<dots> \<le> length (cfg_edges g) * k"
    by (simp add: expand_item_def predecessors_def)
  also have "\<dots> < (length (cfg_edges g) + 1) * k" by (simp add: k_def)
  also have "\<dots> = item_weight g config (cur, rev_path, conds)"
    using assms by (simp add: item_weight_def k_def Suc_diff_le)
  finally show ?thesis .
qed

function slice_loop ::
  "cfg \<Rightarrow> slice_config \<Rightarrow> slice_item list \<Rightarrow> nat list \<Rightarrow> slice_path list \<Rightarrow> (slice_path list \<times> nat list) option" where
  "slice_loop g config [] visited paths = Some (paths, visited)"
| "slice_loop g config ((cur, rev_path, conds) # queue) visited paths =
     (if sc_max_depth config < length rev_path then slice_loop g config queue visited paths
      else if (at_entry g cur \<or> length rev_path = sc_max_depth config) \<and>
              \<not> (sc_sources_only config \<and> \<not> from_source g rev_path) then
        (case emit_path g rev_path conds of
           None \<Rightarrow> None
         | Some p \<Rightarrow>
             if sc_max_paths config \<le> length paths + 1 then Some (paths @ [p], visited)
             else if at_entry g cur then slice_loop g config queue visited (paths @ [p])
             else slice_loop g config (queue @ expand_item g (cur, rev_path, conds))
                    (mark_visited (expand_item g (cur, rev_path, conds)) visited) (paths @ [p]))
      else if at_entry g cur then slice_loop g config queue visited paths
      else slice_loop g config (queue @ expand_item g (cur, rev_path, conds))
             (mark_visited (expand_item g (cur, rev_path, conds)) visited) paths)"
  by pat_completeness auto
termination
  by (relation "measure (\<lambda>(g, config, queue, visited, paths). queue_weight g config queue)")
    (auto simp: item_weight_pos expand_item_weight)

declare slice_loop.simps(2) [simp del]

definition backward_slice :: "cfg \<Rightarrow> nat \<Rightarrow> slice_config \<Rightarrow> slice_result option" where
  "backward_slice g target config =
     map_option (\<lambda>(paths, visited). \<lparr>sr_target = target, sr_paths = paths, sr_blocks = sort visited\<rparr>)
       (slice_loop g config [(target, [target], [])] [target] [])"

definition slice_all_sinks :: "cfg \<Rightarrow> slice_config \<Rightarrow> slice_result list option" where
  "slice_all_sinks g config = those (map (\<lambda>sink. backward_slice g sink config) (sink_blocks g))"

section \<open>Printing\<close>

definition block_label :: "cfg \<Rightarrow> nat \<Rightarrow> string list" where
  "block_label g b = (case hm_get (cfg_blocks g) b of Some blk \<Rightarrow> [bb_label blk] | None \<Rightarrow> [])"

definition format_path :: "slice_path \<Rightarrow> cfg \<Rightarrow> string" where
  "format_path p g =
     ''PATH ['' @ str_join ('' '' @ [CHR 0xE2, CHR 0x86, CHR 0x92] @ '' '') (concat (map (block_label g) (sp_blocks p))) @
     ''] | PC: '' @ show_expr (sp_condition p) @
     '' | free_vars: ['' @ str_join '', '' (sp_free_vars p) @
     ''] | source='' @ (if sp_from_source p then ''true'' else ''false'')"

definition block_lines :: "cfg \<Rightarrow> nat \<Rightarrow> string list" where
  "block_lines g b =
     (case hm_get (cfg_blocks g) b of
        Some blk \<Rightarrow> (''['' @ bb_label blk @ '']'') # map (\<lambda>i. ''  '' @ in_label i) (bb_instrs blk)
      | None \<Rightarrow> [])"

definition format_path_instrs :: "slice_path \<Rightarrow> cfg \<Rightarrow> string" where
  "format_path_instrs p g = str_join [CHR 10] (concat (map (block_lines g) (sp_blocks p)))"

section \<open>What the loop reaches\<close>

text \<open>Does the loop emit a path for an entry, and does it go on to its predecessors?\<close>

fun emits :: "cfg \<Rightarrow> slice_config \<Rightarrow> slice_item \<Rightarrow> bool" where
  "emits g config (cur, rev_path, conds) =
     (length rev_path \<le> sc_max_depth config \<and>
      (at_entry g cur \<or> length rev_path = sc_max_depth config) \<and>
      \<not> (sc_sources_only config \<and> \<not> from_source g rev_path))"

fun continues :: "cfg \<Rightarrow> slice_config \<Rightarrow> slice_item \<Rightarrow> slice_item list" where
  "continues g config (cur, rev_path, conds) =
     (if length rev_path \<le> sc_max_depth config \<and> \<not> at_entry g cur
      then expand_item g (cur, rev_path, conds) else [])"

definition item_step :: "cfg \<Rightarrow> slice_config \<Rightarrow> slice_item \<Rightarrow> slice_item \<Rightarrow> bool" where
  "item_step g config item item' \<longleftrightarrow> item' \<in> set (continues g config item)"

definition reached_items :: "cfg \<Rightarrow> slice_config \<Rightarrow> slice_item list \<Rightarrow> slice_item set" where
  "reached_items g config queue = {y. \<exists>x \<in> set queue. (item_step g config)\<^sup>*\<^sup>* x y}"

definition emitted_by :: "cfg \<Rightarrow> slice_config \<Rightarrow> slice_item list \<Rightarrow> slice_path set" where
  "emitted_by g config queue =
     {p. \<exists>(cur, rev_path, conds) \<in> reached_items g config queue.
           emits g config (cur, rev_path, conds) \<and> emit_path g rev_path conds = Some p}"

lemma reached_items_Nil [simp]: "reached_items g config [] = {}"
  by (simp add: reached_items_def)

lemma reached_items_append [simp]:
  "reached_items g config (xs @ ys) = reached_items g config xs \<union> reached_items g config ys"
  by (auto simp: reached_items_def)

lemma reached_items_Cons [simp]:
  "reached_items g config (item # queue) =
   insert item (reached_items g config (continues g config item) \<union> reached_items g config queue)"
proof -
  have "(item_step g config)\<^sup>*\<^sup>* item y \<longleftrightarrow>
      y = item \<or> (\<exists>z. z \<in> set (continues g config item) \<and> (item_step g config)\<^sup>*\<^sup>* z y)" for y
    unfolding item_step_def[symmetric]
    by (blast elim: converse_rtranclpE intro: converse_rtranclp_into_rtranclp)
  then show ?thesis by (auto simp: reached_items_def)
qed

lemma emitted_by_simps [simp]:
  "emitted_by g config [] = {}"
  "emitted_by g config (xs @ ys) = emitted_by g config xs \<union> emitted_by g config ys"
  by (auto simp: emitted_by_def)

lemma set_mark_visited [simp]: "set (mark_visited items visited) = fst ` set items \<union> set visited"
  by (induction items arbitrary: visited) (auto simp: mark_visited_def)

lemma distinct_mark_visited [simp]: "distinct visited \<Longrightarrow> distinct (mark_visited items visited)"
  by (induction items arbitrary: visited) (auto simp: mark_visited_def)

text \<open>What an unfinished and what a finished loop has returned.\<close>

definition loop_post ::
  "cfg \<Rightarrow> slice_config \<Rightarrow> slice_item list \<Rightarrow> nat list \<Rightarrow> slice_path list \<Rightarrow> slice_path list \<times> nat list \<Rightarrow> bool" where
  "loop_post g config queue visited paths r \<longleftrightarrow>
     (case r of (ps, vs) \<Rightarrow>
        set ps \<subseteq> set paths \<union> emitted_by g config queue \<and>
        set vs \<subseteq> set visited \<union> fst ` reached_items g config queue \<and>
        (length ps < sc_max_paths config \<longrightarrow>
           set ps = set paths \<union> emitted_by g config queue \<and>
           set vs = set visited \<union> fst ` reached_items g config queue))"

text \<open>The loop as one step per entry, and the induction that follows it.\<close>

fun emit_step :: "cfg \<Rightarrow> slice_config \<Rightarrow> slice_item \<Rightarrow> slice_path list \<Rightarrow> slice_path list option" where
  "emit_step g config (cur, rev_path, conds) paths =
     (if emits g config (cur, rev_path, conds)
      then map_option (\<lambda>p. paths @ [p]) (emit_path g rev_path conds) else Some paths)"

lemma slice_loop_Cons:
  "slice_loop g config (item # queue) visited paths =
   Option.bind (emit_step g config item paths)
     (\<lambda>paths'. if emits g config item \<and> sc_max_paths config \<le> length paths' then Some (paths', visited)
       else slice_loop g config (queue @ continues g config item)
              (mark_visited (continues g config item) visited) paths')"
  by (cases item) (auto split: option.splits simp: slice_loop.simps(2) mark_visited_def)

lemma continues_weight: "queue_weight g config (continues g config item) < item_weight g config item"
  using expand_item_weight item_weight_pos by (cases item) auto

lemma queue_induct [case_names Nil Cons]:
  assumes "\<And>visited paths. P [] visited paths"
    and "\<And>item queue visited paths.
      (\<And>visited' paths'. P (queue @ continues g config item) visited' paths') \<Longrightarrow> P (item # queue) visited paths"
  shows "P queue visited paths"
proof (induction "queue_weight g config queue" arbitrary: queue visited paths rule: less_induct)
  case less
  then show ?case
    using assms continues_weight by (cases queue) auto
qed

lemma emitted_by_Cons:
  "emitted_by g config (item # queue) =
   (case item of (cur, rev_path, conds) \<Rightarrow> {p. emits g config item \<and> emit_path g rev_path conds = Some p}) \<union>
   emitted_by g config (continues g config item) \<union> emitted_by g config queue"
  by (auto simp: emitted_by_def simp del: emits.simps continues.simps)

lemma emit_step_paths:
  "emit_step g config item paths = Some paths' \<Longrightarrow>
   set paths' = set paths \<union>
     (case item of (cur, rev_path, conds) \<Rightarrow> {p. emits g config item \<and> emit_path g rev_path conds = Some p})"
  by (cases item) (auto split: if_splits)

lemma slice_loop_post:
  assumes "slice_loop g config queue visited paths = Some r" and "fst ` set queue \<subseteq> set visited"
  shows "loop_post g config queue visited paths r"
  using assms
proof (induction queue visited paths rule: queue_induct[where g = g and config = config])
  case (Nil visited paths)
  then show ?case by (auto simp: loop_post_def)
next
  case (Cons item queue visited paths)
  let ?next = "continues g config item"
  obtain paths' where paths': "emit_step g config item paths = Some paths'"
    and loop: "(if emits g config item \<and> sc_max_paths config \<le> length paths' then Some (paths', visited)
       else slice_loop g config (queue @ ?next) (mark_visited ?next visited) paths') = Some r"
    using Cons.prems(1) unfolding slice_loop_Cons bind_eq_Some_conv by blast
  have item: "fst item \<in> set visited" using Cons.prems(2) by simp
  show ?case
  proof (cases "emits g config item \<and> sc_max_paths config \<le> length paths'")
    case True
    with loop have "r = (paths', visited)" by simp
    then show ?thesis using True emit_step_paths[OF paths'] by (auto simp: loop_post_def emitted_by_Cons)
  next
    case False
    with loop have rec: "slice_loop g config (queue @ ?next) (mark_visited ?next visited) paths' = Some r" by simp
    have "fst ` set (queue @ ?next) \<subseteq> set (mark_visited ?next visited)"
      using Cons.prems(2) by auto
    from Cons.IH[OF rec this] have "loop_post g config (queue @ ?next) (mark_visited ?next visited) paths' r" .
    moreover have "set paths' \<union> emitted_by g config (queue @ ?next) = set paths \<union> emitted_by g config (item # queue)"
      unfolding emit_step_paths[OF paths'] emitted_by_Cons emitted_by_simps by blast
    moreover have "fst ` set ?next \<subseteq> fst ` reached_items g config ?next"
      by (auto simp: reached_items_def)
    then have "set (mark_visited ?next visited) \<union> fst ` reached_items g config (queue @ ?next) =
        set visited \<union> fst ` reached_items g config (item # queue)"
      unfolding reached_items_Cons reached_items_append set_mark_visited image_Un image_insert
      using item by blast
    ultimately show ?thesis unfolding loop_post_def by simp
  qed
qed

lemma slice_loop_total:
  assumes "\<forall>(cur, rev_path, conds) \<in> reached_items g config queue. path_condition conds \<noteq> None"
  shows "\<exists>r. slice_loop g config queue visited paths = Some r"
  using assms
proof (induction queue visited paths rule: queue_induct[where g = g and config = config])
  case (Cons item queue visited paths)
  have "\<exists>paths'. emit_step g config item paths = Some paths'"
    using Cons.prems by (cases item) (auto simp: emit_path_def simp del: emits.simps continues.simps)
  then obtain paths' where "emit_step g config item paths = Some paths'" by blast
  moreover have "\<exists>r. slice_loop g config (queue @ continues g config item) v ps = Some r" for v ps
    by (rule Cons.IH, rule ballI, rule Cons.prems[THEN bspec]) auto
  ultimately show ?case by (simp add: slice_loop_Cons)
qed simp

section \<open>Runs into the target\<close>

fun run :: "cfg \<Rightarrow> nat \<Rightarrow> cfg_edge list \<Rightarrow> nat \<Rightarrow> bool" where
  "run g s [] t = (s = t)"
| "run g s (e # es) t = (e \<in> set (cfg_edges g) \<and> ce_from e = s \<and> run g (ce_to e) es t)"

definition edge_conditions :: "cfg_edge list \<Rightarrow> expr list" where
  "edge_conditions es = concat (map (\<lambda>e. case ce_condition e of None \<Rightarrow> [] | Some c \<Rightarrow> [c]) es)"

text \<open>
  A run a slice follows backwards: at most \<open>max_depth\<close> edges, none of them into the entry. It ends the slice
  (at its first block) at the entry, at a block without predecessors, or at the depth limit.
\<close>

definition slice_run :: "cfg \<Rightarrow> slice_config \<Rightarrow> nat \<Rightarrow> nat \<Rightarrow> cfg_edge list \<Rightarrow> bool" where
  "slice_run g config t s es \<longleftrightarrow>
     run g s es t \<and> length es \<le> sc_max_depth config \<and> (\<forall>e \<in> set es. ce_to e \<noteq> cfg_entry g)"

definition ends_slice :: "cfg \<Rightarrow> slice_config \<Rightarrow> nat \<Rightarrow> nat \<Rightarrow> cfg_edge list \<Rightarrow> bool" where
  "ends_slice g config t s es \<longleftrightarrow>
     slice_run g config t s es \<and> length es < sc_max_depth config \<and>
     (at_entry g s \<or> length es + 1 = sc_max_depth config) \<and>
     (sc_sources_only config \<longrightarrow> s \<in> set (source_blocks g))"

definition item_of :: "nat \<Rightarrow> cfg_edge list \<Rightarrow> slice_item" where
  "item_of s es = (s, rev (s # map ce_to es), edge_conditions (rev es))"

lemma edge_conditions_snoc:
  "edge_conditions (es @ [e]) = (case ce_condition e of None \<Rightarrow> edge_conditions es | Some c \<Rightarrow> edge_conditions es @ [c])"
  by (simp add: edge_conditions_def split: option.splits)

lemma set_edge_conditions: "c \<in> set (edge_conditions es) \<longleftrightarrow> (\<exists>e \<in> set es. ce_condition e = Some c)"
  by (induction es) (auto simp: edge_conditions_def split: option.splits)

lemma expand_item_of:
  "item \<in> set (expand_item g (item_of s es)) \<longleftrightarrow>
   (\<exists>e \<in> set (cfg_edges g). ce_to e = s \<and> item = item_of (ce_from e) (e # es))"
  by (force simp: expand_item_def predecessors_def item_of_def edge_conditions_snoc split: option.splits)

lemma item_step_of:
  "item_step g config (item_of s es) item \<longleftrightarrow>
   length es < sc_max_depth config \<and> s \<noteq> cfg_entry g \<and>
   (\<exists>e \<in> set (cfg_edges g). ce_to e = s \<and> item = item_of (ce_from e) (e # es))"
proof -
  have "item_step g config (item_of s es) item \<longleftrightarrow>
      length es < sc_max_depth config \<and> \<not> at_entry g s \<and> item \<in> set (expand_item g (item_of s es))"
    by (auto simp: item_step_def item_of_def)
  then show ?thesis unfolding expand_item_of at_entry_def predecessors_def by (auto simp: filter_empty_conv)
qed

lemma reached_run:
  "(item_step g config)\<^sup>*\<^sup>* (item_of t []) item \<Longrightarrow> \<exists>s es. slice_run g config t s es \<and> item = item_of s es"
proof (induction rule: rtranclp_induct)
  case base
  then show ?case by (rule exI[of _ t], rule exI[of _ "[]"]) (simp add: slice_run_def)
next
  case (step y z)
  then obtain s es where run: "slice_run g config t s es" and y: "y = item_of s es" by blast
  from step.hyps(2) obtain e where "length es < sc_max_depth config" "s \<noteq> cfg_entry g" "e \<in> set (cfg_edges g)"
      "ce_to e = s" "z = item_of (ce_from e) (e # es)"
    unfolding y item_step_of by blast
  then show ?case
    using run by (intro exI[of _ "ce_from e"] exI[of _ "e # es"]) (simp add: slice_run_def)
qed

lemma run_reached: "slice_run g config t s es \<Longrightarrow> (item_step g config)\<^sup>*\<^sup>* (item_of t []) (item_of s es)"
proof (induction es arbitrary: s)
  case Nil
  then show ?case by (simp add: slice_run_def)
next
  case (Cons e es)
  then have "(item_step g config)\<^sup>*\<^sup>* (item_of t []) (item_of (ce_to e) es)"
    by (simp add: slice_run_def)
  moreover have "item_step g config (item_of (ce_to e) es) (item_of s (e # es))"
    using Cons.prems unfolding item_step_of by (auto simp: slice_run_def)
  ultimately show ?case by (rule rtranclp.rtrancl_into_rtrancl)
qed

lemma item_of_Nil: "item_of t [] = (t, [t], [])"
  by (simp add: item_of_def edge_conditions_def)

lemma reached_items_runs:
  "reached_items g config [(t, [t], [])] = {item_of s es |s es. slice_run g config t s es}"
  using reached_run run_reached unfolding reached_items_def item_of_Nil[symmetric]
  by simp blast

lemma emits_item_of:
  "slice_run g config t s es \<Longrightarrow> emits g config (item_of s es) \<longleftrightarrow> ends_slice g config t s es"
  by (auto simp: item_of_def ends_slice_def from_source_def)

lemma emitted_paths:
  "p \<in> emitted_by g config [(t, [t], [])] \<longleftrightarrow>
   (\<exists>s es. ends_slice g config t s es \<and> emit_path g (rev (s # map ce_to es)) (edge_conditions (rev es)) = Some p)"
proof -
  have "p \<in> emitted_by g config [(t, [t], [])] \<longleftrightarrow>
      (\<exists>s es. slice_run g config t s es \<and> emits g config (item_of s es) \<and>
        emit_path g (rev (s # map ce_to es)) (edge_conditions (rev es)) = Some p)"
    unfolding emitted_by_def reached_items_runs by (force simp: item_of_def simp del: emits.simps)
  also have "\<dots> \<longleftrightarrow> (\<exists>s es. slice_run g config t s es \<and> ends_slice g config t s es \<and>
        emit_path g (rev (s # map ce_to es)) (edge_conditions (rev es)) = Some p)"
    using emits_item_of by (metis (no_types, lifting))
  finally show ?thesis by (auto simp: ends_slice_def)
qed

section \<open>Path conditions\<close>

lemma path_condition_truth:
  assumes "\<forall>c \<in> set cs. truth env fn c \<noteq> None"
  shows "\<exists>pc. path_condition cs = Some pc \<and> truth env fn pc = Some (\<forall>c \<in> set cs. truth env fn c = Some True)"
proof -
  have conj: "truth env fn (And_expr cs) = Some (\<forall>c \<in> set cs. truth env fn c = Some True)"
    using assms unfolding truth_And_iff by blast
  from improves_truth[OF simplify_improves conj] assms show ?thesis
    by (cases cs rule: remdups_adj.cases) (auto simp: path_condition_def)
qed

lemma emit_path_conditions:
  assumes "\<forall>e \<in> set (cfg_edges g). \<forall>c. ce_condition e = Some c \<longrightarrow> truth env fn c \<noteq> None"
    and "slice_run g config t s es"
  shows "\<exists>p. emit_path g (rev (s # map ce_to es)) (edge_conditions (rev es)) = Some p \<and>
             sp_blocks p = s # map ce_to es \<and>
             truth env fn (sp_condition p) = Some (\<forall>c \<in> set (edge_conditions es). truth env fn c = Some True)"
proof -
  have "run g s' es' t \<Longrightarrow> set es' \<subseteq> set (cfg_edges g)" for s' es' by (induction es' arbitrary: s') auto
  then have edges: "set es \<subseteq> set (cfg_edges g)" using assms(2) unfolding slice_run_def by blast
  have "set (edge_conditions (rev es)) = set (edge_conditions es)" by (auto simp: set_edge_conditions)
  moreover have "\<forall>c \<in> set (edge_conditions (rev es)). truth env fn c \<noteq> None"
  proof
    fix c
    assume "c \<in> set (edge_conditions (rev es))"
    then obtain e where "e \<in> set es" "ce_condition e = Some c" unfolding set_edge_conditions set_rev by blast
    then show "truth env fn c \<noteq> None" using assms(1) edges by blast
  qed
  from path_condition_truth[OF this] obtain pc where "path_condition (edge_conditions (rev es)) = Some pc"
      "truth env fn pc = Some (\<forall>c \<in> set (edge_conditions (rev es)). truth env fn c = Some True)"
    by blast
  ultimately show ?thesis by (simp add: emit_path_def)
qed

section \<open>What a slice contains\<close>

definition describes :: "(string \<Rightarrow> sym_value) \<Rightarrow> (string \<Rightarrow> sym_value list \<Rightarrow> sym_value) \<Rightarrow> slice_path \<Rightarrow> nat \<Rightarrow> cfg_edge list \<Rightarrow> bool" where
  "describes env fn p s es \<longleftrightarrow>
     sp_blocks p = s # map ce_to es \<and>
     truth env fn (sp_condition p) = Some (\<forall>c \<in> set (edge_conditions es). truth env fn c = Some True)"

lemma describes_emitted:
  assumes "\<forall>e \<in> set (cfg_edges g). \<forall>c. ce_condition e = Some c \<longrightarrow> truth env fn c \<noteq> None"
    and "ends_slice g config t s es"
  shows "\<exists>p. emit_path g (rev (s # map ce_to es)) (edge_conditions (rev es)) = Some p \<and> describes env fn p s es"
  using emit_path_conditions[OF assms(1)] assms(2) unfolding ends_slice_def describes_def by blast

lemma slice_total:
  assumes "\<forall>e \<in> set (cfg_edges g). \<forall>c. ce_condition e = Some c \<longrightarrow> truth env fn c \<noteq> None"
  shows "\<exists>ps vs. slice_loop g config [(t, [t], [])] [t] [] = Some (ps, vs)"
proof -
  have "path_condition (edge_conditions (rev es)) \<noteq> None" if "slice_run g config t s es" for s es
    using emit_path_conditions[OF assms that] by (auto simp: emit_path_def)
  then have "\<forall>(cur, rev_path, conds) \<in> reached_items g config [(t, [t], [])]. path_condition conds \<noteq> None"
    unfolding reached_items_runs by (auto simp: item_of_def)
  from slice_loop_total[OF this, of "[t]" "[]"] show ?thesis by auto
qed

lemma backward_slice_post:
  assumes "backward_slice g t config = Some r"
  shows "set (sr_paths r) \<subseteq> emitted_by g config [(t, [t], [])]"
    and "length (sr_paths r) < sc_max_paths config \<Longrightarrow> set (sr_paths r) = emitted_by g config [(t, [t], [])]"
    and "set (sr_blocks r) \<subseteq> {s. \<exists>es. slice_run g config t s es}"
    and "length (sr_paths r) < sc_max_paths config \<Longrightarrow> set (sr_blocks r) = {s. \<exists>es. slice_run g config t s es}"
proof -
  obtain ps vs where loop: "slice_loop g config [(t, [t], [])] [t] [] = Some (ps, vs)"
    and r: "sr_paths r = ps" "sr_blocks r = sort vs"
    using assms by (auto simp: backward_slice_def)
  have post: "loop_post g config [(t, [t], [])] [t] [] (ps, vs)"
    by (rule slice_loop_post[OF loop]) simp
  have runs: "fst ` reached_items g config [(t, [t], [])] = {s. \<exists>es. slice_run g config t s es}"
    unfolding reached_items_runs by (force simp: item_of_def)
  have "t \<in> {s. \<exists>es. slice_run g config t s es}"
    by (auto simp: slice_run_def intro: exI[of _ "[]"])
  then show "set (sr_paths r) \<subseteq> emitted_by g config [(t, [t], [])]"
    and "length (sr_paths r) < sc_max_paths config \<Longrightarrow> set (sr_paths r) = emitted_by g config [(t, [t], [])]"
    and "set (sr_blocks r) \<subseteq> {s. \<exists>es. slice_run g config t s es}"
    and "length (sr_paths r) < sc_max_paths config \<Longrightarrow> set (sr_blocks r) = {s. \<exists>es. slice_run g config t s es}"
    using post unfolding loop_post_def prod.case runs r by auto
qed

text \<open>
  C13. The backward slice is exact. When every edge condition has a truth value, the slice does not panic, every
  path it returns is a run of the graph into the target that starts where a slice ends (the entry, a block
  without predecessors or the depth limit; a source when only those are wanted), its path condition is true
  exactly when all the conditions of the run's edges are, and unless the path limit was reached every such
  run has its path and the slice's blocks are exactly the blocks from which some run of at most
  \<open>max_depth\<close> edges enters the target.
\<close>
theorem slice_is_exact:
  assumes "\<forall>e \<in> set (cfg_edges g). \<forall>c. ce_condition e = Some c \<longrightarrow> truth env fn c \<noteq> None"
  shows "\<exists>r. backward_slice g t config = Some r \<and>
     (\<forall>p \<in> set (sr_paths r). \<exists>s es. ends_slice g config t s es \<and> describes env fn p s es) \<and>
     (length (sr_paths r) < sc_max_paths config \<longrightarrow>
        (\<forall>s es. ends_slice g config t s es \<longrightarrow> (\<exists>p \<in> set (sr_paths r). describes env fn p s es)) \<and>
        set (sr_blocks r) = {s. \<exists>es. slice_run g config t s es})"
proof -
  obtain r where r: "backward_slice g t config = Some r"
    using slice_total[OF assms, of config t] unfolding backward_slice_def by auto
  moreover have "\<exists>s es. ends_slice g config t s es \<and> describes env fn p s es" if "p \<in> set (sr_paths r)" for p
    using that backward_slice_post(1)[OF r] emitted_paths describes_emitted[OF assms] by fastforce
  moreover have "\<exists>p \<in> set (sr_paths r). describes env fn p s es"
    if "length (sr_paths r) < sc_max_paths config" "ends_slice g config t s es" for s es
    unfolding backward_slice_post(2)[OF r that(1)]
    using describes_emitted[OF assms that(2)] that(2) emitted_paths by blast
  ultimately show ?thesis using backward_slice_post(4)[OF r] by blast
qed

definition branch_cfg :: cfg where
  "branch_cfg =
     cfg_add_edge 1 2 (Some (Cmp Gt (Sym ''x'') (Int_lit 0)))
       (cfg_add_edge 0 1 None
         (cfg_add_block (push_instr (instr_sink ''write(x)'') (new_block 2 ''sink''))
           (cfg_add_block (push_instr (instr_stmt ''if x > 0'') (new_block 1 ''check''))
             (cfg_add_block (push_instr (instr_source ''x'' (App ''env::var'' [Sym ''KEY''])) (new_block 0 ''entry''))
               cfg_default))))"

lemma slice_is_exact_witness:
  "\<exists>r. backward_slice branch_cfg 2 slice_config_default = Some r \<and>
     (\<forall>p \<in> set (sr_paths r). \<exists>s es. ends_slice branch_cfg slice_config_default 2 s es \<and>
        describes (\<lambda>_. IntV 5) (\<lambda>_ _. IntV 0) p s es) \<and>
     (length (sr_paths r) < sc_max_paths slice_config_default \<longrightarrow>
        (\<forall>s es. ends_slice branch_cfg slice_config_default 2 s es \<longrightarrow>
           (\<exists>p \<in> set (sr_paths r). describes (\<lambda>_. IntV 5) (\<lambda>_ _. IntV 0) p s es)) \<and>
        set (sr_blocks r) = {s. \<exists>es. slice_run branch_cfg slice_config_default 2 s es})"
  by (rule slice_is_exact)
    (auto simp: branch_cfg_def cfg_add_edge_def cfg_add_block_def cfg_default_def truth_def)

lemma branch_slice:
  "map_option (\<lambda>r. (map sp_blocks (sr_paths r), map sp_from_source (sr_paths r), sr_blocks r))
     (backward_slice branch_cfg 2 slice_config_default) = Some ([[0, 1, 2]], [True], [0, 1, 2])"
  by code_simp

end
