(* ===== verification/Concolic.thy ===== *)
theory Concolic
  imports Int64
begin

text \<open>
  The concolic engine of \<open>crates/aether-concolic\<close>: recorded branch decisions (\<open>record.rs\<close>), constraints and
  their satisfiability check (\<open>constraint.rs\<close>), the generator that flips one decision and searches for
  inputs (\<open>generator.rs\<close>), and the extraction of literals from tests (\<open>extractor.rs\<close>), whose regular
  expressions are parameters. An \<open>i64\<close> is a 64-bit word read as signed; \<open>rhs + 1\<close> and \<open>rhs - 1\<close> wrap, as
  in a release build (a debug build panics there).
\<close>

section \<open>Constraints\<close>

datatype constraint_kind = Eq | Ne | Lt | Le | Gt | Ge

fun kind_negate :: "constraint_kind \<Rightarrow> constraint_kind" where
  "kind_negate Eq = Ne"
| "kind_negate Ne = Eq"
| "kind_negate Lt = Ge"
| "kind_negate Le = Gt"
| "kind_negate Gt = Le"
| "kind_negate Ge = Lt"

fun show_kind :: "constraint_kind \<Rightarrow> string" where
  "show_kind Eq = ''==''"
| "show_kind Ne = ''!=''"
| "show_kind Lt = ''<''"
| "show_kind Le = ''<=''"
| "show_kind Gt = ''>''"
| "show_kind Ge = ''>=''"

record constraint =
  co_kind :: constraint_kind
  co_lhs :: string
  co_rhs_int :: "64 word option"
  co_rhs_sym :: "string option"

definition constraint_negate :: "constraint \<Rightarrow> constraint" where
  "constraint_negate c = \<lparr>co_kind = kind_negate (co_kind c), co_lhs = co_lhs c,
     co_rhs_int = co_rhs_int c, co_rhs_sym = co_rhs_sym c\<rparr>"

fun kind_holds :: "constraint_kind \<Rightarrow> 64 word \<Rightarrow> 64 word \<Rightarrow> bool" where
  "kind_holds Eq a b = (a = b)"
| "kind_holds Ne a b = (a \<noteq> b)"
| "kind_holds Lt a b = (sint a < sint b)"
| "kind_holds Le a b = (sint a \<le> sint b)"
| "kind_holds Gt a b = (sint b < sint a)"
| "kind_holds Ge a b = (sint b \<le> sint a)"

definition constraint_evaluate :: "(string, 64 word) hmap \<Rightarrow> constraint \<Rightarrow> bool option" where
  "constraint_evaluate env c =
     (case hm_get env (co_lhs c) of
        None \<Rightarrow> None
      | Some lhs_val \<Rightarrow>
          (case co_rhs_int c of
             Some n \<Rightarrow> Some (kind_holds (co_kind c) lhs_val n)
           | None \<Rightarrow>
               (case co_rhs_sym c of
                  Some s \<Rightarrow> map_option (kind_holds (co_kind c) lhs_val) (hm_get env s)
                | None \<Rightarrow> None)))"

definition show_constraint :: "constraint \<Rightarrow> string" where
  "show_constraint c = co_lhs c @ '' '' @ show_kind (co_kind c) @ '' '' @
     (case co_rhs_int c of
        Some n \<Rightarrow> show_i64 n
      | None \<Rightarrow> (case co_rhs_sym c of Some s \<Rightarrow> s | None \<Rightarrow> ''?''))"

section \<open>Recorded paths\<close>

record branch_decision =
  bd_site_id :: string
  bd_condition :: constraint
  bd_taken :: bool

record path_record =
  pr_function_name :: string
  pr_decisions :: "branch_decision list"
  pr_entry_values :: "(string, 64 word) hmap"

definition path_new :: "string \<Rightarrow> path_record" where
  "path_new name = \<lparr>pr_function_name = name, pr_decisions = [], pr_entry_values = []\<rparr>"

definition path_push :: "branch_decision \<Rightarrow> path_record \<Rightarrow> path_record" where
  "path_push d p = p\<lparr>pr_decisions := pr_decisions p @ [d]\<rparr>"

definition path_bind :: "string \<Rightarrow> 64 word \<Rightarrow> path_record \<Rightarrow> path_record" where
  "path_bind var value p = p\<lparr>pr_entry_values := hm_put var value (pr_entry_values p)\<rparr>"

definition path_id :: "path_record \<Rightarrow> string" where
  "path_id p = str_join ''|''
     (map (\<lambda>d. bd_site_id d @ '':'' @ (if bd_taken d then ''T'' else ''F'')) (pr_decisions p))"

section \<open>Sets of constraints\<close>

record constraint_set =
  cs_constraints :: "constraint list"

definition constraint_set_default :: constraint_set where
  "constraint_set_default = \<lparr>cs_constraints = []\<rparr>"

definition cs_add :: "constraint \<Rightarrow> constraint_set \<Rightarrow> constraint_set" where
  "cs_add c cs = cs\<lparr>cs_constraints := cs_constraints cs @ [c]\<rparr>"

definition taken_constraint :: "branch_decision \<Rightarrow> constraint" where
  "taken_constraint d = (if bd_taken d then bd_condition d else constraint_negate (bd_condition d))"

definition from_path :: "path_record \<Rightarrow> constraint_set" where
  "from_path p = fold (\<lambda>d cs. cs_add (taken_constraint d) cs) (pr_decisions p) constraint_set_default"

definition with_flip :: "nat \<Rightarrow> constraint_set \<Rightarrow> constraint_set" where
  "with_flip idx cs =
     (if idx < length (cs_constraints cs)
      then cs\<lparr>cs_constraints := (cs_constraints cs)[idx := constraint_negate (cs_constraints cs ! idx)]\<rparr>
      else cs)"

definition smax :: "64 word \<Rightarrow> 64 word \<Rightarrow> 64 word" where
  "smax a b = (if sint a \<le> sint b then b else a)"

definition smin :: "64 word \<Rightarrow> 64 word \<Rightarrow> 64 word" where
  "smin a b = (if sint b < sint a then b else a)"

text \<open>One constraint's effect on the two maps of bounds.\<close>

definition raise_lower ::
  "string \<Rightarrow> 64 word \<Rightarrow> (string, 64 word) hmap \<Rightarrow> (string, 64 word) hmap" where
  "raise_lower v lb lower =
     hm_put v (smax (case hm_get lower v of Some e \<Rightarrow> e | None \<Rightarrow> i64_min) lb) lower"

definition cut_upper ::
  "string \<Rightarrow> 64 word \<Rightarrow> (string, 64 word) hmap \<Rightarrow> (string, 64 word) hmap" where
  "cut_upper v ub upper =
     hm_put v (smin (case hm_get upper v of Some e \<Rightarrow> e | None \<Rightarrow> i64_max) ub) upper"

fun bound_step ::
  "constraint \<Rightarrow> (string, 64 word) hmap \<times> (string, 64 word) hmap \<Rightarrow>
   (string, 64 word) hmap \<times> (string, 64 word) hmap" where
  "bound_step c (lower, upper) =
     (case co_rhs_int c of
        None \<Rightarrow> (lower, upper)
      | Some rhs \<Rightarrow>
          (case co_kind c of
             Gt \<Rightarrow> (raise_lower (co_lhs c) (rhs + 1) lower, upper)
           | Ge \<Rightarrow> (raise_lower (co_lhs c) rhs lower, upper)
           | Lt \<Rightarrow> (lower, cut_upper (co_lhs c) (rhs - 1) upper)
           | Le \<Rightarrow> (lower, cut_upper (co_lhs c) rhs upper)
           | Eq \<Rightarrow> (hm_put (co_lhs c) rhs lower, hm_put (co_lhs c) rhs upper)
           | Ne \<Rightarrow> (lower, upper)))"

definition is_trivially_satisfiable :: "constraint_set \<Rightarrow> bool" where
  "is_trivially_satisfiable cs =
     (case fold bound_step (cs_constraints cs) ([], []) of (lower, upper) \<Rightarrow>
        list_all (\<lambda>(var, lb). case hm_get upper var of
                                Some ub \<Rightarrow> \<not> sint ub < sint lb
                              | None \<Rightarrow> True) lower)"

definition constraint_vars :: "constraint \<Rightarrow> string list" where
  "constraint_vars c = co_lhs c # (case co_rhs_sym c of Some s \<Rightarrow> [s] | None \<Rightarrow> [])"

definition cs_variables :: "constraint_set \<Rightarrow> string list" where
  "cs_variables cs = sort_dedup (concat (map constraint_vars (cs_constraints cs)))"

section \<open>Generated inputs\<close>

record input_candidate =
  ic_flipped_idx :: nat
  ic_constraints :: "constraint list"
  ic_assignments :: "(string, 64 word) hmap"
  ic_is_feasible :: bool

definition sat_succ :: "64 word \<Rightarrow> 64 word" where
  "sat_succ w = (if w = i64_max then i64_max else w + 1)"

definition sat_pred :: "64 word \<Rightarrow> 64 word" where
  "sat_pred w = (if w = i64_min then i64_min else w - 1)"

fun satisfy_value :: "constraint_kind \<Rightarrow> 64 word \<Rightarrow> 64 word \<Rightarrow> 64 word" where
  "satisfy_value Eq current rhs = rhs"
| "satisfy_value Ne current rhs = (if current = rhs then rhs + 1 else current)"
| "satisfy_value Lt current rhs = (if sint current < sint rhs then current else sat_pred rhs)"
| "satisfy_value Le current rhs = (if sint current \<le> sint rhs then current else rhs)"
| "satisfy_value Gt current rhs = (if sint rhs < sint current then current else sat_succ rhs)"
| "satisfy_value Ge current rhs = (if sint rhs \<le> sint current then current else rhs)"

definition value_or_0 :: "(string, 64 word) hmap \<Rightarrow> string \<Rightarrow> 64 word" where
  "value_or_0 m v = (case hm_get m v of Some x \<Rightarrow> x | None \<Rightarrow> 0)"

text \<open>One pass over the constraints, with the flag \<open>changed\<close>; the rounds stop when a pass changes nothing.\<close>

fun solve_pass :: "constraint list \<Rightarrow> (string, 64 word) hmap \<Rightarrow> bool \<Rightarrow> (string, 64 word) hmap \<times> bool" where
  "solve_pass [] m changed = (m, changed)"
| "solve_pass (c # cs) m changed =
     (case co_rhs_int c of
        None \<Rightarrow> solve_pass cs m changed
      | Some rhs \<Rightarrow>
          (let current = value_or_0 m (co_lhs c);
               needed = satisfy_value (co_kind c) current rhs
           in if needed \<noteq> current then solve_pass cs (hm_put (co_lhs c) needed m) True
              else solve_pass cs m changed))"

fun solve_rounds :: "nat \<Rightarrow> constraint list \<Rightarrow> (string, 64 word) hmap \<Rightarrow> (string, 64 word) hmap" where
  "solve_rounds 0 cs m = m"
| "solve_rounds (Suc n) cs m =
     (case solve_pass cs m False of (m', changed) \<Rightarrow> if changed then solve_rounds n cs m' else m')"

definition solve_assignments :: "constraint_set \<Rightarrow> (string, 64 word) hmap" where
  "solve_assignments cs = solve_rounds 64 (cs_constraints cs) (fold (\<lambda>v. hm_put v 0) (cs_variables cs) [])"

definition flip_constraint :: "constraint_set \<Rightarrow> nat \<Rightarrow> input_candidate" where
  "flip_constraint cs i =
     (let flipped = with_flip i cs;
          feasible = is_trivially_satisfiable flipped
      in \<lparr>ic_flipped_idx = i, ic_constraints = cs_constraints flipped,
          ic_assignments = (if feasible then solve_assignments flipped else []), ic_is_feasible = feasible\<rparr>)"

definition flip_constraints :: "constraint_set \<Rightarrow> input_candidate list" where
  "flip_constraints cs = map (flip_constraint cs) [0..<length (cs_constraints cs)]"

definition or_insert :: "string \<Rightarrow> 64 word \<Rightarrow> (string, 64 word) hmap \<Rightarrow> (string, 64 word) hmap" where
  "or_insert k v m = (if hm_get m k = None then hm_put k v m else m)"

definition merge_entries :: "(string, 64 word) hmap \<Rightarrow> input_candidate \<Rightarrow> input_candidate" where
  "merge_entries entries cand = cand\<lparr>ic_assignments := fold (\<lambda>(k, v). or_insert k v) entries (ic_assignments cand)\<rparr>"

definition generate_inputs :: "path_record \<Rightarrow> nat \<Rightarrow> input_candidate list" where
  "generate_inputs path max_count =
     take max_count (map (merge_entries (pr_entry_values path))
       (filter ic_is_feasible (flip_constraints (from_path path))))"

section \<open>Inputs from tests\<close>

record test_input =
  ti_source_line :: string
  ti_int_values :: "64 word list"

text \<open>
  \<open>assert_args\<close> is the first group of the first match of \<open>RE_ASSERT_EQ\<close> in a line, \<open>int_literals\<close> the matches
  of \<open>RE_INT_LIT\<close>.
\<close>

definition extract_line ::
  "(string \<Rightarrow> string option) \<Rightarrow> (string \<Rightarrow> string list) \<Rightarrow> nat \<times> string \<Rightarrow> test_input list" where
  "extract_line assert_args int_literals numbered =
     (case numbered of (line_idx, line) \<Rightarrow>
        case assert_args line of
          None \<Rightarrow> []
        | Some args \<Rightarrow>
            (let int_values = List.map_filter parse_i64 (int_literals args)
             in if int_values = [] then []
                else [\<lparr>ti_source_line = show_nat (line_idx + 1) @ '':'' @ str_trim line, ti_int_values = int_values\<rparr>]))"

definition extract_test_inputs ::
  "(string \<Rightarrow> string option) \<Rightarrow> (string \<Rightarrow> string list) \<Rightarrow> string \<Rightarrow> test_input list" where
  "extract_test_inputs assert_args int_literals source =
     concat (map (extract_line assert_args int_literals) (enumerate 0 (str_lines source)))"

section \<open>Constraints and their negation\<close>

lemma kind_negate_holds [simp]: "kind_holds (kind_negate k) a b \<longleftrightarrow> \<not> kind_holds k a b"
  by (cases k) auto

lemma kind_negate_idem [simp]: "kind_negate (kind_negate k) = k"
  by (cases k) auto

lemma negate_fields [simp]:
  "co_kind (constraint_negate c) = kind_negate (co_kind c)" "co_lhs (constraint_negate c) = co_lhs c"
  "co_rhs_int (constraint_negate c) = co_rhs_int c" "co_rhs_sym (constraint_negate c) = co_rhs_sym c"
  by (simp_all add: constraint_negate_def)

lemma negate_evaluate: "constraint_evaluate env (constraint_negate c) = map_option Not (constraint_evaluate env c)"
  by (auto simp: constraint_evaluate_def option.map_comp o_def split: option.split intro: option.map_cong0)

lemma from_path_constraints: "cs_constraints (from_path p) = map taken_constraint (pr_decisions p)"
proof -
  have "cs_constraints (fold (\<lambda>d cs. cs_add (taken_constraint d) cs) ds cs) = cs_constraints cs @ map taken_constraint ds"
    for ds cs by (induction ds arbitrary: cs) (simp_all add: cs_add_def)
  then show ?thesis by (simp add: from_path_def constraint_set_default_def)
qed

text \<open>All constraints hold under the values.\<close>

definition env_satisfies :: "(string, 64 word) hmap \<Rightarrow> constraint list \<Rightarrow> bool" where
  "env_satisfies env cs \<longleftrightarrow> list_all (\<lambda>c. constraint_evaluate env c = Some True) cs"

lemma literal_evaluate:
  "co_rhs_int c = Some n \<Longrightarrow> constraint_evaluate env c = Some True \<longleftrightarrow>
     (\<exists>x. hm_get env (co_lhs c) = Some x \<and> kind_holds (co_kind c) x n)"
  by (auto simp: constraint_evaluate_def split: option.split)

section \<open>The satisfiability check\<close>

text \<open>The maps hold bounds of every solution.\<close>

definition bounds_hold ::
  "(string, 64 word) hmap \<Rightarrow> (string, 64 word) hmap \<times> (string, 64 word) hmap \<Rightarrow> bool" where
  "bounds_hold env b \<longleftrightarrow>
     (\<forall>v lb. hm_get (fst b) v = Some lb \<longrightarrow> (\<exists>x. hm_get env v = Some x \<and> sint lb \<le> sint x)) \<and>
     (\<forall>v ub. hm_get (snd b) v = Some ub \<longrightarrow> (\<exists>x. hm_get env v = Some x \<and> sint x \<le> sint ub))"

lemma bounds_put_lower:
  assumes "bounds_hold env (l, u)" and "hm_get env v = Some x" and "sint b \<le> sint x"
  shows "bounds_hold env (hm_put v b l, u)"
  using assms by (auto simp: bounds_hold_def hm.get_put)

lemma bounds_put_upper:
  assumes "bounds_hold env (l, u)" and "hm_get env v = Some x" and "sint x \<le> sint b"
  shows "bounds_hold env (l, hm_put v b u)"
  using assms by (auto simp: bounds_hold_def hm.get_put)

lemma raise_lower_bounds:
  assumes "bounds_hold env (l, u)" and "hm_get env v = Some x" and "sint b \<le> sint x"
  shows "bounds_hold env (raise_lower v b l, u)"
proof -
  have "sint (smax (case hm_get l v of Some e \<Rightarrow> e | None \<Rightarrow> i64_min) b) \<le> sint x"
    using assms sint_i64(1)[of x] by (fastforce simp: smax_def bounds_hold_def split: option.split)
  with assms show ?thesis unfolding raise_lower_def by (intro bounds_put_lower)
qed

lemma cut_upper_bounds:
  assumes "bounds_hold env (l, u)" and "hm_get env v = Some x" and "sint x \<le> sint b"
  shows "bounds_hold env (l, cut_upper v b u)"
proof -
  have "sint x \<le> sint (smin (case hm_get u v of Some e \<Rightarrow> e | None \<Rightarrow> i64_max) b)"
    using assms sint_i64(2)[of x] by (fastforce simp: smin_def bounds_hold_def split: option.split)
  with assms show ?thesis unfolding cut_upper_def by (intro bounds_put_upper)
qed

lemma bound_step_holds:
  assumes "bounds_hold env b" and "constraint_evaluate env c = Some True"
  shows "bounds_hold env (bound_step c b)"
proof (cases "co_rhs_int c")
  case (Some rhs)
  with assms(2) obtain x where x: "hm_get env (co_lhs c) = Some x" "kind_holds (co_kind c) x rhs"
    by (auto simp: literal_evaluate)
  obtain l u where b: "b = (l, u)" by fastforce
  note put = raise_lower_bounds[OF _ x(1)] cut_upper_bounds[OF _ x(1)]
  have "bounds_hold env (hm_put (co_lhs c) rhs l, hm_put (co_lhs c) rhs u)" if "x = rhs"
    using assms(1) x(1) that unfolding b by (intro bounds_put_lower bounds_put_upper) auto
  moreover have "sint (rhs + 1) \<le> sint x" if "sint rhs < sint x"
    using that sint_i64(2)[of x] by (simp add: sint_succ)
  moreover have "sint x \<le> sint (rhs - 1)" if "sint x < sint rhs"
    using that sint_i64(1)[of x] by (simp add: sint_pred)
  ultimately show ?thesis
    using assms(1) x(2) Some by (cases "co_kind c") (auto simp: b intro: put)
qed (cases b; use assms in simp)

lemma bounds_hold_Nil: "bounds_hold env ([], [])"
  by (simp add: bounds_hold_def hm_get_def)

lemma bound_steps_hold:
  "env_satisfies env cs \<Longrightarrow> bounds_hold env b \<Longrightarrow> bounds_hold env (fold bound_step cs b)"
  by (induction cs arbitrary: b) (auto simp: env_satisfies_def bound_step_holds)

lemma hm_ok_bound_step: "hm_ok (fst b) \<Longrightarrow> hm_ok (fst (bound_step c b))"
  by (cases b) (auto simp: raise_lower_def hm.ok_put split: option.split constraint_kind.split)

lemma hm_ok_bound_steps: "hm_ok (fst b) \<Longrightarrow> hm_ok (fst (fold bound_step cs b))"
  by (induction cs arbitrary: b) (auto simp: hm_ok_bound_step)

lemma satisfiable_check: "env_satisfies env (cs_constraints cs) \<Longrightarrow> is_trivially_satisfiable cs"
proof -
  assume sat: "env_satisfies env (cs_constraints cs)"
  obtain l u where lu: "fold bound_step (cs_constraints cs) ([], []) = (l, u)" by fastforce
  have bounds: "bounds_hold env (l, u)" using bound_steps_hold[OF sat bounds_hold_Nil] lu by simp
  have "hm_ok l" using hm_ok_bound_steps[of "([], [])" "cs_constraints cs"] lu by (simp add: hm_ok_def)
  then have "hm_get l v = Some lb" if "(v, lb) \<in> set l" for v lb
    using that by (simp add: hm_ok_def hm_get_def)
  then have "\<not> sint ub < sint lb" if "(v, lb) \<in> set l" "hm_get u v = Some ub" for v lb ub
    using that bounds by (fastforce simp: bounds_hold_def)
  then show ?thesis unfolding is_trivially_satisfiable_def lu by (auto simp: list_all_iff split: option.split)
qed

section \<open>The search for values\<close>

text \<open>A step moves a value towards every solution without passing it.\<close>

definition between :: "64 word \<Rightarrow> 64 word \<Rightarrow> 64 word \<Rightarrow> bool" where
  "between a b x \<longleftrightarrow> (sint a \<le> sint x \<and> sint x \<le> sint b) \<or> (sint b \<le> sint x \<and> sint x \<le> sint a)"

lemma between_refl [simp]: "between a b a" "between a b b"
  by (auto simp: between_def)

lemma between_trans: "between a s x \<Longrightarrow> between x s y \<Longrightarrow> between a s y"
  by (auto simp: between_def)

lemma kind_holds_convex:
  "kind_holds k a n \<Longrightarrow> kind_holds k s n \<Longrightarrow> between a s x \<Longrightarrow> k \<noteq> Ne \<Longrightarrow> kind_holds k x n"
  by (cases k) (auto simp: between_def sint_inj)

lemma satisfy_value_moves:
  assumes "k \<noteq> Ne" and "kind_holds k s n"
  shows "kind_holds k (satisfy_value k x n) n \<and> between x s (satisfy_value k x n)"
proof -
  have "sint (sat_pred n) = sint n - 1" if "sint s < sint n"
    using that sint_i64(1)[of s] by (auto simp: sat_pred_def sint_pred)
  moreover have "sint (sat_succ n) = sint n + 1" if "sint n < sint s"
    using that sint_i64(2)[of s] by (auto simp: sat_succ_def sint_succ)
  ultimately show ?thesis using assms by (cases k) (auto simp: between_def)
qed

lemma value_or_0_put: "value_or_0 (hm_put v x m) u = (if u = v then x else value_or_0 m u)"
  by (simp add: value_or_0_def hm.get_put)

text \<open>Literal constraints of these kinds describe an interval for each variable.\<close>

definition interval_constraint :: "constraint \<Rightarrow> bool" where
  "interval_constraint c \<longleftrightarrow> co_rhs_int c \<noteq> None \<and> co_kind c \<noteq> Ne"

definition met :: "(string, 64 word) hmap \<Rightarrow> constraint \<Rightarrow> bool" where
  "met m c \<longleftrightarrow> (case co_rhs_int c of
     Some n \<Rightarrow> kind_holds (co_kind c) (value_or_0 m (co_lhs c)) n | None \<Rightarrow> False)"

definition approaches ::
  "(string, 64 word) hmap \<Rightarrow> (string, 64 word) hmap \<Rightarrow> (string, 64 word) hmap \<Rightarrow> bool" where
  "approaches m s m' \<longleftrightarrow> (\<forall>v. between (value_or_0 m v) (value_or_0 s v) (value_or_0 m' v))"

lemma approaches_refl [simp]: "approaches m s m"
  by (simp add: approaches_def)

lemma approaches_trans: "approaches m s m1 \<Longrightarrow> approaches m1 s m2 \<Longrightarrow> approaches m s m2"
  unfolding approaches_def using between_trans by blast

lemma met_convex:
  "interval_constraint c \<Longrightarrow> met m c \<Longrightarrow> met s c \<Longrightarrow> approaches m s m' \<Longrightarrow> met m' c"
  unfolding approaches_def
  by (auto simp: met_def interval_constraint_def
      intro: kind_holds_convex[OF _ _ spec[where x = "co_lhs c"]] split: option.splits)

lemma pass_meets:
  assumes "\<forall>c \<in> set cs. interval_constraint c \<and> met s c"
  shows "\<forall>c \<in> set cs. met (fst (solve_pass cs m b)) c"
    and "approaches m s (fst (solve_pass cs m b))"
proof -
  have "(\<forall>c \<in> set cs. met (fst (solve_pass cs m b)) c) \<and> approaches m s (fst (solve_pass cs m b))"
    using assms
  proof (induction cs arbitrary: m b)
    case (Cons c cs)
    then obtain n where n: "co_rhs_int c = Some n" by (auto simp: interval_constraint_def)
    define x where "x = value_or_0 m (co_lhs c)"
    define y where "y = satisfy_value (co_kind c) x n"
    define m1 where "m1 = (if y \<noteq> x then hm_put (co_lhs c) y m else m)"
    have kind: "co_kind c \<noteq> Ne" "kind_holds (co_kind c) (value_or_0 s (co_lhs c)) n"
      using Cons.prems n by (auto simp: interval_constraint_def met_def)
    note y = satisfy_value_moves[OF kind, of x, folded y_def]
    have m1: "met m1 c" "approaches m s m1"
      using y by (auto simp: m1_def met_def approaches_def n value_or_0_put x_def[symmetric])
    obtain b1 where step: "solve_pass (c # cs) m b = solve_pass cs m1 b1"
      unfolding m1_def y_def x_def by (cases "satisfy_value (co_kind c) (value_or_0 m (co_lhs c)) n = value_or_0 m (co_lhs c)")
        (auto simp: n Let_def)
    have rest: "\<forall>d \<in> set cs. met (fst (solve_pass cs m1 b1)) d" "approaches m1 s (fst (solve_pass cs m1 b1))"
      using Cons by auto
    have "met (fst (solve_pass cs m1 b1)) c"
      using met_convex[OF _ m1(1) _ rest(2)] Cons.prems by simp
    then show ?case using rest m1(2) approaches_trans unfolding step by auto
  qed simp
  then show "\<forall>c \<in> set cs. met (fst (solve_pass cs m b)) c" "approaches m s (fst (solve_pass cs m b))" by blast+
qed

text \<open>A value that meets its constraint is left alone, so the search stops after the second pass.\<close>

lemma satisfy_value_stable: "kind_holds k x n \<Longrightarrow> satisfy_value k x n = x"
  by (cases k) auto

lemma pass_stable: "\<forall>c \<in> set cs. met m c \<Longrightarrow> solve_pass cs m b = (m, b)"
  by (induction cs) (auto simp: met_def satisfy_value_stable split: option.splits)

lemma rounds_meet:
  assumes "\<forall>c \<in> set cs. interval_constraint c \<and> met s c"
  shows "\<forall>c \<in> set cs. met (solve_rounds (Suc (Suc k)) cs m) c"
proof -
  obtain m' ch where pass: "solve_pass cs m False = (m', ch)" by fastforce
  have m': "\<forall>c \<in> set cs. met m' c" using pass_meets(1)[OF assms, of m False] pass by simp
  then show ?thesis by (simp add: pass pass_stable)
qed

lemma pass_keys: "hm_get m v \<noteq> None \<Longrightarrow> hm_get (fst (solve_pass cs m b)) v \<noteq> None"
  by (induction cs m b rule: solve_pass.induct) (auto simp: hm.get_put Let_def split: option.split)

lemma rounds_keys: "hm_get m v \<noteq> None \<Longrightarrow> hm_get (solve_rounds n cs m) v \<noteq> None"
proof (induction n arbitrary: m)
  case (Suc n)
  then show ?case using pass_keys[OF Suc.prems, of cs False] by (auto split: prod.split)
qed simp

lemma zeroed_keys: "v \<in> set vs \<or> hm_get m v \<noteq> None \<Longrightarrow> hm_get (fold (\<lambda>v. hm_put v 0) vs m) v \<noteq> None"
  by (induction vs arbitrary: m) (auto simp: hm.get_put)

lemma met_evaluate: "met m c \<Longrightarrow> hm_get m (co_lhs c) \<noteq> None \<Longrightarrow> constraint_evaluate m c = Some True"
  by (auto simp: met_def constraint_evaluate_def value_or_0_def split: option.splits)

lemma satisfies_met:
  "env_satisfies s cs \<Longrightarrow> c \<in> set cs \<Longrightarrow> interval_constraint c \<Longrightarrow> met s c"
  by (auto simp: env_satisfies_def list_all_iff met_def interval_constraint_def constraint_evaluate_def value_or_0_def
      split: option.splits)

lemma solved:
  assumes "\<forall>c \<in> set (cs_constraints cs). interval_constraint c" and "env_satisfies s (cs_constraints cs)"
  shows "env_satisfies (solve_assignments cs) (cs_constraints cs)"
proof -
  have "met (solve_assignments cs) c" if "c \<in> set (cs_constraints cs)" for c
    using rounds_meet[of "cs_constraints cs" s 62] satisfies_met[OF assms(2)] assms(1) that
    by (simp add: solve_assignments_def numeral_eq_Suc)
  moreover have "hm_get (solve_assignments cs) (co_lhs c) \<noteq> None" if "c \<in> set (cs_constraints cs)" for c
    unfolding solve_assignments_def using that
    by (intro rounds_keys zeroed_keys) (auto simp: cs_variables_def constraint_vars_def)
  ultimately show ?thesis by (auto simp: env_satisfies_def list_all_iff intro: met_evaluate)
qed

section \<open>Candidates\<close>

definition flipped :: "path_record \<Rightarrow> nat \<Rightarrow> constraint_set" where
  "flipped path i = with_flip i (from_path path)"

lemma flipped_nth:
  assumes "i < length (pr_decisions path)" and "j < length (pr_decisions path)"
  shows "cs_constraints (flipped path i) ! j =
    (if j = i then constraint_negate (taken_constraint (pr_decisions path ! j))
     else taken_constraint (pr_decisions path ! j))"
  using assms by (simp add: flipped_def with_flip_def from_path_constraints)

lemma length_flipped: "length (cs_constraints (flipped path i)) = length (pr_decisions path)"
  by (simp add: flipped_def with_flip_def from_path_constraints)

lemma taken_evaluate:
  "constraint_evaluate env (taken_constraint d) = Some True \<longleftrightarrow>
     constraint_evaluate env (bd_condition d) = Some (bd_taken d)"
  by (auto simp: taken_constraint_def negate_evaluate)

lemma not_taken_evaluate:
  "constraint_evaluate env (constraint_negate (taken_constraint d)) = Some True \<longleftrightarrow>
     constraint_evaluate env (bd_condition d) = Some (\<not> bd_taken d)"
  by (auto simp: taken_constraint_def negate_evaluate)

lemma satisfies_flipped:
  assumes "i < length (pr_decisions path)"
  shows "env_satisfies env (cs_constraints (flipped path i)) \<longleftrightarrow>
    (\<forall>j < length (pr_decisions path).
       constraint_evaluate env (bd_condition (pr_decisions path ! j)) = Some (bd_taken (pr_decisions path ! j) \<noteq> (j = i)))"
proof -
  have "constraint_evaluate env (cs_constraints (flipped path i) ! j) = Some True \<longleftrightarrow>
      constraint_evaluate env (bd_condition (pr_decisions path ! j)) = Some (bd_taken (pr_decisions path ! j) \<noteq> (j = i))"
    if "j < length (pr_decisions path)" for j
    using flipped_nth[OF assms that] by (cases "j = i") (simp_all add: taken_evaluate not_taken_evaluate)
  then show ?thesis by (simp add: env_satisfies_def list_all_length length_flipped)
qed

lemma or_insert_keeps: "hm_get m k = Some x \<Longrightarrow> hm_get (fold (\<lambda>(k, v). or_insert k v) es m) k = Some x"
proof (induction es arbitrary: m)
  case (Cons e es)
  then have "hm_get (or_insert (fst e) (snd e) m) k = Some x" by (auto simp: or_insert_def hm.get_put)
  from Cons.IH[OF this] show ?case by (simp add: split_beta)
qed simp

lemma evaluate_literal_mono:
  assumes "interval_constraint c" and "constraint_evaluate m c = Some b"
    and "\<And>k x. hm_get m k = Some x \<Longrightarrow> hm_get m' k = Some x"
  shows "constraint_evaluate m' c = Some b"
  using assms by (auto simp: constraint_evaluate_def interval_constraint_def split: option.splits)

lemma generated:
  assumes "length (pr_decisions path) \<le> max_count"
  shows "set (generate_inputs path max_count) =
    merge_entries (pr_entry_values path) ` flip_constraint (from_path path) `
      {i. i < length (pr_decisions path) \<and> is_trivially_satisfiable (flipped path i)}"
proof -
  have "length (filter ic_is_feasible (flip_constraints (from_path path))) \<le> max_count"
    using length_filter_le[of ic_is_feasible "flip_constraints (from_path path)"] assms
    by (simp add: flip_constraints_def from_path_constraints)
  moreover have "ic_is_feasible (flip_constraint (from_path path) i) = is_trivially_satisfiable (flipped path i)" for i
    by (simp add: flip_constraint_def flipped_def Let_def)
  ultimately show ?thesis
    by (force simp: generate_inputs_def flip_constraints_def from_path_constraints)
qed

lemma candidate_idx [simp]:
  "ic_flipped_idx (merge_entries es (flip_constraint cs i)) = i"
  by (simp add: merge_entries_def flip_constraint_def Let_def)

text \<open>
  C31. No reachable branch is lost. When the generator has room for all decisions, a decision for which it
  produces no input cannot be turned while the other decisions stay as they are: no values of the
  variables whatever make the program take the recorded path with only that decision reversed.
\<close>
theorem dropped_flips_are_impossible:
  assumes "length (pr_decisions path) \<le> max_count" and "i < length (pr_decisions path)"
    and "\<forall>cand \<in> set (generate_inputs path max_count). ic_flipped_idx cand \<noteq> i"
  shows "\<nexists>env. \<forall>j < length (pr_decisions path).
    constraint_evaluate env (bd_condition (pr_decisions path ! j)) = Some (bd_taken (pr_decisions path ! j) \<noteq> (j = i))"
proof -
  have "\<not> is_trivially_satisfiable (flipped path i)"
    using assms(2,3) unfolding generated[OF assms(1)] by fastforce
  then show ?thesis using satisfiable_check satisfies_flipped[OF assms(2)] by blast
qed

definition literal_decision :: "constraint_kind \<Rightarrow> string \<Rightarrow> 64 word \<Rightarrow> bool \<Rightarrow> branch_decision" where
  "literal_decision k v n taken =
     \<lparr>bd_site_id = v, bd_condition = \<lparr>co_kind = k, co_lhs = v, co_rhs_int = Some n, co_rhs_sym = None\<rparr>, bd_taken = taken\<rparr>"

definition dead_branch_path :: path_record where
  "dead_branch_path = \<lparr>pr_function_name = ''f'',
     pr_decisions = [literal_decision Gt ''x'' 10 True, literal_decision Gt ''x'' 5 True], pr_entry_values = []\<rparr>"

lemma dropped_flips_are_impossible_witness:
  "\<nexists>env. \<forall>j < length (pr_decisions dead_branch_path).
    constraint_evaluate env (bd_condition (pr_decisions dead_branch_path ! j)) =
      Some (bd_taken (pr_decisions dead_branch_path ! j) \<noteq> (j = 1))"
proof (rule dropped_flips_are_impossible[where max_count = 2])
  have "list_all (\<lambda>cand. ic_flipped_idx cand \<noteq> 1) (generate_inputs dead_branch_path 2)" by code_simp
  then show "\<forall>cand \<in> set (generate_inputs dead_branch_path 2). ic_flipped_idx cand \<noteq> 1" by (simp add: list_all_iff)
qed (simp_all add: dead_branch_path_def)

text \<open>
  C18. Interval conditions are solved. Let all conditions of the path compare a variable with a literal, and
  let none of the wanted ones be a disequality. Whenever some values reverse exactly the decision \<open>i\<close>, the
  generator produces an input for \<open>i\<close>, and the program run on it takes the other way at \<open>i\<close> and the recorded
  way everywhere else, whatever values of other variables the path record adds.
\<close>
theorem flipped_branch_is_taken:
  assumes "length (pr_decisions path) \<le> max_count" and "i < length (pr_decisions path)"
    and "\<forall>c \<in> set (cs_constraints (flipped path i)). interval_constraint c"
    and "\<forall>j < length (pr_decisions path).
      constraint_evaluate s (bd_condition (pr_decisions path ! j)) = Some (bd_taken (pr_decisions path ! j) \<noteq> (j = i))"
  shows "\<exists>cand \<in> set (generate_inputs path max_count). ic_flipped_idx cand = i \<and>
    (\<forall>j < length (pr_decisions path). constraint_evaluate (ic_assignments cand) (bd_condition (pr_decisions path ! j)) =
       Some (bd_taken (pr_decisions path ! j) \<noteq> (j = i)))"
proof -
  have sat: "env_satisfies s (cs_constraints (flipped path i))" using assms(4) satisfies_flipped[OF assms(2)] by blast
  let ?cand = "merge_entries (pr_entry_values path) (flip_constraint (from_path path) i)"
  have feasible: "is_trivially_satisfiable (flipped path i)" by (rule satisfiable_check[OF sat])
  then have assigned: "ic_assignments ?cand =
      fold (\<lambda>(k, v). or_insert k v) (pr_entry_values path) (solve_assignments (flipped path i))"
    by (simp add: merge_entries_def flip_constraint_def Let_def flipped_def[symmetric])
  have "env_satisfies (solve_assignments (flipped path i)) (cs_constraints (flipped path i))" by (rule solved[OF assms(3) sat])
  then have "constraint_evaluate (ic_assignments ?cand) c = Some True" if "c \<in> set (cs_constraints (flipped path i))" for c
    unfolding assigned using that assms(3)
    by (intro evaluate_literal_mono[OF _ _ or_insert_keeps]) (auto simp: env_satisfies_def list_all_iff)
  then have "env_satisfies (ic_assignments ?cand) (cs_constraints (flipped path i))"
    by (simp add: env_satisfies_def list_all_iff)
  moreover have "?cand \<in> set (generate_inputs path max_count)"
    using assms(2) feasible unfolding generated[OF assms(1)] by blast
  ultimately show ?thesis using satisfies_flipped[OF assms(2), THEN iffD1] candidate_idx by blast
qed

lemma all_less_two: "(\<forall>j < Suc (Suc 0). P j) \<longleftrightarrow> P 0 \<and> P (Suc 0)"
  by (auto simp: less_Suc_eq)

definition range_path :: path_record where
  "range_path = \<lparr>pr_function_name = ''f'',
     pr_decisions = [literal_decision Gt ''x'' 10 True, literal_decision Lt ''x'' 20 True], pr_entry_values = [(''y'', 3)]\<rparr>"

lemma flipped_branch_is_taken_witness:
  "\<exists>cand \<in> set (generate_inputs range_path 2). ic_flipped_idx cand = 1 \<and>
    (\<forall>j < length (pr_decisions range_path).
       constraint_evaluate (ic_assignments cand) (bd_condition (pr_decisions range_path ! j)) =
         Some (bd_taken (pr_decisions range_path ! j) \<noteq> (j = 1)))"
proof (rule flipped_branch_is_taken[where s = "[(''x'', 25)]"])
  have "list_all interval_constraint (cs_constraints (flipped range_path 1))" by code_simp
  then show "\<forall>c \<in> set (cs_constraints (flipped range_path 1)). interval_constraint c" by (simp add: list_all_iff)
  have "list_all (\<lambda>j. constraint_evaluate [(''x'', 25)] (bd_condition (pr_decisions range_path ! j)) =
      Some (bd_taken (pr_decisions range_path ! j) \<noteq> (j = 1))) [0, 1]" by code_simp
  then show "\<forall>j < length (pr_decisions range_path).
      constraint_evaluate [(''x'', 25)] (bd_condition (pr_decisions range_path ! j)) =
        Some (bd_taken (pr_decisions range_path ! j) \<noteq> (j = 1))"
    by (simp add: range_path_def all_less_two)
qed (simp_all add: range_path_def)

text \<open>
  With a disequality the search can circle. The flag \<open>is_feasible\<close> is set although the values found break
  the recorded decision \<open>x != 0\<close>; \<open>x = -1\<close> would have done.
\<close>

definition circling_path :: path_record where
  "circling_path = \<lparr>pr_function_name = ''f'',
     pr_decisions = [literal_decision Ne ''x'' 0 True, literal_decision Gt ''x'' 0 True], pr_entry_values = []\<rparr>"

theorem feasible_candidate_misses_the_path:
  "\<exists>cand \<in> set (generate_inputs circling_path 2). ic_flipped_idx cand = 1 \<and> ic_is_feasible cand \<and>
     \<not> env_satisfies (ic_assignments cand) (ic_constraints cand) \<and> env_satisfies [(''x'', - 1)] (ic_constraints cand)"
proof -
  have "list_ex (\<lambda>cand. ic_flipped_idx cand = 1 \<and> ic_is_feasible cand \<and>
     \<not> env_satisfies (ic_assignments cand) (ic_constraints cand) \<and> env_satisfies [(''x'', - 1)] (ic_constraints cand))
     (generate_inputs circling_path 2)" by code_simp
  then show ?thesis by (simp add: list_ex_iff)
qed

end
