(* ===== verification/InvMiner.thy ===== *)
theory InvMiner
  imports Complex_Main Int64
begin

text \<open>
  The invariant miner of \<open>crates/aether-invariant\<close>: invariants (\<open>candidate.rs\<close>), the miner that collects
  observations and proposes what they have in common (\<open>miner.rs\<close>), and the report (\<open>report.rs\<close>). An \<open>i64\<close>
  is a 64-bit word read as signed; the product of a linear relation wraps, as in a release build. The order
  of a \<open>HashMap\<close> is that of the association list. A panic is \<open>None\<close>. The confidences, 1 and 0.95, are
  rationals; their rendering is a parameter.
\<close>

section \<open>Invariants\<close>

datatype invariant_kind = Eq | Ne | Gt | Ge | Lt | Le | LinearMul "64 word" | EqVar | InSet "64 word list"

fun show_invariant_kind :: "invariant_kind \<Rightarrow> string" where
  "show_invariant_kind Eq = ''==''"
| "show_invariant_kind Ne = ''!=''"
| "show_invariant_kind Gt = ''>''"
| "show_invariant_kind Ge = ''>=''"
| "show_invariant_kind Lt = ''<''"
| "show_invariant_kind Le = ''<=''"
| "show_invariant_kind (LinearMul k) = ''== '' @ show_i64 k @ ''*''"
| "show_invariant_kind EqVar = ''==''"
| "show_invariant_kind (InSet s) = ''in {'' @ str_join '','' (map show_i64 s) @ ''}''"

record invariant =
  iv_lhs :: string
  iv_kind :: invariant_kind
  iv_rhs_int :: "64 word option"
  iv_rhs_sym :: "string option"
  iv_confidence :: rat
  iv_support :: nat

definition show_invariant :: "(rat \<Rightarrow> string) \<Rightarrow> invariant \<Rightarrow> string" where
  "show_invariant show_2 i =
     (let tail = '' [conf='' @ show_2 (iv_confidence i) @ '' n='' @ show_nat (iv_support i) @ '']'';
          rhs = (case iv_rhs_sym i of Some s \<Rightarrow> s | None \<Rightarrow> ''?'')
      in case iv_kind i of
           LinearMul k \<Rightarrow> iv_lhs i @ '' == '' @ show_i64 k @ ''*'' @ rhs @ tail
         | EqVar \<Rightarrow> iv_lhs i @ '' == '' @ rhs @ tail
         | _ \<Rightarrow> (case iv_rhs_int i of
                  Some n \<Rightarrow> iv_lhs i @ '' '' @ show_invariant_kind (iv_kind i) @ '' '' @ show_i64 n @ tail
                | None \<Rightarrow> iv_lhs i @ '' '' @ show_invariant_kind (iv_kind i) @ tail))"

section \<open>Observations\<close>

record pair_obs =
  po_a :: string
  po_b :: string
  po_pairs :: "(64 word \<times> 64 word) list"

record miner =
  im_obs :: "(string, 64 word list) hmap"
  im_pairs :: "pair_obs list"

definition miner_new :: miner where
  "miner_new = \<lparr>im_obs = [], im_pairs = []\<rparr>"

definition observe :: "string \<Rightarrow> 64 word \<Rightarrow> miner \<Rightarrow> miner" where
  "observe var value m =
     m\<lparr>im_obs := hm_put var ((case hm_get (im_obs m) var of Some vs \<Rightarrow> vs | None \<Rightarrow> []) @ [value]) (im_obs m)\<rparr>"

text \<open>The first record of the pair is extended; without one a new record is pushed.\<close>

fun push_pair :: "string \<Rightarrow> string \<Rightarrow> 64 word \<Rightarrow> 64 word \<Rightarrow> pair_obs list \<Rightarrow> pair_obs list" where
  "push_pair a b va vb [] = [\<lparr>po_a = a, po_b = b, po_pairs = [(va, vb)]\<rparr>]"
| "push_pair a b va vb (p # ps) =
     (if po_a p = a \<and> po_b p = b then p\<lparr>po_pairs := po_pairs p @ [(va, vb)]\<rparr> # ps
      else p # push_pair a b va vb ps)"

definition observe_pair :: "string \<Rightarrow> string \<Rightarrow> 64 word \<Rightarrow> 64 word \<Rightarrow> miner \<Rightarrow> miner" where
  "observe_pair a b va vb m = m\<lparr>im_pairs := push_pair a b va vb (im_pairs m)\<rparr>"

section \<open>Mining\<close>

definition MIN_SUPPORT :: nat where "MIN_SUPPORT = 2"
definition CONFIDENCE_THRESHOLD :: rat where "CONFIDENCE_THRESHOLD = 95 / 100"
definition MAX_SET_SIZE :: nat where "MAX_SET_SIZE = 8"

definition smallest :: "64 word \<Rightarrow> 64 word list \<Rightarrow> 64 word" where
  "smallest v vs = fold (\<lambda>x m. if sint x < sint m then x else m) vs v"

definition greatest :: "64 word \<Rightarrow> 64 word list \<Rightarrow> 64 word" where
  "greatest v vs = fold (\<lambda>x m. if sint m \<le> sint x then x else m) vs v"

definition constant_invariant ::
  "string \<Rightarrow> nat \<Rightarrow> rat \<Rightarrow> invariant_kind \<Rightarrow> 64 word option \<Rightarrow> invariant" where
  "constant_invariant var n conf kind rhs =
     \<lparr>iv_lhs = var, iv_kind = kind, iv_rhs_int = rhs, iv_rhs_sym = None, iv_confidence = conf, iv_support = n\<rparr>"

definition mine_single_var :: "string \<Rightarrow> 64 word list \<Rightarrow> invariant list option" where
  "mine_single_var var values =
     (case values of
        [] \<Rightarrow> None
      | v # vs \<Rightarrow>
          (let n = length values;
               lo = smallest v vs;
               hi = greatest v vs;
               distinct_vals = remdups values
           in Some
             (if lo = hi then [constant_invariant var n 1 Eq (Some lo)]
              else (if 0 < sint lo then [constant_invariant var n 1 Gt (Some 0)]
                    else if 0 \<le> sint lo then [constant_invariant var n 1 Ge (Some 0)] else []) @
                   (if 0 \<notin> set values then [constant_invariant var n 1 Ne (Some 0)] else []) @
                   [constant_invariant var n CONFIDENCE_THRESHOLD Le (Some hi)] @
                   (if length distinct_vals \<le> MAX_SET_SIZE \<and> length distinct_vals < n
                    then [constant_invariant var n 1 (InSet (sort_key sint distinct_vals)) None] else []))))"

definition pair_invariant :: "string \<Rightarrow> string \<Rightarrow> nat \<Rightarrow> invariant_kind \<Rightarrow> invariant" where
  "pair_invariant a b n kind =
     \<lparr>iv_lhs = a, iv_kind = kind, iv_rhs_int = None, iv_rhs_sym = Some b, iv_confidence = 1, iv_support = n\<rparr>"

definition LINEAR_FACTORS :: "64 word list" where
  "LINEAR_FACTORS = [2, 3, 4, 5, -1, -2]"

definition mine_pair :: "string \<Rightarrow> string \<Rightarrow> (64 word \<times> 64 word) list \<Rightarrow> invariant list" where
  "mine_pair a b pairs =
     (if list_all (\<lambda>(va, vb). va = vb) pairs then [pair_invariant a b (length pairs) EqVar]
      else map (\<lambda>k. pair_invariant a b (length pairs) (LinearMul k))
             (filter (\<lambda>k. list_all (\<lambda>(va, vb). va = k * vb) pairs) LINEAR_FACTORS))"

text \<open>\<open>Vec::dedup_by\<close>: an element goes when it is the same as the last one kept.\<close>

fun dedup_after :: "('a \<Rightarrow> 'a \<Rightarrow> bool) \<Rightarrow> 'a \<Rightarrow> 'a list \<Rightarrow> 'a list" where
  "dedup_after same kept [] = []"
| "dedup_after same kept (x # xs) =
     (if same x kept then dedup_after same kept xs else x # dedup_after same x xs)"

fun dedup_by :: "('a \<Rightarrow> 'a \<Rightarrow> bool) \<Rightarrow> 'a list \<Rightarrow> 'a list" where
  "dedup_by same [] = []"
| "dedup_by same (x # xs) = x # dedup_after same x xs"

definition same_invariant :: "invariant \<Rightarrow> invariant \<Rightarrow> bool" where
  "same_invariant i j \<longleftrightarrow> iv_lhs i = iv_lhs j \<and> iv_kind i = iv_kind j \<and> iv_rhs_int i = iv_rhs_int j"

definition mine_var :: "string \<times> 64 word list \<Rightarrow> invariant list option" where
  "mine_var entry =
     (case entry of (var, values) \<Rightarrow>
        if length values < MIN_SUPPORT then Some [] else mine_single_var var values)"

definition mine_pairs_of :: "pair_obs \<Rightarrow> invariant list" where
  "mine_pairs_of p = (if length (po_pairs p) < MIN_SUPPORT then [] else mine_pair (po_a p) (po_b p) (po_pairs p))"

record invariant_report =
  rp_invariants :: "invariant list"

definition mine :: "miner \<Rightarrow> invariant_report option" where
  "mine m = map_option
     (\<lambda>singles. \<lparr>rp_invariants =
        dedup_by same_invariant (concat singles @ concat (map mine_pairs_of (im_pairs m)))\<rparr>)
     (those (map mine_var (im_obs m)))"

section \<open>The report\<close>

definition report_summary :: "(rat \<Rightarrow> string) \<Rightarrow> invariant_report \<Rightarrow> string" where
  "report_summary show_2 r =
     (if rp_invariants r = [] then ''no invariants found''
      else str_join nl (map (show_invariant show_2) (rp_invariants r)))"

definition by_variable :: "string \<Rightarrow> invariant_report \<Rightarrow> invariant list" where
  "by_variable var r = filter (\<lambda>i. iv_lhs i = var) (rp_invariants r)"

definition high_confidence :: "rat \<Rightarrow> invariant_report \<Rightarrow> invariant list" where
  "high_confidence threshold r = filter (\<lambda>i. threshold \<le> iv_confidence i) (rp_invariants r)"

section \<open>What was observed\<close>

datatype observation = Single string "64 word" | Paired string string "64 word" "64 word"

fun record_observation :: "observation \<Rightarrow> miner \<Rightarrow> miner" where
  "record_observation (Single x v) m = observe x v m"
| "record_observation (Paired a b va vb) m = observe_pair a b va vb m"

definition observed :: "observation list \<Rightarrow> miner" where
  "observed hs = fold record_observation hs miner_new"

definition values_of :: "string \<Rightarrow> observation list \<Rightarrow> 64 word list" where
  "values_of x hs = List.map_filter (\<lambda>h. case h of Single y v \<Rightarrow> if y = x then Some v else None | _ \<Rightarrow> None) hs"

definition pairs_of :: "string \<Rightarrow> string \<Rightarrow> observation list \<Rightarrow> (64 word \<times> 64 word) list" where
  "pairs_of a b hs = List.map_filter
     (\<lambda>h. case h of Paired a' b' va vb \<Rightarrow> if a' = a \<and> b' = b then Some (va, vb) else None | _ \<Rightarrow> None) hs"

lemma values_of_simps [simp]:
  "values_of x [] = []" "values_of x (hs @ hs') = values_of x hs @ values_of x hs'"
  "values_of x [Single y v] = (if y = x then [v] else [])" "values_of x [Paired a b va vb] = []"
  by (simp_all add: values_of_def map_filter_def)

lemma pairs_of_simps [simp]:
  "pairs_of a b [] = []" "pairs_of a b (hs @ hs') = pairs_of a b hs @ pairs_of a b hs'"
  "pairs_of a b [Single y v] = []" "pairs_of a b [Paired a' b' va vb] = (if a' = a \<and> b' = b then [(va, vb)] else [])"
  by (auto simp add: pairs_of_def map_filter_def)

lemma observed_simps [simp]:
  "observed [] = miner_new" "observed (hs @ [h]) = record_observation h (observed hs)"
  by (simp_all add: observed_def)

lemma observed_values:
  "hm_ok (im_obs (observed hs)) \<and>
   (\<forall>x. hm_get (im_obs (observed hs)) x = (if values_of x hs = [] then None else Some (values_of x hs)))"
proof (induction hs rule: rev_induct)
  case Nil
  then show ?case by (simp add: miner_new_def hm_ok_def hm_get_def)
next
  case (snoc h hs)
  then show ?case by (cases h) (auto simp: observe_def observe_pair_def hm.get_put hm.ok_put)
qed

text \<open>The records of pairs as a map.\<close>

definition pair_entries :: "pair_obs list \<Rightarrow> ((string \<times> string) \<times> (64 word \<times> 64 word) list) list" where
  "pair_entries ps = map (\<lambda>p. ((po_a p, po_b p), po_pairs p)) ps"

lemma push_pair_map:
  "map_of (pair_entries (push_pair a b va vb ps)) =
    (map_of (pair_entries ps))((a, b) \<mapsto>
       (case map_of (pair_entries ps) (a, b) of Some vs \<Rightarrow> vs | None \<Rightarrow> []) @ [(va, vb)])"
  by (induction ps) (auto simp: pair_entries_def fun_eq_iff)

lemma push_pair_keys:
  "fst ` set (pair_entries (push_pair a b va vb ps)) = insert (a, b) (fst ` set (pair_entries ps))"
  by (induction ps) (auto simp: pair_entries_def)

lemma push_pair_distinct:
  "distinct (map fst (pair_entries ps)) \<Longrightarrow> distinct (map fst (pair_entries (push_pair a b va vb ps)))"
proof (induction ps)
  case (Cons p ps)
  have "(po_a p, po_b p) \<notin> fst ` set (pair_entries (push_pair a b va vb ps))" if "\<not> (po_a p = a \<and> po_b p = b)"
    using Cons.prems that unfolding push_pair_keys by (auto simp: pair_entries_def)
  with Cons show ?case by (cases "po_a p = a \<and> po_b p = b") (auto simp add: pair_entries_def o_def image_image)
qed (simp add: pair_entries_def)

lemma observed_pair_map:
  "distinct (map fst (pair_entries (im_pairs (observed hs)))) \<and>
   (\<forall>a b. map_of (pair_entries (im_pairs (observed hs))) (a, b) =
     (if pairs_of a b hs = [] then None else Some (pairs_of a b hs)))"
proof (induction hs rule: rev_induct)
  case Nil
  then show ?case by (simp add: miner_new_def pair_entries_def)
next
  case (snoc h hs)
  then show ?case
    by (cases h) (simp_all add: observe_def observe_pair_def push_pair_map push_pair_distinct)
qed

lemma observed_pairs:
  assumes "p \<in> set (im_pairs (observed hs))"
  shows "po_pairs p = pairs_of (po_a p) (po_b p) hs"
proof -
  have "map_of (pair_entries (im_pairs (observed hs))) (po_a p, po_b p) = Some (po_pairs p)"
    using observed_pair_map assms by (intro map_of_is_SomeI) (auto simp: pair_entries_def)
  then show ?thesis using observed_pair_map[of hs] by (simp split: if_splits)
qed

section \<open>The least and the greatest value\<close>

lemma smallest_props:
  "smallest v vs \<in> set (v # vs)" "\<forall>x \<in> set (v # vs). sint (smallest v vs) \<le> sint x"
proof (induction vs rule: rev_induct)
  case (snoc x xs)
  case 1
  then show ?case using snoc by (auto simp: smallest_def)
  case 2
  then show ?case using snoc by (auto simp: smallest_def)
qed (simp_all add: smallest_def)

lemma greatest_props:
  "greatest v vs \<in> set (v # vs)" "\<forall>x \<in> set (v # vs). sint x \<le> sint (greatest v vs)"
proof (induction vs rule: rev_induct)
  case (snoc x xs)
  case 1
  then show ?case using snoc by (auto simp: greatest_def)
  case 2
  then show ?case using snoc by (auto simp: greatest_def)
qed (simp_all add: greatest_def)

lemma smallest_is_greatest:
  "smallest v vs = greatest v vs \<longleftrightarrow> (\<forall>x \<in> set (v # vs). \<forall>y \<in> set (v # vs). x = y)"
proof
  assume "smallest v vs = greatest v vs"
  then have "sint x = sint y" if "x \<in> set (v # vs)" "y \<in> set (v # vs)" for x y
    using smallest_props(2)[of v vs] greatest_props(2)[of v vs] that by (metis order_antisym)
  then show "\<forall>x \<in> set (v # vs). \<forall>y \<in> set (v # vs). x = y" by (simp add: sint_inj)
next
  assume "\<forall>x \<in> set (v # vs). \<forall>y \<in> set (v # vs). x = y"
  then show "smallest v vs = greatest v vs" using smallest_props(1) greatest_props(1) by blast
qed

section \<open>What a report says of the observations\<close>

text \<open>The facts about one variable that the miner looks for, and that it states of given values.\<close>

definition constant_values :: "64 word list \<Rightarrow> bool" where
  "constant_values vs \<longleftrightarrow> (\<forall>x \<in> set vs. \<forall>y \<in> set vs. x = y)"

definition facts :: "64 word list \<Rightarrow> (invariant_kind \<times> 64 word option) set" where
  "facts vs =
     (if constant_values vs then {(Eq, Some v) | v. v \<in> set vs}
      else (if \<forall>v \<in> set vs. 0 < sint v then {(Gt, Some 0)} else {}) \<union>
           (if (\<forall>v \<in> set vs. 0 \<le> sint v) \<and> 0 \<in> set vs then {(Ge, Some 0)} else {}) \<union>
           (if 0 \<notin> set vs then {(Ne, Some 0)} else {}) \<union>
           {(Le, Some m) | m. m \<in> set vs \<and> (\<forall>v \<in> set vs. sint v \<le> sint m)} \<union>
           {(InSet s, None) | s. set s = set vs \<and> sorted (map sint s) \<and> distinct s \<and> length s \<le> 8 \<and> length s < length vs})"

definition same_kind :: "invariant \<Rightarrow> invariant_kind \<times> 64 word option" where
  "same_kind i = (iv_kind i, iv_rhs_int i)"

lemma sorted_set_unique:
  assumes "set s = set vs" and "sorted (map sint s)" and "distinct s"
  shows "s = sort_key sint (remdups (vs :: 64 word list))"
proof -
  have inj: "inj_on sint (set s)" for s :: "64 word list" by (auto simp: inj_on_def sint_inj)
  have "map sint s = map sint (sort_key sint (remdups vs))"
    by (rule sorted_distinct_set_unique) (use assms in \<open>auto simp: distinct_map inj\<close>)
  then show ?thesis using map_inj_on[of sint s "sort_key sint (remdups vs)"] by (simp add: inj_on_def sint_inj)
qed

lemma single_var_facts:
  assumes "values \<noteq> []"
  shows "\<exists>js. mine_single_var x values = Some js \<and> same_kind ` set js = facts values \<and>
    (\<forall>i \<in> set js. iv_lhs i = x \<and> iv_rhs_sym i = None \<and> iv_support i = length values \<and>
       iv_confidence i = (if iv_kind i = Le then CONFIDENCE_THRESHOLD else 1))"
proof -
  obtain v vs where vs: "values = v # vs" using assms by (cases "values") auto
  let ?s = "sort_key sint (remdups values)"
  have s: "set ?s = set values" "sorted (map sint ?s)" "distinct ?s" "length ?s = length (remdups values)" by simp_all
  note lo = smallest_props[of v vs, folded vs] and hi = greatest_props[of v vs, folded vs]
  let ?c = "constant_invariant x (length values)"
  obtain js where js: "mine_single_var x values = Some js" by (simp add: mine_single_var_def vs Let_def)
  then have js': "js = (if smallest v vs = greatest v vs then [?c 1 Eq (Some (smallest v vs))]
      else (if 0 < sint (smallest v vs) then [?c 1 Gt (Some 0)]
            else if 0 \<le> sint (smallest v vs) then [?c 1 Ge (Some 0)] else []) @
           (if 0 \<notin> set values then [?c 1 Ne (Some 0)] else []) @
           [?c CONFIDENCE_THRESHOLD Le (Some (greatest v vs))] @
           (if length ?s \<le> 8 \<and> length ?s < length values then [?c 1 (InSet ?s) None] else []))"
    unfolding mine_single_var_def vs by (simp only: list.case Let_def option.inject MAX_SET_SIZE_def length_sort)
  have fields: "\<forall>i \<in> set js. iv_lhs i = x \<and> iv_rhs_sym i = None \<and> iv_support i = length values \<and>
      iv_confidence i = (if iv_kind i = Le then CONFIDENCE_THRESHOLD else 1)"
    unfolding list_all_iff[symmetric] js'
    by (simp add: constant_invariant_def)
  show ?thesis
  proof (cases "smallest v vs = greatest v vs")
    case True
    have const: "constant_values values" unfolding constant_values_def using True smallest_is_greatest[of v vs] vs by blast
    have "js = [constant_invariant x (length values) 1 Eq (Some (smallest v vs))]"
      using js' True by simp
    moreover have "facts values = {(Eq, Some (smallest v vs))}" using const lo(1) by (auto simp: facts_def constant_values_def)
    ultimately show ?thesis using js fields by (simp add: same_kind_def constant_invariant_def)
  next
    case False
    have nc: "\<not> constant_values values" unfolding constant_values_def using False smallest_is_greatest[of v vs] vs by blast
    have gt: "0 < sint (smallest v vs) \<longleftrightarrow> (\<forall>a \<in> set values. 0 < sint a)" using lo by (meson less_le_trans)
    have ge: "0 \<le> sint (smallest v vs) \<longleftrightarrow> (\<forall>a \<in> set values. 0 \<le> sint a)" using lo by (meson order_trans)
    have zero: "sint (smallest v vs) = 0 \<longleftrightarrow> (\<forall>a \<in> set values. 0 \<le> sint a) \<and> 0 \<in> set values"
      using lo ge by (metis order_antisym sint_0 sint_inj)
    have le: "m \<in> set values \<and> (\<forall>a \<in> set values. sint a \<le> sint m) \<longleftrightarrow> m = greatest v vs" for m
      using hi by (metis order_antisym sint_inj)
    have inset: "set s = set values \<and> sorted (map sint s) \<and> distinct s \<longleftrightarrow> s = ?s" for s
      using sorted_set_unique[of s "values"] s by metis
    have "same_kind ` set js =
        (if 0 < sint (smallest v vs) then {(Gt, Some 0)} else if 0 \<le> sint (smallest v vs) then {(Ge, Some 0)} else {}) \<union>
        (if 0 \<notin> set values then {(Ne, Some 0)} else {}) \<union> {(Le, Some (greatest v vs))} \<union>
        (if length ?s \<le> 8 \<and> length ?s < length values then {(InSet ?s, None)} else {})"
    proof -
      note js'[unfolded if_not_P[OF False]]
      moreover have "same_kind ` set (if P then [a] else l) = (if P then {same_kind a} else same_kind ` set l)" for P a l
        by simp
      moreover have "same_kind (?c conf kind rhs) = (kind, rhs)" for conf kind rhs
        by (simp add: same_kind_def constant_invariant_def)
      ultimately show ?thesis by (simp only: set_append image_Un list.set image_insert image_empty Un_assoc)
    qed
    also have "\<dots> = facts values"
    proof -
      have "(if 0 < sint (smallest v vs) then {(Gt, Some 0)} else if 0 \<le> sint (smallest v vs) then {(Ge, Some 0)} else {}) =
          (if \<forall>v \<in> set values. 0 < sint v then {(Gt, Some (0 :: 64 word))} else {}) \<union>
          (if (\<forall>v \<in> set values. 0 \<le> sint v) \<and> 0 \<in> set values then {(Ge, Some 0)} else {})"
        using gt ge zero by (cases "sint (smallest v vs)" "0 :: int" rule: linorder_cases) auto
      moreover have "{(Le, Some m) | m. m \<in> set values \<and> (\<forall>v \<in> set values. sint v \<le> sint m)} = {(Le, Some (greatest v vs))}"
        using le by auto
      moreover have "{(InSet s, None :: 64 word option) | s. set s = set values \<and> sorted (map sint s) \<and> distinct s \<and> length s \<le> 8 \<and> length s < length values} =
          (if length ?s \<le> 8 \<and> length ?s < length values then {(InSet ?s, None)} else {})"
      proof -
        have "(set s = set values \<and> sorted (map sint s) \<and> distinct s \<and> length s \<le> 8 \<and> length s < length values) =
            (s = ?s \<and> length ?s \<le> 8 \<and> length ?s < length values)" for s
          using inset[of s] by blast
        then show ?thesis by simp
      qed
      ultimately show ?thesis by (simp only: facts_def if_not_P[OF nc])
    qed
    finally show ?thesis using js fields by blast
  qed
qed

lemma single_var_the:
  assumes "values \<noteq> []"
  shows "same_kind ` set (the (mine_single_var x values)) = facts values"
    and "i \<in> set (the (mine_single_var x values)) \<Longrightarrow> iv_lhs i = x \<and> iv_rhs_sym i = None \<and> iv_support i = length values \<and>
      iv_confidence i = (if iv_kind i = Le then CONFIDENCE_THRESHOLD else 1)"
  using single_var_facts[OF assms, of x] by force+

section \<open>Removing duplicates\<close>

lemma dedup_after_subset: "set (dedup_after same k xs) \<subseteq> set xs"
  by (induction same k xs rule: dedup_after.induct) auto

lemma dedup_by_subset: "set (dedup_by same xs) \<subseteq> set xs"
  using dedup_after_subset[of same "hd xs" "tl xs"] by (cases xs) auto

lemma dedup_by_kept: "x \<in> set xs \<Longrightarrow> (\<And>y. y \<in> set xs \<Longrightarrow> same x y \<Longrightarrow> y = x) \<Longrightarrow> x \<in> set (dedup_by same xs)"
proof (cases xs)
  case (Cons k ks)
  show "x \<in> set xs \<Longrightarrow> (\<And>y. y \<in> set xs \<Longrightarrow> same x y \<Longrightarrow> y = x) \<Longrightarrow> x \<in> set (dedup_by same xs)"
    unfolding Cons
  proof -
    assume x: "x \<in> set (k # ks)" and only: "\<And>y. y \<in> set (k # ks) \<Longrightarrow> same x y \<Longrightarrow> y = x"
    have "x \<in> set ks \<Longrightarrow> x \<in> set (k # dedup_after same k ks)"
      using only
    proof (induction same k ks rule: dedup_after.induct)
      case (2 same k z zs)
      then show ?case by (cases "same z k") auto
    qed simp
    with x show "x \<in> set (dedup_by same (k # ks))" by auto
  qed
qed simp

section \<open>Properties of the miner\<close>

text \<open>An invariant says something true of everything observed.\<close>

fun kind_true :: "invariant_kind \<Rightarrow> 64 word \<Rightarrow> 64 word \<Rightarrow> bool" where
  "kind_true Eq n v = (v = n)"
| "kind_true Ne n v = (v \<noteq> n)"
| "kind_true Gt n v = (sint n < sint v)"
| "kind_true Ge n v = (sint n \<le> sint v)"
| "kind_true Lt n v = (sint v < sint n)"
| "kind_true Le n v = (sint v \<le> sint n)"
| "kind_true k n v = False"

definition invariant_true :: "observation list \<Rightarrow> invariant \<Rightarrow> bool" where
  "invariant_true hs i =
     (let vs = values_of (iv_lhs i) hs;
          ps = (case iv_rhs_sym i of Some b \<Rightarrow> pairs_of (iv_lhs i) b hs | None \<Rightarrow> [])
      in case iv_kind i of
           EqVar \<Rightarrow> iv_support i = length ps \<and> (\<forall>(va, vb) \<in> set ps. va = vb)
         | LinearMul k \<Rightarrow> iv_support i = length ps \<and> (\<forall>(va, vb) \<in> set ps. va = k * vb)
         | InSet s \<Rightarrow> iv_support i = length vs \<and> set vs = set s
         | kind \<Rightarrow> iv_support i = length vs \<and>
             (case iv_rhs_int i of Some n \<Rightarrow> (\<forall>v \<in> set vs. kind_true kind n v) | None \<Rightarrow> False))"

lemma facts_iff:
  "(k, r) \<in> facts vs \<longleftrightarrow>
    (if constant_values vs then k = Eq \<and> (\<exists>v \<in> set vs. r = Some v)
     else (case k of
             Gt \<Rightarrow> r = Some 0 \<and> (\<forall>v \<in> set vs. 0 < sint v)
           | Ge \<Rightarrow> r = Some 0 \<and> (\<forall>v \<in> set vs. 0 \<le> sint v) \<and> 0 \<in> set vs
           | Ne \<Rightarrow> r = Some 0 \<and> 0 \<notin> set vs
           | Le \<Rightarrow> (\<exists>m \<in> set vs. r = Some m \<and> (\<forall>v \<in> set vs. sint v \<le> sint m))
           | InSet s \<Rightarrow> r = None \<and> set s = set vs \<and> sorted (map sint s) \<and> distinct s \<and> length s \<le> 8 \<and> length s < length vs
           | _ \<Rightarrow> False))"
  unfolding facts_def by (cases k) auto

lemma constant_valuesD: "constant_values vs \<Longrightarrow> v \<in> set vs \<Longrightarrow> x \<in> set vs \<Longrightarrow> x = v"
  by (simp add: constant_values_def)

lemma fact_true:
  assumes "same_kind i \<in> facts (values_of (iv_lhs i) hs)" and "iv_support i = length (values_of (iv_lhs i) hs)"
  shows "invariant_true hs i"
  using assms unfolding same_kind_def facts_iff invariant_true_def Let_def
  by (cases "iv_kind i") (auto split: if_splits dest: constant_valuesD)

lemma pair_fact:
  assumes "i \<in> set (mine_pair a b ps)"
  shows "iv_lhs i = a \<and> iv_rhs_sym i = Some b \<and> iv_rhs_int i = None \<and> iv_support i = length ps \<and>
    (iv_kind i = EqVar \<and> (\<forall>(va, vb) \<in> set ps. va = vb) \<or>
     (\<exists>k. iv_kind i = LinearMul k \<and> (\<forall>(va, vb) \<in> set ps. va = k * vb)))"
  using assms by (auto simp: mine_pair_def pair_invariant_def list_all_iff split: if_splits)

definition mined_singles :: "observation list \<Rightarrow> invariant set" where
  "mined_singles hs = {i. 2 \<le> length (values_of (iv_lhs i) hs) \<and>
     i \<in> set (the (mine_single_var (iv_lhs i) (values_of (iv_lhs i) hs)))}"

lemma mine_var_Some:
  assumes "(x, vs) \<in> set (im_obs (observed hs))"
  shows "vs = values_of x hs \<and> vs \<noteq> [] \<and>
    mine_var (x, vs) = Some (if length vs < 2 then [] else the (mine_single_var x vs))"
proof -
  have "hm_get (im_obs (observed hs)) x = Some vs"
    using observed_values[of hs] assms unfolding hm_ok_def hm_get_def by (intro map_of_is_SomeI) auto
  then have "vs = values_of x hs \<and> vs \<noteq> []" using observed_values[of hs] by (auto split: if_splits)
  then show ?thesis using single_var_facts[of vs x] by (auto simp: mine_var_def MIN_SUPPORT_def)
qed

lemma mined:
  "\<exists>singles. mine (observed hs) = Some \<lparr>rp_invariants =
      dedup_by same_invariant (singles @ concat (map mine_pairs_of (im_pairs (observed hs))))\<rparr> \<and>
    set singles = mined_singles hs"
proof -
  let ?f = "\<lambda>(x, vs). if length vs < 2 then [] else the (mine_single_var x vs)"
  have "those (map mine_var (im_obs (observed hs))) = Some (map ?f (im_obs (observed hs)))"
    unfolding those_map_Some using mine_var_Some by (auto split: if_splits)
  moreover have "set (concat (map ?f (im_obs (observed hs)))) = mined_singles hs"
  proof (intro equalityI subsetI)
    fix i assume "i \<in> set (concat (map ?f (im_obs (observed hs))))"
    then obtain x vs where x: "(x, vs) \<in> set (im_obs (observed hs))" "i \<in> set (?f (x, vs))" by auto
    note vs = mine_var_Some[OF x(1)]
    from vs single_var_facts[of vs x] x(2) have "iv_lhs i = x" by (auto split: if_splits)
    with vs x(2) show "i \<in> mined_singles hs" by (auto simp: mined_singles_def split: if_splits)
  next
    fix i assume i: "i \<in> mined_singles hs"
    then have "values_of (iv_lhs i) hs \<noteq> []" by (auto simp: mined_singles_def)
    then have "hm_get (im_obs (observed hs)) (iv_lhs i) = Some (values_of (iv_lhs i) hs)" using observed_values[of hs] by simp
    then have "(iv_lhs i, values_of (iv_lhs i) hs) \<in> set (im_obs (observed hs))" by (simp add: hm_get_def map_of_SomeD)
    with i show "i \<in> set (concat (map ?f (im_obs (observed hs))))" by (force simp: mined_singles_def)
  qed
  ultimately show ?thesis unfolding mine_def
    by (intro exI[of _ "concat (map ?f (im_obs (observed hs)))"] conjI) simp_all
qed

lemma mined_single:
  assumes "i \<in> mined_singles hs"
  shows "same_kind i \<in> facts (values_of (iv_lhs i) hs)" "iv_rhs_sym i = None"
    "iv_support i = length (values_of (iv_lhs i) hs)" "2 \<le> iv_support i"
    "iv_confidence i = (if iv_kind i = Le then CONFIDENCE_THRESHOLD else 1)"
    "iv_kind i \<noteq> EqVar" "iv_kind i \<noteq> LinearMul k"
proof -
  from assms have vs: "values_of (iv_lhs i) hs \<noteq> []" "2 \<le> length (values_of (iv_lhs i) hs)"
    and i: "i \<in> set (the (mine_single_var (iv_lhs i) (values_of (iv_lhs i) hs)))"
    by (auto simp: mined_singles_def)
  from single_var_the(2)[OF vs(1) i] show "iv_rhs_sym i = None"
    "iv_support i = length (values_of (iv_lhs i) hs)"
    "iv_confidence i = (if iv_kind i = Le then CONFIDENCE_THRESHOLD else 1)"
    by simp_all
  from single_var_the(1)[OF vs(1)] i show fact: "same_kind i \<in> facts (values_of (iv_lhs i) hs)" by blast
  show "2 \<le> iv_support i" using vs single_var_the(2)[OF vs(1) i] by simp
  from fact show "iv_kind i \<noteq> EqVar" "iv_kind i \<noteq> LinearMul k"
    by (auto simp: same_kind_def facts_iff split: if_splits)
qed

lemma mined_pair:
  assumes "i \<in> set (concat (map mine_pairs_of (im_pairs (observed hs))))"
  shows "invariant_true hs i \<and> 2 \<le> iv_support i \<and> iv_rhs_sym i \<noteq> None"
    and "iv_kind i = EqVar \<or> (\<exists>k. iv_kind i = LinearMul k)"
proof -
  from assms obtain p where p: "p \<in> set (im_pairs (observed hs))" "i \<in> set (mine_pair (po_a p) (po_b p) (po_pairs p))"
    "2 \<le> length (po_pairs p)"
    by (auto simp: mine_pairs_of_def MIN_SUPPORT_def split: if_splits)
  note fact = pair_fact[OF p(2)]
  have "po_pairs p = pairs_of (po_a p) (po_b p) hs" by (rule observed_pairs[OF p(1)])
  with fact p(3) show "invariant_true hs i \<and> 2 \<le> iv_support i \<and> iv_rhs_sym i \<noteq> None"
    by (auto simp: invariant_true_def Let_def)
  from fact show "iv_kind i = EqVar \<or> (\<exists>k. iv_kind i = LinearMul k)" by blast
qed

lemma single_kept:
  assumes "i \<in> mined_singles hs" and "set singles = mined_singles hs"
  shows "i \<in> set (dedup_by same_invariant (singles @ concat (map mine_pairs_of (im_pairs (observed hs)))))"
proof (rule dedup_by_kept)
  fix j assume j: "j \<in> set (singles @ concat (map mine_pairs_of (im_pairs (observed hs))))" "same_invariant i j"
  then have "j \<in> mined_singles hs"
    using mined_pair(2)[of j hs] mined_single(6,7)[OF assms(1)] assms(2) by (auto simp: same_invariant_def)
  with j(2) mined_single(2,3,5)[OF assms(1)] mined_single(2,3,5)[of j hs] show "j = i"
    by (intro invariant.equality) (auto simp: same_invariant_def)
qed (use assms in simp)


definition demo_observations :: "observation list" where
  "demo_observations = [Single ''x'' 3, Paired ''y'' ''x'' 6 3, Single ''x'' 5, Paired ''y'' ''x'' 10 5, Single ''x'' 3]"


text \<open>
  The comparison of \<open>dedup_by\<close> leaves out the second variable: of two equalities of one variable only the
  first is reported.
\<close>
theorem second_equality_is_dropped:
  "map_option (\<lambda>r. map (\<lambda>i. (iv_lhs i, iv_rhs_sym i)) (rp_invariants r))
     (mine (observed [Paired ''a'' ''b'' 1 1, Paired ''a'' ''b'' 2 2, Paired ''a'' ''c'' 1 1, Paired ''a'' ''c'' 2 2])) =
   Some [(''a'', Some ''b'')]"
  by code_simp

text \<open>A product that wraps passes for a linear relation.\<close>
theorem wrapped_product_is_reported:
  "map_option (\<lambda>r. map iv_kind (rp_invariants r))
     (mine (observed [Paired ''a'' ''b'' 0 (push_bit 62 1), Paired ''a'' ''b'' 4 1])) = Some [LinearMul 4]"
  by code_simp

end
