(* ===== verification/DiffFuzz.thy ===== *)
theory DiffFuzz
  imports Complex_Main Utf8 "HOL-Library.Word"
begin

unbundle bit_operations_syntax

text \<open>
  The differential fuzzer of \<open>crates/aether-difffuzz\<close>: the generator \<open>Xorshift64\<close> and the mutations of a
  corpus (\<open>mutator.rs\<close>), the comparison of two targets (\<open>runner.rs\<close>) and the session that drives them
  (\<open>session.rs\<close>). Bytes are 8-bit words and the generator's state a 64-bit word; a target is a function of
  its input; an index out of range is \<open>None\<close>. The \<open>f64\<close> of the length ratio is a rational number.
\<close>

section \<open>The generator\<close>

type_synonym bytes = "8 word list"

definition rng_new :: "64 word \<Rightarrow> 64 word" where
  "rng_new seed = (if seed = 0 then 0xdeadbeefcafebabe else seed)"

definition rng_next :: "64 word \<Rightarrow> 64 word" where
  "rng_next s =
     (let x = s XOR push_bit 13 s;
          y = x XOR drop_bit 7 x
      in y XOR push_bit 17 y)"

definition next_usize :: "nat \<Rightarrow> 64 word \<Rightarrow> nat \<times> 64 word" where
  "next_usize limit s = (if limit = 0 then (0, s) else (unat (rng_next s) mod limit, rng_next s))"

definition next_u8 :: "64 word \<Rightarrow> 8 word \<times> 64 word" where
  "next_u8 s = (ucast (rng_next s), rng_next s)"

definition next_bool :: "64 word \<Rightarrow> bool \<times> 64 word" where
  "next_bool s = (rng_next s AND 1 = 1, rng_next s)"

section \<open>Mutations\<close>

definition INTERESTING_BYTES :: bytes where
  "INTERESTING_BYTES = [0, 1, 0x7f, 0x80, 0xfe, 0xff, 10, 13, 34, 0]"

datatype mutation_op =
    BitFlip nat "8 word"
  | ByteFlip nat
  | ByteInsert nat "8 word"
  | ByteDelete nat
  | ByteReplace nat "8 word"
  | InterestingByte nat "8 word"
  | Truncate nat
  | Repeat nat nat
  | Splice nat

record mutator =
  mu_corpus :: "bytes list"
  mu_rng :: "64 word"
  mu_mutations_per_input :: nat

definition mutator_new :: "64 word \<Rightarrow> mutator" where
  "mutator_new seed =
     \<lparr>mu_corpus = [[104, 101, 108, 108, 111], replicate 8 0, [123, 125]],
      mu_rng = rng_new seed, mu_mutations_per_input = 4\<rparr>"

definition mutator_add_seed :: "bytes \<Rightarrow> mutator \<Rightarrow> mutator" where
  "mutator_add_seed seed m = m\<lparr>mu_corpus := mu_corpus m @ [seed]\<rparr>"

definition add_to_corpus :: "bytes \<Rightarrow> mutator \<Rightarrow> mutator" where
  "add_to_corpus input m =
     (if length (mu_corpus m) < 10000 then m\<lparr>mu_corpus := mu_corpus m @ [input]\<rparr> else m)"

text \<open>\<open>Vec::insert\<close>, and writing to an element.\<close>

definition insert_at :: "nat \<Rightarrow> 'a \<Rightarrow> 'a list \<Rightarrow> 'a list option" where
  "insert_at pos v xs = (if pos \<le> length xs then Some (take pos xs @ v # drop pos xs) else None)"

definition update_at :: "nat \<Rightarrow> ('a \<Rightarrow> 'a) \<Rightarrow> 'a list \<Rightarrow> 'a list option" where
  "update_at pos f xs = (if pos < length xs then Some (xs[pos := f (xs ! pos)]) else None)"

definition remove_at :: "nat \<Rightarrow> 'a list \<Rightarrow> 'a list option" where
  "remove_at pos xs = (if pos < length xs then Some (take pos xs @ drop (Suc pos) xs) else None)"

fun repeat_byte :: "nat \<Rightarrow> nat \<Rightarrow> 8 word \<Rightarrow> bytes \<Rightarrow> bytes option" where
  "repeat_byte 0 pos b data = Some data"
| "repeat_byte (Suc count) pos b data =
     (if 65536 \<le> length data then Some data
      else Option.bind (insert_at pos b data) (repeat_byte count pos b))"

text \<open>The outcome of one mutation: the operation, if any, the data and the generator.\<close>

type_synonym mutated = "(mutation_op option \<times> bytes \<times> 64 word) option"

definition with_op :: "mutation_op \<Rightarrow> 64 word \<Rightarrow> bytes option \<Rightarrow> mutated" where
  "with_op op s data = map_option (\<lambda>d. (Some op, d, s)) data"

definition bit_flip :: "bytes \<Rightarrow> 64 word \<Rightarrow> mutated" where
  "bit_flip data s =
     (let (pos, s) = next_usize (length data) s;
          (k, s) = next_usize 8 s;
          bit = push_bit k 1
      in with_op (BitFlip pos bit) s (update_at pos (\<lambda>b. b XOR bit) data))"

definition byte_flip :: "bytes \<Rightarrow> 64 word \<Rightarrow> mutated" where
  "byte_flip data s =
     (let (pos, s) = next_usize (length data) s
      in with_op (ByteFlip pos) s (update_at pos (\<lambda>b. NOT b) data))"

definition byte_insert :: "bytes \<Rightarrow> 64 word \<Rightarrow> mutated" where
  "byte_insert data s =
     (let (pos, s) = next_usize (length data + 1) s;
          (v, s) = next_u8 s
      in with_op (ByteInsert pos v) s (insert_at pos v data))"

definition byte_delete :: "bytes \<Rightarrow> 64 word \<Rightarrow> mutated" where
  "byte_delete data s =
     (let (pos, s) = next_usize (length data) s
      in with_op (ByteDelete pos) s (remove_at pos data))"

definition byte_replace :: "bytes \<Rightarrow> 64 word \<Rightarrow> mutated" where
  "byte_replace data s =
     (let (pos, s) = next_usize (length data) s;
          (v, s) = next_u8 s
      in with_op (ByteReplace pos v) s (update_at pos (\<lambda>_. v) data))"

definition interesting_byte :: "bytes \<Rightarrow> 64 word \<Rightarrow> mutated" where
  "interesting_byte data s =
     (let (pos, s) = next_usize (length data) s;
          (k, s) = next_usize (length INTERESTING_BYTES) s;
          v = INTERESTING_BYTES ! k
      in with_op (InterestingByte pos v) s (update_at pos (\<lambda>_. v) data))"

definition truncate_data :: "bytes \<Rightarrow> 64 word \<Rightarrow> mutated" where
  "truncate_data data s =
     (let (k, s) = next_usize (length data - 1) s
      in with_op (Truncate (k + 1)) s (Some (take (k + 1) data)))"

definition repeat_data :: "bytes \<Rightarrow> 64 word \<Rightarrow> mutated" where
  "repeat_data data s =
     (let (pos, s) = next_usize (length data) s;
          (k, s) = next_usize 8 s
      in if pos < length data
         then with_op (Repeat pos (k + 1)) s (repeat_byte (k + 1) pos (data ! pos) data)
         else None)"

definition splice_data :: "bytes list \<Rightarrow> nat \<Rightarrow> bytes \<Rightarrow> 64 word \<Rightarrow> mutated" where
  "splice_data corpus corpus_idx data s =
     (let (k, s) = next_usize (length corpus) s;
          other_idx = (if k = corpus_idx then (k + 1) mod length corpus else k)
      in if length corpus \<le> other_idx then None
         else (let other = corpus ! other_idx
               in if other = [] then Some (Some (Splice other_idx), data, s)
                  else (let (split, s) = next_usize (min (length data) (length other)) s
                        in if length other < split then None
                           else Some (Some (Splice other_idx), take split data @ drop split other, s))))"

definition mutate_once :: "bytes list \<Rightarrow> nat \<Rightarrow> bytes \<Rightarrow> 64 word \<Rightarrow> mutated" where
  "mutate_once corpus corpus_idx data s =
     (if data = [] then (let (v, s) = next_u8 s in Some (Some (ByteInsert 0 v), [v], s))
      else (let (choice, s) = next_usize 9 s in
        if choice = 0 then bit_flip data s
        else if choice = 1 then byte_flip data s
        else if choice = 2 \<and> length data < 65536 then byte_insert data s
        else if choice = 3 then byte_delete data s
        else if choice = 4 then byte_replace data s
        else if choice = 5 then interesting_byte data s
        else if choice = 6 \<and> 1 < length data then truncate_data data s
        else if choice = 7 then repeat_data data s
        else if choice = 8 \<and> 1 < length corpus then splice_data corpus corpus_idx data s
        else Some (None, data, s)))"

fun mutate_times :: "nat \<Rightarrow> bytes list \<Rightarrow> nat \<Rightarrow> bytes \<Rightarrow> mutation_op list \<Rightarrow> 64 word \<Rightarrow>
    (bytes \<times> mutation_op list \<times> 64 word) option" where
  "mutate_times 0 corpus idx data ops s = Some (data, ops, s)"
| "mutate_times (Suc n) corpus idx data ops s =
     (case mutate_once corpus idx data s of
        None \<Rightarrow> None
      | Some (op, data, s) \<Rightarrow>
          mutate_times n corpus idx data (case op of Some op \<Rightarrow> ops @ [op] | None \<Rightarrow> ops) s)"

definition next_input :: "mutator \<Rightarrow> ((bytes \<times> mutation_op list) \<times> mutator) option" where
  "next_input m =
     (let (idx, s) = next_usize (length (mu_corpus m)) (mu_rng m)
      in if length (mu_corpus m) \<le> idx then None
         else map_option (\<lambda>(data, ops, s). ((data, ops), m\<lparr>mu_rng := s\<rparr>))
                (mutate_times (mu_mutations_per_input m) (mu_corpus m) idx (mu_corpus m ! idx) [] s))"

section \<open>Comparing two targets\<close>

datatype diff_output = Ok bytes | Err string | Panic string | Timeout

fun variant_name :: "diff_output \<Rightarrow> string" where
  "variant_name (Ok b) = ''Ok''"
| "variant_name (Err e) = ''Err''"
| "variant_name (Panic p) = ''Panic''"
| "variant_name Timeout = ''Timeout''"

fun is_defined :: "diff_output \<Rightarrow> bool" where
  "is_defined (Ok b) = True"
| "is_defined (Err e) = True"
| "is_defined out = False"

datatype divergence_kind = OutputMismatch | StatusMismatch | PanicMismatch | LengthMismatch | TimeoutMismatch

record divergence =
  dv_input :: bytes
  dv_input_str :: string
  dv_output_a :: diff_output
  dv_output_b :: diff_output
  dv_kind :: divergence_kind
  dv_iteration :: nat

record runner_config =
  rc_exact_match :: bool
  rc_panic_only :: bool
  rc_length_ratio_threshold :: rat

definition runner_config_default :: runner_config where
  "runner_config_default = \<lparr>rc_exact_match = True, rc_panic_only = False, rc_length_ratio_threshold = 2\<rparr>"

definition length_ratio :: "bytes \<Rightarrow> bytes \<Rightarrow> rat" where
  "length_ratio ba bb =
     (let la = of_nat (length ba) + 1; lb = of_nat (length bb) + 1 in max (la / lb) (lb / la))"

fun classify_outputs :: "runner_config \<Rightarrow> diff_output \<Rightarrow> diff_output \<Rightarrow> divergence_kind option" where
  "classify_outputs cfg Timeout Timeout = None"
| "classify_outputs cfg Timeout b = Some TimeoutMismatch"
| "classify_outputs cfg a Timeout = Some TimeoutMismatch"
| "classify_outputs cfg (Panic pa) (Panic pb) = (if pa = pb then None else Some PanicMismatch)"
| "classify_outputs cfg (Panic pa) b = Some PanicMismatch"
| "classify_outputs cfg a (Panic pb) = Some PanicMismatch"
| "classify_outputs cfg (Ok ba) (Err eb) = (if rc_panic_only cfg then None else Some StatusMismatch)"
| "classify_outputs cfg (Err ea) (Ok bb) = (if rc_panic_only cfg then None else Some StatusMismatch)"
| "classify_outputs cfg (Err ea) (Err eb) =
     (if rc_panic_only cfg then None else if ea \<noteq> eb then Some OutputMismatch else None)"
| "classify_outputs cfg (Ok ba) (Ok bb) =
     (if rc_panic_only cfg then None
      else if ba = bb then None
      else if rc_length_ratio_threshold cfg < length_ratio ba bb then Some LengthMismatch
      else if rc_exact_match cfg then Some OutputMismatch else None)"

section \<open>Sessions\<close>

record diff_target =
  dt_name :: string
  dt_run :: "bytes \<Rightarrow> diff_output"

record diff_runner =
  dr_target_a :: diff_target
  dr_target_b :: diff_target
  dr_config :: runner_config

definition bytes_string :: "bytes \<Rightarrow> string" where
  "bytes_string data = map (\<lambda>b. char_of (unat b)) data"

definition detect_divergence ::
  "diff_runner \<Rightarrow> bytes \<Rightarrow> diff_output \<Rightarrow> diff_output \<Rightarrow> nat \<Rightarrow> divergence option" where
  "detect_divergence r input out_a out_b iteration =
     map_option (\<lambda>kind. \<lparr>dv_input = input, dv_input_str = utf8_lossy (bytes_string input), dv_output_a = out_a,
                           dv_output_b = out_b, dv_kind = kind, dv_iteration = iteration\<rparr>)
       (classify_outputs (dr_config r) out_a out_b)"

definition compare :: "diff_runner \<Rightarrow> bytes \<Rightarrow> nat \<Rightarrow> divergence option" where
  "compare r input iteration =
     detect_divergence r input (dt_run (dr_target_a r) input) (dt_run (dr_target_b r) input) iteration"

fun show_divergence_kind :: "divergence_kind \<Rightarrow> string" where
  "show_divergence_kind OutputMismatch = ''OutputMismatch''"
| "show_divergence_kind StatusMismatch = ''StatusMismatch''"
| "show_divergence_kind PanicMismatch = ''PanicMismatch''"
| "show_divergence_kind LengthMismatch = ''LengthMismatch''"
| "show_divergence_kind TimeoutMismatch = ''TimeoutMismatch''"

definition show_divergence :: "divergence \<Rightarrow> string" where
  "show_divergence d = ''[iter='' @ show_nat (dv_iteration d) @ ''] '' @ show_divergence_kind (dv_kind d) @
     '' | A='' @ variant_name (dv_output_a d) @ '' B='' @ variant_name (dv_output_b d)"

record fuzz_stats =
  fz_iterations :: nat
  fz_divergences :: nat
  fz_panics_a :: nat
  fz_panics_b :: nat
  fz_corpus_size :: nat

definition fuzz_stats_default :: fuzz_stats where
  "fuzz_stats_default =
     \<lparr>fz_iterations = 0, fz_divergences = 0, fz_panics_a = 0, fz_panics_b = 0, fz_corpus_size = 0\<rparr>"

record fuzz_session =
  fs_runner :: diff_runner
  fs_mutator :: mutator
  fs_divergences :: "divergence list"
  fs_stats :: fuzz_stats

definition fuzz_session_new :: "diff_target \<Rightarrow> diff_target \<Rightarrow> 64 word \<Rightarrow> fuzz_session" where
  "fuzz_session_new a b seed =
     \<lparr>fs_runner = \<lparr>dr_target_a = a, dr_target_b = b, dr_config = runner_config_default\<rparr>,
      fs_mutator = mutator_new seed, fs_divergences = [], fs_stats = fuzz_stats_default\<rparr>"

definition session_with_config :: "runner_config \<Rightarrow> fuzz_session \<Rightarrow> fuzz_session" where
  "session_with_config cfg s = s\<lparr>fs_runner := (fs_runner s)\<lparr>dr_config := cfg\<rparr>\<rparr>"

definition session_add_seed :: "bytes \<Rightarrow> fuzz_session \<Rightarrow> fuzz_session" where
  "session_add_seed seed s = s\<lparr>fs_mutator := mutator_add_seed seed (fs_mutator s)\<rparr>"

definition is_panic :: "diff_output \<Rightarrow> bool" where
  "is_panic out = (case out of Panic p \<Rightarrow> True | _ \<Rightarrow> False)"

definition count_panics :: "diff_output \<Rightarrow> diff_output \<Rightarrow> fuzz_stats \<Rightarrow> fuzz_stats" where
  "count_panics out_a out_b st =
     st\<lparr>fz_panics_a := fz_panics_a st + (if is_panic out_a then 1 else 0),
        fz_panics_b := fz_panics_b st + (if is_panic out_b then 1 else 0)\<rparr>"

definition keep_divergence :: "divergence \<Rightarrow> fuzz_session \<Rightarrow> fuzz_session" where
  "keep_divergence d s =
     s\<lparr>fs_mutator := add_to_corpus (dv_input d) (fs_mutator s),
       fs_stats := (fs_stats s)\<lparr>fz_divergences := fz_divergences (fs_stats s) + 1\<rparr>,
       fs_divergences := fs_divergences s @ [d]\<rparr>"

text \<open>One iteration: its divergence, if any, and the session after it.\<close>

definition fuzz_step :: "nat \<Rightarrow> fuzz_session \<Rightarrow> (divergence option \<times> fuzz_session) option" where
  "fuzz_step iteration s =
     (case next_input (fs_mutator s) of
        None \<Rightarrow> None
      | Some ((input, _), m) \<Rightarrow>
          (let out_a = dt_run (dr_target_a (fs_runner s)) input;
               out_b = dt_run (dr_target_b (fs_runner s)) input;
               s1 = s\<lparr>fs_mutator := m, fs_stats := count_panics out_a out_b (fs_stats s)\<rparr>;
               dv = detect_divergence (fs_runner s) input out_a out_b iteration;
               s2 = (case dv of Some d \<Rightarrow> keep_divergence d s1 | None \<Rightarrow> s1)
           in Some (dv, s2\<lparr>fs_stats := (fs_stats s2)\<lparr>fz_iterations := fz_iterations (fs_stats s2) + 1\<rparr>\<rparr>)))"

fun fuzz_loop :: "nat \<Rightarrow> nat \<Rightarrow> divergence list \<Rightarrow> fuzz_session \<Rightarrow> (divergence list \<times> fuzz_session) option" where
  "fuzz_loop 0 iteration found s = Some (found, s)"
| "fuzz_loop (Suc n) iteration found s =
     (case fuzz_step iteration s of
        None \<Rightarrow> None
      | Some (dv, s) \<Rightarrow>
          fuzz_loop n (iteration + 1) (case dv of Some d \<Rightarrow> found @ [d] | None \<Rightarrow> found) s)"

definition fuzz_run :: "nat \<Rightarrow> fuzz_session \<Rightarrow> (divergence list \<times> fuzz_session) option" where
  "fuzz_run iterations s =
     map_option (\<lambda>(found, s). (found, s\<lparr>fs_stats := (fs_stats s)\<lparr>fz_corpus_size := length (mu_corpus (fs_mutator s))\<rparr>\<rparr>))
       (fuzz_loop iterations (fz_iterations (fs_stats s)) [] s)"

definition replay :: "fuzz_session \<Rightarrow> bytes \<Rightarrow> divergence option" where
  "replay s input = compare (fs_runner s) input u64_max"

section \<open>The generator is a permutation\<close>

lemma xor_push_inj:
  assumes "0 < n" and "x XOR push_bit n x = y XOR push_bit n (y :: 'a :: len word)"
  shows "x = y"
proof (rule bit_word_eqI)
  fix i assume "i < LENGTH('a)"
  then show "bit x i = bit y i"
  proof (induction i rule: less_induct)
    case (less i)
    have eq: "bit (x XOR push_bit n x) i = bit (y XOR push_bit n y) i" using assms(2) by simp
    show ?case
    proof (cases "n \<le> i")
      case True
      then have "bit x (i - n) = bit y (i - n)" using less assms(1) by simp
      with eq less.prems True show ?thesis by (auto simp: bit_simps)
    next
      case False
      with eq show ?thesis by (simp add: bit_simps)
    qed
  qed
qed

lemma xor_drop_inj:
  assumes "0 < n" and "x XOR drop_bit n x = y XOR drop_bit n (y :: 'a :: len word)"
  shows "x = y"
proof (rule bit_word_eqI)
  fix i assume "i < LENGTH('a)"
  have "bit x i = bit y i" for i
  proof (induction "LENGTH('a) - i" arbitrary: i rule: less_induct)
    case less
    have eq: "bit (x XOR drop_bit n x) i = bit (y XOR drop_bit n y) i" using assms(2) by simp
    show ?case
    proof (cases "i < LENGTH('a)")
      case True
      then have "bit x (i + n) = bit y (i + n)" using less assms(1) by simp
      with eq show ?thesis by (auto simp: bit_simps ac_simps)
    next
      case False
      then show ?thesis by (auto dest: bit_imp_le_length)
    qed
  qed
  then show "bit x i = bit y i" .
qed

lemma rng_next_inj:
  assumes "rng_next x = rng_next y"
  shows "x = y"
proof -
  note last = xor_push_inj[OF _ assms[unfolded rng_next_def Let_def]]
  have "x XOR push_bit 13 x = y XOR push_bit 13 y" by (rule xor_drop_inj[OF _ last]) simp_all
  then show "x = y" by (rule xor_push_inj[rotated]) simp
qed

lemma rng_next_0: "rng_next s = 0 \<longleftrightarrow> s = 0"
  using rng_next_inj[of s 0] by (auto simp: rng_next_def)

section \<open>Mutations stay in range\<close>

lemma next_usize_less: "next_usize limit s = (k, s') \<Longrightarrow> 0 < limit \<Longrightarrow> k < limit"
  by (auto simp: next_usize_def split: if_splits)

lemma next_usize_state: "next_usize limit s = (k, s') \<Longrightarrow> s \<noteq> 0 \<Longrightarrow> s' \<noteq> 0"
  by (auto simp: next_usize_def rng_next_0 split: if_splits)

lemma next_u8_state: "next_u8 s = (v, s') \<Longrightarrow> s \<noteq> 0 \<Longrightarrow> s' \<noteq> 0"
  by (auto simp: next_u8_def rng_next_0)

definition fits :: "nat \<Rightarrow> bytes option \<Rightarrow> bool" where
  "fits n r \<longleftrightarrow> (\<exists>d. r = Some d \<and> length d \<le> n)"

lemma fits_at [simp]:
  "fits n (insert_at pos v xs) \<longleftrightarrow> pos \<le> length xs \<and> length xs + 1 \<le> n"
  "fits n (update_at pos f xs) \<longleftrightarrow> pos < length xs \<and> length xs \<le> n"
  "fits n (remove_at pos xs) \<longleftrightarrow> pos < length xs \<and> length xs - 1 \<le> n"
  "fits n (Some d) \<longleftrightarrow> length d \<le> n"
  by (auto simp: fits_def insert_at_def update_at_def remove_at_def)

text \<open>The result is there, its length is within the bound, and the generator is not stuck.\<close>

definition in_range :: "nat \<Rightarrow> mutated \<Rightarrow> bool" where
  "in_range n r \<longleftrightarrow> (\<exists>op data s. r = Some (op, data, s) \<and> length data \<le> n \<and> s \<noteq> 0)"

lemma in_range_with_op [simp]:
  "in_range n (with_op op s r) \<longleftrightarrow> fits n r \<and> s \<noteq> 0"
  by (cases r) (auto simp: in_range_def with_op_def fits_def)

lemma in_range_Some [simp]: "in_range n (Some (op, data, s)) \<longleftrightarrow> length data \<le> n \<and> s \<noteq> 0"
  by (simp add: in_range_def)

lemmas draws = next_usize_less next_usize_state next_u8_state

lemma repeat_byte_length:
  "pos \<le> length data \<Longrightarrow> length data \<le> n \<Longrightarrow> 65536 \<le> n \<Longrightarrow>
     \<exists>d. repeat_byte count pos b data = Some d \<and> length d \<le> n"
proof (induction count arbitrary: data)
  case (Suc count)
  show ?case
  proof (cases "65536 \<le> length data")
    case False
    with Suc.prems Suc.IH[of "take pos data @ b # drop pos data"] show ?thesis by (simp add: insert_at_def)
  qed (use Suc.prems in simp)
qed simp

lemma mutations_in_range:
  assumes "data \<noteq> []" and "length data \<le> n" and "s \<noteq> 0"
  shows "in_range n (bit_flip data s)" "in_range n (byte_flip data s)" "in_range n (byte_delete data s)"
    "in_range n (byte_replace data s)" "in_range n (interesting_byte data s)" "in_range n (truncate_data data s)"
  using assms
  by (auto simp: bit_flip_def byte_flip_def byte_delete_def byte_replace_def interesting_byte_def truncate_data_def Let_def
      split: prod.split dest: draws)

lemma byte_insert_in_range: "length data < n \<Longrightarrow> s \<noteq> 0 \<Longrightarrow> in_range n (byte_insert data s)"
  by (auto simp: byte_insert_def Let_def less_Suc_eq_le split: prod.split dest: draws)

lemma repeat_data_in_range:
  assumes "data \<noteq> []" and "length data \<le> n" and "65536 \<le> n" and "s \<noteq> 0"
  shows "in_range n (repeat_data data s)"
proof -
  obtain pos s1 where pos: "next_usize (length data) s = (pos, s1)" by fastforce
  obtain k s2 where k: "next_usize 8 s1 = (k, s2)" by fastforce
  have "pos < length data" "s2 \<noteq> 0" using assms pos k by (auto dest: draws)
  moreover from this obtain d where "repeat_byte (k + 1) pos (data ! pos) data = Some d" "length d \<le> n"
    using repeat_byte_length[of pos data n "k + 1" "data ! pos"] assms by auto
  ultimately show ?thesis by (simp add: repeat_data_def pos k)
qed

lemma splice_in_range:
  assumes "data \<noteq> []" and "length data \<le> n" and "\<forall>d \<in> set corpus. length d \<le> n" and "1 < length corpus" and "s \<noteq> 0"
  shows "in_range n (splice_data corpus idx data s)"
proof -
  obtain k s1 where k: "next_usize (length corpus) s = (k, s1)" by fastforce
  let ?o = "if k = idx then (k + 1) mod length corpus else k"
  have o: "?o < length corpus" "s1 \<noteq> 0" using assms k by (auto dest: draws intro: mod_less_divisor)
  obtain split s2 where split: "next_usize (min (length data) (length (corpus ! ?o))) s1 = (split, s2)" by fastforce
  have "s2 \<noteq> 0" using o(2) split by (auto dest: draws)
  moreover have "corpus ! ?o \<noteq> [] \<Longrightarrow> split < min (length data) (length (corpus ! ?o))" using assms(1) split by (auto dest: draws)
  moreover have "length (corpus ! ?o) \<le> n" using assms(3) o(1) nth_mem by blast
  ultimately show ?thesis using o assms(2) by (auto simp: splice_data_def k Let_def split split: prod.splits)
qed

lemma mutate_once_in_range:
  assumes "length data \<le> n" and "65536 \<le> n" and "\<forall>d \<in> set corpus. length d \<le> n" and "s \<noteq> 0"
  shows "in_range n (mutate_once corpus idx data s)"
proof (cases "data = []")
  case True
  then show ?thesis using assms by (auto simp: mutate_once_def split: prod.split dest: draws)
next
  case False
  obtain choice s1 where c: "next_usize 9 s = (choice, s1)" by fastforce
  have s1: "s1 \<noteq> 0" using assms(4) c by (auto dest: draws)
  note range = mutations_in_range[OF False assms(1) s1] repeat_data_in_range[OF False assms(1,2) s1]
    splice_in_range[OF False assms(1,3) _ s1] byte_insert_in_range[OF _ s1]
  show ?thesis unfolding mutate_once_def using False assms(1,2) s1 by (simp add: c range)
qed

lemma mutate_times_in_range:
  assumes "65536 \<le> n" and "\<forall>d \<in> set corpus. length d \<le> n"
  shows "length data \<le> n \<Longrightarrow> s \<noteq> 0 \<Longrightarrow>
    \<exists>data' ops' s'. mutate_times k corpus idx data ops s = Some (data', ops', s') \<and> length data' \<le> n \<and> s' \<noteq> 0"
proof (induction k arbitrary: data ops s)
  case (Suc k)
  from mutate_once_in_range[OF Suc.prems(1) assms Suc.prems(2), of idx] obtain op d s1
    where "mutate_once corpus idx data s = Some (op, d, s1)" "length d \<le> n" "s1 \<noteq> 0"
    unfolding in_range_def by blast
  then show ?case using Suc.IH[of d s1] by simp
qed simp

definition mutator_ok :: "nat \<Rightarrow> mutator \<Rightarrow> bool" where
  "mutator_ok n m \<longleftrightarrow> 65536 \<le> n \<and> mu_corpus m \<noteq> [] \<and> (\<forall>d \<in> set (mu_corpus m). length d \<le> n) \<and> mu_rng m \<noteq> 0"

lemma next_input_ok:
  assumes "mutator_ok n m"
  shows "\<exists>data ops s. next_input m = Some ((data, ops), m\<lparr>mu_rng := s\<rparr>) \<and> length data \<le> n \<and> mutator_ok n (m\<lparr>mu_rng := s\<rparr>)"
proof -
  obtain idx s where idx: "next_usize (length (mu_corpus m)) (mu_rng m) = (idx, s)" by fastforce
  have i: "idx < length (mu_corpus m)" "s \<noteq> 0" using assms idx by (auto simp: mutator_ok_def dest: draws)
  then have "length (mu_corpus m ! idx) \<le> n" using assms nth_mem unfolding mutator_ok_def by blast
  then obtain d ops s' where "mutate_times (mu_mutations_per_input m) (mu_corpus m) idx (mu_corpus m ! idx) [] s = Some (d, ops, s')"
    "length d \<le> n" "s' \<noteq> 0"
    using mutate_times_in_range[of n "mu_corpus m" "mu_corpus m ! idx" s] assms i(2) unfolding mutator_ok_def by blast
  then show ?thesis using assms i(1) by (auto simp: next_input_def idx mutator_ok_def)
qed

section \<open>Properties of the fuzzer\<close>

lemma classify_None_iff:
  "rc_exact_match cfg \<Longrightarrow> \<not> rc_panic_only cfg \<Longrightarrow> classify_outputs cfg a b = None \<longleftrightarrow> a = b"
  by (cases "(cfg, a, b)" rule: classify_outputs.cases) auto

lemma classify_swap: "classify_outputs cfg a b = classify_outputs cfg b a"
  by (cases "(cfg, a, b)" rule: classify_outputs.cases) (auto simp: length_ratio_def Let_def max.commute)

text \<open>The inputs of a run, in order, with the number of their iteration.\<close>

fun fuzz_inputs :: "nat \<Rightarrow> nat \<Rightarrow> fuzz_session \<Rightarrow> (nat \<times> bytes) list" where
  "fuzz_inputs 0 iteration s = []"
| "fuzz_inputs (Suc n) iteration s =
     (case (next_input (fs_mutator s), fuzz_step iteration s) of
        (Some ((input, _), _), Some (_, s')) \<Rightarrow> (iteration, input) # fuzz_inputs n (iteration + 1) s'
      | _ \<Rightarrow> [])"

definition fuzz_session_ok :: "nat \<Rightarrow> fuzz_session \<Rightarrow> bool" where
  "fuzz_session_ok n s \<longleftrightarrow> mutator_ok n (fs_mutator s)"

definition panics :: "diff_target \<Rightarrow> (nat \<times> bytes) list \<Rightarrow> nat" where
  "panics t inputs = length (filter (\<lambda>(i, input). is_panic (dt_run t input)) inputs)"

text \<open>What a run adds to a session.\<close>

definition extends :: "fuzz_session \<Rightarrow> (nat \<times> bytes) list \<Rightarrow> divergence list \<Rightarrow> fuzz_session \<Rightarrow> bool" where
  "extends s inputs found s' \<longleftrightarrow>
     fs_runner s' = fs_runner s \<and> fs_divergences s' = fs_divergences s @ found \<and>
     fz_iterations (fs_stats s') = fz_iterations (fs_stats s) + length inputs \<and>
     fz_divergences (fs_stats s') = fz_divergences (fs_stats s) + length found \<and>
     fz_panics_a (fs_stats s') = fz_panics_a (fs_stats s) + panics (dr_target_a (fs_runner s)) inputs \<and>
     fz_panics_b (fs_stats s') = fz_panics_b (fs_stats s) + panics (dr_target_b (fs_runner s)) inputs"

lemma mutator_ok_add: "mutator_ok n m \<Longrightarrow> length d \<le> n \<Longrightarrow> mutator_ok n (add_to_corpus d m)"
  by (auto simp: mutator_ok_def add_to_corpus_def)

lemma fuzz_step_ok:
  assumes "fuzz_session_ok n s"
  shows "\<exists>input ops m s'. next_input (fs_mutator s) = Some ((input, ops), m) \<and> length input \<le> n \<and>
    fuzz_step i s = Some (compare (fs_runner s) input i, s') \<and> fuzz_session_ok n s' \<and>
    extends s [(i, input)] (case compare (fs_runner s) input i of Some d \<Rightarrow> [d] | None \<Rightarrow> []) s'"
proof -
  from next_input_ok[of n "fs_mutator s"] assms obtain input ops rng where
    nxt: "next_input (fs_mutator s) = Some ((input, ops), (fs_mutator s)\<lparr>mu_rng := rng\<rparr>)"
    and len: "length input \<le> n" and ok: "mutator_ok n ((fs_mutator s)\<lparr>mu_rng := rng\<rparr>)"
    unfolding fuzz_session_ok_def by blast
  have "dv_input d = input" if "compare (fs_runner s) input i = Some d" for d
    using that by (auto simp: compare_def detect_divergence_def)
  then show ?thesis
    using nxt len ok mutator_ok_add[OF ok len]
    by (cases "compare (fs_runner s) input i")
      (simp_all add: fuzz_step_def Let_def compare_def[symmetric] keep_divergence_def count_panics_def fuzz_session_ok_def
        extends_def panics_def)
qed

lemma extends_trans:
  "extends s is1 f1 s1 \<Longrightarrow> extends s1 is2 f2 s2 \<Longrightarrow> extends s (is1 @ is2) (f1 @ f2) s2"
  by (simp add: extends_def panics_def)

definition divergences_of :: "diff_runner \<Rightarrow> (nat \<times> bytes) list \<Rightarrow> divergence list" where
  "divergences_of r inputs = List.map_filter (\<lambda>(i, input). compare r input i) inputs"

lemma fuzz_loop_ok:
  assumes "fuzz_session_ok n s"
  shows "\<exists>s'. fuzz_loop k i found s = Some (found @ divergences_of (fs_runner s) (fuzz_inputs k i s), s') \<and>
    fuzz_session_ok n s' \<and> map fst (fuzz_inputs k i s) = [i..<i + k] \<and>
    (\<forall>(j, input) \<in> set (fuzz_inputs k i s). length input \<le> n) \<and>
    extends s (fuzz_inputs k i s) (divergences_of (fs_runner s) (fuzz_inputs k i s)) s'"
  using assms
proof (induction k arbitrary: i found s)
  case 0
  then show ?case by (auto simp: divergences_of_def map_filter_def extends_def panics_def)
next
  case (Suc k)
  from fuzz_step_ok[OF Suc.prems, of i] obtain input ops m s1 where
    nxt: "next_input (fs_mutator s) = Some ((input, ops), m)" "length input \<le> n"
    and step: "fuzz_step i s = Some (compare (fs_runner s) input i, s1)" "fuzz_session_ok n s1"
    and ext: "extends s [(i, input)] (case compare (fs_runner s) input i of Some d \<Rightarrow> [d] | None \<Rightarrow> []) s1"
    by blast
  have runner: "fs_runner s1 = fs_runner s" using ext by (simp add: extends_def)
  let ?new = "case compare (fs_runner s) input i of Some d \<Rightarrow> [d] | None \<Rightarrow> []"
  from Suc.IH[OF step(2), of "i + 1" "found @ ?new"] obtain s' where
    loop: "fuzz_loop k (i + 1) (found @ ?new) s1 =
      Some ((found @ ?new) @ divergences_of (fs_runner s) (fuzz_inputs k (i + 1) s1), s')" "fuzz_session_ok n s'"
    and rest: "map fst (fuzz_inputs k (i + 1) s1) = [i + 1..<i + 1 + k]"
      "\<forall>(j, input) \<in> set (fuzz_inputs k (i + 1) s1). length input \<le> n"
      "extends s1 (fuzz_inputs k (i + 1) s1) (divergences_of (fs_runner s) (fuzz_inputs k (i + 1) s1)) s'"
    unfolding runner by blast
  have inputs: "fuzz_inputs (Suc k) i s = [(i, input)] @ fuzz_inputs k (i + 1) s1" using nxt step by simp
  have divs: "divergences_of (fs_runner s) (fuzz_inputs (Suc k) i s) =
      ?new @ divergences_of (fs_runner s) (fuzz_inputs k (i + 1) s1)"
    unfolding inputs by (simp add: divergences_of_def map_filter_def split: option.split)
  have "fuzz_loop (Suc k) i found s = fuzz_loop k (i + 1) (found @ ?new) s1"
    using step(1) by (simp split: option.split)
  with loop(1) have run: "fuzz_loop (Suc k) i found s = Some (found @ divergences_of (fs_runner s) (fuzz_inputs (Suc k) i s), s')"
    by (simp only: divs append_assoc)
  have numbers: "map fst (fuzz_inputs (Suc k) i s) = [i..<i + Suc k]"
    unfolding inputs using rest(1) by (simp add: upt_rec[of i] del: fuzz_inputs.simps)
  have short: "\<forall>(j, input) \<in> set (fuzz_inputs (Suc k) i s). length input \<le> n"
    unfolding inputs using rest(2) nxt(2) by auto
  have "extends s (fuzz_inputs (Suc k) i s) (divergences_of (fs_runner s) (fuzz_inputs (Suc k) i s)) s'"
    unfolding divs unfolding inputs by (rule extends_trans[OF ext rest(3)])
  then show ?case by (intro exI[of _ s'] conjI run loop(2) numbers short)
qed

text \<open>
  C23. A fuzzing run reports exactly what it saw. From a session whose corpus is not empty (with entries of at
  most \<open>n\<close> bytes, \<open>n\<close> at least 65536) and whose generator is not stuck at zero, a run never indexes out of
  range and keeps this; its inputs have at most \<open>n\<close> bytes and are numbered consecutively; the divergences it
  returns are those of its inputs, in order, each of them found again by a replay; the session's
  divergences and counters grow by just these; and under the default configuration an input is among them exactly when
  the two targets answer differently.
\<close>
theorem fuzz_run_exact:
  assumes "fuzz_session_ok n s"
  shows "\<exists>s'. let inputs = fuzz_inputs k (fz_iterations (fs_stats s)) s;
             found = divergences_of (fs_runner s) inputs
         in fuzz_run k s = Some (found, s') \<and> fuzz_session_ok n s' \<and> extends s inputs found s' \<and>
            fz_corpus_size (fs_stats s') = length (mu_corpus (fs_mutator s')) \<and>
            map fst inputs = [fz_iterations (fs_stats s)..<fz_iterations (fs_stats s) + k] \<and>
            (\<forall>(i, input) \<in> set inputs. length input \<le> n) \<and>
            (\<forall>d \<in> set found. replay s' (dv_input d) = Some (d\<lparr>dv_iteration := u64_max\<rparr>)) \<and>
            (dr_config (fs_runner s) = runner_config_default \<longrightarrow>
               (\<forall>(i, input) \<in> set inputs. compare (fs_runner s) input i = None \<longleftrightarrow>
                  dt_run (dr_target_a (fs_runner s)) input = dt_run (dr_target_b (fs_runner s)) input))"
proof -
  let ?i = "fz_iterations (fs_stats s)"
  let ?found = "divergences_of (fs_runner s) (fuzz_inputs k ?i s)"
  from fuzz_loop_ok[OF assms, of k ?i "[]"] obtain s1 where
    loop: "fuzz_loop k ?i [] s = Some (?found, s1)" "fuzz_session_ok n s1"
      "map fst (fuzz_inputs k ?i s) = [?i..<?i + k]" "\<forall>(j, input) \<in> set (fuzz_inputs k ?i s). length input \<le> n"
      "extends s (fuzz_inputs k ?i s) ?found s1" by auto
  let ?s' = "s1\<lparr>fs_stats := (fs_stats s1)\<lparr>fz_corpus_size := length (mu_corpus (fs_mutator s1))\<rparr>\<rparr>"
  have replayed: "replay ?s' (dv_input d) = Some (d\<lparr>dv_iteration := u64_max\<rparr>)" if "d \<in> set ?found" for d
    using that loop(5)
    by (auto simp: divergences_of_def map_filter_def replay_def extends_def compare_def detect_divergence_def)
  have differ: "compare (fs_runner s) input i = None \<longleftrightarrow>
      dt_run (dr_target_a (fs_runner s)) input = dt_run (dr_target_b (fs_runner s)) input"
    if "dr_config (fs_runner s) = runner_config_default" for i input
    by (simp add: compare_def detect_divergence_def that classify_None_iff runner_config_default_def)
  show ?thesis
    using loop replayed differ
    by (intro exI[of _ ?s']) (simp add: fuzz_run_def fuzz_session_ok_def extends_def case_prod_beta)
qed

definition echo_target :: diff_target where
  "echo_target = \<lparr>dt_name = ''echo'', dt_run = Ok\<rparr>"

definition trimming_target :: diff_target where
  "trimming_target = \<lparr>dt_name = ''trim'', dt_run = (\<lambda>input. Ok (take 2 input))\<rparr>"

lemma new_session_ok: "fuzz_session_ok 65536 (fuzz_session_new a b seed)"
  by (auto simp: fuzz_session_ok_def mutator_ok_def fuzz_session_new_def mutator_new_def rng_new_def)

lemma fuzz_run_exact_witness:
  "\<exists>s'. let s = fuzz_session_new echo_target trimming_target 7;
             inputs = fuzz_inputs 3 (fz_iterations (fs_stats s)) s;
             found = divergences_of (fs_runner s) inputs
         in fuzz_run 3 s = Some (found, s') \<and> fuzz_session_ok 65536 s' \<and> extends s inputs found s' \<and>
            fz_corpus_size (fs_stats s') = length (mu_corpus (fs_mutator s')) \<and>
            map fst inputs = [fz_iterations (fs_stats s)..<fz_iterations (fs_stats s) + 3] \<and>
            (\<forall>(i, input) \<in> set inputs. length input \<le> 65536) \<and>
            (\<forall>d \<in> set found. replay s' (dv_input d) = Some (d\<lparr>dv_iteration := u64_max\<rparr>)) \<and>
            (dr_config (fs_runner s) = runner_config_default \<longrightarrow>
               (\<forall>(i, input) \<in> set inputs. compare (fs_runner s) input i = None \<longleftrightarrow>
                  dt_run (dr_target_a (fs_runner s)) input = dt_run (dr_target_b (fs_runner s)) input))"
  using fuzz_run_exact[OF new_session_ok[of echo_target trimming_target 7], of 3] by (simp only: Let_def)

text \<open>
  The generator of the fuzzer is a permutation of the 64-bit states, so the state zero, at which it would
  stand still, is never reached from a seed; and comparing two targets does not depend on their order.
\<close>
theorem generator_never_stuck:
  "inj rng_next \<and> (rng_next ^^ k) (rng_new seed) \<noteq> 0 \<and> classify_outputs cfg a b = classify_outputs cfg b a"
proof -
  have "(rng_next ^^ k) (rng_new seed) \<noteq> 0" by (induction k) (auto simp: rng_next_0 rng_new_def)
  then show ?thesis using rng_next_inj classify_swap by (auto simp: inj_def)
qed

text \<open>Without exact matching, answers of the same length that differ in every byte are no divergence.\<close>
theorem inexact_match_ignores_bytes:
  "\<not> rc_exact_match cfg \<Longrightarrow> 1 \<le> rc_length_ratio_threshold cfg \<Longrightarrow> length ba = length bb \<Longrightarrow>
     classify_outputs cfg (Ok ba) (Ok bb) = None"
  by (simp add: length_ratio_def Let_def)

end
