(* ===== verification/MutTest.thy ===== *)
theory MutTest
  imports Complex_Main Utf8 Int64
begin

text \<open>
  The mutation tester of \<open>crates/aether-muttest\<close>: mutations of Rust sources (\<open>mutation.rs\<close>), the generator
  that scans a file line by line (\<open>generator.rs\<close>), and the runner that writes each mutant to disk, runs
  \<open>cargo test\<close> and restores the file (\<open>runner.rs\<close>). The regular expressions that are alternatives of fixed
  strings are modelled as such; the four others are parameters (their matches in a line). Files are a map
  from paths; reading, writing and \<open>cargo\<close> are functions of the environment, so that each can fail.
\<close>

section \<open>Mutations\<close>

datatype mutation_kind =
    EqToNe
  | RelationalInvert
  | ArithAddSub
  | ArithMulDiv
  | LogicalAndOr
  | BoolLiteralFlip
  | IntLiteralPerturb "64 word" "64 word"
  | ReturnDefault
  | DeleteStatement
  | UnwrapToExpect
  | NegateIfCondition

record mutation =
  mt_id :: nat
  mt_kind :: mutation_kind
  mt_file :: string
  mt_line :: nat
  mt_col :: nat
  mt_original :: string
  mt_replacement :: string

definition mutation_apply :: "mutation \<Rightarrow> string \<Rightarrow> string" where
  "mutation_apply m source = replace_first (mt_original m) (mt_replacement m) source"

definition is_applicable :: "mutation \<Rightarrow> string \<Rightarrow> bool" where
  "is_applicable m source = str_contains (mt_original m) source"

datatype mutant_outcome = Killed | Survived | BuildError | Timeout

fun show_mutant_outcome :: "mutant_outcome \<Rightarrow> string" where
  "show_mutant_outcome Killed = ''KILLED''"
| "show_mutant_outcome Survived = ''SURVIVED''"
| "show_mutant_outcome BuildError = ''BUILD_ERROR''"
| "show_mutant_outcome Timeout = ''TIMEOUT''"

record mutant_result =
  mr_mutation :: mutation
  mr_outcome :: mutant_outcome
  mr_duration_ms :: nat
  mr_output_snippet :: string

section \<open>Scanning a line\<close>

text \<open>
  The matches of a regular expression that is an alternative of fixed strings: leftmost first, at each
  place the first alternative that fits, without overlaps. A match is its start and its text.
\<close>

function find_iter :: "string list \<Rightarrow> nat \<Rightarrow> string \<Rightarrow> (nat \<times> string) list" where
  "find_iter alts pos [] = []"
| "find_iter alts pos (c # cs) =
     (case find (\<lambda>a. prefix a (c # cs)) alts of
        Some a \<Rightarrow> (pos, a) # find_iter alts (pos + max 1 (length a)) (drop (max 1 (length a)) (c # cs))
      | None \<Rightarrow> find_iter alts (pos + 1) cs)"
  by pat_completeness auto
termination by (relation "measure (\<lambda>(alts, pos, s). length s)") auto

definition byte_at :: "string \<Rightarrow> nat \<Rightarrow> char option" where
  "byte_at line i = (if i < length line then Some (line ! i) else None)"

definition byte_before :: "string \<Rightarrow> nat \<Rightarrow> char option" where
  "byte_before line i = (if 0 < i then byte_at line (i - 1) else None)"

definition one_of :: "char option \<Rightarrow> string \<Rightarrow> bool" where
  "one_of c cs = (case c of Some c \<Rightarrow> c \<in> set cs | None \<Rightarrow> False)"

text \<open>A mutation without its number, which the generator counts up.\<close>

definition mutation_at :: "string \<Rightarrow> nat \<Rightarrow> mutation_kind \<Rightarrow> nat \<Rightarrow> string \<Rightarrow> string \<Rightarrow> mutation" where
  "mutation_at file line kind col original replacement =
     \<lparr>mt_id = 0, mt_kind = kind, mt_file = file, mt_line = line, mt_col = col,
      mt_original = original, mt_replacement = replacement\<rparr>"

definition eq_to_ne :: "string \<Rightarrow> nat \<Rightarrow> string \<Rightarrow> mutation list" where
  "eq_to_ne file lineno line =
     map (\<lambda>(start, m). if m = ''=='' then mutation_at file lineno EqToNe start ''=='' ''!=''
                      else mutation_at file lineno EqToNe start ''!='' ''=='')
       (find_iter [''=='', ''!=''] 0 line)"

definition inverted :: "string \<Rightarrow> string option" where
  "inverted m =
     (if m = ''<'' then Some ''>='' else if m = ''>'' then Some ''<=''
      else if m = ''<='' then Some ''>'' else if m = ''>='' then Some ''<'' else None)"

definition relational_skip :: "string \<Rightarrow> nat \<times> string \<Rightarrow> bool" where
  "relational_skip line found =
     (case found of (start, m) \<Rightarrow>
        let prev = byte_before line start; nxt = byte_at line (start + length m)
        in one_of prev ''=!<>'' \<or> one_of nxt ''='' \<and> m \<noteq> ''<='' \<and> m \<noteq> ''>='' \<or> one_of nxt ''>'')"

definition relational_invert :: "string \<Rightarrow> nat \<Rightarrow> string \<Rightarrow> mutation list" where
  "relational_invert file lineno line =
     List.map_filter (\<lambda>(start, m).
         if relational_skip line (start, m) then None
         else map_option (mutation_at file lineno RelationalInvert start m) (inverted m))
       (find_iter [''<='', ''>='', ''<'', ''>''] 0 line)"

definition arith_skip :: "string \<Rightarrow> nat \<times> string \<Rightarrow> bool" where
  "arith_skip line found =
     (case found of (start, m) \<Rightarrow>
        one_of (byte_at line (start + length m)) ''=>+-'' \<or> one_of (byte_before line start) ''+-=*/('')"

definition arith_add_sub :: "string \<Rightarrow> nat \<Rightarrow> string \<Rightarrow> mutation list" where
  "arith_add_sub file lineno line =
     List.map_filter (\<lambda>(start, m).
         if arith_skip line (start, m) then None
         else Some (mutation_at file lineno ArithAddSub start m (if m = ''+'' then ''-'' else ''+'')))
       (find_iter [''+'', ''-''] 0 line)"

definition logical_and_or :: "string \<Rightarrow> nat \<Rightarrow> string \<Rightarrow> mutation list" where
  "logical_and_or file lineno line =
     map (\<lambda>(start, m). mutation_at file lineno LogicalAndOr start m (if m = ''&&'' then ''||'' else ''&&''))
       (find_iter [''&&'', ''||''] 0 line)"

text \<open>The regular expressions with word boundaries, classes and repetition.\<close>

record muttest_regexes =
  re_bool_lit :: "string \<Rightarrow> (nat \<times> string) list"
  re_int_lit :: "string \<Rightarrow> (nat \<times> string) list"
  re_return :: "string \<Rightarrow> (nat \<times> string) option"
  re_if_cond :: "string \<Rightarrow> (string \<times> string) option"

definition bool_literal_flip :: "muttest_regexes \<Rightarrow> string \<Rightarrow> nat \<Rightarrow> string \<Rightarrow> mutation list" where
  "bool_literal_flip re file lineno line =
     map (\<lambda>(start, m). mutation_at file lineno BoolLiteralFlip start m (if m = ''true'' then ''false'' else ''true''))
       (re_bool_lit re line)"

definition perturbed :: "64 word \<Rightarrow> 64 word list" where
  "perturbed n = filter (\<lambda>r. r \<noteq> n) [0, 1, -1, n + 1, n - 1]"

definition int_literal_perturb :: "muttest_regexes \<Rightarrow> string \<Rightarrow> nat \<Rightarrow> string \<Rightarrow> mutation list" where
  "int_literal_perturb re file lineno line =
     concat (map (\<lambda>(start, m).
         case parse_i64 m of
           None \<Rightarrow> []
         | Some n \<Rightarrow>
             if 1000000 < sint n then []
             else map (\<lambda>r. mutation_at file lineno (IntLiteralPerturb n r) start (show_i64 n) (show_i64 r)) (perturbed n))
       (re_int_lit re line))"

definition return_default :: "muttest_regexes \<Rightarrow> string \<Rightarrow> nat \<Rightarrow> string \<Rightarrow> mutation list" where
  "return_default re file lineno line =
     (case re_return re line of
        Some (start, m) \<Rightarrow> [mutation_at file lineno ReturnDefault start m ''return Default::default();'']
      | None \<Rightarrow> [])"

definition unwrap_to_expect :: "string \<Rightarrow> nat \<Rightarrow> string \<Rightarrow> mutation list" where
  "unwrap_to_expect file lineno line =
     map (\<lambda>_. mutation_at file lineno UnwrapToExpect 0 ''.unwrap()''
                (''.expect('' @ [CHR 0x22] @ ''muttest'' @ [CHR 0x22] @ '')''))
       (find_iter [''.unwrap()''] 0 line)"

definition negate_if :: "muttest_regexes \<Rightarrow> string \<Rightarrow> nat \<Rightarrow> string \<Rightarrow> mutation list" where
  "negate_if re file lineno line =
     (case re_if_cond re line of
        None \<Rightarrow> []
      | Some (neg, cond) \<Rightarrow>
          (let plain = ''if '' @ cond @ '' {''; negated = ''if !'' @ cond @ '' {''
           in if neg = [] then [mutation_at file lineno NegateIfCondition 0 plain negated]
              else [mutation_at file lineno NegateIfCondition 0 negated plain]))"

definition skipped_line :: "string \<Rightarrow> bool" where
  "skipped_line line =
     (let trimmed = str_trim_start line in prefix ''//'' trimmed \<or> prefix ''#'' trimmed)"

definition line_mutations :: "muttest_regexes \<Rightarrow> string \<Rightarrow> nat \<times> string \<Rightarrow> mutation list" where
  "line_mutations re file numbered =
     (case numbered of (line_idx, line) \<Rightarrow>
        let lineno = line_idx + 1
        in if skipped_line line then []
           else eq_to_ne file lineno line @ relational_invert file lineno line @ arith_add_sub file lineno line @
                logical_and_or file lineno line @ bool_literal_flip re file lineno line @
                int_literal_perturb re file lineno line @ return_default re file lineno line @
                unwrap_to_expect file lineno line @ negate_if re file lineno line)"

definition generate_mutations :: "muttest_regexes \<Rightarrow> string \<Rightarrow> string \<Rightarrow> mutation list" where
  "generate_mutations re file source =
     map (\<lambda>(i, m). m\<lparr>mt_id := i + 1\<rparr>)
       (enumerate 0 (concat (map (line_mutations re file) (enumerate 0 (str_lines source)))))"

definition filter_applicable :: "mutation list \<Rightarrow> string \<Rightarrow> mutation list" where
  "filter_applicable ms source = filter (\<lambda>m. is_applicable m source) ms"

section \<open>The runner\<close>

record muttest_config =
  mc_package :: "string option"
  mc_timeout_ns :: nat
  mc_max_mutants :: "nat option"
  mc_skip_build_errors :: bool
  mc_extra_args :: "string list"

definition muttest_config_default :: muttest_config where
  "muttest_config_default = \<lparr>mc_package = None, mc_timeout_ns = 30 * 1000000000, mc_max_mutants = None,
     mc_skip_build_errors = True, mc_extra_args = []\<rparr>"

text \<open>
  The environment. A write can fail; then the file holds what the failure left of it. \<open>cargo\<close> either
  cannot be started or ends with a status and its error output; it takes some time and may change files.
\<close>

record mut_env =
  me_read_error :: "string \<Rightarrow> string"
  me_write_fault :: "nat \<Rightarrow> string \<Rightarrow> (string \<times> string) option"
  me_cargo :: "string list \<Rightarrow> (string, string) hmap \<Rightarrow> (string, bool \<times> string) result \<times> nat \<times> (string, string) hmap"

record mut_world =
  mw_files :: "(string, string) hmap"
  mw_writes :: nat

definition write_source :: "mut_env \<Rightarrow> string \<Rightarrow> string \<Rightarrow> mut_world \<Rightarrow> string option \<times> mut_world" where
  "write_source env path content w =
     (case me_write_fault env (mw_writes w) path of
        None \<Rightarrow> (None, w\<lparr>mw_files := hm_put path content (mw_files w), mw_writes := mw_writes w + 1\<rparr>)
      | Some (e, left) \<Rightarrow> (Some e, w\<lparr>mw_files := hm_put path left (mw_files w), mw_writes := mw_writes w + 1\<rparr>))"

definition cargo_args :: "muttest_config \<Rightarrow> string list" where
  "cargo_args cfg = [''test''] @ (case mc_package cfg of Some pkg \<Rightarrow> [''-p'', pkg] | None \<Rightarrow> []) @ mc_extra_args cfg"

definition outcome_of :: "bool \<Rightarrow> string \<Rightarrow> mutant_outcome" where
  "outcome_of success snippet =
     (if \<not> success
      then (if str_contains ''error[E'' snippet \<or> str_contains ''error: could not compile'' snippet
            then BuildError else Killed)
      else Survived)"

definition run_test :: "mut_env \<Rightarrow> muttest_config \<Rightarrow> mutation \<Rightarrow> mut_world \<Rightarrow> mutant_result \<times> mut_world" where
  "run_test env cfg m w =
     (case me_cargo env (cargo_args cfg) (mw_files w) of (out, elapsed, files) \<Rightarrow>
        (let result = (\<lambda>outcome snippet. \<lparr>mr_mutation = m, mr_outcome = outcome,
               mr_duration_ms = elapsed div 1000000, mr_output_snippet = snippet\<rparr>)
         in (case out of
               Inl e \<Rightarrow> result BuildError e
             | Inr (success, stderr) \<Rightarrow>
                 if mc_timeout_ns cfg \<le> elapsed then result Timeout []
                 else (let snippet = take_chars 1024 (utf8_lossy stderr) in result (outcome_of success snippet) snippet),
             w\<lparr>mw_files := files\<rparr>)))"

fun run_each ::
  "mut_env \<Rightarrow> muttest_config \<Rightarrow> string \<Rightarrow> mutation list \<Rightarrow> mutant_result list \<Rightarrow> mut_world \<Rightarrow>
   (string, mutant_result list) result \<times> mut_world" where
  "run_each env cfg workspace_root [] results w = (Inr results, w)"
| "run_each env cfg workspace_root (m # ms) results w =
     (let file_path = path_join workspace_root (mt_file m) in
      case hm_get (mw_files w) file_path of
        None \<Rightarrow> (Inl (me_read_error env file_path), w)
      | Some original \<Rightarrow>
          if \<not> utf8_valid original then (Inl (me_read_error env file_path), w)
          else if \<not> is_applicable m original then run_each env cfg workspace_root ms results w
          else (case write_source env file_path (mutation_apply m original) w of
                  (Some e, w1) \<Rightarrow> (Inl e, w1)
                | (None, w1) \<Rightarrow>
                    (case run_test env cfg m w1 of (result, w2) \<Rightarrow>
                       (case write_source env file_path original w2 of
                          (Some e, w3) \<Rightarrow> (Inl e, w3)
                        | (None, w3) \<Rightarrow> run_each env cfg workspace_root ms (results @ [result]) w3))))"

record muttest_report =
  mp_results :: "mutant_result list"
  mp_killed :: nat
  mp_survived :: nat
  mp_build_errors :: nat
  mp_timeouts :: nat
  mp_score :: rat

definition count_outcome :: "mutant_outcome \<Rightarrow> mutant_result list \<Rightarrow> nat" where
  "count_outcome outcome results = length (filter (\<lambda>r. mr_outcome r = outcome) results)"

definition from_results :: "mutant_result list \<Rightarrow> muttest_report" where
  "from_results results =
     (let killed = count_outcome Killed results;
          survived = count_outcome Survived results
      in \<lparr>mp_results = results, mp_killed = killed, mp_survived = survived,
          mp_build_errors = count_outcome BuildError results, mp_timeouts = count_outcome Timeout results,
          mp_score = (if killed + survived = 0 then 0 else of_nat killed / of_nat (killed + survived))\<rparr>)"

definition run_mutations ::
  "mut_env \<Rightarrow> muttest_config \<Rightarrow> string \<Rightarrow> mutation list \<Rightarrow> mut_world \<Rightarrow> (string, muttest_report) result \<times> mut_world" where
  "run_mutations env cfg workspace_root mutations w =
     apfst (map_sum id from_results)
       (run_each env cfg workspace_root
          (take (case mc_max_mutants cfg of Some n \<Rightarrow> n | None \<Rightarrow> length mutations) mutations) [] w)"

definition survived_mutations :: "muttest_report \<Rightarrow> mutant_result list" where
  "survived_mutations r = filter (\<lambda>r. mr_outcome r = Survived) (mp_results r)"

definition muttest_summary :: "(rat \<Rightarrow> string) \<Rightarrow> muttest_report \<Rightarrow> string" where
  "muttest_summary show_1 r = ''score='' @ show_1 (mp_score r * 100) @ ''% killed='' @ show_nat (mp_killed r) @
     '' survived='' @ show_nat (mp_survived r) @ '' errors='' @ show_nat (mp_build_errors r) @
     '' timeouts='' @ show_nat (mp_timeouts r)"

section \<open>Where mutations are found\<close>

lemma find_iter_match:
  "(start, m) \<in> set (find_iter alts pos s) \<Longrightarrow>
     m \<in> set alts \<and> pos \<le> start \<and> prefix m (drop (start - pos) s)"
proof (induction alts pos s rule: find_iter.induct)
  case (2 alts pos c cs)
  show ?case
  proof (cases "find (\<lambda>a. prefix a (c # cs)) alts")
    case None
    with "2.prems" have "(start, m) \<in> set (find_iter alts (pos + 1) cs)" by simp
    with None have IH: "m \<in> set alts" "pos + 1 \<le> start" "prefix m (drop (start - (pos + 1)) cs)"
      using "2.IH" by blast+
    then have "start - pos = Suc (start - (pos + 1))" by simp
    then have "drop (start - (pos + 1)) cs = drop (start - pos) (c # cs)" by simp
    with IH show ?thesis by simp
  next
    case (Some a)
    then have a: "a \<in> set alts" "prefix a (c # cs)" by (auto simp: find_Some_iff)
    let ?k = "max 1 (length a)"
    from "2.prems" Some consider "(start, m) = (pos, a)" | "(start, m) \<in> set (find_iter alts (pos + ?k) (drop ?k (c # cs)))"
      by auto
    then show ?thesis
    proof cases
      case 1
      with a show ?thesis by simp
    next
      case 2
      with Some have "m \<in> set alts" "pos + ?k \<le> start"
        "prefix m (drop (start - (pos + ?k)) (drop ?k (c # cs)))"
        using "2.IH" by blast+
      moreover from this(2) have "drop (start - (pos + ?k)) (drop ?k (c # cs)) = drop (start - pos) (c # cs)"
        by (simp only: drop_drop) (rule arg_cong[of _ _ "\<lambda>k. drop k (c # cs)"], linarith)
      ultimately show ?thesis by simp
    qed
  qed
qed simp

text \<open>The operators found as fixed strings.\<close>

definition operator_kind :: "mutation_kind \<Rightarrow> bool" where
  "operator_kind k \<longleftrightarrow> k \<in> {EqToNe, RelationalInvert, ArithAddSub, LogicalAndOr}"

definition operator_pairs :: "(mutation_kind \<times> string \<times> string) set" where
  "operator_pairs =
     {(EqToNe, ''=='', ''!=''), (EqToNe, ''!='', ''==''),
      (RelationalInvert, ''<'', ''>=''), (RelationalInvert, ''>'', ''<=''),
      (RelationalInvert, ''<='', ''>''), (RelationalInvert, ''>='', ''<''),
      (ArithAddSub, ''+'', ''-''), (ArithAddSub, ''-'', ''+''),
      (LogicalAndOr, ''&&'', ''||''), (LogicalAndOr, ''||'', ''&&'')}"

definition site_ok :: "string \<Rightarrow> nat \<times> string \<Rightarrow> mutation \<Rightarrow> bool" where
  "site_ok file numbered m \<longleftrightarrow> mt_file m = file \<and> mt_line m = fst numbered + 1 \<and>
     (operator_kind (mt_kind m) \<longrightarrow>
        (mt_kind m, mt_original m, mt_replacement m) \<in> operator_pairs \<and>
        prefix (mt_original m) (drop (mt_col m) (snd numbered)))"

lemma mutation_at_fields [simp]:
  "mt_kind (mutation_at f l k c orig r) = k" "mt_file (mutation_at f l k c orig r) = f"
  "mt_line (mutation_at f l k c orig r) = l" "mt_col (mutation_at f l k c orig r) = c"
  "mt_original (mutation_at f l k c orig r) = orig" "mt_replacement (mutation_at f l k c orig r) = r"
  by (simp_all add: mutation_at_def)

lemma other_sites:
  "m \<in> set (bool_literal_flip re file (i + 1) line) \<Longrightarrow> site_ok file (i, line) m"
  "m \<in> set (int_literal_perturb re file (i + 1) line) \<Longrightarrow> site_ok file (i, line) m"
  "m \<in> set (return_default re file (i + 1) line) \<Longrightarrow> site_ok file (i, line) m"
  "m \<in> set (unwrap_to_expect file (i + 1) line) \<Longrightarrow> site_ok file (i, line) m"
  "m \<in> set (negate_if re file (i + 1) line) \<Longrightarrow> site_ok file (i, line) m"
  by (auto simp: bool_literal_flip_def int_literal_perturb_def return_default_def unwrap_to_expect_def negate_if_def
      Let_def site_ok_def operator_kind_def split: option.splits if_splits)

lemma eq_sites: "m \<in> set (eq_to_ne file (i + 1) line) \<Longrightarrow> site_ok file (i, line) m"
  using find_iter_match[of _ _ "[''=='', ''!='']" 0 line]
  by (fastforce simp: eq_to_ne_def site_ok_def operator_kind_def operator_pairs_def split: if_splits)

lemma logical_sites: "m \<in> set (logical_and_or file (i + 1) line) \<Longrightarrow> site_ok file (i, line) m"
  using find_iter_match[of _ _ "[''&&'', ''||'']" 0 line]
  by (fastforce simp: logical_and_or_def site_ok_def operator_kind_def operator_pairs_def split: if_splits)

lemma arith_sites: "m \<in> set (arith_add_sub file (i + 1) line) \<Longrightarrow> site_ok file (i, line) m"
  using find_iter_match[of _ _ "[''+'', ''-'']" 0 line]
  by (fastforce simp: arith_add_sub_def site_ok_def operator_kind_def operator_pairs_def map_filter_def
      split: if_splits)

lemma inverted_pairs: "inverted a = Some r \<Longrightarrow> (RelationalInvert, a, r) \<in> operator_pairs"
  by (auto simp: inverted_def operator_pairs_def split: if_splits)

lemma relational_sites: "m \<in> set (relational_invert file (i + 1) line) \<Longrightarrow> site_ok file (i, line) m"
  using find_iter_match[of _ _ "[''<='', ''>='', ''<'', ''>'']" 0 line] inverted_pairs
  by (fastforce simp: relational_invert_def site_ok_def operator_kind_def map_filter_def split: if_splits)

lemma line_sites: "m \<in> set (line_mutations re file (i, line)) \<Longrightarrow> site_ok file (i, line) m"
  unfolding line_mutations_def Let_def
  using eq_sites relational_sites arith_sites logical_sites other_sites by (auto split: if_splits)

lemma generated_site:
  assumes "m \<in> set (generate_mutations re file source)"
  shows "\<exists>i < length (str_lines source). site_ok file (i, str_lines source ! i) m"
proof -
  let ?raw = "concat (map (line_mutations re file) (enumerate 0 (str_lines source)))"
  from assms obtain k m0 where m: "m = m0\<lparr>mt_id := k + 1\<rparr>" and "(k, m0) \<in> set (enumerate 0 ?raw)"
    unfolding generate_mutations_def by fastforce
  then have "m0 \<in> set ?raw" by (auto simp only: in_set_enumerate_eq nth_mem fst_conv snd_conv)
  then obtain i where i: "i < length (str_lines source)" "m0 \<in> set (line_mutations re file (i, str_lines source ! i))"
    by (auto simp: in_set_enumerate_eq)
  from line_sites[OF i(2)] i(1) m show ?thesis by (auto simp: site_ok_def)
qed

lemma generated_ids: "map mt_id (generate_mutations re file source) = [1..<length (generate_mutations re file source) + 1]"
proof -
  have "map mt_id (map (\<lambda>(i, m). m\<lparr>mt_id := i + 1\<rparr>) (enumerate n xs)) = [n + 1..<n + length xs + 1]" for n and xs :: "mutation list"
    by (induction xs arbitrary: n) (simp_all add: upt_rec)
  from this[of 0] show ?thesis unfolding generate_mutations_def by (simp del: upt_Suc)
qed

section \<open>Restoring files\<close>

definition cargo_keeps_files :: "mut_env \<Rightarrow> bool" where
  "cargo_keeps_files env \<longleftrightarrow> (\<forall>args files. snd (snd (me_cargo env args files)) = files)"

lemma run_test_files: "cargo_keeps_files env \<Longrightarrow> run_test env cfg m w = (result, w') \<Longrightarrow> mw_files w' = mw_files w"
  by (auto simp: run_test_def cargo_keeps_files_def Let_def split: prod.splits) (metis snd_conv)

lemma write_source_files:
  "write_source env path content w = (e, w') \<Longrightarrow>
     (\<forall>q. q \<noteq> path \<longrightarrow> hm_get (mw_files w') q = hm_get (mw_files w) q) \<and>
     (e = None \<longrightarrow> hm_get (mw_files w') path = Some content)"
  by (auto simp: write_source_def hm.get_put split: option.splits)

lemma run_each_files:
  "cargo_keeps_files env \<Longrightarrow> run_each env cfg rt ms results w = (r, w') \<Longrightarrow>
    (\<exists>path. (\<forall>q. q \<noteq> path \<longrightarrow> hm_get (mw_files w') q = hm_get (mw_files w) q) \<and>
       (\<not> isl r \<longrightarrow> hm_get (mw_files w') path = hm_get (mw_files w) path))"
proof (induction env cfg rt ms results w rule: run_each.induct)
  case (2 env cfg rt m ms results w)
  let ?p = "path_join rt (mt_file m)"
  show ?case
  proof (cases "hm_get (mw_files w) ?p")
    case None
    with "2.prems" show ?thesis by (auto simp: Let_def)
  next
    case (Some original)
    consider "\<not> utf8_valid original" | "utf8_valid original" "\<not> is_applicable m original"
      | "utf8_valid original" "is_applicable m original" by blast
    then show ?thesis
    proof cases
      case 1
      with "2.prems" Some show ?thesis by (auto simp: Let_def)
    next
      case 2
      with "2.prems" "2.IH"(1)[OF refl Some] Some show ?thesis by (simp add: Let_def)
    next
      case 3
      obtain e1 w1 where w1: "write_source env ?p (mutation_apply m original) w = (e1, w1)" by fastforce
      obtain result w2 where w2: "run_test env cfg m w1 = (result, w2)" by fastforce
      obtain e3 w3 where w3: "write_source env ?p original w2 = (e3, w3)" by fastforce
      note f1 = write_source_files[OF w1] and f2 = run_test_files[OF "2.prems"(1) w2] and f3 = write_source_files[OF w3]
      show ?thesis
      proof (cases "e1 = None \<and> e3 = None")
        case True
        then have run: "run_each env cfg rt ms (results @ [result]) w3 = (r, w')"
          using "2.prems" Some 3 w1 w2 w3 by (simp add: Let_def)
        have "hm_get (mw_files w3) q = hm_get (mw_files w) q" for q
          using f1 f2 f3 True Some by (cases "q = ?p") auto
        moreover have "\<exists>path. (\<forall>q. q \<noteq> path \<longrightarrow> hm_get (mw_files w') q = hm_get (mw_files w3) q) \<and>
            (\<not> isl r \<longrightarrow> hm_get (mw_files w') path = hm_get (mw_files w3) path)"
          using "2.IH"(2)[OF refl Some] 3 w1 w2 w3 True run "2.prems"(1) by simp
        ultimately show ?thesis by simp
      next
        case False
        then have "isl r" "w' = (if e1 = None then w3 else w1)"
          using "2.prems" Some 3 w1 w2 w3 by (auto simp: Let_def split: option.splits)
        then show ?thesis using f1 f2 f3 by (intro exI[of _ ?p]) (auto split: if_splits)
      qed
    qed
  qed
qed (auto simp: isl_def)

section \<open>Properties of the mutation tester\<close>


definition quiet_env :: mut_env where
  "quiet_env = \<lparr>me_read_error = (\<lambda>p. ''missing''), me_write_fault = (\<lambda>n p. None),
     me_cargo = (\<lambda>args files. (Inr (hm_get files ''/w/a.rs'' = Some ''x == 1'', []), 5, files))\<rparr>"

definition one_file_world :: mut_world where
  "one_file_world = \<lparr>mw_files = [(''/w/a.rs'', ''x == 1'')], mw_writes = 0\<rparr>"

definition eq_mutation :: "nat \<Rightarrow> mutation" where
  "eq_mutation line = mutation_at ''a.rs'' line EqToNe 2 ''=='' ''!=''"


text \<open>
  The site of a mutation is not used. Every operator mutation the generator proposes sits where its operator
  stands, at its line and column, and is one of ten replacements; but a mutant is made by replacing the
  first occurrence in the file, so two mutations that replace the same text give the same program wherever
  they were found, and however long the file is, its operator mutations give at most ten programs.
\<close>
theorem mutation_site_is_not_used:
  "(\<forall>m \<in> set (generate_mutations re file source). operator_kind (mt_kind m) \<longrightarrow>
      (\<exists>i < length (str_lines source). mt_line m = i + 1 \<and> prefix (mt_original m) (drop (mt_col m) (str_lines source ! i))) \<and>
      (mt_kind m, mt_original m, mt_replacement m) \<in> operator_pairs) \<and>
   (\<forall>m m'. mt_original m = mt_original m' \<and> mt_replacement m = mt_replacement m' \<longrightarrow>
      mutation_apply m source = mutation_apply m' source) \<and>
   card {mutation_apply m source | m. m \<in> set (generate_mutations re file source) \<and> operator_kind (mt_kind m)} \<le> 10"
proof (intro conjI ballI impI allI)
  fix m assume m: "m \<in> set (generate_mutations re file source)" "operator_kind (mt_kind m)"
  from generated_site[OF m(1)] m(2)
  show "\<exists>i < length (str_lines source). mt_line m = i + 1 \<and> prefix (mt_original m) (drop (mt_col m) (str_lines source ! i))"
    and "(mt_kind m, mt_original m, mt_replacement m) \<in> operator_pairs"
    by (auto simp: site_ok_def)
next
  fix m m' :: mutation
  assume "mt_original m = mt_original m' \<and> mt_replacement m = mt_replacement m'"
  then show "mutation_apply m source = mutation_apply m' source" by (simp add: mutation_apply_def)
next
  let ?mutants = "{mutation_apply m source | m. m \<in> set (generate_mutations re file source) \<and> operator_kind (mt_kind m)}"
  let ?all = "(\<lambda>(k, a, b). replace_first a b source) ` operator_pairs"
  have finite: "finite operator_pairs" by (simp add: operator_pairs_def)
  have "?mutants \<subseteq> ?all"
    using generated_site by (force simp: site_ok_def mutation_apply_def)
  then have "card ?mutants \<le> card ?all" using finite by (intro card_mono) auto
  also have "\<dots> \<le> card operator_pairs" by (rule card_image_le[OF finite])
  also have "\<dots> \<le> 10" by (simp add: operator_pairs_def card_insert_if)
  finally show "card ?mutants \<le> 10" .
qed

definition no_regexes :: muttest_regexes where
  "no_regexes = \<lparr>re_bool_lit = (\<lambda>l. []), re_int_lit = (\<lambda>l. []), re_return = (\<lambda>l. None), re_if_cond = (\<lambda>l. None)\<rparr>"

lemma mutation_site_is_not_used_witness:
  "card {mutation_apply m (''a == b'' @ nl @ ''c == d'') | m.
      m \<in> set (generate_mutations no_regexes ''a.rs'' (''a == b'' @ nl @ ''c == d'')) \<and> operator_kind (mt_kind m)} \<le> 10"
  using mutation_site_is_not_used by blast

text \<open>The two mutations of this file are the same mutant; the second comparison is never tested.\<close>
theorem second_comparison_is_never_mutated:
  "map (\<lambda>m. (mt_line m, mutation_apply m (''a == b'' @ nl @ ''c == d'')))
     (generate_mutations no_regexes ''a.rs'' (''a == b'' @ nl @ ''c == d'')) =
   [(1, ''a != b'' @ nl @ ''c == d''), (2, ''a != b'' @ nl @ ''c == d'')]"
  by code_simp

text \<open>The arrow of a function's type is taken for a comparison.\<close>
theorem arrow_is_inverted:
  "map (\<lambda>m. mutation_apply m ''fn f() -> u8 {'') (generate_mutations no_regexes ''a.rs'' ''fn f() -> u8 {'') =
     [''fn f() -<= u8 {'']"
  by code_simp

text \<open>A test run that outlasts its timeout is waited for; only its result is discarded.\<close>
theorem timeout_does_not_stop_tests:
  assumes "me_cargo env (cargo_args cfg) (mw_files w) = (Inr (success, stderr), elapsed, files)"
    and "mc_timeout_ns cfg \<le> elapsed"
  shows "mr_outcome (fst (run_test env cfg m w)) = Timeout \<and> mr_duration_ms (fst (run_test env cfg m w)) = elapsed div 1000000"
  using assms by (simp add: run_test_def Let_def)

end
