(* ===== verification/Findings.thy ===== *)
theory Findings
  imports Rust_Strings
begin

text \<open>
  Security findings and what is done with them. The shared record is that of \<open>crates/aether-deps-reach\<close>;
  the policy engine \<open>crates/aether-policy\<close> gives each finding the action of the first rule that matches
  it; the drift detector \<open>crates/aether-drift\<close> turns controls that passed once and do no longer into
  findings, of whose reports only the list of controls is looked at. Reading and parsing of files is outside:
  a parameter is what was read.
\<close>

section \<open>Findings\<close>

datatype vuln_severity = Critical | High | Medium | Low | Info

record vuln_finding =
  vf_severity :: vuln_severity
  vf_rule_id :: string
  vf_cwe :: "string option"
  vf_file :: string
  vf_line :: nat
  vf_evidence :: string
  vf_remediation :: string

fun show_vuln_severity :: "vuln_severity \<Rightarrow> string" where
  "show_vuln_severity Critical = ''CRITICAL''"
| "show_vuln_severity High = ''HIGH''"
| "show_vuln_severity Medium = ''MEDIUM''"
| "show_vuln_severity Low = ''LOW''"
| "show_vuln_severity Info = ''INFO''"

section \<open>The policy engine\<close>

datatype policy_action = Block | Warn | Ignore

record policy_rule =
  pr_id :: string
  pr_action :: policy_action
  pr_match_rule_id :: "string option"
  pr_match_severity :: "string option"
  pr_match_cwe_prefix :: "string option"
  pr_match_path_prefix :: "string option"
  pr_reason :: "string option"

definition glob_match :: "string \<Rightarrow> string \<Rightarrow> bool" where
  "glob_match pattern value =
     (if suffix ''*'' pattern then prefix (butlast pattern) value
      else case strip_prefix ''*'' pattern of
             Some end \<Rightarrow> suffix end value
           | None \<Rightarrow> pattern = value)"

fun severity_word :: "vuln_severity \<Rightarrow> string" where
  "severity_word Critical = ''critical''"
| "severity_word High = ''high''"
| "severity_word Medium = ''medium''"
| "severity_word Low = ''low''"
| "severity_word Info = ''info''"

definition severity_matches :: "string \<Rightarrow> vuln_finding \<Rightarrow> bool" where
  "severity_matches pattern f = eq_ignore_ascii_case pattern (severity_word (vf_severity f))"

definition rule_matches :: "policy_rule \<Rightarrow> vuln_finding \<Rightarrow> bool" where
  "rule_matches rule f \<longleftrightarrow>
     (case pr_match_rule_id rule of Some p \<Rightarrow> glob_match p (vf_rule_id f) | None \<Rightarrow> True) \<and>
     (case pr_match_severity rule of Some s \<Rightarrow> severity_matches s f | None \<Rightarrow> True) \<and>
     (case pr_match_cwe_prefix rule of
        Some p \<Rightarrow> prefix p (case vf_cwe f of Some c \<Rightarrow> c | None \<Rightarrow> []) | None \<Rightarrow> True) \<and>
     (case pr_match_path_prefix rule of Some p \<Rightarrow> prefix p (vf_file f) | None \<Rightarrow> True)"

record policy_verdict =
  pv_finding :: vuln_finding
  pv_action :: policy_action
  pv_matched_rule :: "string option"

definition policy_verdict_of :: "policy_rule list \<Rightarrow> vuln_finding \<Rightarrow> policy_verdict" where
  "policy_verdict_of rules f =
     (case find (\<lambda>rule. rule_matches rule f) rules of
        Some rule \<Rightarrow> \<lparr>pv_finding = f, pv_action = pr_action rule, pv_matched_rule = Some (pr_id rule)\<rparr>
      | None \<Rightarrow> \<lparr>pv_finding = f, pv_action = Block, pv_matched_rule = None\<rparr>)"

definition policy_evaluate :: "vuln_finding list \<Rightarrow> policy_rule list \<Rightarrow> policy_verdict list" where
  "policy_evaluate findings rules = map (policy_verdict_of rules) findings"

text \<open>The rules of the file, or none when it cannot be read or parsed.\<close>

definition load_policy_or_default :: "(string, policy_rule list) result \<Rightarrow> policy_rule list" where
  "load_policy_or_default loaded = (case loaded of Inr rules \<Rightarrow> rules | Inl _ \<Rightarrow> [])"

record policy_summary =
  su_blocked :: nat
  su_warned :: nat
  su_ignored :: nat

definition summarise :: "policy_verdict list \<Rightarrow> policy_summary" where
  "summarise verdicts =
     \<lparr>su_blocked = length (filter (\<lambda>v. pv_action v = Block) verdicts),
      su_warned = length (filter (\<lambda>v. pv_action v = Warn) verdicts),
      su_ignored = length (filter (\<lambda>v. pv_action v = Ignore) verdicts)\<rparr>"

section \<open>Drift\<close>

datatype harden_status = Pass | Fail | Warning | NotApplicable

fun show_harden_status :: "harden_status \<Rightarrow> string" where
  "show_harden_status Pass = ''PASS''"
| "show_harden_status Fail = ''FAIL''"
| "show_harden_status Warning = ''WARN''"
| "show_harden_status NotApplicable = ''N/A''"

record harden_control =
  hc_cis_id :: string
  hc_title :: string
  hc_status :: harden_status
  hc_current_value :: string
  hc_expected_value :: string
  hc_remediation :: string
  hc_severity :: string

record drift_item =
  di_control :: harden_control
  di_was :: harden_status
  di_now :: harden_status

definition baseline_map :: "harden_control list \<Rightarrow> (string, harden_status) hmap" where
  "baseline_map controls = fold (\<lambda>c. hm_put (hc_cis_id c) (hc_status c)) controls []"

definition drifted :: "(string, harden_status) hmap \<Rightarrow> harden_control \<Rightarrow> drift_item option" where
  "drifted m ctrl =
     (case hm_get m (hc_cis_id ctrl) of
        None \<Rightarrow> None
      | Some was \<Rightarrow>
          if was = Pass \<and> (hc_status ctrl = Fail \<or> hc_status ctrl = Warning)
          then Some \<lparr>di_control = ctrl, di_was = was, di_now = hc_status ctrl\<rparr> else None)"

definition detect_drift :: "harden_control list \<Rightarrow> harden_control list \<Rightarrow> drift_item list" where
  "detect_drift baseline current = List.map_filter (drifted (baseline_map baseline)) current"

definition drift_finding :: "drift_item \<Rightarrow> vuln_finding" where
  "drift_finding d =
     \<lparr>vf_severity = (if di_now d = Fail then High else Medium),
      vf_rule_id = ''DRIFT-'' @ str_replace ''.'' ''-'' (hc_cis_id (di_control d)),
      vf_cwe = Some ''CWE-732'',
      vf_file = ''/etc/sysctl.conf'',
      vf_line = 0,
      vf_evidence = ''CIS '' @ hc_cis_id (di_control d) @ '' '' @ [CHR 0x27] @ hc_title (di_control d) @ [CHR 0x27]
        @ '' was '' @ show_harden_status (di_was d) @ '' but is now '' @ show_harden_status (di_now d)
        @ '' (current: '' @ [CHR 0x27] @ hc_current_value (di_control d) @ [CHR 0x27]
        @ '', expected: '' @ [CHR 0x27] @ hc_expected_value (di_control d) @ [CHR 0x27] @ '')'',
      vf_remediation = hc_remediation (di_control d)\<rparr>"

definition drift_to_findings :: "drift_item list \<Rightarrow> vuln_finding list" where
  "drift_to_findings drift = map drift_finding drift"

text \<open>The check: the stored report or the audit can fail.\<close>

definition run_drift_check ::
  "(string, harden_control list) result \<Rightarrow> (string, harden_control list) result \<Rightarrow> (string, vuln_finding list) result" where
  "run_drift_check loaded audit =
     (case loaded of
        Inl e \<Rightarrow> Inl e
      | Inr baseline \<Rightarrow>
          (case audit of Inl e \<Rightarrow> Inl e | Inr current \<Rightarrow> Inr (drift_to_findings (detect_drift baseline current))))"

section \<open>Lemmas\<close>

lemma finding_of_verdict [simp]: "pv_finding (policy_verdict_of rules f) = f"
  by (simp add: policy_verdict_of_def split: option.split)

lemma matched_rule_decides:
  "find (\<lambda>rule. rule_matches rule f) rules = Some rule \<Longrightarrow>
   rule \<in> set rules \<and> rule_matches rule f \<and> pv_action (policy_verdict_of rules f) = pr_action rule"
  by (simp add: policy_verdict_of_def) (metis find_Some_iff nth_mem)

text \<open>A rule without conditions matches every finding, and ends the search.\<close>

lemma catch_all:
  assumes "pr_match_rule_id r = None" "pr_match_severity r = None"
    "pr_match_cwe_prefix r = None" "pr_match_path_prefix r = None"
  shows "rule_matches r f" and "policy_evaluate fs (rs @ r # rs') = policy_evaluate fs (rs @ [r])"
proof -
  show m: "rule_matches r f" for f using assms by (simp add: rule_matches_def)
  have "find (\<lambda>rule. rule_matches rule f) (rs @ r # rs') = find (\<lambda>rule. rule_matches rule f) (rs @ [r])" for f
    by (induction rs) (simp_all add: m)
  then show "policy_evaluate fs (rs @ r # rs') = policy_evaluate fs (rs @ [r])"
    by (simp add: policy_evaluate_def policy_verdict_of_def)
qed

lemma summary_counts_all: "su_blocked (summarise vs) + su_warned (summarise vs) + su_ignored (summarise vs) = length vs"
  by (induction vs) (auto simp: summarise_def intro: policy_action.exhaust)

text \<open>Nothing is let through without a rule: the action is that of the first matching rule, else \<open>Block\<close>.\<close>

theorem first_matching_rule_decides:
  "length (policy_evaluate fs rules) = length fs \<and>
   (\<forall>i < length fs. pv_finding (policy_evaluate fs rules ! i) = fs ! i \<and>
      (pv_action (policy_evaluate fs rules ! i) \<noteq> Block \<longrightarrow>
         (\<exists>k < length rules. rule_matches (rules ! k) (fs ! i) \<and>
            pr_action (rules ! k) = pv_action (policy_evaluate fs rules ! i) \<and>
            (\<forall>j < k. \<not> rule_matches (rules ! j) (fs ! i)))))"
proof (intro conjI allI impI)
  fix i assume i: "i < length fs"
  then show "pv_finding (policy_evaluate fs rules ! i) = fs ! i" by (simp add: policy_evaluate_def)
  assume "pv_action (policy_evaluate fs rules ! i) \<noteq> Block"
  with i obtain rule where f: "find (\<lambda>rule. rule_matches rule (fs ! i)) rules = Some rule"
    by (cases "find (\<lambda>rule. rule_matches rule (fs ! i)) rules") (auto simp: policy_evaluate_def policy_verdict_of_def)
  with i show "\<exists>k < length rules. rule_matches (rules ! k) (fs ! i) \<and>
      pr_action (rules ! k) = pv_action (policy_evaluate fs rules ! i) \<and> (\<forall>j < k. \<not> rule_matches (rules ! j) (fs ! i))"
    unfolding find_Some_iff by (auto simp: policy_evaluate_def matched_rule_decides[OF f])
qed (simp add: policy_evaluate_def)

text \<open>A policy file that cannot be read blocks everything.\<close>

lemma unreadable_policy_blocks:
  "\<forall>v \<in> set (policy_evaluate fs (load_policy_or_default (Inl e))). pv_action v = Block"
  by (auto simp: policy_evaluate_def policy_verdict_of_def load_policy_or_default_def)

text \<open>A star at both ends is not a search: the first star is then taken literally.\<close>

theorem inner_star_is_literal: "glob_match ''*SQL*'' v \<longleftrightarrow> prefix ''*SQL'' v"
  by (simp add: glob_match_def suffix_def)

lemma hm_get_baseline_map:
  "hm_get (baseline_map cs) i = map_option hc_status (find (\<lambda>c. hc_cis_id c = i) (rev cs))"
proof (induction cs rule: rev_induct)
  case (snoc c cs)
  then show ?case by (simp add: baseline_map_def hm.get_put)
qed (simp add: baseline_map_def)

end
