(* ===== verification/TaintScan.thy ===== *)
theory TaintScan
  imports FlowScan Findings
begin

text \<open>
  The line scanner \<open>crates/aether-taint\<close>: within each function a source taints what follows until a
  sanitizer is seen, and a line with a sink is then reported. Paths are strings; the files and
  directories below a root are those of \<open>FlowScan\<close>, with the readable files' texts as a parameter. Line
  numbers and the brace depth are not bounded: a text has fewer than \<open>2 ^ 31\<close> lines and braces.
\<close>

section \<open>Tables\<close>

record taint_config =
  tn_sanitizers :: "string list"
  tn_extra_sources :: "string list"
  tn_extra_sinks :: "string list"

definition taint_config_default :: taint_config where
  "taint_config_default = \<lparr>tn_sanitizers = [], tn_extra_sources = [], tn_extra_sinks = []\<rparr>"

text \<open>\<open>load_config\<close>: the default when the file cannot be read or parsed.\<close>

definition load_taint_config :: "taint_config option \<Rightarrow> taint_config" where
  "load_taint_config parsed = (case parsed of Some c \<Rightarrow> c | None \<Rightarrow> taint_config_default)"

definition SOURCES :: "(string \<times> string) list" where
  "SOURCES =
     [(''env::var'', ''environment variable read''),
      (''env::args'', ''CLI argument read''),
      (''fs::read'', ''file read''),
      (''fs::read_to_string'', ''file read''),
      (''from_reader'', ''deserialization from external input''),
      (''from_str'', ''deserialization from string''),
      (''serde_json::from'', ''JSON deserialization''),
      (''request.body'', ''HTTP request body''),
      (''req.param'', ''HTTP request param''),
      (''stdin().read'', ''stdin read''),
      (''BufReader::new'', ''buffered reader'')]"

definition dashed :: "string \<Rightarrow> string \<Rightarrow> string" where
  "dashed a b = a @ '' '' @ [CHR 0xE2, CHR 0x80, CHR 0x94] @ '' '' @ b"

definition SINKS :: "(string \<times> string \<times> string) list" where
  "SINKS =
     [(''Command::new'', dashed ''process spawn'' ''command injection'', ''CWE-78''),
      (''Command::arg'', dashed ''process arg'' ''command injection'', ''CWE-78''),
      (''process::Command'', dashed ''process spawn'' ''command injection'', ''CWE-78''),
      (''sqlx::query'', dashed ''SQL execution'' ''SQLi'', ''CWE-89''),
      (''diesel::sql_query'', dashed ''SQL execution'' ''SQLi'', ''CWE-89''),
      (''execute(sql'', dashed ''SQL execution'' ''SQLi'', ''CWE-89''),
      (''fs::write'', ''file write with user path'', ''CWE-22''),
      (''File::create'', ''file create with user path'', ''CWE-22''),
      (''fs::remove'', ''file delete with user path'', ''CWE-22''),
      (''eval('', ''eval-like execution'', ''CWE-94''),
      (''format!(\"SELECT'', ''SQL string built by format'', ''CWE-89''),
      (''format!(\"INSERT'', ''SQL string built by format'', ''CWE-89''),
      (''format!(\"UPDATE'', ''SQL string built by format'', ''CWE-89''),
      (''format!(\"DELETE'', ''SQL string built by format'', ''CWE-89'')]"

definition DEFAULT_SANITIZERS :: "string list" where
  "DEFAULT_SANITIZERS =
     [''shell_escape'', ''shell-escape'', ''html_escape'', ''canonicalize'', ''strip_prefix'',
      ''sqlx::query!'', ''escape('', ''sanitize('', ''validate('', ''encode('']"

definition all_sanitizers :: "taint_config \<Rightarrow> string list \<Rightarrow> string list" where
  "all_sanitizers cfg extra = DEFAULT_SANITIZERS @ extra @ tn_sanitizers cfg"

definition all_sources :: "taint_config \<Rightarrow> (string \<times> string) list" where
  "all_sources cfg = SOURCES @ map (\<lambda>s. (s, ''custom source'')) (tn_extra_sources cfg)"

definition all_sinks :: "taint_config \<Rightarrow> (string \<times> string \<times> string) list" where
  "all_sinks cfg = SINKS @ map (\<lambda>s. (s, ''custom sink'', ''CWE-0'')) (tn_extra_sinks cfg)"

section \<open>One line\<close>

record taint_flow =
  tf_file :: string
  tf_source_line :: nat
  tf_sink_line :: nat
  tf_source_kind :: string
  tf_sink_kind :: string
  tf_cwe :: string
  tf_fn_name :: string

record line_state =
  ls_in_fn :: bool
  ls_fn_name :: string
  ls_depth :: int
  ls_start :: int
  ls_source :: "(nat \<times> string) option"
  ls_sanitized :: bool

definition line_state_init :: line_state where
  "line_state_init = \<lparr>ls_in_fn = False, ls_fn_name = [], ls_depth = 0, ls_start = 0, ls_source = None, ls_sanitized = False\<rparr>"

definition starts_fn :: "string \<Rightarrow> bool" where
  "starts_fn trimmed \<longleftrightarrow>
     (prefix ''pub fn '' trimmed \<or> prefix ''fn '' trimmed \<or> prefix ''async fn '' trimmed
        \<or> prefix ''pub async fn '' trimmed) \<and> CHR ''('' \<in> set trimmed"

definition fn_name_of :: "string \<Rightarrow> string" where
  "fn_name_of trimmed =
     (case drop 1 (dropWhile (\<lambda>w. w = ''pub'' \<or> w = ''async'') (split_whitespace trimmed)) of
        [] \<Rightarrow> ''?''
      | w # _ \<Rightarrow> hd (split_on CHR ''('' w))"

definition enter_fn :: "string \<Rightarrow> line_state \<Rightarrow> line_state" where
  "enter_fn trimmed s =
     (if starts_fn trimmed
      then s\<lparr>ls_fn_name := fn_name_of trimmed, ls_in_fn := True, ls_start := ls_depth s, ls_source := None,
             ls_sanitized := False\<rparr>
      else s)"

definition track_brace :: "char \<Rightarrow> line_state \<Rightarrow> line_state" where
  "track_brace ch s =
     (if ch = CHR ''{'' then s\<lparr>ls_depth := ls_depth s + 1\<rparr>
      else if ch = CHR ''}''
      then (let s = s\<lparr>ls_depth := ls_depth s - 1\<rparr>
            in if ls_in_fn s \<and> ls_depth s \<le> ls_start s
               then s\<lparr>ls_in_fn := False, ls_source := None, ls_sanitized := False\<rparr> else s)
      else s)"

definition track_line :: "string \<Rightarrow> line_state \<Rightarrow> line_state" where
  "track_line line s = (let trimmed = str_trim line in fold track_brace trimmed (enter_fn trimmed s))"

definition comment_line :: "string \<Rightarrow> bool" where
  "comment_line line \<longleftrightarrow> prefix ''//'' (str_trim line) \<or> prefix ''/*'' (str_trim line)"

definition sanitizes :: "string list \<Rightarrow> string \<Rightarrow> bool" where
  "sanitizes sans line \<longleftrightarrow> list_ex (\<lambda>san. str_contains san line) sans"

definition source_in :: "(string \<times> string) list \<Rightarrow> string \<Rightarrow> string option" where
  "source_in sources line = map_option snd (find (\<lambda>(p, _). str_contains p line) sources)"

definition sink_in :: "(string \<times> string \<times> string) list \<Rightarrow> string \<Rightarrow> (string \<times> string) option" where
  "sink_in sinks line = map_option snd (find (\<lambda>(p, _). str_contains p line) sinks)"

definition check_sanitizer :: "string list \<Rightarrow> string \<Rightarrow> line_state \<Rightarrow> line_state" where
  "check_sanitizer sans line s =
     (if ls_source s \<noteq> None \<and> sanitizes sans line then s\<lparr>ls_sanitized := True\<rparr> else s)"

definition check_source :: "(string \<times> string) list \<Rightarrow> nat \<Rightarrow> string \<Rightarrow> line_state \<Rightarrow> line_state" where
  "check_source sources lineno line s =
     (if ls_source s = None
      then (case source_in sources line of
              Some kind \<Rightarrow> s\<lparr>ls_source := Some (lineno, kind), ls_sanitized := False\<rparr>
            | None \<Rightarrow> s)
      else s)"

definition check_sink ::
  "(string \<times> string \<times> string) list \<Rightarrow> string \<Rightarrow> nat \<Rightarrow> string \<Rightarrow> line_state \<Rightarrow> taint_flow list" where
  "check_sink sinks path lineno line s =
     (case ls_source s of
        Some (from_line, from_kind) \<Rightarrow>
          if ls_sanitized s then []
          else (case sink_in sinks line of
                  Some (kind, cwe) \<Rightarrow>
                    [\<lparr>tf_file = path, tf_source_line = from_line, tf_sink_line = lineno, tf_source_kind = from_kind,
                      tf_sink_kind = kind, tf_cwe = cwe, tf_fn_name = ls_fn_name s\<rparr>]
                | None \<Rightarrow> [])
      | None \<Rightarrow> [])"

text \<open>The tables of a run: sanitizers, sources, sinks and the path of the file.\<close>

record taint_tables =
  tt_sanitizers :: "string list"
  tt_sources :: "(string \<times> string) list"
  tt_sinks :: "(string \<times> string \<times> string) list"
  tt_path :: string

definition check_line :: "taint_tables \<Rightarrow> nat \<Rightarrow> string \<Rightarrow> line_state \<Rightarrow> line_state" where
  "check_line tt lineno line s = check_source (tt_sources tt) lineno line (check_sanitizer (tt_sanitizers tt) line s)"

definition analyse_line :: "taint_tables \<Rightarrow> nat \<times> string \<Rightarrow> taint_flow list \<times> line_state \<Rightarrow> taint_flow list \<times> line_state" where
  "analyse_line tt numbered st =
     (case (numbered, st) of ((lineno, line), (flows, s)) \<Rightarrow>
        let s = track_line line s
        in if \<not> ls_in_fn s \<or> comment_line line then (flows, s)
           else (let s = check_line tt lineno line s
                 in (flows @ check_sink (tt_sinks tt) (tt_path tt) lineno line s, s)))"

definition tables_for :: "taint_config \<Rightarrow> string list \<Rightarrow> string \<Rightarrow> taint_tables" where
  "tables_for cfg extra path =
     \<lparr>tt_sanitizers = all_sanitizers cfg extra, tt_sources = all_sources cfg, tt_sinks = all_sinks cfg, tt_path = path\<rparr>"

definition analyse_source :: "string \<Rightarrow> string \<Rightarrow> taint_config \<Rightarrow> string list \<Rightarrow> taint_flow list" where
  "analyse_source src path cfg extra =
     fst (fold (analyse_line (tables_for cfg extra path)) (List.enumerate 1 (str_lines src)) ([], line_state_init))"

section \<open>Directories and findings\<close>

definition analyse_file :: "(string \<Rightarrow> string option) \<Rightarrow> taint_config \<Rightarrow> string list \<Rightarrow> string \<Rightarrow> taint_flow list" where
  "analyse_file files cfg sanitizers path =
     (case files path of None \<Rightarrow> [] | Some src \<Rightarrow> analyse_source src path cfg sanitizers)"

fun scan_entry ::
  "(string \<Rightarrow> string option) \<Rightarrow> taint_config \<Rightarrow> string list \<Rightarrow> string \<Rightarrow> dir_entry \<Rightarrow> taint_flow list" where
  "scan_entry files cfg sanitizers dir (File_entry n) =
     (if file_extension n = Some ''rs'' then analyse_file files cfg sanitizers (path_join dir n) else [])"
| "scan_entry files cfg sanitizers dir (Dir_entry n es) =
     (if n \<in> {''target'', ''.git'', ''node_modules''} then []
      else concat (map (scan_entry files cfg sanitizers (path_join dir n)) es))"

definition taint_scan_directory :: "(string \<Rightarrow> string option) \<Rightarrow> string \<Rightarrow> dir_entry list \<Rightarrow> taint_config \<Rightarrow> taint_flow list" where
  "taint_scan_directory files dir es cfg = concat (map (scan_entry files cfg [] dir) es)"

definition taint_remediation :: "string \<Rightarrow> string" where
  "taint_remediation cwe =
     (if cwe = ''CWE-78'' then ''Sanitize command args with shell-escape or avoid shell execution. Use Command::new with explicit arg list, never user-controlled binary path.''
      else if cwe = ''CWE-89'' then ''Use parameterized queries (sqlx::query!, diesel ORM). Never interpolate user input into SQL strings.''
      else if cwe = ''CWE-22'' then ''Canonicalize path and verify it is within the expected prefix before writing.''
      else ''Sanitize user-controlled input before using at this sink.'')"

definition flow_finding :: "taint_flow \<Rightarrow> vuln_finding" where
  "flow_finding f =
     \<lparr>vf_severity = High,
      vf_rule_id = ''TAINT-'' @ str_replace ''CWE-'' [] (tf_cwe f),
      vf_cwe = Some (tf_cwe f),
      vf_file = tf_file f,
      vf_line = tf_sink_line f,
      vf_evidence = ''fn `'' @ tf_fn_name f @ ''`: tainted '' @ tf_source_kind f @ '' (line '' @ show_nat (tf_source_line f)
        @ '') flows to '' @ tf_sink_kind f @ '' (line '' @ show_nat (tf_sink_line f) @ '') without sanitization'',
      vf_remediation = taint_remediation (tf_cwe f)\<rparr>"

definition flows_to_findings :: "taint_flow list \<Rightarrow> vuln_finding list" where
  "flows_to_findings flows = map flow_finding flows"

section \<open>What a scan reports\<close>

text \<open>
  The braces and function headers of a text alone decide which lines belong to a function and where a
  pending source is forgotten: this part of the state does not depend on the taint.
\<close>

definition scope_at :: "string list \<Rightarrow> nat \<Rightarrow> line_state" where
  "scope_at lines k = fold track_line (take k lines) line_state_init"

definition active_line :: "string list \<Rightarrow> nat \<Rightarrow> bool" where
  "active_line lines k \<longleftrightarrow> ls_in_fn (scope_at lines (Suc k)) \<and> \<not> comment_line (lines ! k)"

definition forgets_at :: "string list \<Rightarrow> nat \<Rightarrow> bool" where
  "forgets_at lines k \<longleftrightarrow> ls_source (track_line (lines ! k) ((scope_at lines k)\<lparr>ls_source := Some (0, [])\<rparr>)) = None"

definition same_scope :: "line_state \<Rightarrow> line_state \<Rightarrow> bool" where
  "same_scope s t \<longleftrightarrow> ls_in_fn s = ls_in_fn t \<and> ls_fn_name s = ls_fn_name t \<and> ls_depth s = ls_depth t \<and> ls_start s = ls_start t"

definition same_taint :: "line_state \<Rightarrow> line_state \<Rightarrow> bool" where
  "same_taint s t \<longleftrightarrow> ls_source t = ls_source s \<and> ls_sanitized t = ls_sanitized s"

text \<open>
  Tracking runs in lockstep on two states of the same scope: when it forgets the source of the second, it
  forgets that of the first, and else it leaves the taint of the first as it was.
\<close>

definition tracks :: "line_state \<Rightarrow> line_state \<Rightarrow> line_state \<Rightarrow> bool" where
  "tracks s0 s t \<longleftrightarrow> same_scope s t \<and> (if ls_source t = None then ls_source s = None else same_taint s0 s)"

lemma tracks_enter: "tracks s0 s t \<Longrightarrow> tracks s0 (enter_fn l s) (enter_fn l t)"
  by (auto simp: tracks_def enter_fn_def same_scope_def same_taint_def)

lemma tracks_brace: "tracks s0 s t \<Longrightarrow> tracks s0 (track_brace c s) (track_brace c t)"
  by (auto simp: tracks_def track_brace_def Let_def same_scope_def same_taint_def split: if_splits)

lemma tracks_line: "tracks s0 s t \<Longrightarrow> tracks s0 (track_line l s) (track_line l t)"
proof -
  have "tracks s0 s t \<Longrightarrow> tracks s0 (fold track_brace cs s) (fold track_brace cs t)" for cs s t
    by (induction cs arbitrary: s t) (simp_all add: tracks_brace)
  moreover assume "tracks s0 s t"
  ultimately show ?thesis by (simp add: track_line_def Let_def tracks_enter)
qed

lemma scope_Suc: "k < length lines \<Longrightarrow> scope_at lines (Suc k) = track_line (lines ! k) (scope_at lines k)"
  by (simp add: scope_at_def take_Suc_conv_app_nth)

lemma track_at:
  assumes "same_scope s (scope_at lines k)" and "k < length lines"
  shows "same_scope (track_line (lines ! k) s) (scope_at lines (Suc k))"
    and "forgets_at lines k \<Longrightarrow> ls_source (track_line (lines ! k) s) = None"
    and "\<not> forgets_at lines k \<Longrightarrow> same_taint s (track_line (lines ! k) s)"
proof -
  let ?t = "scope_at lines k"
  have "tracks (?t\<lparr>ls_source := Some (0, [])\<rparr>) (?t\<lparr>ls_source := Some (0, [])\<rparr>) (?t\<lparr>ls_source := Some (0, [])\<rparr>)"
    "tracks s s (?t\<lparr>ls_source := Some (0, [])\<rparr>)" "tracks ?t ?t (?t\<lparr>ls_source := Some (0, [])\<rparr>)"
    using assms(1) by (auto simp: tracks_def same_scope_def same_taint_def)
  from this(2,3)[THEN tracks_line, of "lines ! k"] show
    "same_scope (track_line (lines ! k) s) (scope_at lines (Suc k))"
    "forgets_at lines k \<Longrightarrow> ls_source (track_line (lines ! k) s) = None"
    "\<not> forgets_at lines k \<Longrightarrow> same_taint s (track_line (lines ! k) s)"
    by (auto simp: tracks_def forgets_at_def scope_Suc[OF assms(2)] same_scope_def)
qed

section \<open>The pending source\<close>

definition source_line :: "taint_tables \<Rightarrow> string list \<Rightarrow> nat \<Rightarrow> bool" where
  "source_line tt lines k \<longleftrightarrow> active_line lines k \<and> source_in (tt_sources tt) (lines ! k) \<noteq> None"

text \<open>
  Line \<open>i\<close> is the pending source before line \<open>k\<close>: nothing forgets it on the way, and every earlier source is
  forgotten before it or at it.
\<close>

definition pending :: "taint_tables \<Rightarrow> string list \<Rightarrow> nat \<Rightarrow> nat \<Rightarrow> bool" where
  "pending tt lines k i \<longleftrightarrow> i < k \<and> source_line tt lines i \<and> (\<forall>m. i < m \<and> m < k \<longrightarrow> \<not> forgets_at lines m) \<and>
     (\<forall>h < i. source_line tt lines h \<longrightarrow> (\<exists>m. h < m \<and> m \<le> i \<and> forgets_at lines m))"

lemma pending_unique: "pending tt lines k i \<Longrightarrow> pending tt lines k j \<Longrightarrow> i = j"
  unfolding pending_def by (metis le_less_trans linorder_neqE_nat)

lemma pending_exists:
  assumes "h < k" "source_line tt lines h" "\<forall>m. h < m \<and> m < k \<longrightarrow> \<not> forgets_at lines m"
  shows "\<exists>i. pending tt lines k i"
proof -
  let ?P = "\<lambda>h. h < k \<and> source_line tt lines h \<and> (\<forall>m. h < m \<and> m < k \<longrightarrow> \<not> forgets_at lines m)"
  define i where "i = (LEAST h. ?P h)"
  have i: "?P i" unfolding i_def by (rule LeastI[of ?P h]) (use assms in blast)
  have "\<exists>m. g < m \<and> m \<le> i \<and> forgets_at lines m" if "g < i" "source_line tt lines g" for g
  proof -
    have "\<not> ?P g" using that(1) unfolding i_def by (rule not_less_Least)
    with that i obtain m where "g < m" "m < k" "forgets_at lines m" by auto
    with i show ?thesis by (metis not_less)
  qed
  with i show ?thesis by (auto simp: pending_def)
qed

lemma pending_Suc:
  "pending tt lines (Suc k) i \<longleftrightarrow>
     (i < k \<and> pending tt lines k i \<and> \<not> forgets_at lines k) \<or>
     (i = k \<and> source_line tt lines k \<and> (forgets_at lines k \<or> (\<forall>j. \<not> pending tt lines k j)))"
proof (cases "i < k")
  case True
  then show ?thesis by (auto simp: pending_def less_Suc_eq)
next
  case False
  have "(\<forall>h < k. source_line tt lines h \<longrightarrow> (\<exists>m. h < m \<and> m \<le> k \<and> forgets_at lines m)) \<longleftrightarrow>
      (forgets_at lines k \<or> (\<forall>j. \<not> pending tt lines k j))" (is "?L \<longleftrightarrow> ?R")
  proof
    assume ?L
    then show ?R unfolding pending_def by (metis le_neq_implies_less)
  next
    assume ?R
    then show ?L using pending_exists[of _ k tt lines] by (metis le_refl less_imp_le)
  qed
  with False show ?thesis by (auto simp: pending_def less_Suc_eq)
qed

section \<open>The reported flows\<close>

definition flow_reported :: "taint_tables \<Rightarrow> string list \<Rightarrow> nat \<Rightarrow> nat \<Rightarrow> bool" where
  "flow_reported tt lines i j \<longleftrightarrow> pending tt lines (Suc j) i \<and> active_line lines j \<and> sink_in (tt_sinks tt) (lines ! j) \<noteq> None \<and>
     (\<forall>m. i < m \<and> m \<le> j \<and> active_line lines m \<longrightarrow> \<not> sanitizes (tt_sanitizers tt) (lines ! m))"

definition flow_at :: "taint_tables \<Rightarrow> string list \<Rightarrow> nat \<Rightarrow> nat \<Rightarrow> taint_flow" where
  "flow_at tt lines i j =
     (let sink = the (sink_in (tt_sinks tt) (lines ! j))
      in \<lparr>tf_file = tt_path tt, tf_source_line = Suc i, tf_sink_line = Suc j,
          tf_source_kind = the (source_in (tt_sources tt) (lines ! i)), tf_sink_kind = fst sink, tf_cwe = snd sink,
          tf_fn_name = ls_fn_name (scope_at lines (Suc j))\<rparr>)"

definition state_ok :: "taint_tables \<Rightarrow> string list \<Rightarrow> nat \<Rightarrow> line_state \<Rightarrow> bool" where
  "state_ok tt lines k s \<longleftrightarrow> same_scope s (scope_at lines k) \<and>
     (case ls_source s of
        None \<Rightarrow> \<forall>i. \<not> pending tt lines k i
      | Some (l, kind) \<Rightarrow> \<exists>i. pending tt lines k i \<and> l = Suc i \<and> source_in (tt_sources tt) (lines ! i) = Some kind \<and>
          (ls_sanitized s \<longleftrightarrow> (\<exists>m. i < m \<and> m < k \<and> active_line lines m \<and> sanitizes (tt_sanitizers tt) (lines ! m))))"

definition checked_line :: "taint_tables \<Rightarrow> string list \<Rightarrow> nat \<Rightarrow> line_state \<Rightarrow> line_state" where
  "checked_line tt lines k s =
     (let s = track_line (lines ! k) s in if active_line lines k then check_line tt (Suc k) (lines ! k) s else s)"

lemma same_scope_update [simp]: "same_scope (s\<lparr>ls_source := a, ls_sanitized := b\<rparr>) t = same_scope s t"
  by (simp add: same_scope_def)

lemma same_scope_checks:
  "same_scope (check_line tt n l s) t = same_scope s t"
  by (simp add: check_line_def check_source_def check_sanitizer_def same_scope_def split: option.split)

lemma state_step:
  assumes ok: "state_ok tt lines k s" and k: "k < length lines"
  shows "state_ok tt lines (Suc k) (checked_line tt lines k s)"
proof -
  let ?s = "track_line (lines ! k) s"
  have scope: "same_scope s (scope_at lines k)" using ok by (simp add: state_ok_def)
  note track = track_at[OF scope k]
  show ?thesis
  proof (cases "ls_source ?s")
    case None
    have gone: "forgets_at lines k \<or> (\<forall>j. \<not> pending tt lines k j)"
      using track(3) None ok by (auto simp: same_taint_def state_ok_def)
    then have "pending tt lines (Suc k) i \<longleftrightarrow> i = k \<and> source_line tt lines k" for i
      by (auto simp: pending_Suc)
    with None track(1) show ?thesis
      by (auto simp: state_ok_def checked_line_def Let_def same_scope_checks source_line_def check_line_def
          check_source_def check_sanitizer_def split: option.split)
  next
    case (Some lk)
    then have keep: "\<not> forgets_at lines k" and same: "same_taint s ?s" using track by auto
    then have src: "ls_source s = Some lk" using Some by (simp add: same_taint_def)
    with ok obtain i where i: "pending tt lines k i" "lk = (Suc i, snd lk)"
        "source_in (tt_sources tt) (lines ! i) = Some (snd lk)"
        "ls_sanitized s \<longleftrightarrow> (\<exists>m. i < m \<and> m < k \<and> active_line lines m \<and> sanitizes (tt_sanitizers tt) (lines ! m))"
      by (cases lk) (auto simp: state_ok_def)
    have "i < k" using i(1) by (simp add: pending_def)
    with i(1) keep have "pending tt lines (Suc k) i" by (simp add: pending_Suc)
    moreover have "ls_source (checked_line tt lines k s) = Some lk" using Some
      by (simp add: checked_line_def Let_def check_line_def check_source_def check_sanitizer_def)
    moreover have "ls_sanitized (checked_line tt lines k s) \<longleftrightarrow>
        (\<exists>m. i < m \<and> m < Suc k \<and> active_line lines m \<and> sanitizes (tt_sanitizers tt) (lines ! m))"
      using Some same i(4) \<open>i < k\<close>
      by (auto simp: checked_line_def Let_def check_line_def check_source_def check_sanitizer_def same_taint_def less_Suc_eq)
    moreover have "same_scope (checked_line tt lines k s) (scope_at lines (Suc k))"
      using track(1) by (simp add: checked_line_def Let_def same_scope_checks)
    ultimately show ?thesis using i(2,3) unfolding state_ok_def by (cases lk) auto
  qed
qed

text \<open>The flows of one line: at most one, from the pending source.\<close>

lemma sink_step:
  assumes ok: "state_ok tt lines (Suc k) s" and active: "active_line lines k"
  shows "check_sink (tt_sinks tt) (tt_path tt) (Suc k) (lines ! k) s =
    (if \<exists>i. flow_reported tt lines i k then [flow_at tt lines (THE i. flow_reported tt lines i k) k] else [])"
proof (cases "ls_source s")
  case None
  with ok show ?thesis by (auto simp: check_sink_def state_ok_def flow_reported_def)
next
  case (Some lk)
  with ok obtain i where i: "pending tt lines (Suc k) i" "lk = (Suc i, snd lk)"
      "source_in (tt_sources tt) (lines ! i) = Some (snd lk)"
      "ls_sanitized s \<longleftrightarrow> (\<exists>m. i < m \<and> m < Suc k \<and> active_line lines m \<and> sanitizes (tt_sanitizers tt) (lines ! m))"
    by (cases lk) (auto simp: state_ok_def)
  have only: "flow_reported tt lines j k \<longleftrightarrow> j = i \<and> \<not> ls_sanitized s \<and> sink_in (tt_sinks tt) (lines ! k) \<noteq> None" for j
    using pending_unique[OF i(1), of j] i(1,4) active by (auto simp: flow_reported_def less_Suc_eq_le)
  have name: "ls_fn_name s = ls_fn_name (scope_at lines (Suc k))" using ok by (simp add: state_ok_def same_scope_def)
  from i(2) Some obtain kind where "ls_source s = Some (Suc i, kind)" "snd lk = kind" by (cases lk) auto
  then show ?thesis
    using i(3) name by (auto simp: check_sink_def only flow_at_def Let_def split: option.split)
qed

definition scan_prefix :: "taint_tables \<Rightarrow> string list \<Rightarrow> nat \<Rightarrow> taint_flow list \<times> line_state" where
  "scan_prefix tt lines k = fold (analyse_line tt) (take k (List.enumerate 1 lines)) ([], line_state_init)"

lemma scan_prefix_Suc:
  "k < length lines \<Longrightarrow> scan_prefix tt lines (Suc k) = analyse_line tt (Suc k, lines ! k) (scan_prefix tt lines k)"
  by (simp add: scan_prefix_def take_Suc_conv_app_nth nth_enumerate_eq)

lemma scan_prefix_ok:
  "k \<le> length lines \<Longrightarrow> state_ok tt lines k (snd (scan_prefix tt lines k)) \<and>
   set (fst (scan_prefix tt lines k)) = {flow_at tt lines i j | i j. j < k \<and> flow_reported tt lines i j} \<and>
   sorted_wrt (<) (map tf_sink_line (fst (scan_prefix tt lines k)))"
proof (induction k)
  case 0
  then show ?case
    by (simp add: scan_prefix_def state_ok_def same_scope_def scope_at_def line_state_init_def pending_def)
next
  case (Suc k)
  obtain flows s where prev: "scan_prefix tt lines k = (flows, s)" by fastforce
  with Suc have ok: "state_ok tt lines k s" and k: "k < length lines"
    and set: "set flows = {flow_at tt lines i j | i j. j < k \<and> flow_reported tt lines i j}"
    and sorted: "sorted_wrt (<) (map tf_sink_line flows)" by auto
  let ?s = "checked_line tt lines k s"
  let ?new = "if \<exists>i. flow_reported tt lines i k then [flow_at tt lines (THE i. flow_reported tt lines i k) k] else []"
  have scope: "same_scope (track_line (lines ! k) s) (scope_at lines (Suc k))"
    using track_at(1)[OF _ k] ok by (simp add: state_ok_def)
  have step: "scan_prefix tt lines (Suc k) = (flows @ ?new, ?s)"
  proof (cases "active_line lines k")
    case True
    with sink_step[OF state_step[OF ok k] True] scope show ?thesis
      by (simp add: scan_prefix_Suc[OF k] prev analyse_line_def Let_def active_line_def checked_line_def same_scope_def)
  next
    case False
    with scope show ?thesis
      by (auto simp: scan_prefix_Suc[OF k] prev analyse_line_def Let_def active_line_def checked_line_def same_scope_def
          flow_reported_def)
  qed
  have the: "(THE i. flow_reported tt lines i k) = i" if "flow_reported tt lines i k" for i
    using that pending_unique by (auto simp: flow_reported_def intro!: the_equality)
  have "set (flows @ ?new) = {flow_at tt lines i j | i j. j < Suc k \<and> flow_reported tt lines i j}"
    using set the by (auto simp: less_Suc_eq) blast
  moreover have "sorted_wrt (<) (map tf_sink_line (flows @ ?new))"
    using sorted set by (auto simp: sorted_wrt_append flow_at_def Let_def)
  ultimately show ?case using step state_step[OF ok k] by simp
qed


text \<open>
  A sanitizer silences the rest of its function: a second source, read after it and never sanitized,
  reaches a sink without a report.
\<close>
theorem sanitizer_silences_later_sources:
  "analyse_source (str_join nl [''fn run() {'', ''  let a = env::var(x);'', ''  let s = escape(a);'',
       ''  let b = env::var(y);'', ''  Command::new(b);'', ''}'']) ''m.rs'' taint_config_default [] = []"
  by code_simp

text \<open>A function on one line is over before its line is looked at.\<close>
theorem one_line_function_is_skipped:
  "analyse_source ''fn run() { Command::new(env::var(x)); }'' ''m.rs'' taint_config_default [] = []"
  by code_simp

text \<open>The scanner at work: source and sink of one function.\<close>

lemma plain_flow_is_reported:
  "map (\<lambda>f. (tf_source_line f, tf_sink_line f, tf_cwe f, tf_fn_name f))
     (analyse_source (str_join nl [''fn run() {'', ''  let a = env::var(x);'', ''  Command::new(a);'', ''}'']) ''m.rs''
        taint_config_default []) = [(2, 3, ''CWE-78'', ''run'')]"
  by code_simp

end
