(* ===== verification/Baseline.thy ===== *)
theory Baseline
  imports Complex_Main Findings Llm
begin

text \<open>
  The two stores keyed by a hash of a finding: the baseline of accepted findings of
  \<open>crates/aether-baseline\<close>, and the cache of verdicts of \<open>crates/aether-triage\<close>. An SQLite table is an
  association list from its primary key; opening the database can fail, its statements do not. The
  hash, the printer and the parser of the cached verdicts and the model's answers are parameters; so are
  the paths of the databases and the time limit of a request, which the configuration records leave out.
\<close>

section \<open>The baseline\<close>

record accepted_row =
  ar_rule_id :: string
  ar_file :: string
  ar_evidence :: string
  ar_accepted_at :: nat

type_synonym accepted_table = "(string, accepted_row) hmap"

record baseline_env =
  be_open_error :: "string option"
  be_sha256_hex :: "string \<Rightarrow> string"

definition fingerprint_text :: "vuln_finding \<Rightarrow> string" where
  "fingerprint_text f = vf_rule_id f @ ''|'' @ vf_evidence f"

definition finding_fingerprint :: "baseline_env \<Rightarrow> vuln_finding \<Rightarrow> string" where
  "finding_fingerprint env f = be_sha256_hex env (fingerprint_text f)"

fun severity_rank :: "vuln_severity \<Rightarrow> nat" where
  "severity_rank Info = 0"
| "severity_rank Low = 1"
| "severity_rank Medium = 2"
| "severity_rank High = 3"
| "severity_rank Critical = 4"

text \<open>\<open>INSERT OR IGNORE\<close>: the number of rows added is 0 or 1.\<close>

definition insert_or_ignore :: "baseline_env \<Rightarrow> nat \<Rightarrow> vuln_finding \<Rightarrow> nat \<times> accepted_table \<Rightarrow> nat \<times> accepted_table" where
  "insert_or_ignore env now f st =
     (case st of (added, t) \<Rightarrow>
        let fp = finding_fingerprint env f
        in if hm_get t fp \<noteq> None then (added, t)
           else (Suc added, hm_put fp \<lparr>ar_rule_id = vf_rule_id f, ar_file = vf_file f,
                   ar_evidence = vf_evidence f, ar_accepted_at = now\<rparr> t))"

definition accept_findings ::
  "baseline_env \<Rightarrow> nat \<Rightarrow> vuln_finding list \<Rightarrow> accepted_table \<Rightarrow> (string, nat) result \<times> accepted_table" where
  "accept_findings env now findings t =
     (case be_open_error env of
        Some e \<Rightarrow> (Inl e, t)
      | None \<Rightarrow> (case fold (insert_or_ignore env now) findings (0, t) of (added, t') \<Rightarrow> (Inr added, t')))"

definition is_accepted :: "baseline_env \<Rightarrow> vuln_finding \<Rightarrow> accepted_table \<Rightarrow> bool" where
  "is_accepted env f t \<longleftrightarrow> hm_get t (finding_fingerprint env f) \<noteq> None"

definition accepted_count :: "accepted_table \<Rightarrow> nat" where
  "accepted_count t = length t"

record ratchet_result =
  rr_regressions :: "vuln_finding list"
  rr_accepted :: "vuln_finding list"
  rr_below_threshold :: "vuln_finding list"

definition ratchet_step ::
  "baseline_env \<Rightarrow> nat \<Rightarrow> accepted_table \<Rightarrow> vuln_finding \<Rightarrow> ratchet_result \<Rightarrow> ratchet_result" where
  "ratchet_step env min_rank t f r =
     (if severity_rank (vf_severity f) < min_rank then r\<lparr>rr_below_threshold := rr_below_threshold r @ [f]\<rparr>
      else if is_accepted env f t then r\<lparr>rr_accepted := rr_accepted r @ [f]\<rparr>
      else r\<lparr>rr_regressions := rr_regressions r @ [f]\<rparr>)"

definition ratchet ::
  "baseline_env \<Rightarrow> vuln_severity \<Rightarrow> vuln_finding list \<Rightarrow> accepted_table \<Rightarrow> (string, ratchet_result) result" where
  "ratchet env min_severity findings t =
     (case be_open_error env of
        Some e \<Rightarrow> Inl e
      | None \<Rightarrow> Inr (fold (ratchet_step env (severity_rank min_severity) t) findings
          \<lparr>rr_regressions = [], rr_accepted = [], rr_below_threshold = []\<rparr>))"

definition list_accepted :: "baseline_env \<Rightarrow> accepted_table \<Rightarrow> (string, (string \<times> string \<times> string) list) result" where
  "list_accepted env t =
     (case be_open_error env of
        Some e \<Rightarrow> Inl e
      | None \<Rightarrow> Inr (map (\<lambda>(fp, r). (fp, ar_rule_id r, ar_file r)) (sort_key (\<lambda>kr. ar_accepted_at (snd kr)) t)))"

section \<open>Triage\<close>

record triage_config =
  tc_models :: "string list"
  tc_ollama_url :: string
  tc_min_confidence :: rat
  tc_min_agreement :: nat

definition triage_config_default :: triage_config where
  "triage_config_default =
     \<lparr>tc_models = [''glm-5.2:cloud'', ''kimi-k2.7-code:cloud''], tc_ollama_url = ''http://localhost:11434'',
      tc_min_confidence = 7 / 10, tc_min_agreement = 2\<rparr>"

record model_verdict =
  mv_model :: string
  mv_is_real :: bool
  mv_confidence :: rat
  mv_reasoning :: string

record triage_result =
  tr_finding :: vuln_finding
  tr_verdicts :: "model_verdict list"
  tr_agreement_count :: nat
  tr_confirmed :: bool

record triage_report =
  tr_confirmed_list :: "triage_result list"
  tr_suppressed_list :: "triage_result list"

record 'w triage_env =
  te_open_error :: "string option"
  te_sha256_hex :: "string \<Rightarrow> string"
  te_print :: "model_verdict list \<Rightarrow> string"
  te_parse :: "string \<Rightarrow> model_verdict list option"
  te_debug_str :: "string \<Rightarrow> string"
  te_json :: "string \<Rightarrow> json option"
  te_f32 :: "string \<Rightarrow> rat"
  te_post :: "string \<Rightarrow> json \<Rightarrow> 'w \<Rightarrow> (string, json) result \<times> 'w"

type_synonym verdict_table = "(string, string) hmap"

definition evidence_hash :: "'w triage_env \<Rightarrow> vuln_finding \<Rightarrow> string" where
  "evidence_hash env f = te_sha256_hex env (vf_rule_id f @ vf_evidence f)"

definition cache_get :: "'w triage_env \<Rightarrow> verdict_table \<Rightarrow> string \<Rightarrow> model_verdict list option" where
  "cache_get env t key = (case hm_get t key of None \<Rightarrow> None | Some payload \<Rightarrow> te_parse env payload)"

definition cache_put :: "'w triage_env \<Rightarrow> verdict_table \<Rightarrow> string \<Rightarrow> model_verdict list \<Rightarrow> verdict_table" where
  "cache_put env t key verdicts = hm_put key (te_print env verdicts) t"

definition failed_verdict :: "string \<Rightarrow> string \<Rightarrow> model_verdict" where
  "failed_verdict model e =
     \<lparr>mv_model = model, mv_is_real = False, mv_confidence = 0, mv_reasoning = ''model error: '' @ e\<rparr>"

text \<open>The request to a model, and its answer. \<open>te_f32\<close> is the value of a number as a 32-bit float.\<close>

fun debug_severity :: "vuln_severity \<Rightarrow> string" where
  "debug_severity Critical = ''Critical''"
| "debug_severity High = ''High''"
| "debug_severity Medium = ''Medium''"
| "debug_severity Low = ''Low''"
| "debug_severity Info = ''Info''"

definition triage_prompt :: "'w triage_env \<Rightarrow> vuln_finding \<Rightarrow> string" where
  "triage_prompt env f =
     ''You are a security code auditor. Evaluate whether this finding is a REAL vulnerability:'' @ nl @ nl
     @ ''Rule: '' @ vf_rule_id f @ nl
     @ ''File: '' @ vf_file f @ '' (line '' @ show_nat (vf_line f) @ '')'' @ nl
     @ ''Severity: '' @ debug_severity (vf_severity f) @ nl
     @ ''CWE: '' @ (case vf_cwe f of None \<Rightarrow> ''None'' | Some c \<Rightarrow> ''Some('' @ te_debug_str env c @ '')'') @ nl
     @ ''Evidence: '' @ vf_evidence f @ nl @ nl
     @ ''Respond with ONLY valid JSON (no markdown, no explanation outside JSON):'' @ nl
     @ ''{\"is_real\": true/false, \"confidence\": 0.0-1.0, \"reasoning\": \"one sentence\"}''"

definition trim_end_matches :: "string \<Rightarrow> string \<Rightarrow> string" where
  "trim_end_matches p s = rev (trim_start_matches (rev p) (rev s))"

definition json_text :: "string \<Rightarrow> string" where
  "json_text content =
     str_trim (trim_end_matches ''```'' (trim_start_matches ''```'' (trim_start_matches ''```json'' (str_trim content))))"

definition json_bool :: "json option \<Rightarrow> bool" where
  "json_bool v = (case v of Some (JBool b) \<Rightarrow> b | _ \<Rightarrow> False)"

definition json_f32 :: "'w triage_env \<Rightarrow> json option \<Rightarrow> rat" where
  "json_f32 env v = (case v of Some (JNum n) \<Rightarrow> te_f32 env n | _ \<Rightarrow> 0)"

definition json_str_or :: "string \<Rightarrow> json option \<Rightarrow> string" where
  "json_str_or d v = (case v of Some (JStr s) \<Rightarrow> s | _ \<Rightarrow> d)"

definition read_answer :: "'w triage_env \<Rightarrow> string \<Rightarrow> json \<Rightarrow> (string, model_verdict) result" where
  "read_answer env model val =
     (let content = json_str_or [] (case json_get val ''message'' of Some m \<Rightarrow> json_get m ''content'' | None \<Rightarrow> None)
      in case te_json env (json_text content) of
           None \<Rightarrow> Inl ''Could not parse model JSON response''
         | Some parsed \<Rightarrow> Inr
             \<lparr>mv_model = model, mv_is_real = json_bool (json_get parsed ''is_real''),
              mv_confidence = json_f32 env (json_get parsed ''confidence''),
              mv_reasoning = json_str_or ''no reasoning'' (json_get parsed ''reasoning'')\<rparr>)"

definition query_model ::
  "'w triage_env \<Rightarrow> string \<Rightarrow> string \<Rightarrow> vuln_finding \<Rightarrow> 'w \<Rightarrow> (string, model_verdict) result \<times> 'w" where
  "query_model env ollama_url model f w =
     (case te_post env (ollama_url @ ''/api/chat'')
             (JObj [(''model'', JStr model),
                    (''messages'', JArr [JObj [(''role'', JStr ''user''), (''content'', JStr (triage_prompt env f))]]),
                    (''stream'', JBool False)]) w of
        (Inl e, w1) \<Rightarrow> (Inl e, w1)
      | (Inr val, w1) \<Rightarrow> (read_answer env model val, w1))"

fun query_models :: "'w triage_env \<Rightarrow> triage_config \<Rightarrow> vuln_finding \<Rightarrow> string list \<Rightarrow> 'w \<Rightarrow> model_verdict list \<times> 'w" where
  "query_models env cfg f [] w = ([], w)"
| "query_models env cfg f (m # ms) w =
     (case query_model env (tc_ollama_url cfg) m f w of (r, w1) \<Rightarrow>
        (case query_models env cfg f ms w1 of (vs, w2) \<Rightarrow>
           ((case r of Inr v \<Rightarrow> v | Inl e \<Rightarrow> failed_verdict m e) # vs, w2)))"

definition agreement :: "triage_config \<Rightarrow> model_verdict list \<Rightarrow> nat" where
  "agreement cfg verdicts = length (filter (\<lambda>v. mv_is_real v \<and> tc_min_confidence cfg \<le> mv_confidence v) verdicts)"

definition verdicts_for ::
  "'w triage_env \<Rightarrow> triage_config \<Rightarrow> vuln_finding \<Rightarrow> verdict_table \<Rightarrow> 'w \<Rightarrow> model_verdict list \<times> verdict_table \<times> 'w" where
  "verdicts_for env cfg f t w =
     (let key = evidence_hash env f in
      case cache_get env t key of
        Some cached \<Rightarrow> (cached, t, w)
      | None \<Rightarrow> (case query_models env cfg f (tc_models cfg) w of (vs, w1) \<Rightarrow> (vs, cache_put env t key vs, w1)))"

definition triage_result_of :: "triage_config \<Rightarrow> vuln_finding \<Rightarrow> model_verdict list \<Rightarrow> triage_result" where
  "triage_result_of cfg f verdicts =
     \<lparr>tr_finding = f, tr_verdicts = verdicts, tr_agreement_count = agreement cfg verdicts,
      tr_confirmed = (tc_min_agreement cfg \<le> agreement cfg verdicts)\<rparr>"

fun triage_loop ::
  "'w triage_env \<Rightarrow> triage_config \<Rightarrow> vuln_finding list \<Rightarrow> triage_report \<Rightarrow> verdict_table \<Rightarrow> 'w \<Rightarrow> triage_report \<times> verdict_table \<times> 'w" where
  "triage_loop env cfg [] report t w = (report, t, w)"
| "triage_loop env cfg (f # fs) report t w =
     (case verdicts_for env cfg f t w of (verdicts, t1, w1) \<Rightarrow>
        let result = triage_result_of cfg f verdicts
        in triage_loop env cfg fs
             (if tr_confirmed result then report\<lparr>tr_confirmed_list := tr_confirmed_list report @ [result]\<rparr>
              else report\<lparr>tr_suppressed_list := tr_suppressed_list report @ [result]\<rparr>) t1 w1)"

definition triage_findings ::
  "'w triage_env \<Rightarrow> triage_config \<Rightarrow> vuln_finding list \<Rightarrow> verdict_table \<Rightarrow> 'w \<Rightarrow>
   (string, triage_report) result \<times> verdict_table \<times> 'w" where
  "triage_findings env cfg findings t w =
     (case te_open_error env of
        Some e \<Rightarrow> (Inl e, t, w)
      | None \<Rightarrow> (case triage_loop env cfg findings \<lparr>tr_confirmed_list = [], tr_suppressed_list = []\<rparr> t w of
                   (report, t1, w1) \<Rightarrow> (Inr report, t1, w1)))"

section \<open>The baseline is a ratchet\<close>

lemma length_hm_put_new: "hm_get t k = None \<Longrightarrow> length (hm_put k v t) = Suc (length t)"
  by (induction t) (auto simp: hm_get_def hm_put_def split: if_splits)

lemma length_card_dom: "hm_ok t \<Longrightarrow> length t = card (dom (hm_get t))"
  using distinct_card[of "map fst t"] by (simp add: hm_ok_def hm_get_def[abs_def] dom_map_of_conv_image_fst)

lemma card_added:
  assumes "finite A" "finite B" "m + card A = card (A \<union> B)"
  shows "m = card (B - A)"
  using assms card_Un_disjoint[of A "B - A"] by auto

lemma insert_all:
  "hm_ok t \<Longrightarrow> fold (insert_or_ignore env now) fs (n, t) = (m, t') \<Longrightarrow>
   hm_ok t' \<and> dom (hm_get t') = dom (hm_get t) \<union> finding_fingerprint env ` set fs \<and>
   m + length t = n + length t'"
proof (induction fs arbitrary: n t)
  case (Cons f fs)
  let ?fp = "finding_fingerprint env f"
  obtain n1 t1 where step: "insert_or_ignore env now f (n, t) = (n1, t1)" by fastforce
  have "hm_ok t1 \<and> dom (hm_get t1) = insert ?fp (dom (hm_get t)) \<and> n1 + length t = n + length t1"
  proof (cases "hm_get t ?fp")
    case None
    then show ?thesis using step Cons.prems(1)
      by (auto simp: insert_or_ignore_def Let_def hm.ok_put hm.get_put length_hm_put_new split: if_splits)
  next
    case (Some r)
    then show ?thesis using step Cons.prems(1) by (auto simp: insert_or_ignore_def Let_def)
  qed
  with Cons.IH[of t1 n1] Cons.prems step show ?case by auto
qed auto

lemma ratchet_splits:
  "fold (ratchet_step env k t) fs r =
     r\<lparr>rr_regressions := rr_regressions r @ filter (\<lambda>f. k \<le> severity_rank (vf_severity f) \<and> \<not> is_accepted env f t) fs,
       rr_accepted := rr_accepted r @ filter (\<lambda>f. k \<le> severity_rank (vf_severity f) \<and> is_accepted env f t) fs,
       rr_below_threshold := rr_below_threshold r @ filter (\<lambda>f. severity_rank (vf_severity f) < k) fs\<rparr>"
  by (induction fs arbitrary: r) (auto simp: ratchet_step_def)

text \<open>The table after a history of accepted batches, each with its time.\<close>

definition accept_batch :: "baseline_env \<Rightarrow> nat \<times> vuln_finding list \<Rightarrow> accepted_table \<Rightarrow> accepted_table" where
  "accept_batch env b t = snd (accept_findings env (fst b) (snd b) t)"

lemma accepted_history:
  assumes "be_open_error env = None"
  shows "hm_ok t \<Longrightarrow> hm_ok (fold (accept_batch env) bs t) \<and>
    dom (hm_get (fold (accept_batch env) bs t)) = dom (hm_get t) \<union> finding_fingerprint env ` set (concat (map snd bs))"
proof (induction bs arbitrary: t)
  case (Cons b bs)
  obtain m t1 where "fold (insert_or_ignore env (fst b)) (snd b) (0, t) = (m, t1)" by fastforce
  with insert_all[OF Cons.prems this] assms Cons.IH[of t1] show ?case
    by (auto simp: accept_batch_def accept_findings_def)
qed simp


definition demo_finding :: "string \<Rightarrow> string \<Rightarrow> vuln_finding" where
  "demo_finding file e = \<lparr>vf_severity = High, vf_rule_id = ''TAINT-78'', vf_cwe = Some ''CWE-78'', vf_file = file,
     vf_line = 3, vf_evidence = e, vf_remediation = []\<rparr>"

definition plain_baseline :: baseline_env where
  "plain_baseline = \<lparr>be_open_error = None, be_sha256_hex = (\<lambda>s. s)\<rparr>"


text \<open>
  The file is not part of the key: a finding with the same evidence in another file, at another line, counts as
  accepted.
\<close>
theorem other_file_is_accepted:
  assumes "be_open_error env = None"
  shows "is_accepted env (f\<lparr>vf_file := file, vf_line := n\<rparr>) (accept_batch env (now, [f]) [])"
  using assms by (simp add: is_accepted_def accept_batch_def accept_findings_def insert_or_ignore_def Let_def
      finding_fingerprint_def fingerprint_text_def hm.get_put)

section \<open>Cached verdicts are final\<close>

definition settled :: "'w triage_env \<Rightarrow> verdict_table \<Rightarrow> vuln_finding \<Rightarrow> model_verdict list \<Rightarrow> bool" where
  "settled env t f vs \<longleftrightarrow> cache_get env t (evidence_hash env f) = Some vs"

text \<open>What a run stores in the cache for a finding can be read back.\<close>

definition readable_verdicts :: "'w triage_env \<Rightarrow> triage_config \<Rightarrow> vuln_finding \<Rightarrow> bool" where
  "readable_verdicts env cfg f \<longleftrightarrow>
     (\<forall>w. let vs = fst (query_models env cfg f (tc_models cfg) w) in te_parse env (te_print env vs) = Some vs)"

lemma verdicts_settled:
  assumes "readable_verdicts env cfg f" and "verdicts_for env cfg f t w = (vs, t1, w1)"
  shows "settled env t1 f vs" and "settled env t g us \<Longrightarrow> settled env t1 g us"
  using assms by (auto simp: verdicts_for_def settled_def readable_verdicts_def cache_get_def cache_put_def Let_def
      hm.get_put split_beta split: option.splits if_splits)

lemma settled_cong:
  "settled (env\<lparr>te_post := q\<rparr>) t f vs = settled env t f vs"
  by (simp add: settled_def cache_get_def evidence_hash_def split: option.split)

lemma triage_settled:
  "\<forall>f \<in> set fs. readable_verdicts env cfg f \<Longrightarrow> triage_loop env cfg fs rep t w = (rep', t', w') \<Longrightarrow>
    (\<forall>g us. settled env t g us \<longrightarrow> settled env t' g us) \<and>
    triage_loop (env\<lparr>te_post := q\<rparr>) cfg fs rep t' w2 = (rep', t', w2)"
proof (induction fs arbitrary: rep t w)
  case (Cons f fs)
  from Cons.prems(1) have readable: "readable_verdicts env cfg f" by simp
  obtain vs t1 w1 where step: "verdicts_for env cfg f t w = (vs, t1, w1)" by (metis prod_cases3)
  let ?r = "triage_result_of cfg f vs"
  let ?rep = "if tr_confirmed ?r then rep\<lparr>tr_confirmed_list := tr_confirmed_list rep @ [?r]\<rparr>
    else rep\<lparr>tr_suppressed_list := tr_suppressed_list rep @ [?r]\<rparr>"
  from Cons.prems(2) step have "triage_loop env cfg fs ?rep t1 w1 = (rep', t', w')" by (simp add: Let_def)
  from Cons.IH[OF _ this] Cons.prems(1) have keep: "\<forall>g us. settled env t1 g us \<longrightarrow> settled env t' g us"
    and rest: "triage_loop (env\<lparr>te_post := q\<rparr>) cfg fs ?rep t' w2 = (rep', t', w2)" by auto
  have "settled env t' f vs" using verdicts_settled(1)[OF readable step] keep by blast
  then have "verdicts_for (env\<lparr>te_post := q\<rparr>) cfg f t' w2 = (vs, t', w2)"
    unfolding settled_cong[symmetric, of env t' f vs q] by (simp add: verdicts_for_def settled_def Let_def)
  with rest keep verdicts_settled(2)[OF readable step] show ?case by (simp add: Let_def)
qed simp


definition no_models :: "unit triage_env" where
  "no_models = \<lparr>te_open_error = None, te_sha256_hex = (\<lambda>s. s), te_print = (\<lambda>vs. []),
     te_parse = (\<lambda>s. Some [failed_verdict ''m'' ''Ollama request failed'']), te_debug_str = (\<lambda>s. s), te_json = (\<lambda>s. None),
     te_f32 = (\<lambda>s. 1), te_post = (\<lambda>u j w. (Inl ''Ollama request failed'', w))\<rparr>"

definition one_model :: triage_config where
  "one_model = \<lparr>tc_models = [''m''], tc_ollama_url = [], tc_min_confidence = 7 / 10, tc_min_agreement = 1\<rparr>"


text \<open>
  An outage is remembered as a verdict: findings triaged while the models cannot be reached are suppressed,
  and stay so in every later run.
\<close>

lemma outage_suppresses:
  assumes "\<And>u j v. fst (te_post env u j v) = Inl e" and "0 < tc_min_agreement cfg" and "0 < tc_min_confidence cfg"
    and "hm_get t (evidence_hash env f) = None" and "te_open_error env = None"
  shows "\<exists>r t' w'. triage_findings env cfg [f] t w =
    (Inr \<lparr>tr_confirmed_list = [], tr_suppressed_list = [r]\<rparr>, t', w') \<and> tr_finding r = f"
proof -
  have "fst (query_model env u m f v) = Inl e" for u m v
    by (simp add: query_model_def prod.case_eq_if assms(1))
  then have q: "\<exists>w'. query_model env u m f v = (Inl e, w')" for u m v by (metis prod.collapse)
  have none: "agreement cfg (fst (query_models env cfg f ms v)) = 0" for ms v
  proof (induction ms arbitrary: v)
    case (Cons m ms)
    obtain v1 where "query_model env (tc_ollama_url cfg) m f v = (Inl e, v1)" using q by blast
    with Cons[of v1] show ?case
      using assms(3) by (simp add: agreement_def failed_verdict_def split_beta)
  qed (simp add: agreement_def)
  show ?thesis
    using none[of "tc_models cfg" w] assms(2,4,5)
    by (auto simp: triage_findings_def verdicts_for_def cache_get_def Let_def triage_result_of_def split: prod.splits)
qed

end
