(* ===== verification/Settings.thy ===== *)
theory Settings
  imports Llm Rust_Strings "HOL-Library.List_Lexorder" "HOL-Library.Char_ord"
begin

text \<open>
  The settings store \<open>crates/aether-store\<close>: loading \<open>settings.json\<close>, the update of one field, and the
  list of tools that are always allowed. The files that hold readable text are a map from paths; the JSON
  parser, which yields the tree of the text, and the printer are parameters, as are the failures of
  writing and renaming. Warnings on standard error and file modes are left out.
\<close>

section \<open>JSON values\<close>

text \<open>
  \<open>serde_json::Value\<close> keeps an object as a map sorted by key, in which the last of several entries for a
  key wins.
\<close>

fun obj_put :: "string \<Rightarrow> json \<Rightarrow> (string \<times> json) list \<Rightarrow> (string \<times> json) list" where
  "obj_put k v [] = [(k, v)]"
| "obj_put k v ((j, u) # kvs) =
     (if k < j then (k, v) # (j, u) # kvs else if k = j then (k, v) # kvs else (j, u) # obj_put k v kvs)"

fun json_value :: "json \<Rightarrow> json" where
  "json_value (JArr vs) = JArr (map json_value vs)"
| "json_value (JObj kvs) = JObj (fold (\<lambda>(k, v). obj_put k v) (map (\<lambda>(k, v). (k, json_value v)) kvs) [])"
| "json_value v = v"

section \<open>Deserialisation\<close>

record settings =
  st_default_model :: "string option"
  st_permission_mode :: "string option"
  st_always_allow_tools :: "string list"
  st_provider :: "string option"
  st_env :: "(string, string) hmap"

definition settings_default :: settings where
  "settings_default = \<lparr>st_default_model = None, st_permission_mode = None, st_always_allow_tools = [],
     st_provider = None, st_env = []\<rparr>"

definition de_opt_string :: "json option \<Rightarrow> string option option" where
  "de_opt_string v = (case v of None \<Rightarrow> Some None | Some JNull \<Rightarrow> Some None | Some (JStr s) \<Rightarrow> Some (Some s) | _ \<Rightarrow> None)"

definition de_strings :: "json option \<Rightarrow> string list option" where
  "de_strings v = (case v of None \<Rightarrow> Some [] | Some (JArr vs) \<Rightarrow> those (map json_as_str vs) | _ \<Rightarrow> None)"

definition de_string_map :: "json option \<Rightarrow> (string, string) hmap option" where
  "de_string_map v =
     (case v of
        None \<Rightarrow> Some []
      | Some (JObj kvs) \<Rightarrow>
          map_option (\<lambda>es. fold (\<lambda>(k, s). hm_put k s) es [])
            (those (map (\<lambda>(k, v). map_option (Pair k) (json_as_str v)) kvs))
      | _ \<Rightarrow> None)"

definition de_fields ::
  "json option \<Rightarrow> json option \<Rightarrow> json option \<Rightarrow> json option \<Rightarrow> json option \<Rightarrow> settings option" where
  "de_fields m p a r e =
     (case (de_opt_string m, de_opt_string p, de_strings a, de_opt_string r, de_string_map e) of
        (Some m', Some p', Some a', Some r', Some e') \<Rightarrow>
          Some \<lparr>st_default_model = m', st_permission_mode = p', st_always_allow_tools = a', st_provider = r', st_env = e'\<rparr>
      | _ \<Rightarrow> None)"

definition SETTINGS_FIELDS :: "string list" where
  "SETTINGS_FIELDS = [''default_model'', ''permission_mode'', ''always_allow_tools'', ''provider'', ''env'']"

text \<open>
  The derived deserialiser takes an object, where a known field may not occur twice and unknown ones are
  skipped, or an array of the fields in order. A missing field has its default.
\<close>

definition nth_option :: "'a list \<Rightarrow> nat \<Rightarrow> 'a option" where
  "nth_option xs i = (if i < length xs then Some (xs ! i) else None)"

fun settings_of_json :: "json \<Rightarrow> settings option" where
  "settings_of_json (JObj kvs) =
     (if list_ex (\<lambda>f. 1 < length (filter (\<lambda>kv. fst kv = f) kvs)) SETTINGS_FIELDS then None
      else de_fields (map_of kvs ''default_model'') (map_of kvs ''permission_mode'') (map_of kvs ''always_allow_tools'')
             (map_of kvs ''provider'') (map_of kvs ''env''))"
| "settings_of_json (JArr vs) =
     (if 5 < length vs then None
      else de_fields (nth_option vs 0) (nth_option vs 1) (nth_option vs 2) (nth_option vs 3) (nth_option vs 4))"
| "settings_of_json _ = None"

section \<open>Loading\<close>

record settings_env =
  se_home :: "string option"
  se_parse :: "string \<Rightarrow> json option"
  se_print :: "json \<Rightarrow> string"
  se_write_error :: "string option"
  se_rename_error :: "string option"

type_synonym text_files = "(string, string) hmap"

definition settings_path :: "settings_env \<Rightarrow> string" where
  "settings_path env = path_join (case se_home env of Some h \<Rightarrow> h | None \<Rightarrow> ''/tmp'') ''.aether/settings.json''"

definition settings_load :: "settings_env \<Rightarrow> text_files \<Rightarrow> settings" where
  "settings_load env files =
     (case hm_get files (settings_path env) of
        Some s \<Rightarrow>
          (case se_parse env s of
             Some v \<Rightarrow> (case settings_of_json v of Some st \<Rightarrow> st | None \<Rightarrow> settings_default)
           | None \<Rightarrow> settings_default)
      | None \<Rightarrow> settings_default)"

definition apply_env :: "settings \<Rightarrow> (string, string) hmap \<Rightarrow> (string, string) hmap" where
  "apply_env st vars = fold (\<lambda>(k, v) vars. if hm_get vars k = None then hm_put k v vars else vars) (st_env st) vars"

section \<open>Updating\<close>

definition settings_tmp :: "settings_env \<Rightarrow> string" where
  "settings_tmp env = settings_path env @ ''.tmp''"

definition write_value :: "settings_env \<Rightarrow> json \<Rightarrow> text_files \<Rightarrow> (string, nat) result \<times> text_files" where
  "write_value env v files =
     (let body = se_print env v in
      case se_write_error env of
        Some e \<Rightarrow> (Inl e, files)
      | None \<Rightarrow>
          (let files = hm_put (settings_tmp env) body files
           in case se_rename_error env of
                Some e \<Rightarrow> (Inl e, files)
              | None \<Rightarrow> (Inr (length body), hm_put (settings_path env) body (hm_del (settings_tmp env) files))))"

text \<open>The object an update starts from: empty when there is no file, no JSON or no object in it.\<close>

definition current_object :: "settings_env \<Rightarrow> text_files \<Rightarrow> (string \<times> json) list" where
  "current_object env files =
     (case hm_get files (settings_path env) of
        Some s \<Rightarrow>
          if str_trim s = [] then []
          else (case map_option json_value (se_parse env s) of Some (JObj kvs) \<Rightarrow> kvs | _ \<Rightarrow> [])
      | None \<Rightarrow> [])"

definition obj_entry :: "string \<Rightarrow> json \<Rightarrow> (string \<times> json) list \<Rightarrow> json \<times> (string \<times> json) list" where
  "obj_entry k d kvs = (case map_of kvs k of Some v \<Rightarrow> (v, kvs) | None \<Rightarrow> (d, obj_put k d kvs))"

definition comma_list :: "string \<Rightarrow> string list" where
  "comma_list value = filter (\<lambda>s. s \<noteq> []) (map str_trim (split_on CHR '','' value))"

definition set_field :: "string \<Rightarrow> string \<Rightarrow> (string \<times> json) list \<Rightarrow> (string, (string \<times> json) list) result" where
  "set_field key value obj =
     (if key \<in> {''default_model'', ''permission_mode'', ''provider''} then Inr (obj_put key (JStr value) obj)
      else if key = ''always_allow_tools'' then Inr (obj_put key (JArr (map JStr (comma_list value))) obj)
      else if prefix ''env.'' key then
        Inr (case obj_entry ''env'' (JObj []) obj of
               (JObj es, obj') \<Rightarrow> obj_put ''env'' (JObj (obj_put (drop 4 key) (JStr value) es)) obj'
             | (_, obj') \<Rightarrow> obj')
      else Inl (''unknown settings key '' @ [CHR 0x27] @ key @ [CHR 0x27]
        @ ''. Recognised: default_model, permission_mode, provider, always_allow_tools, env.KEY''))"

definition settings_set :: "settings_env \<Rightarrow> string \<Rightarrow> string \<Rightarrow> text_files \<Rightarrow> (string, nat) result \<times> text_files" where
  "settings_set env key value files =
     (case set_field key value (current_object env files) of
        Inl e \<Rightarrow> (Inl e, files)
      | Inr obj \<Rightarrow> write_value env (JObj obj) files)"

definition append_always_allow :: "settings_env \<Rightarrow> string \<Rightarrow> text_files \<Rightarrow> (string, bool) result \<times> text_files" where
  "append_always_allow env tool files =
     (case obj_entry ''always_allow_tools'' (JArr []) (current_object env files) of
        (JArr vs, obj) \<Rightarrow>
          if list_ex (\<lambda>v. json_as_str v = Some tool) vs then (Inr False, files)
          else apfst (map_sum id (\<lambda>_. True))
                 (write_value env (JObj (obj_put ''always_allow_tools'' (JArr (vs @ [JStr tool])) obj)) files)
      | (_, obj) \<Rightarrow> apfst (map_sum id (\<lambda>_. True)) (write_value env (JObj obj) files))"

section \<open>Paths\<close>

record store_paths =
  sp_global_root :: string
  sp_project_root :: string

definition paths_from_cwd :: "string \<Rightarrow> string \<Rightarrow> store_paths" where
  "paths_from_cwd cwd home = \<lparr>sp_global_root = path_join home ''.aether'', sp_project_root = path_join cwd ''.aether''\<rparr>"

definition settings_global :: "store_paths \<Rightarrow> string" where
  "settings_global p = path_join (sp_global_root p) ''settings.json''"

definition settings_project :: "store_paths \<Rightarrow> string" where
  "settings_project p = path_join (sp_project_root p) ''settings.json''"

definition sessions_dir :: "store_paths \<Rightarrow> string" where
  "sessions_dir p = path_join (sp_global_root p) ''projects''"

definition store_memory_dir :: "store_paths \<Rightarrow> string" where
  "store_memory_dir p = path_join (sp_global_root p) ''memory''"

section \<open>Objects sorted by key\<close>

definition sorted_obj :: "(string \<times> json) list \<Rightarrow> bool" where
  "sorted_obj kvs \<longleftrightarrow> sorted_wrt (<) (map fst kvs)"

lemma obj_put_keys: "fst ` set (obj_put k v kvs) = insert k (fst ` set kvs)"
  by (induction k v kvs rule: obj_put.induct) auto

lemma sorted_obj_put: "sorted_obj kvs \<Longrightarrow> sorted_obj (obj_put k v kvs)"
proof (induction kvs)
  case (Cons kv kvs)
  obtain j u where kv: "kv = (j, u)" by fastforce
  have "\<forall>i \<in> fst ` set (obj_put k v kvs). j < i" if "j < k"
    using that Cons.prems unfolding obj_put_keys by (auto simp: sorted_obj_def kv)
  with Cons kv show ?case by (auto simp: sorted_obj_def)
qed (simp add: sorted_obj_def)

lemma map_of_obj_put: "sorted_obj kvs \<Longrightarrow> map_of (obj_put k v kvs) = (map_of kvs)(k \<mapsto> v)"
  by (induction k v kvs rule: obj_put.induct) (auto simp: sorted_obj_def fun_eq_iff)

lemma sorted_obj_distinct: "sorted_obj kvs \<Longrightarrow> length (filter (\<lambda>kv. fst kv = f) kvs) \<le> 1"
  by (induction kvs) (auto simp: sorted_obj_def filter_empty_conv)

text \<open>Values as the library keeps them: every object sorted. Such a value is its own normal form.\<close>

fun is_value :: "json \<Rightarrow> bool" where
  "is_value (JArr vs) = (\<forall>v \<in> set vs. is_value v)"
| "is_value (JObj kvs) = (sorted_obj kvs \<and> (\<forall>(k, v) \<in> set kvs. is_value v))"
| "is_value v = True"

lemma obj_put_values: "set (obj_put k v kvs) \<subseteq> insert (k, v) (set kvs)"
  by (induction k v kvs rule: obj_put.induct) auto

lemma is_value_put:
  "is_value (JObj kvs) \<Longrightarrow> is_value v \<Longrightarrow> is_value (JObj (obj_put k v kvs))"
  using obj_put_values[of k v kvs] by (auto simp: sorted_obj_put)

lemma is_value_fold:
  "is_value (JObj acc) \<Longrightarrow> \<forall>kv \<in> set kvs. is_value (snd kv) \<Longrightarrow> is_value (JObj (fold (\<lambda>(k, v). obj_put k v) kvs acc))"
proof (induction kvs arbitrary: acc)
  case (Cons kv kvs)
  have "is_value (JObj (obj_put (fst kv) (snd kv) acc))" by (rule is_value_put) (use Cons.prems in simp_all)
  from Cons.IH[OF this] Cons.prems(2) show ?case by (simp add: split_beta del: is_value.simps)
qed simp

lemma json_value_is_value: "is_value (json_value v)"
proof (induction v rule: json_value.induct)
  case (2 kvs)
  have "\<forall>kv \<in> set (map (\<lambda>(k, v). (k, json_value v)) kvs). is_value (snd kv)" using 2 by auto
  then show ?case unfolding json_value.simps by (intro is_value_fold) (auto simp: sorted_obj_def)
qed auto

lemma current_object_value: "is_value (JObj (current_object env files))"
proof -
  have "is_value (JObj [])" by (simp add: sorted_obj_def)
  moreover have "is_value (JObj kvs)" if "json_value t = JObj kvs" for t kvs
    using json_value_is_value[of t] that by simp
  ultimately show ?thesis unfolding current_object_def by (simp del: is_value.simps split: option.split json.split)
qed

text \<open>On a sorted object the deserialiser sees only the values of its fields.\<close>

lemma settings_of_sorted:
  "sorted_obj kvs \<Longrightarrow> settings_of_json (JObj kvs) =
     de_fields (map_of kvs ''default_model'') (map_of kvs ''permission_mode'') (map_of kvs ''always_allow_tools'')
       (map_of kvs ''provider'') (map_of kvs ''env'')"
proof -
  assume "sorted_obj kvs"
  then have "\<not> 1 < length (filter (\<lambda>kv. fst kv = f) kvs)" for f using sorted_obj_distinct[of kvs f] by simp
  then show ?thesis by (simp only: settings_of_json.simps list_ex_iff) simp
qed

section \<open>What is set is what is loaded\<close>

text \<open>The effect of an update on the settings.\<close>

definition settings_updated :: "string \<Rightarrow> string \<Rightarrow> settings \<Rightarrow> settings \<Rightarrow> bool" where
  "settings_updated key value old new \<longleftrightarrow>
     (if key = ''default_model'' then new = old\<lparr>st_default_model := Some value\<rparr>
      else if key = ''permission_mode'' then new = old\<lparr>st_permission_mode := Some value\<rparr>
      else if key = ''provider'' then new = old\<lparr>st_provider := Some value\<rparr>
      else if key = ''always_allow_tools'' then new = old\<lparr>st_always_allow_tools := comma_list value\<rparr>
      else prefix ''env.'' key \<and> new = old\<lparr>st_env := st_env new\<rparr> \<and>
        hm_get (st_env new) = (hm_get (st_env old))(drop 4 key \<mapsto> value))"

text \<open>The printed text of a value is read back as this value.\<close>

definition reads_back :: "settings_env \<Rightarrow> json \<Rightarrow> bool" where
  "reads_back env v \<longleftrightarrow> se_parse env (se_print env v) = Some v"

lemma json_as_str_Some: "json_as_str v = Some s \<longleftrightarrow> v = JStr s"
  by (cases v) (simp_all add: json_as_str_def)

lemma string_entries:
  "those (map (\<lambda>(k, v). map_option (Pair k) (json_as_str v)) es) = Some ps \<Longrightarrow>
   map fst ps = map fst es \<and> (\<forall>j. map_of ps j = Option.bind (map_of es j) json_as_str) \<and> (\<forall>v \<in> snd ` set es. \<exists>s. v = JStr s)"
proof (induction es arbitrary: ps)
  case (Cons e es)
  then obtain k s ps' where "e = (k, JStr s)" "ps = (k, s) # ps'"
    "those (map (\<lambda>(k, v). map_option (Pair k) (json_as_str v)) es) = Some ps'"
    by (cases e) (auto simp: json_as_str_Some split: option.splits)
  with Cons.IH[of ps'] show ?case by (auto simp: json_as_str_def)
qed simp

lemma string_entries_total:
  "\<forall>v \<in> snd ` set es. \<exists>s. v = JStr s \<Longrightarrow> \<exists>ps. those (map (\<lambda>(k, v). map_option (Pair k) (json_as_str v)) es) = Some ps"
  by (induction es) (auto simp: json_as_str_def)

lemma hm_get_fold_pairs:
  "distinct (map fst ps) \<Longrightarrow>
   hm_get (fold (\<lambda>(k, s). hm_put k s) ps m) j = (case map_of ps j of Some s \<Rightarrow> Some s | None \<Rightarrow> hm_get m j)"
proof (induction ps arbitrary: m)
  case (Cons p ps)
  obtain a b where p: "p = (a, b)" by fastforce
  with Cons.prems have "map_of ps a = None" by (simp add: map_of_eq_None_iff)
  with Cons p show ?case by (simp add: hm.get_put split: option.split)
qed simp

lemma sorted_obj_keys: "sorted_obj es \<Longrightarrow> distinct (map fst es)"
  unfolding sorted_obj_def by (induction es) fastforce+

lemma env_of_sorted:
  assumes "sorted_obj es" and "de_string_map (Some (JObj es)) = Some m"
  shows "hm_get m j = Option.bind (map_of es j) json_as_str" and "\<forall>v \<in> snd ` set es. \<exists>s. v = JStr s"
proof -
  from assms(2) obtain ps where ps: "those (map (\<lambda>(k, v). map_option (Pair k) (json_as_str v)) es) = Some ps"
    and m: "m = fold (\<lambda>(k, s). hm_put k s) ps []" by (auto simp: de_string_map_def)
  note e = string_entries[OF ps]
  then have "distinct (map fst ps)" using sorted_obj_keys[OF assms(1)] by simp
  from hm_get_fold_pairs[OF this, of "[]" j] e show "hm_get m j = Option.bind (map_of es j) json_as_str"
    by (simp add: m split: option.splits)
  from e show "\<forall>v \<in> snd ` set es. \<exists>s. v = JStr s" by blast
qed

lemma de_fields_Some:
  "de_fields m p a r e = Some s \<longleftrightarrow> de_opt_string m = Some (st_default_model s) \<and> de_opt_string p = Some (st_permission_mode s) \<and>
     de_strings a = Some (st_always_allow_tools s) \<and> de_opt_string r = Some (st_provider s) \<and> de_string_map e = Some (st_env s)"
  by (cases s) (auto simp: de_fields_def split: option.split)

text \<open>The field of the object an update changes.\<close>

definition touched :: "string \<Rightarrow> string" where
  "touched key = (if prefix ''env.'' key then ''env'' else key)"

lemma set_field_object:
  assumes "sorted_obj kvs" and "set_field key value kvs = Inr obj"
  shows "sorted_obj obj" and "k \<noteq> touched key \<Longrightarrow> map_of obj k = map_of kvs k"
  using assms by (auto simp: set_field_def obj_entry_def touched_def sorted_obj_put map_of_obj_put
      split: if_splits option.splits json.splits)

lemma set_field_settings:
  assumes val: "is_value (JObj kvs)" and set: "set_field key value kvs = Inr obj"
    and old: "settings_of_json (JObj kvs) = Some old"
  shows "\<exists>new. settings_of_json (JObj obj) = Some new \<and> settings_updated key value old new"
proof -
  have sorted: "sorted_obj kvs" using val by simp
  note obj = set_field_object[OF sorted set]
  from old have fields: "de_fields (map_of kvs ''default_model'') (map_of kvs ''permission_mode'')
      (map_of kvs ''always_allow_tools'') (map_of kvs ''provider'') (map_of kvs ''env'') = Some old"
    by (simp only: settings_of_sorted[OF sorted])
  show ?thesis
  proof (cases "prefix ''env.'' key")
    case False
    with set consider (word) "key \<in> {''default_model'', ''permission_mode'', ''provider''}" "obj = obj_put key (JStr value) kvs"
      | (tools) "key = ''always_allow_tools''" "obj = obj_put key (JArr (map JStr (comma_list value))) kvs"
      by (auto simp: set_field_def split: if_splits)
    then show ?thesis
    proof cases
      case word
      then consider "key = ''default_model''" | "key = ''permission_mode''" | "key = ''provider''" by blast
      then show ?thesis
      proof cases
        case 1
        with fields word(2) show ?thesis unfolding settings_of_sorted[OF obj(1)]
          by (intro exI[of _ "old\<lparr>st_default_model := Some value\<rparr>"])
            (simp add: settings_updated_def de_fields_Some map_of_obj_put[OF sorted] de_opt_string_def)
      next
        case 2
        with fields word(2) show ?thesis unfolding settings_of_sorted[OF obj(1)]
          by (intro exI[of _ "old\<lparr>st_permission_mode := Some value\<rparr>"])
            (simp add: settings_updated_def de_fields_Some map_of_obj_put[OF sorted] de_opt_string_def)
      next
        case 3
        with fields word(2) show ?thesis unfolding settings_of_sorted[OF obj(1)]
          by (intro exI[of _ "old\<lparr>st_provider := Some value\<rparr>"])
            (simp add: settings_updated_def de_fields_Some map_of_obj_put[OF sorted] de_opt_string_def)
      qed
    next
      case tools
      with fields show ?thesis unfolding settings_of_sorted[OF obj(1)]
        by (intro exI[of _ "old\<lparr>st_always_allow_tools := comma_list value\<rparr>"])
          (simp add: settings_updated_def de_fields_Some map_of_obj_put[OF sorted] de_strings_def json_as_str_def
            those_map_Some comp_def)
    qed
  next
    case True
    obtain es where es: "map_of kvs ''env'' = Some (JObj es) \<or> map_of kvs ''env'' = None \<and> es = []"
      and e: "de_string_map (Some (JObj es)) = Some (st_env old)" using fields
      by (auto simp: de_fields_Some de_string_map_def split: option.splits json.splits)
    have sorted_es: "sorted_obj es" using es val map_of_SomeD[of kvs "''env''" "JObj es"] by (fastforce simp: sorted_obj_def)
    have "map_of obj ''env'' = Some (JObj (obj_put (drop 4 key) (JStr value) es))" using set es True
      by (auto simp: set_field_def obj_entry_def map_of_obj_put sorted sorted_obj_put split: if_splits)
    moreover have "snd ` set (obj_put (drop 4 key) (JStr value) es) \<subseteq> insert (JStr value) (snd ` set es)"
      using image_mono[OF obj_put_values[of "drop 4 key" "JStr value" es], of snd] by simp
    then have "\<forall>v \<in> snd ` set (obj_put (drop 4 key) (JStr value) es). \<exists>s. v = JStr s"
      using env_of_sorted(2)[OF sorted_es e] by blast
    then obtain m where m: "de_string_map (Some (JObj (obj_put (drop 4 key) (JStr value) es))) = Some m"
      using string_entries_total by (fastforce simp: de_string_map_def)
    moreover have "hm_get m = (hm_get (st_env old))(drop 4 key \<mapsto> value)"
      using env_of_sorted(1)[OF sorted_obj_put[OF sorted_es] m] env_of_sorted(1)[OF sorted_es e]
      by (auto simp: fun_eq_iff map_of_obj_put[OF sorted_es] json_as_str_def)
    moreover have "key \<notin> {''default_model'', ''permission_mode'', ''provider'', ''always_allow_tools''}" using True by auto
    ultimately show ?thesis using fields True obj(2) unfolding settings_of_sorted[OF obj(1)]
      by (intro exI[of _ "old\<lparr>st_env := m\<rparr>"]) (simp add: settings_updated_def de_fields_Some touched_def)
  qed
qed

lemma write_value_files:
  assumes "write_value env v files = (Inr n, files')"
  shows "hm_get files' (settings_path env) = Some (se_print env v)"
    and "path \<noteq> settings_path env \<Longrightarrow> path \<noteq> settings_tmp env \<Longrightarrow> hm_get files' path = hm_get files path"
  using assms by (auto simp: write_value_def Let_def hm.get_put hm.get_del split: option.splits)


text \<open>A reader and printer that know one text.\<close>

definition one_text_env :: "json \<Rightarrow> settings_env" where
  "one_text_env v = \<lparr>se_home = Some ''/h'', se_parse = (\<lambda>s. if s = ''v'' then Some v else None), se_print = (\<lambda>_. ''v''),
     se_write_error = None, se_rename_error = None\<rparr>"


text \<open>Allowing a tool twice changes nothing the second time.\<close>

lemma always_allow_twice:
  assumes "map_of (current_object env files) ''always_allow_tools'' = Some (JArr vs)" and "JStr tool \<in> set vs"
  shows "append_always_allow env tool files = (Inr False, files)"
  using assms by (auto simp: append_always_allow_def obj_entry_def list_ex_iff json_as_str_Some)

text \<open>
  A value of the wrong type is left in place and the update still reported as done: the tool is not added, and
  the environment variable is not set.
\<close>
theorem wrong_type_is_kept:
  assumes "map_of (current_object env files) ''always_allow_tools'' = Some JNull"
    and "map_of (current_object env files) ''env'' = Some JNull"
    and "se_write_error env = None" and "se_rename_error env = None"
  shows "fst (append_always_allow env tool files) = Inr True \<and>
    snd (append_always_allow env tool files) = snd (write_value env (JObj (current_object env files)) files) \<and>
    (\<exists>n. fst (settings_set env (''env.'' @ k) v files) = Inr n) \<and>
    snd (settings_set env (''env.'' @ k) v files) = snd (write_value env (JObj (current_object env files)) files)"
  using assms by (auto simp: append_always_allow_def settings_set_def set_field_def obj_entry_def write_value_def Let_def)

text \<open>An update of a file that is not JSON replaces all of it.\<close>
theorem unreadable_settings_are_replaced:
  assumes "hm_get files (settings_path env) = Some s" and "se_parse env s = None"
  shows "settings_set env ''provider'' v files = write_value env (JObj [(''provider'', JStr v)]) files"
  using assms by (simp add: settings_set_def current_object_def set_field_def)

end
