(* ===== verification/ServeGuard.thy ===== *)
theory ServeGuard
  imports Rust_Strings Llm "HOL-Library.Word"
begin

unbundle bit_operations_syntax

text \<open>
  The gates in front of the routes of \<open>aether serve\<close> (\<open>crates/aether-cli/src/main.rs\<close>): the token bucket of
  each client address, the cap on sessions, the bearer token, the tenant header, the tenant access list
  with its quotas. The state of the server (buckets, counters, files) is one record; what the operating
  system, the clock, SHA-256, the Redis server and the usage database answer is the environment. An
  \<open>Instant\<close> is a number of nanoseconds, an \<open>f64\<close> a rational number.
\<close>

section \<open>State and environment\<close>

text \<open>A header's value as \<open>to_str\<close> gives it: \<open>None\<close> where it is not visible ASCII. Names are lower case.\<close>

type_synonym header_map = "(string \<times> string option) list"

definition header_text :: "header_map \<Rightarrow> string \<Rightarrow> string option" where
  "header_text h name = Option.bind (map_of h name) id"

datatype http_body = Empty_body | Text_body string | Json_body json

record http_response =
  rp_status :: nat
  rp_headers :: "(string \<times> string) list"
  rp_body :: http_body

text \<open>One row of \<open>~/.aether/tenants.json\<close>, and the file.\<close>

record tenant_acl_row =
  ta_bearer_sha256 :: string
  ta_allowed_tenants :: "string list"
  ta_global :: bool
  ta_rpm_cap :: "nat option"
  ta_daily_cost_usd_cap :: "rat option"
  ta_active :: bool
  ta_scim_user_name :: "string option"

record tenant_acl =
  ac_version :: nat
  ac_acls :: "tenant_acl_row list"

definition default_acl_version :: nat where
  "default_acl_version = 1"

definition tenant_acl_default :: tenant_acl where
  "tenant_acl_default = \<lparr>ac_version = default_acl_version, ac_acls = []\<rparr>"

record scim_config =
  sg_version :: nat
  sg_bearer_sha256 :: string

text \<open>A configuration file: absent, not readable as such (with the error), or its contents.\<close>

datatype 'a stored = Absent | Unreadable string | Stored 'a

record scim_audit_line =
  al_action :: string
  al_target_id :: string
  al_tenant :: "string option"
  al_detail :: string

text \<open>A row of the table \<open>turns\<close>, and a telemetry span.\<close>

record usage_row =
  ur_ts :: string
  ur_session_id :: "string option"
  ur_model :: string
  ur_usage :: usage
  ur_cost_usd :: rat
  ur_tenant :: "string option"

record otel_span =
  os_name :: string
  os_route :: string
  os_method :: string
  os_status_code :: nat
  os_model :: "string option"
  os_tenant :: "string option"
  os_start_unix_nano :: nat
  os_duration_ms :: nat

text \<open>The process-wide counters: \<open>AtomicU64\<close>s.\<close>

record serve_metrics =
  mt_turns :: nat
  mt_tool_calls :: nat
  mt_tool_errors :: nat
  mt_completes :: nat
  mt_rollbacks :: nat
  mt_429 :: nat
  mt_4xx :: nat
  mt_tool_ms :: nat
  mt_labelled :: "(string \<times> bool, nat) hmap"
  mt_latency_count :: nat
  mt_latency_sum_ms :: nat
  mt_latency_buckets :: "nat list"

definition serve_metrics_zero :: serve_metrics where
  "serve_metrics_zero =
     \<lparr>mt_turns = 0, mt_tool_calls = 0, mt_tool_errors = 0, mt_completes = 0, mt_rollbacks = 0, mt_429 = 0,
      mt_4xx = 0, mt_tool_ms = 0, mt_labelled = [], mt_latency_count = 0, mt_latency_sum_ms = 0,
      mt_latency_buckets = [0, 0, 0, 0]\<rparr>"

record serve_world =
  sw_tenants :: "tenant_acl stored"
  sw_scim :: "scim_config stored"
  sw_audit :: "scim_audit_line list"
  sw_files :: "(string, string) hmap"
  sw_buckets :: "(string, nat \<times> rat) hmap"
  sw_rpm :: "(string, nat \<times> nat) hmap"
  sw_active :: nat
  sw_metrics :: serve_metrics
  sw_webhooks :: "(string \<times> json) list"
  sw_usage :: "usage_row list option"
  sw_ceiling_warned :: bool
  sw_spans :: "otel_span list"
  sw_pool :: "string list"

record serve_env =
  se_home :: "string option"
  se_no_auth :: "string option"
  se_token :: "string option"
  se_rate_backend :: "string option"
  se_multi_thread :: bool
  se_redis_incr :: "string \<Rightarrow> string \<Rightarrow> (string, int) result"
  se_redis_expire :: "string \<Rightarrow> string \<Rightarrow> (string, unit) result"
  se_sha256 :: "string \<Rightarrow> string"
  se_timestamp :: string
  se_cutoff :: string
  se_cost_ceiling :: "rat option"
  se_no_usage_db :: bool
  se_start_nanos :: nat
  se_elapsed_ms :: nat
  se_now :: nat
  se_show_usd :: "rat \<Rightarrow> string"
  se_hex_bytes :: "string \<Rightarrow> nat option"
  se_write_error :: "string \<Rightarrow> string option"
  se_remove_error :: "string \<Rightarrow> string option"
  se_save_error :: "string option"
  se_rpm_limit :: nat
  se_max_sessions :: nat

text \<open>A gate refuses with a response or passes a value; \<open>gated\<close> is the early return of a handler.\<close>

type_synonym 'a gate = "serve_world \<Rightarrow> (http_response, 'a) result \<times> serve_world"

definition gated :: "'a gate \<Rightarrow> ('a \<Rightarrow> serve_world \<Rightarrow> http_response \<times> serve_world) \<Rightarrow> serve_world \<Rightarrow> http_response \<times> serve_world" where
  "gated g k w = (case g w of (Inl r, w1) \<Rightarrow> (r, w1) | (Inr a, w1) \<Rightarrow> k a w1)"

definition bump_by :: "nat \<Rightarrow> nat \<Rightarrow> nat" where
  "bump_by k n = (n + k) mod 2 ^ 64"

definition bump :: "nat \<Rightarrow> nat" where
  "bump = bump_by 1"

definition count_429 :: "serve_world \<Rightarrow> serve_world" where
  "count_429 w = w\<lparr>sw_metrics := (sw_metrics w)\<lparr>mt_429 := bump (mt_429 (sw_metrics w))\<rparr>\<rparr>"

definition count_4xx :: "serve_world \<Rightarrow> serve_world" where
  "count_4xx w = w\<lparr>sw_metrics := (sw_metrics w)\<lparr>mt_4xx := bump (mt_4xx (sw_metrics w))\<rparr>\<rparr>"

definition count_turn :: "serve_world \<Rightarrow> serve_world" where
  "count_turn w = w\<lparr>sw_metrics := (sw_metrics w)\<lparr>mt_turns := bump (mt_turns (sw_metrics w))\<rparr>\<rparr>"

definition json_header :: "(string \<times> string) list" where
  "json_header = [(''content-type'', ''application/json'')]"

definition quoted :: "string \<Rightarrow> string" where
  "quoted s = [CHR 0x22] @ s @ [CHR 0x22]"

definition error_body :: "string \<Rightarrow> string \<Rightarrow> string" where
  "error_body kind detail =
     ''{'' @ quoted ''error'' @ '':'' @ quoted kind @ '','' @ quoted ''detail'' @ '':'' @ quoted detail @ ''}''"

text \<open>A double quote in the message gets a backslash; nothing else does.\<close>

definition escape_quotes :: "string \<Rightarrow> string" where
  "escape_quotes msg = concat (map (\<lambda>c. if c = CHR 0x22 then [CHR 0x5C, CHR 0x22] else [c]) msg)"

definition error_kind :: "nat \<Rightarrow> string" where
  "error_kind code =
     (if code = 400 then ''bad_request'' else if code = 401 then ''unauthorized''
      else if code = 404 then ''not_found'' else if code = 409 then ''conflict''
      else if code = 500 then ''internal'' else ''error'')"

definition trust_error_response :: "nat \<Rightarrow> string \<Rightarrow> serve_world \<Rightarrow> http_response \<times> serve_world" where
  "trust_error_response code msg w =
     (\<lparr>rp_status = code, rp_headers = json_header,
       rp_body = Text_body (error_body (error_kind code) (escape_quotes msg))\<rparr>,
      if 400 \<le> code \<and> code < 500 then count_4xx w else w)"

definition quota_response :: "nat \<Rightarrow> string \<Rightarrow> serve_world \<Rightarrow> http_response \<times> serve_world" where
  "quota_response code msg w =
     (\<lparr>rp_status = code, rp_headers = json_header,
       rp_body = Text_body (error_body ''quota_exceeded'' (escape_quotes msg))\<rparr>,
      count_4xx w)"

definition refuse :: "http_response \<times> serve_world \<Rightarrow> (http_response, 'a) result \<times> serve_world" where
  "refuse rw = (Inl (fst rw), snd rw)"

section \<open>The token bucket of a client address\<close>

definition extract_client_ip :: "header_map \<Rightarrow> string" where
  "extract_client_ip h =
     (case Option.bind (header_text h ''x-forwarded-for'')
             (\<lambda>s. case split_on (CHR '','') s of [] \<Rightarrow> None | p # _ \<Rightarrow> Some p) of
        Some s \<Rightarrow> str_trim s
      | None \<Rightarrow> ''unknown'')"

definition secs_f64 :: "nat \<Rightarrow> rat" where
  "secs_f64 ns = of_nat ns / 1000000000"

text \<open>\<open>Inl\<close> is the number of seconds after which to try again.\<close>

definition rate_limiter_check ::
  "nat \<Rightarrow> nat \<Rightarrow> string \<Rightarrow> (string, nat \<times> rat) hmap \<Rightarrow> (nat, unit) result \<times> (string, nat \<times> rat) hmap" where
  "rate_limiter_check rpm now ip buckets =
     (if rpm = 0 then (Inr (), buckets)
      else
        (let cap = of_nat rpm :: rat;
             refill_per_sec = cap / 60;
             entry = (case hm_get buckets ip of Some e \<Rightarrow> e | None \<Rightarrow> (now, cap));
             elapsed = secs_f64 (now - fst entry);
             tokens = min (snd entry + elapsed * refill_per_sec) cap
         in if 1 \<le> tokens then (Inr (), hm_put ip (now, tokens - 1) buckets)
            else (Inl (nat \<lceil>(1 - tokens) / refill_per_sec\<rceil>), hm_put ip (now, tokens) buckets)))"

definition rate_limited_body :: "nat \<Rightarrow> string" where
  "rate_limited_body retry =
     ''{'' @ quoted ''error'' @ '':'' @ quoted ''rate_limited'' @ '','' @
     quoted ''retry_after_secs'' @ '':'' @ show_nat retry @ ''}''"

definition rate_check :: "serve_env \<Rightarrow> string \<Rightarrow> unit gate" where
  "rate_check env ip w =
     (case rate_limiter_check (se_rpm_limit env) (se_now env) ip (sw_buckets w) of
        (Inr _, b) \<Rightarrow> (Inr (), w\<lparr>sw_buckets := b\<rparr>)
      | (Inl retry, b) \<Rightarrow>
          (Inl \<lparr>rp_status = 429, rp_headers = [(''Retry-After'', show_nat retry)],
                rp_body = Text_body (rate_limited_body retry)\<rparr>,
           count_429 (w\<lparr>sw_buckets := b\<rparr>)))"

section \<open>The cap on sessions\<close>

definition session_cap_body :: "nat \<Rightarrow> string" where
  "session_cap_body cap =
     ''{'' @ quoted ''error'' @ '':'' @ quoted ''session_cap_reached'' @ '','' @ quoted ''cap'' @ '':'' @ show_nat cap @ ''}''"

definition session_acquire :: "serve_env \<Rightarrow> unit gate" where
  "session_acquire env w =
     (let prev = sw_active w;
          w1 = w\<lparr>sw_active := prev + 1\<rparr>
      in if se_max_sessions env \<le> prev
         then (Inl \<lparr>rp_status = 503, rp_headers = [(''Retry-After'', ''5'')],
                    rp_body = Text_body (session_cap_body (se_max_sessions env))\<rparr>,
               w1\<lparr>sw_active := sw_active w1 - 1\<rparr>)
         else (Inr (), w1))"

definition session_release :: "serve_world \<Rightarrow> serve_world" where
  "session_release w = w\<lparr>sw_active := sw_active w - 1\<rparr>"

text \<open>
  Concurrently, the two atomic operations of a refused request are separate steps: the counter is in
  between one too high. A session is live from its successful acquisition until its guard is dropped.
\<close>

record cap_state =
  cs_active :: nat
  cs_live :: nat
  cs_refusing :: nat

inductive cap_step :: "nat \<Rightarrow> cap_state \<Rightarrow> cap_state \<Rightarrow> bool" for cap where
  enter: "cs_active s < cap \<Longrightarrow> cap_step cap s (s\<lparr>cs_active := cs_active s + 1, cs_live := cs_live s + 1\<rparr>)"
| refuse_first: "cap \<le> cs_active s \<Longrightarrow>
    cap_step cap s (s\<lparr>cs_active := cs_active s + 1, cs_refusing := cs_refusing s + 1\<rparr>)"
| refuse_second: "0 < cs_refusing s \<Longrightarrow>
    cap_step cap s (s\<lparr>cs_active := cs_active s - 1, cs_refusing := cs_refusing s - 1\<rparr>)"
| leave: "0 < cs_live s \<Longrightarrow> cap_step cap s (s\<lparr>cs_active := cs_active s - 1, cs_live := cs_live s - 1\<rparr>)"

inductive_cases cap_stepE: "cap_step cap s s'"

definition cap_start :: cap_state where
  "cap_start = \<lparr>cs_active = 0, cs_live = 0, cs_refusing = 0\<rparr>"

lemma cap_invariant:
  "(cap_step cap)\<^sup>*\<^sup>* cap_start s \<Longrightarrow> cs_active s = cs_live s + cs_refusing s \<and> cs_live s \<le> cap"
proof (induction rule: rtranclp_induct)
  case (step s s')
  from step.hyps(2) show ?case by (rule cap_stepE) (use step.IH in auto)
qed (simp add: cap_start_def)

text \<open>Without interference \<open>session_acquire\<close> is one entering step or the two refusing ones.\<close>

lemma session_acquire_steps:
  assumes "cs_active s = sw_active w"
  shows "case session_acquire env w of
      (Inr _, w1) \<Rightarrow> cap_step (se_max_sessions env) s
          (s\<lparr>cs_active := sw_active w1, cs_live := cs_live s + 1\<rparr>)
    | (Inl r, w1) \<Rightarrow> sw_active w1 = sw_active w \<and> rp_status r = 503 \<and>
        (\<exists>s1. cap_step (se_max_sessions env) s s1 \<and> cap_step (se_max_sessions env) s1 s)"
proof (cases "se_max_sessions env \<le> sw_active w")
  case True
  let ?s1 = "s\<lparr>cs_active := cs_active s + 1, cs_refusing := cs_refusing s + 1\<rparr>"
  have "cap_step (se_max_sessions env) s ?s1" using True assms by (intro cap_step.refuse_first) simp
  moreover have "cap_step (se_max_sessions env) ?s1 s"
    using cap_step.refuse_second[of ?s1 "se_max_sessions env"] by simp
  ultimately show ?thesis using True by (auto simp: session_acquire_def)
next
  case False
  then show ?thesis
    using cap_step.enter[of s "se_max_sessions env"] assms by (simp add: session_acquire_def)
qed

section \<open>The bearer token\<close>

definition constant_time_eq :: "string \<Rightarrow> string \<Rightarrow> bool" where
  "constant_time_eq a b =
     (if length a \<noteq> length b then False
      else fold (\<lambda>(x, y) diff. diff OR (of_char x XOR of_char y)) (zip a b) (0 :: 8 word) = 0)"

definition unauthorized_response :: http_response where
  "unauthorized_response =
     \<lparr>rp_status = 401, rp_headers = json_header,
      rp_body = Text_body (error_body ''unauthorized'' ''valid Authorization: Bearer <token> required'')\<rparr>"

definition presented_bearer :: "header_map \<Rightarrow> string" where
  "presented_bearer h =
     (case strip_prefix ''Bearer '' (case header_text h ''authorization'' of Some s \<Rightarrow> s | None \<Rightarrow> []) of
        Some s \<Rightarrow> str_trim s
      | None \<Rightarrow> [])"

definition check_bearer :: "serve_env \<Rightarrow> header_map \<Rightarrow> unit gate" where
  "check_bearer env h w =
     (if se_no_auth env = Some ''1'' then (Inr (), w)
      else (case se_token env of
              None \<Rightarrow> (Inr (), w)
            | Some expected \<Rightarrow>
                if expected = [] then (Inr (), w)
                else if constant_time_eq (presented_bearer h) expected then (Inr (), w)
                else (Inl unauthorized_response, w)))"

section \<open>Tenants\<close>

definition slug_char :: "char \<Rightarrow> bool" where
  "slug_char c \<longleftrightarrow>
     is_digit c \<or> (65 \<le> byte_of c \<and> byte_of c \<le> 90) \<or> (97 \<le> byte_of c \<and> byte_of c \<le> 122) \<or>
     c = CHR ''-'' \<or> c = CHR ''_''"

definition extract_tenant :: "header_map \<Rightarrow> string option gate" where
  "extract_tenant h w =
     (case map_of h ''x-aether-tenant'' of
        None \<Rightarrow> (Inr None, w)
      | Some raw \<Rightarrow>
          (let s = str_trim (case raw of Some t \<Rightarrow> t | None \<Rightarrow> []) in
           if s = [] then (Inr None, w)
           else if \<not> list_all slug_char s then
             refuse (trust_error_response 400 ''X-Aether-Tenant must match [A-Za-z0-9_-]+'' w)
           else (Inr (Some s), w)))"

definition load_tenant_acl :: "serve_env \<Rightarrow> serve_world \<Rightarrow> (string, tenant_acl option) result" where
  "load_tenant_acl env w =
     (case se_home env of
        None \<Rightarrow> Inl ''HOME not set''
      | Some _ \<Rightarrow>
          (case sw_tenants w of
             Absent \<Rightarrow> Inr None
           | Unreadable e \<Rightarrow> Inl e
           | Stored a \<Rightarrow> Inr (Some a)))"

text \<open>A minute's window for each bearer, kept by the first sixteen digits of its hash.\<close>

definition bearer_rpm_admit :: "serve_env \<Rightarrow> string \<Rightarrow> nat \<Rightarrow> serve_world \<Rightarrow> bool \<times> serve_world" where
  "bearer_rpm_admit env hash rpm_cap w =
     (let key = take 16 hash;
          entry = (case hm_get (sw_rpm w) key of Some e \<Rightarrow> e | None \<Rightarrow> (se_now env, 0));
          entry = (if 60 \<le> (se_now env - fst entry) div 1000000000 then (se_now env, 0) else entry)
      in if rpm_cap \<le> snd entry then (False, w\<lparr>sw_rpm := hm_put key entry (sw_rpm w)\<rparr>)
         else (True, w\<lparr>sw_rpm := hm_put key (fst entry, snd entry + 1) (sw_rpm w)\<rparr>))"

text \<open>\<open>n as u64\<close> of a negative counter is at least \<open>2 ^ 63\<close>.\<close>

definition redis_rpm_admit :: "serve_env \<Rightarrow> string \<Rightarrow> string \<Rightarrow> nat \<Rightarrow> (string, bool) result" where
  "redis_rpm_admit env url hash rpm_cap =
     (let key = ''aether:rpm:'' @ take 16 hash in
      case se_redis_incr env url key of
        Inl e \<Rightarrow> Inl e
      | Inr n \<Rightarrow>
          (case (if n = 1 then se_redis_expire env url key else Inr ()) of
             Inl e \<Rightarrow> Inl e
           | Inr _ \<Rightarrow> Inr (nat (n mod 2 ^ 64) \<le> rpm_cap)))"

definition bearer_rpm_admit_dispatch :: "serve_env \<Rightarrow> string \<Rightarrow> nat \<Rightarrow> serve_world \<Rightarrow> bool \<times> serve_world" where
  "bearer_rpm_admit_dispatch env hash rpm_cap w =
     (case se_rate_backend env of
        Some url \<Rightarrow>
          if prefix ''redis://'' url \<or> prefix ''rediss://'' url then
            (if \<not> se_multi_thread env then bearer_rpm_admit env hash rpm_cap w
             else (case redis_rpm_admit env url hash rpm_cap of
                     Inr allowed \<Rightarrow> (allowed, w)
                   | Inl _ \<Rightarrow> (True, w)))
          else bearer_rpm_admit env hash rpm_cap w
      | None \<Rightarrow> bearer_rpm_admit env hash rpm_cap w)"

definition spent_since :: "string \<Rightarrow> usage_row list \<Rightarrow> rat" where
  "spent_since cutoff rows = sum_list (map ur_cost_usd (filter (\<lambda>r. cutoff \<le> ur_ts r) rows))"

text \<open>The usage database is \<open>None\<close> where it cannot be opened; a query over no rows gives zero.\<close>

definition bearer_daily_cost_usd :: "serve_env \<Rightarrow> string option \<Rightarrow> serve_world \<Rightarrow> rat" where
  "bearer_daily_cost_usd env tenant w =
     (case sw_usage w of
        None \<Rightarrow> 0
      | Some rows \<Rightarrow>
          (case tenant of
             Some slug \<Rightarrow> spent_since (se_cutoff env) (filter (\<lambda>r. ur_tenant r = Some slug) rows)
           | None \<Rightarrow> spent_since (se_cutoff env) rows))"

text \<open>The insertion names no tenant, so its column is NULL.\<close>

definition check_cost_ceiling :: "serve_env \<Rightarrow> usage_row list \<Rightarrow> serve_world \<Rightarrow> serve_world" where
  "check_cost_ceiling env rows w =
     (case se_cost_ceiling env of
        None \<Rightarrow> w
      | Some threshold \<Rightarrow>
          if threshold \<le> 0 then w
          else if threshold \<le> spent_since (se_cutoff env) rows then w\<lparr>sw_ceiling_warned := True\<rparr>
          else w)"

definition record_turn_usage :: "serve_env \<Rightarrow> string option \<Rightarrow> string \<Rightarrow> usage \<Rightarrow> rat \<Rightarrow> serve_world \<Rightarrow> serve_world" where
  "record_turn_usage env session_id model u cost w =
     (let w1 = count_turn w in
      case sw_usage w1 of
        None \<Rightarrow> w1
      | Some rows \<Rightarrow>
          (let rows1 = rows @ [\<lparr>ur_ts = se_timestamp env, ur_session_id = session_id, ur_model = model,
                                ur_usage = u, ur_cost_usd = cost, ur_tenant = None\<rparr>]
           in check_cost_ceiling env rows1 (w1\<lparr>sw_usage := Some rows1\<rparr>)))"

definition quota_gate :: "serve_env \<Rightarrow> string \<Rightarrow> tenant_acl_row \<Rightarrow> string option \<Rightarrow> unit gate" where
  "quota_gate env hash row tenant w =
     (case (case ta_rpm_cap row of None \<Rightarrow> (True, w) | Some rpm \<Rightarrow> bearer_rpm_admit_dispatch env hash rpm w) of
        (False, w1) \<Rightarrow> refuse (quota_response 429 (''tenant rpm_cap exceeded '' @ [CHR 0xE2, CHR 0x80, CHR 0x94] @ '' slow down'') w1)
      | (True, w1) \<Rightarrow>
          (case ta_daily_cost_usd_cap row of
             None \<Rightarrow> (Inr (), w1)
           | Some cap \<Rightarrow>
               (let spent = bearer_daily_cost_usd env tenant w1 in
                if cap \<le> spent then
                  refuse (quota_response 402
                    (''tenant daily_cost_usd_cap exceeded: spent $'' @ se_show_usd env spent @ '' >= cap $'' @ se_show_usd env cap) w1)
                else (Inr (), w1))))"

definition tenant_permitted :: "tenant_acl_row \<Rightarrow> string option \<Rightarrow> bool" where
  "tenant_permitted row tenant =
     (case tenant of Some slug \<Rightarrow> list_ex (\<lambda>t. t = slug) (ta_allowed_tenants row) | None \<Rightarrow> ta_global row)"

definition tenant_denied_text :: "string option \<Rightarrow> string" where
  "tenant_denied_text tenant =
     (case tenant of
        Some slug \<Rightarrow> ''bearer not authorised for tenant '' @ [CHR 0x60] @ slug @ [CHR 0x60]
      | None \<Rightarrow> ''bearer not authorised for the no-tenant fallback (set X-Aether-Tenant)'')"

definition check_tenant_acl :: "serve_env \<Rightarrow> header_map \<Rightarrow> string option \<Rightarrow> unit gate" where
  "check_tenant_acl env h tenant w =
     (case load_tenant_acl env w of
        Inl _ \<Rightarrow> (Inr (), w)
      | Inr None \<Rightarrow> (Inr (), w)
      | Inr (Some acl) \<Rightarrow>
          if ac_acls acl = [] then (Inr (), w)
          else (let bearer = presented_bearer h in
            if bearer = [] then refuse (trust_error_response 403 ''tenants.json present but no bearer presented'' w)
            else (let hash = se_sha256 env bearer in
              case find (\<lambda>r. ta_bearer_sha256 r = hash) (ac_acls acl) of
                None \<Rightarrow> refuse (trust_error_response 403 ''bearer not in tenant ACL'' w)
              | Some row \<Rightarrow>
                  if \<not> ta_active row then
                    refuse (trust_error_response 403 ''bearer deactivated (SCIM active=false)'' w)
                  else if \<not> tenant_permitted row tenant then
                    refuse (trust_error_response 403 (tenant_denied_text tenant) w)
                  else quota_gate env hash row tenant w)))"

section \<open>Facts about the gates\<close>

lemma of_char_word_eq: "(of_char x :: 8 word) = of_char y \<longleftrightarrow> x = y"
proof
  assume "(of_char x :: 8 word) = of_char y"
  then have "(word_of_nat (of_char x) :: 8 word) = word_of_nat (of_char y)" by (simp only: of_nat_of_char)
  then have "take_bit 8 (of_char x :: nat) = take_bit 8 (of_char y)" by (simp only: word_of_nat_eq_iff) simp
  then have "(of_char x :: nat) = of_char y" by (simp add: take_bit_eq_mod)
  then show "x = y" by simp
qed simp

lemma word_xor_eq_0_iff: "(a :: 'a :: len word) XOR b = 0 \<longleftrightarrow> a = b"
proof
  assume "a XOR b = 0"
  then have "(a XOR b) XOR b = b" by simp
  then show "a = b" by (simp add: xor.assoc)
qed simp

lemma constant_time_fold:
  "fold (\<lambda>(x, y) diff. diff OR (of_char x XOR of_char y)) zs (d :: 8 word) = 0 \<longleftrightarrow>
   d = 0 \<and> (\<forall>(x, y) \<in> set zs. x = y)"
proof (induction zs arbitrary: d)
  case (Cons z zs)
  then show ?case by (cases z) (simp add: or_eq_0_iff word_xor_eq_0_iff of_char_word_eq conj_assoc)
qed simp

lemma constant_time_eq_iff: "constant_time_eq a b \<longleftrightarrow> a = b"
proof -
  have "length a = length b \<Longrightarrow> (\<forall>(x, y) \<in> set (zip a b). x = y) \<longleftrightarrow> a = b"
    by (induction a b rule: list_induct2) auto
  then show ?thesis unfolding constant_time_eq_def constant_time_fold by auto
qed

text \<open>One client address, as the bucket sees it.\<close>

definition bucket_tokens :: "nat \<Rightarrow> nat \<Rightarrow> string \<Rightarrow> (string, nat \<times> rat) hmap \<Rightarrow> rat" where
  "bucket_tokens rpm now ip b =
     (case hm_get b ip of
        None \<Rightarrow> of_nat rpm
      | Some (t, k) \<Rightarrow> min (k + secs_f64 (now - t) * (of_nat rpm / 60)) (of_nat rpm))"

lemma rate_limiter_check_tokens:
  assumes "0 < rpm"
  shows "rate_limiter_check rpm now ip b =
    (let tokens = bucket_tokens rpm now ip b in
     if 1 \<le> tokens then (Inr (), hm_put ip (now, tokens - 1) b)
     else (Inl (nat \<lceil>(1 - tokens) / (of_nat rpm / 60)\<rceil>), hm_put ip (now, tokens) b))"
  using assms by (simp add: rate_limiter_check_def bucket_tokens_def secs_f64_def Let_def split: option.splits)

text \<open>Requests in the order the lock of the buckets gives them, and how many of one address pass.\<close>

fun rate_run ::
  "nat \<Rightarrow> (nat \<times> string) list \<Rightarrow> (string, nat \<times> rat) hmap \<Rightarrow> bool list \<times> (string, nat \<times> rat) hmap" where
  "rate_run rpm [] b = ([], b)"
| "rate_run rpm ((now, ip) # rs) b =
     (case rate_limiter_check rpm now ip b of
        (r, b1) \<Rightarrow> (case rate_run rpm rs b1 of (oks, b2) \<Rightarrow> ((\<not> isl r) # oks, b2)))"

definition admitted :: "string \<Rightarrow> (nat \<times> string) list \<Rightarrow> bool list \<Rightarrow> nat" where
  "admitted ip rs oks = length (filter (\<lambda>(r, ok). snd r = ip \<and> ok) (zip rs oks))"

text \<open>The bucket of an address holds at most \<open>rpm\<close> tokens and was filled no later than now.\<close>

definition bucket_ok :: "nat \<Rightarrow> nat \<Rightarrow> (nat \<times> rat) option \<Rightarrow> bool" where
  "bucket_ok rpm now e = (case e of None \<Rightarrow> True | Some (t, k) \<Rightarrow> t \<le> now \<and> 0 \<le> k \<and> k \<le> of_nat rpm)"

lemma bucket_tokens_bounds:
  assumes "bucket_ok rpm now (hm_get b ip)"
  shows "0 \<le> bucket_tokens rpm now ip b" "bucket_tokens rpm now ip b \<le> of_nat rpm"
  using assms by (auto simp: bucket_tokens_def bucket_ok_def secs_f64_def split: option.splits)

lemma bucket_tokens_later:
  assumes "now \<le> now'"
  shows "bucket_tokens rpm now' ip b \<le> bucket_tokens rpm now ip b + secs_f64 (now' - now) * (of_nat rpm / 60)"
proof (cases "hm_get b ip")
  case None
  then show ?thesis by (simp add: bucket_tokens_def secs_f64_def)
next
  case (Some e)
  obtain t k where e: "e = (t, k)" by fastforce
  have "secs_f64 (now' - t) \<le> secs_f64 (now - t) + secs_f64 (now' - now)"
    using assms by (simp add: secs_f64_def divide_simps flip: of_nat_add)
  then have "secs_f64 (now' - t) * (of_nat rpm / 60) \<le> (secs_f64 (now - t) + secs_f64 (now' - now)) * (of_nat rpm / 60)"
    by (rule mult_right_mono) simp
  moreover have "0 \<le> secs_f64 (now' - now) * (of_nat rpm / 60)" by (simp add: secs_f64_def)
  ultimately show ?thesis using Some e by (simp add: bucket_tokens_def distrib_right)
qed


lemma hm_get_put [simp]: "hm_get (hm_put k v m) j = (if j = k then Some v else hm_get m j)"
  by (simp add: hm_get_def hm_put_def update_conv')

lemma rate_step:
  assumes "0 < rpm" and "rate_limiter_check rpm now ip' b = (r, b1)" and "bucket_ok rpm now (hm_get b ip')"
  shows "bucket_tokens rpm now ip b1 = bucket_tokens rpm now ip b - (if ip' = ip \<and> \<not> isl r then 1 else 0)"
    and "bucket_ok rpm now (hm_get b ip) \<Longrightarrow> bucket_ok rpm now (hm_get b1 ip)"
  using assms bucket_tokens_bounds[OF assms(3)]
  by (auto simp: rate_limiter_check_tokens Let_def bucket_tokens_def[of _ _ _ b1] bucket_ok_def secs_f64_def
      split: if_splits) (auto simp: bucket_tokens_def)

lemma bucket_ok_later: "bucket_ok rpm now e \<Longrightarrow> now \<le> now' \<Longrightarrow> bucket_ok rpm now' e"
  by (auto simp: bucket_ok_def split: option.splits)

lemma rate_run_bound:
  assumes "0 < rpm" and "\<forall>j. bucket_ok rpm t0 (hm_get b j)" and "sorted (map fst rs)"
    and "\<forall>(t, _) \<in> set rs. t0 \<le> t \<and> t \<le> T" and "t0 \<le> T"
    and "rate_run rpm rs b = (oks, b2)"
  shows "of_nat (admitted ip rs oks) \<le> bucket_tokens rpm t0 ip b + secs_f64 (T - t0) * (of_nat rpm / 60)"
  using assms
proof (induction rs arbitrary: t0 b oks)
  case Nil
  then show ?case using bucket_tokens_bounds[of rpm t0 b ip] by (simp add: admitted_def secs_f64_def)
next
  case (Cons q rs)
  obtain now ip' where q: "q = (now, ip')" by fastforce
  obtain r b1 where step: "rate_limiter_check rpm now ip' b = (r, b1)" by fastforce
  obtain oks' where rest: "rate_run rpm rs b1 = (oks', b2)" and oks: "oks = (\<not> isl r) # oks'"
    using Cons.prems(6) by (auto simp: q step split: prod.splits)
  have t: "t0 \<le> now" "now \<le> T" using Cons.prems(4) by (auto simp: q)
  have ok: "\<forall>j. bucket_ok rpm now (hm_get b j)" using Cons.prems(2) t(1) bucket_ok_later by blast
  note st = rate_step[OF Cons.prems(1) step spec[OF ok]]
  have "of_nat (admitted ip rs oks') \<le> bucket_tokens rpm now ip b1 + secs_f64 (T - now) * (of_nat rpm / 60)"
  proof (rule Cons.IH[OF Cons.prems(1) _ _ _ t(2) rest])
    show "\<forall>j. bucket_ok rpm now (hm_get b1 j)" using st(2) ok by blast
    show "sorted (map fst rs)" using Cons.prems(3) by simp
    show "\<forall>(t, _) \<in> set rs. now \<le> t \<and> t \<le> T" using Cons.prems(3,4) by (fastforce simp: q)
  qed
  moreover have "admitted ip (q # rs) oks = (if ip' = ip \<and> \<not> isl r then 1 else 0) + admitted ip rs oks'"
    by (simp add: admitted_def q oks)
  ultimately have "of_nat (admitted ip (q # rs) oks) \<le> bucket_tokens rpm now ip b + secs_f64 (T - now) * (of_nat rpm / 60)"
    using st(1)[of ip] by (auto split: if_splits)
  also have "\<dots> \<le> bucket_tokens rpm t0 ip b + (secs_f64 (now - t0) + secs_f64 (T - now)) * (of_nat rpm / 60)"
    using bucket_tokens_later[OF t(1), of rpm ip b] by (simp add: distrib_right add_divide_distrib)
  also have "secs_f64 (now - t0) + secs_f64 (T - now) = secs_f64 (T - t0)"
    using t by (simp add: secs_f64_def flip: add_divide_distrib of_nat_add)
  finally show ?case .
qed

lemma bucket_tokens_put:
  "bucket_tokens rpm now' ip (hm_put ip (now, k) b) = min (k + secs_f64 (now' - now) * (of_nat rpm / 60)) (of_nat rpm)"
  by (simp add: bucket_tokens_def)

lemma retry_promise:
  assumes "0 < rpm" and "rate_limiter_check rpm now ip b = (Inl retry, b1)" and "now + retry * 1000000000 \<le> now'"
  shows "\<not> isl (fst (rate_limiter_check rpm now' ip b1))"
proof -
  let ?tok = "bucket_tokens rpm now ip b" and ?r = "of_nat rpm / 60 :: rat"
  have tok: "\<not> 1 \<le> ?tok" and retry: "retry = nat \<lceil>(1 - ?tok) / ?r\<rceil>" and b1: "b1 = hm_put ip (now, ?tok) b"
    using assms(1,2) by (auto simp: rate_limiter_check_tokens Let_def split: if_splits)
  have "(1 - ?tok) / ?r \<le> of_nat retry"
    unfolding retry by (meson le_of_int_ceiling of_nat_nat order_trans of_nat_ceiling)
  also have "\<dots> \<le> secs_f64 (now' - now)"
  proof -
    have "of_nat (retry * 1000000000) \<le> (of_nat (now' - now) :: rat)" using assms(3) by (intro of_nat_mono) simp
    then show ?thesis by (simp add: secs_f64_def field_simps)
  qed
  finally have "1 - ?tok \<le> secs_f64 (now' - now) * ?r" using assms(1) by (simp add: field_simps)
  then have "1 \<le> bucket_tokens rpm now' ip b1" using assms(1) by (simp add: b1 bucket_tokens_put field_simps)
  then show ?thesis using assms(1) by (simp add: rate_limiter_check_tokens)
qed


section \<open>Properties of the gates\<close>



text \<open>
  The \<open>Retry-After\<close> of a throttled request is honest: the next request of that address, at or after the
  promised time, is admitted.
\<close>
theorem retry_after_is_honest:
  assumes "0 < rpm" and "rate_limiter_check rpm now ip b = (Inl retry, b1)" and "now + retry * 1000000000 \<le> now'"
  shows "\<not> isl (fst (rate_limiter_check rpm now' ip b1))"
  using retry_promise[OF assms] .

lemma retry_after_is_honest_witness:
  "\<not> isl (fst (rate_limiter_check 1 60000000000 ''a'' (hm_put ''a'' (0, 0) [])))"
  by (rule retry_after_is_honest[where b = "[(''a'', (0, 0))]" and now = 0 and retry = 60])
    (simp_all add: rate_limiter_check_def hm_get_def hm_put_def secs_f64_def)



text \<open>The witness state is one where a free slot is refused, because a refusal has not been undone yet.\<close>

lemma spurious_refusal:
  "(\<forall>s'. \<not> (cap_step 1 \<lparr>cs_active = 1, cs_live = 0, cs_refusing = 1\<rparr> s' \<and> cs_live s' = 1))"
  by (auto elim!: cap_stepE)

text \<open>Turns recorded one after the other, each with its own clock.\<close>

fun record_turns ::
  "(serve_env \<times> string option \<times> string \<times> usage \<times> rat) list \<Rightarrow> serve_world \<Rightarrow> serve_world" where
  "record_turns [] w = w"
| "record_turns ((env, sid, model, u, cost) # ts) w = record_turns ts (record_turn_usage env sid model u cost w)"

definition untenanted :: "serve_world \<Rightarrow> bool" where
  "untenanted w = (case sw_usage w of None \<Rightarrow> True | Some rows \<Rightarrow> \<forall>r \<in> set rows. ur_tenant r = None)"

lemma check_cost_ceiling_frame [simp]: "sw_usage (check_cost_ceiling env rows w) = sw_usage w"
  by (simp add: check_cost_ceiling_def split: option.splits)

lemma record_turn_untenanted: "untenanted w \<Longrightarrow> untenanted (record_turn_usage env sid model u cost w)"
  by (auto simp: untenanted_def record_turn_usage_def count_turn_def Let_def split: option.splits)

lemma record_turns_untenanted: "untenanted w \<Longrightarrow> untenanted (record_turns ts w)"
  by (induction ts w rule: record_turns.induct) (auto intro: record_turn_untenanted)

lemma untenanted_cost: "untenanted w \<Longrightarrow> bearer_daily_cost_usd env (Some slug) w = 0"
proof -
  have "(\<forall>r \<in> set rows. ur_tenant r = None) \<Longrightarrow> filter (\<lambda>r. ur_tenant r = Some slug) rows = []" for rows
    by (auto simp: filter_empty_conv)
  then show "untenanted w \<Longrightarrow> bearer_daily_cost_usd env (Some slug) w = 0"
    by (simp add: untenanted_def bearer_daily_cost_usd_def spent_since_def split: option.splits)
qed

text \<open>
  The daily cost cap of a tenant never takes effect: the turns the server records carry no tenant, so from
  a database without tenant rows the spending of every tenant stays zero whatever turns are recorded, and the
  quota gate lets every request of a bearer with a positive cost cap (and no request cap) through.
\<close>
theorem tenant_cost_cap_is_dead:
  assumes "untenanted w" and "ta_daily_cost_usd_cap row = Some cap" and "0 < cap" and "ta_rpm_cap row = None"
  shows "bearer_daily_cost_usd env (Some slug) (record_turns ts w) = 0 \<and>
         fst (quota_gate env hash row (Some slug) (record_turns ts w)) = Inr ()"
  using untenanted_cost[OF record_turns_untenanted[OF assms(1)]] assms(2-4)
  by (simp add: quota_gate_def)

definition idle_world :: serve_world where
  "idle_world =
     \<lparr>sw_tenants = Absent, sw_scim = Absent, sw_audit = [], sw_files = [], sw_buckets = [], sw_rpm = [],
      sw_active = 0, sw_metrics = serve_metrics_zero, sw_webhooks = [],
      sw_usage = Some [], sw_ceiling_warned = False, sw_spans = [], sw_pool = []\<rparr>"

definition plain_serve_env :: serve_env where
  "plain_serve_env =
     \<lparr>se_home = Some ''/home/u'', se_no_auth = None, se_token = Some ''secret'', se_rate_backend = None,
      se_multi_thread = True, se_redis_incr = (\<lambda>_ _. Inl ''down''), se_redis_expire = (\<lambda>_ _. Inl ''down''),
      se_sha256 = (\<lambda>s. s), se_timestamp = ''2026-01-01'', se_cutoff = ''2025-12-31'', se_cost_ceiling = None,
      se_no_usage_db = False, se_start_nanos = 0, se_elapsed_ms = 0, se_now = 0, se_show_usd = (\<lambda>_. ''0''),
      se_hex_bytes = (\<lambda>_. None), se_write_error = (\<lambda>_. None), se_remove_error = (\<lambda>_. None),
      se_save_error = None, se_rpm_limit = 60, se_max_sessions = 32\<rparr>"

definition acme_row :: tenant_acl_row where
  "acme_row =
     \<lparr>ta_bearer_sha256 = ''acme-token'', ta_allowed_tenants = [''acme''], ta_global = False, ta_rpm_cap = None,
      ta_daily_cost_usd_cap = Some 1, ta_active = True, ta_scim_user_name = None\<rparr>"

lemma tenant_cost_cap_is_dead_witness:
  "bearer_daily_cost_usd plain_serve_env (Some ''acme'')
      (record_turns [(plain_serve_env, Some ''serve-http'', ''opus'', usage_default, 1000)] idle_world) = 0 \<and>
   fst (quota_gate plain_serve_env ''acme-token'' acme_row (Some ''acme'')
      (record_turns [(plain_serve_env, Some ''serve-http'', ''opus'', usage_default, 1000)] idle_world)) = Inr ()"
  by (rule tenant_cost_cap_is_dead[where cap = 1]) (simp_all add: untenanted_def idle_world_def acme_row_def)

end
