(* ===== verification/ServeRoutes.thy ===== *)
theory ServeRoutes
  imports ServeGuard Drivers
begin

text \<open>
  The routes of \<open>aether serve\<close> behind the gates of \<open>ServeGuard\<close> (\<open>crates/aether-cli/src/main.rs\<close>): the plugin
  trust keychains (with \<open>load_trust_keychain_for\<close> of \<open>crates/aether-plugin/src/lib.rs\<close>), rollback, the one-shot
  message turn, the WebSocket upgrade, the provider pool and the metrics.
\<close>

section \<open>Trust keychains\<close>

definition trust_keychain_path :: "serve_env \<Rightarrow> string option" where
  "trust_keychain_path env = map_option (\<lambda>h. path_join h ''.aether/plugin-trust.txt'') (se_home env)"

definition trust_keychain_path_for :: "serve_env \<Rightarrow> string option \<Rightarrow> string option" where
  "trust_keychain_path_for env tenant =
     (case (case tenant of Some s \<Rightarrow> if s \<noteq> [] then Some s else None | None \<Rightarrow> None) of
        None \<Rightarrow> trust_keychain_path env
      | Some slug \<Rightarrow>
          if \<not> list_all slug_char slug then None
          else map_option
                 (\<lambda>h. path_join (path_join (path_join h ''.aether/tenants'') slug) ''plugin-trust.txt'')
                 (se_home env))"

definition keychain_line :: "string \<Rightarrow> string list \<Rightarrow> string list" where
  "keychain_line line out =
     (let trimmed = str_trim line in
      if trimmed = [] \<or> prefix ''#'' trimmed then out
      else if trimmed \<in> set out then out else out @ [trimmed])"

definition parse_keychain :: "string \<Rightarrow> string list" where
  "parse_keychain content = fold keychain_line (str_lines content) []"

definition load_trust_keychain_for :: "serve_env \<Rightarrow> string option \<Rightarrow> serve_world \<Rightarrow> string list" where
  "load_trust_keychain_for env tenant w =
     (case trust_keychain_path_for env tenant of
        None \<Rightarrow> []
      | Some path \<Rightarrow>
          (case hm_get (sw_files w) path of
             None \<Rightarrow> []
           | Some content \<Rightarrow> parse_keychain content))"

text \<open>The four gates of these routes, in their order.\<close>

definition rate_gate :: "serve_env \<Rightarrow> header_map \<Rightarrow> unit gate" where
  "rate_gate env h = rate_check env (extract_client_ip h)"

definition tenant_gates ::
  "serve_env \<Rightarrow> header_map \<Rightarrow> (string option \<Rightarrow> serve_world \<Rightarrow> http_response \<times> serve_world) \<Rightarrow>
   serve_world \<Rightarrow> http_response \<times> serve_world" where
  "tenant_gates env h k =
     gated (check_bearer env h) (\<lambda>_.
       gated (extract_tenant h) (\<lambda>tenant.
         gated (check_tenant_acl env h tenant) (\<lambda>_. k tenant)))"

definition ok_response :: "http_body \<Rightarrow> http_response" where
  "ok_response body = \<lparr>rp_status = 200, rp_headers = json_header, rp_body = body\<rparr>"

definition status_body :: "string \<Rightarrow> string" where
  "status_body st = ''{'' @ quoted ''status'' @ '':'' @ quoted st @ ''}''"

definition trust_list_handler :: "serve_env \<Rightarrow> header_map \<Rightarrow> serve_world \<Rightarrow> http_response \<times> serve_world" where
  "trust_list_handler env h =
     gated (rate_gate env h) (\<lambda>_. tenant_gates env h (\<lambda>tenant w.
       (ok_response (Json_body (JObj
          [(''keys'', JArr (map JStr (load_trust_keychain_for env tenant w))),
           (''path'', JStr (case trust_keychain_path_for env tenant of Some p \<Rightarrow> p | None \<Rightarrow> ''<HOME unset>''))])), w)))"

definition file_write :: "serve_env \<Rightarrow> string \<Rightarrow> string \<Rightarrow> serve_world \<Rightarrow> (string, serve_world) result" where
  "file_write env path content w =
     (case se_write_error env path of
        Some e \<Rightarrow> Inl e
      | None \<Rightarrow> Inr (w\<lparr>sw_files := hm_put path content (sw_files w)\<rparr>))"

definition spawn_webhook :: "string \<Rightarrow> json \<Rightarrow> serve_world \<Rightarrow> serve_world" where
  "spawn_webhook event payload w = w\<lparr>sw_webhooks := sw_webhooks w @ [(event, payload)]\<rparr>"

definition opt_json :: "string option \<Rightarrow> json" where
  "opt_json t = (case t of Some s \<Rightarrow> JStr s | None \<Rightarrow> JNull)"

definition appended_keychain :: "string \<Rightarrow> string \<Rightarrow> string" where
  "appended_keychain content key =
     (if content \<noteq> [] \<and> last content \<noteq> CHR 0x0A then content @ nl else content) @ key @ nl"

definition trust_add :: "serve_env \<Rightarrow> string \<Rightarrow> string option \<Rightarrow> serve_world \<Rightarrow> http_response \<times> serve_world" where
  "trust_add env public_key tenant w =
     (let key = str_trim public_key in
      if key = [] \<or> se_hex_bytes env key \<noteq> Some 32 then
        trust_error_response 400 ''key must be 32-byte hex-encoded ed25519 public key'' w
      else (case trust_keychain_path_for env tenant of
              None \<Rightarrow> trust_error_response 500 ''HOME not set or bad tenant slug'' w
            | Some path \<Rightarrow>
                if key \<in> set (load_trust_keychain_for env tenant w) then
                  trust_error_response 409 ''key already trusted'' w
                else
                  (let content = (case hm_get (sw_files w) path of Some c \<Rightarrow> c | None \<Rightarrow> []) in
                   case file_write env path (appended_keychain content key) w of
                     Inl e \<Rightarrow> trust_error_response 500 (''write '' @ path @ '': '' @ e) w
                   | Inr w1 \<Rightarrow>
                       (ok_response (Text_body (status_body ''added'')),
                        spawn_webhook ''trust-add''
                          (JObj [(''key'', JStr key), (''tenant'', opt_json tenant), (''path'', JStr path)]) w1))))"

definition trust_add_handler ::
  "serve_env \<Rightarrow> header_map \<Rightarrow> string \<Rightarrow> serve_world \<Rightarrow> http_response \<times> serve_world" where
  "trust_add_handler env h public_key =
     gated (rate_gate env h) (\<lambda>_. tenant_gates env h (trust_add env public_key))"

definition removed_body :: "nat \<Rightarrow> nat \<Rightarrow> string" where
  "removed_body removed remaining =
     ''{'' @ quoted ''status'' @ '':'' @ quoted ''removed'' @ '','' @ quoted ''removed'' @ '':'' @ show_nat removed @
     '','' @ quoted ''remaining'' @ '':'' @ show_nat remaining @ ''}''"

definition trust_remove :: "serve_env \<Rightarrow> string \<Rightarrow> string option \<Rightarrow> serve_world \<Rightarrow> http_response \<times> serve_world" where
  "trust_remove env raw_prefix tenant w =
     (let pre = str_trim raw_prefix in
      if pre = [] then trust_error_response 400 ''empty prefix'' w
      else (case trust_keychain_path_for env tenant of
              None \<Rightarrow> trust_error_response 500 ''HOME not set or bad tenant slug'' w
            | Some path \<Rightarrow>
                (let existing = load_trust_keychain_for env tenant w;
                     kept = filter (\<lambda>k. \<not> prefix pre k) existing;
                     removed = length existing - length kept
                 in if removed = 0 then
                      trust_error_response 404 (''no trusted key starts with '' @ [CHR 0x27] @ pre @ [CHR 0x27]) w
                    else
                      (case file_write env path (concat (map (\<lambda>k. k @ nl) kept)) w of
                         Inl e \<Rightarrow> trust_error_response 500 (''write '' @ path @ '': '' @ e) w
                       | Inr w1 \<Rightarrow>
                           (ok_response (Text_body (removed_body removed (length kept))),
                            spawn_webhook ''trust-remove''
                              (JObj [(''prefix'', JStr pre), (''tenant'', opt_json tenant),
                                     (''removed'', JNum (show_nat removed)),
                                     (''remaining'', JNum (show_nat (length kept)))]) w1)))))"

definition trust_remove_handler ::
  "serve_env \<Rightarrow> header_map \<Rightarrow> string \<Rightarrow> serve_world \<Rightarrow> http_response \<times> serve_world" where
  "trust_remove_handler env h raw_prefix =
     gated (rate_gate env h) (\<lambda>_. tenant_gates env h (trust_remove env raw_prefix))"

section \<open>Rollback\<close>

record rollback_request =
  rq_file_path :: string
  rq_original_contents :: "string option"
  rq_did_not_exist :: bool

text \<open>No tenant gate here: the token alone decides.\<close>

definition rollback :: "serve_env \<Rightarrow> rollback_request \<Rightarrow> serve_world \<Rightarrow> http_response \<times> serve_world" where
  "rollback env req w =
     (let path = rq_file_path req in
      if \<not> prefix ''/'' path then trust_error_response 400 ''file_path must be absolute'' w
      else if rq_did_not_exist req then
        (case se_remove_error env path of
           Some e \<Rightarrow> trust_error_response 500 (''remove '' @ path @ '': '' @ e) w
         | None \<Rightarrow>
             (case hm_get (sw_files w) path of
                None \<Rightarrow> (ok_response (Text_body (status_body ''already_absent'')), w)
              | Some _ \<Rightarrow>
                  (ok_response (Text_body (status_body ''removed'')),
                   spawn_webhook ''rollback'' (JObj [(''file_path'', JStr path), (''mode'', JStr ''removed'')])
                     (w\<lparr>sw_files := hm_del path (sw_files w)\<rparr>))))
      else
        (case rq_original_contents req of
           None \<Rightarrow> trust_error_response 400 ''original_contents required when did_not_exist=false'' w
         | Some contents \<Rightarrow>
             (case file_write env path contents w of
                Inl e \<Rightarrow> trust_error_response 500 (''write '' @ path @ '': '' @ e) w
              | Inr w1 \<Rightarrow> (ok_response (Text_body (status_body ''restored'')), w1))))"

definition count_rollback :: "serve_world \<Rightarrow> serve_world" where
  "count_rollback w = w\<lparr>sw_metrics := (sw_metrics w)\<lparr>mt_rollbacks := bump (mt_rollbacks (sw_metrics w))\<rparr>\<rparr>"

definition rollback_handler ::
  "serve_env \<Rightarrow> header_map \<Rightarrow> rollback_request \<Rightarrow> serve_world \<Rightarrow> http_response \<times> serve_world" where
  "rollback_handler env h req w =
     gated (rate_gate env h) (\<lambda>_. gated (check_bearer env h) (\<lambda>_. rollback env req)) (count_rollback w)"

definition admin_reload_pool_handler :: "serve_env \<Rightarrow> header_map \<Rightarrow> serve_world \<Rightarrow> http_response \<times> serve_world" where
  "admin_reload_pool_handler env h =
     gated (check_bearer env h) (\<lambda>_ w. (ok_response (Text_body (status_body ''reloaded'')), w\<lparr>sw_pool := []\<rparr>))"

section \<open>Turns over HTTP\<close>

record serve_request =
  sq_prompt :: string
  sq_model :: "string option"

text \<open>The calls of \<open>otel_emit_span\<close> are logged.\<close>

definition emit_span ::
  "serve_env \<Rightarrow> string \<Rightarrow> string \<Rightarrow> nat \<Rightarrow> string option \<Rightarrow> string option \<Rightarrow> serve_world \<Rightarrow> serve_world" where
  "emit_span env mthd route status model tenant w =
     w\<lparr>sw_spans := sw_spans w @ [\<lparr>os_name = mthd @ '' '' @ route, os_route = route, os_method = mthd,
       os_status_code = status, os_model = model, os_tenant = tenant,
       os_start_unix_nano = se_start_nanos env, os_duration_ms = se_elapsed_ms env\<rparr>]\<rparr>"

definition gate_value :: "(http_response, 'a option) result \<Rightarrow> 'a option" where
  "gate_value r = (case r of Inr v \<Rightarrow> v | Inl _ \<Rightarrow> None)"

text \<open>The usage a turn's session ends with, for the row of the database.\<close>

definition turn_usage :: "'w driver_env \<Rightarrow> string \<Rightarrow> permission_mode \<Rightarrow> string \<Rightarrow> 'w \<Rightarrow> (string \<times> usage) option" where
  "turn_usage de model mode prompt aw =
     (case open_session de model mode aw of
        (Inl e, aw1) \<Rightarrow> None
      | (Inr s, aw1) \<Rightarrow>
          (case serve_turns de (Some prompt) s None aw1 of
             Some (Inr (final, s1), aw2) \<Rightarrow> Some (cfg_model (ss_config s1), ss_usage_total s1)
           | _ \<Rightarrow> None))"

definition record_serve_usage :: "serve_env \<Rightarrow> string \<Rightarrow> (string \<times> usage) option \<Rightarrow> serve_world \<Rightarrow> serve_world" where
  "record_serve_usage env label mu w =
     (case mu of
        None \<Rightarrow> w
      | Some (model, u) \<Rightarrow>
          if \<not> se_no_usage_db env \<and> 0 < input_tokens u + output_tokens u
          then record_turn_usage env (Some label) model u (estimate_cost_usd model u) w else w)"

definition response_json :: "(rat \<Rightarrow> string) \<Rightarrow> serve_response \<Rightarrow> json" where
  "response_json show_f64 r =
     JObj [(''text'', JStr (sr_text r)), (''tokens_in'', JNum (show_nat (sr_tokens_in r))),
           (''tokens_out'', JNum (show_nat (sr_tokens_out r))), (''cost_usd'', JNum (show_f64 (sr_cost_usd r))),
           (''error'', opt_json (sr_error r))]"

definition failed_turn :: "string \<Rightarrow> serve_response" where
  "failed_turn e = \<lparr>sr_text = [], sr_tokens_in = 0, sr_tokens_out = 0, sr_cost_usd = 0, sr_error = Some e\<rparr>"

text \<open>
  The handler of \<open>POST /v1/messages\<close>. The session guard is dropped when the handler returns. A turn
  that never ends gives \<open>None\<close>. No bearer token and no access list is looked at.
\<close>

definition messages_turn ::
  "serve_env \<Rightarrow> 'w driver_env \<Rightarrow> (rat \<Rightarrow> string) \<Rightarrow> string \<Rightarrow> permission_mode \<Rightarrow> string option \<Rightarrow> serve_request \<Rightarrow>
   serve_world \<Rightarrow> 'w \<Rightarrow> ((http_response \<times> serve_world) \<times> 'w) option" where
  "messages_turn env de show_f64 default_model mode tenant req w aw =
     (let model = (case sq_model req of Some m \<Rightarrow> m | None \<Rightarrow> default_model) in
      case serve_one_turn de model mode (sq_prompt req) aw of
        None \<Rightarrow> None
      | Some (res, aw1) \<Rightarrow>
          (let (body, status) = (case res of Inr r \<Rightarrow> (r, 200) | Inl e \<Rightarrow> (failed_turn e, 500));
               w1 = record_serve_usage env ''serve-http'' (turn_usage de model mode (sq_prompt req) aw) w;
               w2 = emit_span env ''POST'' ''/v1/messages'' status (Some model) tenant w1
           in Some ((\<lparr>rp_status = status, rp_headers = json_header,
                      rp_body = Json_body (response_json show_f64 body)\<rparr>, session_release w2), aw1)))"

definition post_messages_handler ::
  "serve_env \<Rightarrow> 'w driver_env \<Rightarrow> (rat \<Rightarrow> string) \<Rightarrow> string \<Rightarrow> permission_mode \<Rightarrow> header_map \<Rightarrow> serve_request \<Rightarrow>
   serve_world \<Rightarrow> 'w \<Rightarrow> ((http_response \<times> serve_world) \<times> 'w) option" where
  "post_messages_handler env de show_f64 default_model mode h req w aw =
     (case extract_tenant h w of
        (t, w0) \<Rightarrow>
          (let tenant = gate_value t in
           case rate_gate env h w0 of
             (Inl resp, w1) \<Rightarrow>
               Some ((resp, emit_span env ''POST'' ''/v1/messages'' (rp_status resp) None tenant w1), aw)
           | (Inr _, w1) \<Rightarrow>
               (case session_acquire env w1 of
                  (Inl resp, w2) \<Rightarrow>
                    Some ((resp, emit_span env ''POST'' ''/v1/messages'' (rp_status resp) None tenant w2), aw)
                | (Inr _, w2) \<Rightarrow> messages_turn env de show_f64 default_model mode tenant req w2 aw)))"

text \<open>
  The upgrade of \<open>GET /ws/chat\<close>. On success the session stays counted until the connection ends. The
  refusal of the token has its own response, without a content type, and drops the guard.
\<close>

definition ws_chat_handler :: "serve_env \<Rightarrow> header_map \<Rightarrow> serve_world \<Rightarrow> http_response \<times> serve_world" where
  "ws_chat_handler env h w =
     (case extract_tenant h w of
        (t, w0) \<Rightarrow>
          (let tenant = gate_value t;
               span = (\<lambda>status. emit_span env ''GET'' ''/ws/chat'' status None tenant)
           in case rate_gate env h w0 of
             (Inl resp, w1) \<Rightarrow> (resp, span (rp_status resp) w1)
           | (Inr _, w1) \<Rightarrow>
               (case session_acquire env w1 of
                  (Inl resp, w2) \<Rightarrow> (resp, span (rp_status resp) w2)
                | (Inr _, w2) \<Rightarrow>
                    if \<not> isl (fst (check_bearer env h w2)) then
                      (\<lparr>rp_status = 101, rp_headers = [], rp_body = Empty_body\<rparr>, span 101 w2)
                    else
                      (unauthorized_response\<lparr>rp_headers := []\<rparr>, session_release (span 401 w2)))))"

section \<open>Metrics\<close>

definition tool_call_counted :: "string \<Rightarrow> bool \<Rightarrow> serve_metrics \<Rightarrow> serve_metrics" where
  "tool_call_counted tool is_error m =
     m\<lparr>mt_labelled := hm_put (tool, is_error)
         (bump (case hm_get (mt_labelled m) (tool, is_error) of Some n \<Rightarrow> n | None \<Rightarrow> 0)) (mt_labelled m)\<rparr>"

definition COMPLETE_LATENCY_THRESHOLDS_MS :: "nat list" where
  "COMPLETE_LATENCY_THRESHOLDS_MS = [100, 500, 1000, 5000]"

definition observe_complete_latency_ms :: "nat \<Rightarrow> serve_metrics \<Rightarrow> serve_metrics" where
  "observe_complete_latency_ms latency_ms m =
     m\<lparr>mt_latency_count := bump (mt_latency_count m),
       mt_latency_sum_ms := bump_by latency_ms (mt_latency_sum_ms m),
       mt_latency_buckets :=
         map2 (\<lambda>threshold n. if latency_ms \<le> threshold then bump n else n)
           COMPLETE_LATENCY_THRESHOLDS_MS (mt_latency_buckets m)\<rparr>"

definition escape_label :: "string \<Rightarrow> string" where
  "escape_label s =
     concat (map (\<lambda>c. if c = CHR 0x5C then [CHR 0x5C, CHR 0x5C]
                      else if c = CHR 0x22 then [CHR 0x5C, CHR 0x22]
                      else if c = CHR 0x0A then [CHR 0x5C, CHR ''n''] else [c]) s)"

definition counter_text :: "string \<Rightarrow> string \<Rightarrow> nat \<Rightarrow> string" where
  "counter_text name help n =
     ''# HELP '' @ name @ '' '' @ help @ nl @ ''# TYPE '' @ name @ '' counter'' @ nl @ name @ '' '' @ show_nat n @ nl"

definition labelled_line :: "(string \<times> bool) \<times> nat \<Rightarrow> string" where
  "labelled_line e =
     (case e of ((tool, is_error), n) \<Rightarrow>
        ''aether_tool_calls_labelled_total{tool='' @ quoted (escape_label tool) @ '',is_error='' @
        quoted (if is_error then ''true'' else ''false'') @ ''} '' @ show_nat n @ nl)"

definition bucket_line :: "string \<Rightarrow> nat \<Rightarrow> string" where
  "bucket_line le n = ''aether_complete_latency_ms_bucket{le='' @ quoted le @ ''} '' @ show_nat n @ nl"

definition metrics_text :: "serve_metrics \<Rightarrow> string" where
  "metrics_text m =
     counter_text ''aether_turns_total'' ''Agent turns completed across all routes.'' (mt_turns m) @
     counter_text ''aether_tool_calls_total''
       ''Tool dispatches recorded (unlabelled view; see labelled variant below).'' (mt_tool_calls m) @
     counter_text ''aether_tool_calls_errors_total'' ''Tool dispatches with is_error=true.'' (mt_tool_errors m) @
     counter_text ''aether_complete_total'' ''POST /v1/complete requests.'' (mt_completes m) @
     counter_text ''aether_rollback_total'' ''POST /v1/rollback successes.'' (mt_rollbacks m) @
     counter_text ''aether_429_total'' ''Rate-limit refusals.'' (mt_429 m) @
     counter_text ''aether_4xx_total'' ''Non-429 client errors emitted.'' (mt_4xx m) @
     counter_text ''aether_tool_call_duration_ms_sum'' ''Cumulative tool-call duration (ms).'' (mt_tool_ms m) @
     ''# HELP aether_tool_calls_labelled_total Tool dispatches by (tool, is_error).'' @ nl @
     ''# TYPE aether_tool_calls_labelled_total counter'' @ nl @
     concat (map labelled_line (mt_labelled m)) @
     ''# HELP aether_complete_latency_ms /v1/complete wall-clock latency (ms).'' @ nl @
     ''# TYPE aether_complete_latency_ms histogram'' @ nl @
     concat (map2 (\<lambda>threshold n. bucket_line (show_nat threshold) n)
       COMPLETE_LATENCY_THRESHOLDS_MS (mt_latency_buckets m)) @
     bucket_line ''+Inf'' (mt_latency_count m) @
     ''aether_complete_latency_ms_count '' @ show_nat (mt_latency_count m) @ nl @
     ''aether_complete_latency_ms_sum '' @ show_nat (mt_latency_sum_ms m) @ nl"

definition metrics_handler :: "serve_env \<Rightarrow> header_map \<Rightarrow> serve_world \<Rightarrow> http_response \<times> serve_world" where
  "metrics_handler env h =
     gated (check_bearer env h) (\<lambda>_ w.
       (\<lparr>rp_status = 200, rp_headers = [(''content-type'', ''text/plain; version=0.0.4'')],
         rp_body = Text_body (metrics_text (sw_metrics w))\<rparr>, w))"

section \<open>What the gates let through\<close>

definition token_accepted :: "serve_env \<Rightarrow> header_map \<Rightarrow> bool" where
  "token_accepted env h \<longleftrightarrow>
     se_no_auth env = Some ''1'' \<or> se_token env = None \<or> se_token env = Some [] \<or>
     se_token env = Some (presented_bearer h)"

definition acl_in_force :: "serve_env \<Rightarrow> serve_world \<Rightarrow> tenant_acl_row list" where
  "acl_in_force env w = (case load_tenant_acl env w of Inr (Some acl) \<Rightarrow> ac_acls acl | _ \<Rightarrow> [])"

definition acl_accepts :: "serve_env \<Rightarrow> header_map \<Rightarrow> string option \<Rightarrow> serve_world \<Rightarrow> bool" where
  "acl_accepts env h tenant w \<longleftrightarrow>
     acl_in_force env w = [] \<or>
     presented_bearer h \<noteq> [] \<and>
     (case find (\<lambda>r. ta_bearer_sha256 r = se_sha256 env (presented_bearer h)) (acl_in_force env w) of
        None \<Rightarrow> False
      | Some row \<Rightarrow> ta_active row \<and> tenant_permitted row tenant)"

text \<open>What a request may change before its gates have passed: buckets and counters.\<close>

definition same_data :: "serve_world \<Rightarrow> serve_world \<Rightarrow> bool" where
  "same_data w w' \<longleftrightarrow>
     sw_files w' = sw_files w \<and> sw_webhooks w' = sw_webhooks w \<and> sw_tenants w' = sw_tenants w \<and>
     sw_scim w' = sw_scim w \<and> sw_usage w' = sw_usage w \<and> sw_pool w' = sw_pool w \<and> sw_audit w' = sw_audit w"

lemma same_data_refl [simp]: "same_data w w"
  by (simp add: same_data_def)

lemma same_data_trans: "same_data w w1 \<Longrightarrow> same_data w1 w2 \<Longrightarrow> same_data w w2"
  by (simp add: same_data_def)

lemma same_data_count [simp]:
  "same_data w (count_4xx w)" "same_data w (count_429 w)" "same_data w (count_rollback w)"
  "same_data w (w\<lparr>sw_buckets := b\<rparr>)" "same_data w (w\<lparr>sw_rpm := r\<rparr>)" "same_data w (w\<lparr>sw_active := n\<rparr>)"
  "same_data w (w\<lparr>sw_spans := sp\<rparr>)"
  by (simp_all add: same_data_def count_4xx_def count_429_def count_rollback_def)

lemma error_response_data [simp]:
  "same_data w (snd (trust_error_response code msg w))" "same_data w (snd (quota_response code msg w))"
  by (simp_all add: trust_error_response_def quota_response_def)

lemma same_data_bucket_429 [simp]: "same_data w (count_429 (w\<lparr>sw_buckets := b\<rparr>))"
  by (simp add: same_data_def count_429_def)

lemma rate_gate_data: "rate_gate env h w = (r, w1) \<Longrightarrow> same_data w w1"
  by (auto simp: rate_gate_def rate_check_def split: prod.split_asm sum.split_asm)

lemma check_bearer_data: "check_bearer env h w = (r, w1) \<Longrightarrow> w1 = w"
  by (auto simp: check_bearer_def split: if_splits option.splits)

lemma check_bearer_accepts: "check_bearer env h w = (Inr u, w1) \<longleftrightarrow> token_accepted env h \<and> w1 = w"
  by (auto simp: check_bearer_def token_accepted_def constant_time_eq_iff split: option.splits)

lemma extract_tenant_data: "extract_tenant h w = (r, w1) \<Longrightarrow> same_data w w1"
  by (auto simp: extract_tenant_def refuse_def Let_def split: if_splits option.splits)

definition wf_tenant :: "string option \<Rightarrow> bool" where
  "wf_tenant t = (case t of None \<Rightarrow> True | Some s \<Rightarrow> s \<noteq> [] \<and> list_all slug_char s)"

lemma extract_tenant_wf: "extract_tenant h w = (Inr t, w1) \<Longrightarrow> wf_tenant t"
  by (auto simp: extract_tenant_def refuse_def Let_def wf_tenant_def split: if_splits option.splits)

lemma bearer_rpm_data: "bearer_rpm_admit_dispatch env hash cap w = (ok, w1) \<Longrightarrow> same_data w w1"
  by (auto simp: bearer_rpm_admit_dispatch_def bearer_rpm_admit_def Let_def split: if_splits option.splits sum.splits)

lemma quota_gate_data: "quota_gate env hash row tenant w = (r, w1) \<Longrightarrow> same_data w w1"
  unfolding quota_gate_def refuse_def Let_def
  using bearer_rpm_data error_response_data same_data_trans
  by (fastforce split: prod.splits bool.splits option.splits if_splits)

lemma check_tenant_acl_data: "check_tenant_acl env h tenant w = (r, w1) \<Longrightarrow> same_data w w1"
  unfolding check_tenant_acl_def Let_def refuse_def
  by (auto split: sum.splits option.splits if_splits dest: quota_gate_data)

lemma check_tenant_acl_accepts: "check_tenant_acl env h tenant w = (Inr u, w1) \<Longrightarrow> acl_accepts env h tenant w"
  unfolding check_tenant_acl_def Let_def refuse_def acl_accepts_def acl_in_force_def
  by (auto split: sum.splits option.splits if_splits)

lemma gatedE:
  assumes "gated g k w = (r, w')"
  obtains w1 where "g w = (Inl r, w')" | a w1 where "g w = (Inr a, w1)" "k a w1 = (r, w')"
  using assms by (auto simp: gated_def split: prod.splits sum.splits)

lemma acl_accepts_data: "same_data w w1 \<Longrightarrow> acl_accepts env h t w1 = acl_accepts env h t w"
  by (simp add: acl_accepts_def acl_in_force_def load_tenant_acl_def same_data_def split: option.splits)

lemma tenant_gates_cases:
  assumes "tenant_gates env h k w = (r, w')"
  obtains "same_data w w'"
  | t w1 where "token_accepted env h" "extract_tenant h w = (Inr t, w)" "wf_tenant t" "acl_accepts env h t w"
      "same_data w w1" "k t w1 = (r, w')"
proof (cases "check_bearer env h w")
  case (Pair r1 w1)
  note w1 = check_bearer_data[OF this]
  show ?thesis
  proof (cases r1)
    case (Inl x)
    then show ?thesis using assms Pair w1 that(1) by (simp add: tenant_gates_def gated_def)
  next
    case (Inr u)
    note tok = Pair[unfolded Inr w1]
    obtain r2 w2 where ext: "extract_tenant h w = (r2, w2)" by fastforce
    note d2 = extract_tenant_data[OF ext]
    show ?thesis
    proof (cases r2)
      case (Inl x)
      then show ?thesis using assms tok ext d2 that(1) by (simp add: tenant_gates_def gated_def)
    next
      case (Inr t)
      have w2: "w2 = w"
        using ext Inr by (auto simp: extract_tenant_def refuse_def Let_def split: if_splits option.splits)
      obtain r3 w3 where acl: "check_tenant_acl env h t w = (r3, w3)" by fastforce
      note d3 = check_tenant_acl_data[OF acl]
      show ?thesis
      proof (cases r3)
        case (Inl x)
        then show ?thesis
          using assms tok ext Inr w2 acl d3 that(1) by (simp add: tenant_gates_def gated_def)
      next
        case (Inr u3)
        then have k: "k t w3 = (r, w')"
          using assms tok ext \<open>r2 = Inr t\<close> w2 acl by (simp add: tenant_gates_def gated_def)
        show ?thesis
        proof (rule that(2))
          show "token_accepted env h" using tok check_bearer_accepts by blast
          show "extract_tenant h w = (Inr t, w)" using ext w2 \<open>r2 = Inr t\<close> by simp
          then show "wf_tenant t" by (rule extract_tenant_wf)
          show "acl_accepts env h t w" using acl Inr check_tenant_acl_accepts by blast
        qed (fact d3, fact k)
      qed
    qed
  qed
qed

section \<open>Keychains as lists of keys\<close>

definition key_ok :: "string \<Rightarrow> bool" where
  "key_ok k \<longleftrightarrow> k \<noteq> [] \<and> str_trim k = k \<and> CHR 0x0A \<notin> set k \<and> hd k \<noteq> CHR ''#''"

definition key_lines :: "string list \<Rightarrow> string" where
  "key_lines ks = concat (map (\<lambda>k. k @ nl) ks)"

lemma key_ok_plain: "key_ok k \<Longrightarrow> plain_line k"
  using str_trim_no_cr[of k] by (simp add: key_ok_def plain_line_def)

lemma str_lines_key_lines: "list_all key_ok ks \<Longrightarrow> str_lines (key_lines ks) = ks"
proof (induction ks)
  case (Cons k ks)
  then have "plain_line k" by (simp add: key_ok_plain)
  then show ?case
    using Cons by (simp add: key_lines_def nl_def str_lines_append strip_cr_plain) (simp add: plain_line_def str_lines_append strip_cr_plain strip_cr_def)
qed (simp add: key_lines_def)

lemma fold_keychain_line:
  "list_all key_ok ks \<Longrightarrow> distinct (out @ ks) \<Longrightarrow> fold keychain_line ks out = out @ ks"
proof (induction ks arbitrary: out)
  case (Cons k ks)
  then have "keychain_line k out = out @ [k]"
    by (auto simp: keychain_line_def key_ok_def Let_def prefix_def)
  then show ?case using Cons by simp
qed simp

lemma parse_key_lines: "list_all key_ok ks \<Longrightarrow> distinct ks \<Longrightarrow> parse_keychain (key_lines ks) = ks"
  by (simp add: parse_keychain_def str_lines_key_lines fold_keychain_line)

definition holds_keys :: "serve_env \<Rightarrow> string option \<Rightarrow> string list \<Rightarrow> serve_world \<Rightarrow> bool" where
  "holds_keys env t ks w \<longleftrightarrow>
     list_all key_ok ks \<and> distinct ks \<and>
     (\<exists>path. trust_keychain_path_for env t = Some path \<and>
        (case hm_get (sw_files w) path of None \<Rightarrow> ks = [] | Some c \<Rightarrow> c = key_lines ks))"

lemma holds_keys_load: "holds_keys env t ks w \<Longrightarrow> load_trust_keychain_for env t w = ks"
  by (auto simp: holds_keys_def load_trust_keychain_for_def parse_key_lines split: option.splits)

lemma appended_key_lines: "list_all key_ok ks \<Longrightarrow> appended_keychain (key_lines ks) k = key_lines (ks @ [k])"
  by (cases ks rule: rev_cases) (simp_all add: appended_keychain_def key_lines_def nl_def)

lemma hm_get_del [simp]: "hm_get (hm_del k m) j = (if j = k then None else hm_get m j)"
  by (simp add: hm_get_def hm_del_def delete_conv')

text \<open>Different tenants have different files.\<close>

lemma path_join_simple: "b \<noteq> [] \<Longrightarrow> hd b \<noteq> CHR ''/'' \<Longrightarrow> path_join a b = (if a = [] \<or> last a = CHR ''/'' then a @ b else a @ ''/'' @ b)"
  by (cases b) (auto simp: path_join_def)

lemma slug_no_slash: "list_all slug_char s \<Longrightarrow> CHR ''/'' \<notin> set s"
  by (auto simp: list_all_iff slug_char_def is_digit_def byte_of_def)

lemma tenant_path:
  assumes "se_home env = Some home" "s \<noteq> []" "list_all slug_char s"
  shows "trust_keychain_path_for env (Some s) =
    Some (path_join home ''.aether/tenants'' @ ''/'' @ s @ ''/plugin-trust.txt'')"
proof -
  have s: "hd s \<noteq> CHR ''/''" "last s \<noteq> CHR ''/''"
    using slug_no_slash[OF assms(3)] assms(2) by (metis hd_in_set, metis last_in_set)
  have "path_join home ''.aether/tenants'' \<noteq> []" "last (path_join home ''.aether/tenants'') \<noteq> CHR ''/''"
    by (simp_all add: path_join_simple)
  then show ?thesis
    using assms s by (simp add: trust_keychain_path_for_def path_join_simple[of s] path_join_simple[of "''plugin-trust.txt''"])
qed

lemma tenant_paths_differ:
  assumes "wf_tenant t" "wf_tenant t'" "t \<noteq> t'" "trust_keychain_path_for env t = Some p"
  shows "trust_keychain_path_for env t' \<noteq> Some p"
proof -
  obtain home where home: "se_home env = Some home"
    using assms(4) by (auto simp: trust_keychain_path_for_def trust_keychain_path_def split: option.splits if_splits)
  have global: "trust_keychain_path_for env None = Some (path_join home ''.aether/plugin-trust.txt'')"
    by (simp add: trust_keychain_path_for_def trust_keychain_path_def home)
  have differ: "path_join home ''.aether/plugin-trust.txt'' \<noteq> path_join home ''.aether/tenants'' @ ''/'' @ s @ ''/plugin-trust.txt''" for s
    by (simp add: path_join_simple)
  show ?thesis
  proof (cases t; cases t')
    fix s s' assume t: "t = Some s" "t' = Some s'"
    then show ?thesis
      using assms(1-3) tenant_path[OF home] assms(4) by (auto simp: wf_tenant_def)
  next
    fix s assume t: "t = None" "t' = Some s"
    then show ?thesis
      using assms(2,4) tenant_path[OF home, of s] global differ[of s] by (auto simp: wf_tenant_def)
  next
    fix s assume t: "t = Some s" "t' = None"
    then show ?thesis
      using assms(1,4) tenant_path[OF home, of s] global differ[of s] by (auto simp: wf_tenant_def)
  qed (use assms in simp_all)
qed

text \<open>\<open>hex::decode\<close> accepts hexadecimal digits only.\<close>

definition hex_digit :: "char \<Rightarrow> bool" where
  "hex_digit c \<longleftrightarrow>
     is_digit c \<or> (65 \<le> byte_of c \<and> byte_of c \<le> 70) \<or> (97 \<le> byte_of c \<and> byte_of c \<le> 102)"

definition hex_law :: "serve_env \<Rightarrow> bool" where
  "hex_law env \<longleftrightarrow> (\<forall>s n. se_hex_bytes env s = Some n \<longrightarrow> list_all hex_digit s)"

lemma hex_key_ok:
  assumes "str_trim s \<noteq> []" "list_all hex_digit (str_trim s)"
  shows "key_ok (str_trim s)"
proof -
  have "\<not> hex_digit (CHR 0x0A)" "\<not> hex_digit (CHR ''#'')" by (simp_all add: hex_digit_def is_digit_def byte_of_def)
  then have "CHR 0x0A \<notin> set (str_trim s)" "hd (str_trim s) \<noteq> CHR ''#''"
    using assms by (auto simp: list_all_iff) (metis hd_in_set)
  then show ?thesis using assms(1) by (simp add: key_ok_def)
qed

lemma error_status: "rp_status (fst (trust_error_response code msg w)) = code"
  by (simp add: trust_error_response_def)

lemma trust_add_cases:
  assumes "trust_add env raw t w = (r, w')"
  obtains "rp_status r \<noteq> 200" "same_data w w'"
  | path where "rp_status r = 200" "str_trim raw \<noteq> []" "se_hex_bytes env (str_trim raw) = Some 32"
      "trust_keychain_path_for env t = Some path" "str_trim raw \<notin> set (load_trust_keychain_for env t w)"
      "sw_files w' = hm_put path
         (appended_keychain (case hm_get (sw_files w) path of Some c \<Rightarrow> c | None \<Rightarrow> []) (str_trim raw)) (sw_files w)"
      "sw_tenants w' = sw_tenants w" "sw_pool w' = sw_pool w"
proof -
  have err: "trust_error_response c m w = (r, w') \<Longrightarrow> c \<noteq> 200 \<Longrightarrow> rp_status r \<noteq> 200 \<and> same_data w w'" for c m
    using error_status error_response_data(1) by (metis fst_conv snd_conv)
  show ?thesis
  proof (cases "str_trim raw = [] \<or> se_hex_bytes env (str_trim raw) \<noteq> Some 32")
    case True
    then show ?thesis using assms err[of 400] that(1) by (auto simp: trust_add_def Let_def)
  next
    case False
    show ?thesis
    proof (cases "trust_keychain_path_for env t")
      case None
      then show ?thesis using assms False err[of 500] that(1) by (auto simp: trust_add_def Let_def)
    next
      case (Some path)
      show ?thesis
      proof (cases "str_trim raw \<in> set (load_trust_keychain_for env t w) \<or> se_write_error env path \<noteq> None")
        case True
        then show ?thesis
          using assms False Some err[of 409] err[of 500] that(1)
          by (auto simp: trust_add_def Let_def file_write_def split: if_splits)
      next
        case False2: False
        then show ?thesis
          using assms False Some that(2)[of path]
          by (auto simp: trust_add_def Let_def file_write_def spawn_webhook_def ok_response_def)
      qed
    qed
  qed
qed

lemma trust_remove_cases:
  assumes "trust_remove env raw t w = (r, w')"
  obtains "rp_status r \<noteq> 200" "same_data w w'"
  | path where "rp_status r = 200" "str_trim raw \<noteq> []"
      "trust_keychain_path_for env t = Some path"
      "\<exists>k \<in> set (load_trust_keychain_for env t w). prefix (str_trim raw) k"
      "sw_files w' = hm_put path
         (key_lines (filter (\<lambda>k. \<not> prefix (str_trim raw) k) (load_trust_keychain_for env t w))) (sw_files w)"
      "sw_tenants w' = sw_tenants w" "sw_pool w' = sw_pool w"
proof -
  have err: "trust_error_response c m w = (r, w') \<Longrightarrow> c \<noteq> 200 \<Longrightarrow> rp_status r \<noteq> 200 \<and> same_data w w'" for c m
    using error_status error_response_data(1) by (metis fst_conv snd_conv)
  let ?l = "load_trust_keychain_for env t w"
  let ?kept = "filter (\<lambda>k. \<not> prefix (str_trim raw) k) ?l"
  have none: "length ?l - length ?kept = 0 \<longleftrightarrow> \<not> (\<exists>k \<in> set ?l. prefix (str_trim raw) k)"
    using length_filter_less[of _ ?l "\<lambda>k. \<not> prefix (str_trim raw) k"] by (auto simp: filter_id_conv[THEN iffD2])
  show ?thesis
  proof (cases "str_trim raw = []")
    case True
    then show ?thesis using assms err[of 400] that(1) by (auto simp: trust_remove_def Let_def)
  next
    case False
    show ?thesis
    proof (cases "trust_keychain_path_for env t")
      case None
      then show ?thesis using assms False err[of 500] that(1) by (auto simp: trust_remove_def Let_def)
    next
      case (Some path)
      show ?thesis
      proof (cases "length ?l - length ?kept = 0")
        case True
        then show ?thesis using assms False Some err[of 404] that(1) unfolding trust_remove_def Let_def by simp
      next
        case some: False
        show ?thesis
        proof (cases "se_write_error env path")
          case None
          then show ?thesis
            using assms False Some some none that(2)[of path]
            unfolding trust_remove_def Let_def key_lines_def
            by (auto simp: file_write_def spawn_webhook_def ok_response_def)
        next
          case (Some e)
          then show ?thesis
            using assms False \<open>trust_keychain_path_for env t = Some path\<close> some err[of 500] that(1)
            unfolding trust_remove_def Let_def by (auto simp: file_write_def)
        qed
      qed
    qed
  qed
qed

lemma holds_keys_cong:
  "holds_keys env t ks w \<Longrightarrow> trust_keychain_path_for env t = Some path \<Longrightarrow>
   hm_get (sw_files w') path = hm_get (sw_files w) path \<Longrightarrow> holds_keys env t ks w'"
  by (simp add: holds_keys_def)

lemma other_keychain:
  assumes "wf_tenant t" "wf_tenant t'" "t' \<noteq> t" "trust_keychain_path_for env t = Some path"
    and "sw_files w' = hm_put path c (sw_files w)"
  shows "load_trust_keychain_for env t' w' = load_trust_keychain_for env t' w"
  using tenant_paths_differ[OF assms(1,2) assms(3)[symmetric] assms(4)] assms(5)
  by (auto simp: load_trust_keychain_for_def split: option.splits)

lemma same_data_load: "same_data w w' \<Longrightarrow> load_trust_keychain_for env t w' = load_trust_keychain_for env t w"
  by (simp add: load_trust_keychain_for_def same_data_def split: option.splits)

lemma same_data_holds: "same_data w w' \<Longrightarrow> holds_keys env t ks w' = holds_keys env t ks w"
  by (simp add: holds_keys_def same_data_def)

lemma added_holds:
  assumes "holds_keys env t ks w" "trust_keychain_path_for env t = Some path" "key_ok k" "k \<notin> set ks"
    and "sw_files w' = hm_put path
         (appended_keychain (case hm_get (sw_files w) path of Some c \<Rightarrow> c | None \<Rightarrow> []) k) (sw_files w)"
  shows "holds_keys env t (ks @ [k]) w'"
proof -
  have "(case hm_get (sw_files w) path of Some c \<Rightarrow> c | None \<Rightarrow> []) = key_lines ks"
    using assms(1,2) by (auto simp: holds_keys_def key_lines_def split: option.splits)
  then show ?thesis
    using assms by (auto simp: holds_keys_def appended_key_lines)
qed

lemma removed_holds:
  assumes "holds_keys env t ks w" "trust_keychain_path_for env t = Some path"
    and "sw_files w' = hm_put path (key_lines (filter P ks)) (sw_files w)"
  shows "holds_keys env t (filter P ks) w'"
  using assms by (auto simp: holds_keys_def list_all_iff)

lemma trust_add_files:
  assumes "trust_add env raw t w = (r, w')" "trust_keychain_path_for env t \<noteq> Some path"
  shows "hm_get (sw_files w') path = hm_get (sw_files w) path"
  by (rule trust_add_cases[OF assms(1)]) (use assms(2) in \<open>auto simp: same_data_def\<close>)

lemma trust_remove_files:
  assumes "trust_remove env raw t w = (r, w')" "trust_keychain_path_for env t \<noteq> Some path"
  shows "hm_get (sw_files w') path = hm_get (sw_files w) path"
  by (rule trust_remove_cases[OF assms(1)]) (use assms(2) in \<open>auto simp: same_data_def\<close>)

section \<open>Properties\<close>

text \<open>
  C15. The routes that manage trusted plugin keys refine a list of keys for each tenant. While a tenant's file
  holds the list: adding answers 200 exactly with the new key appended (and not already there) and removing with
  the keys of the prefix dropped, of which there was one; every other answer changes no file; and no request
  of one tenant changes the keys of another, or of the global keychain.
\<close>
theorem keychains_refine_lists:
  assumes "hex_law env" and "holds_keys env t ks w" and "wf_tenant t"
    and "trust_add env raw t w = (r1, w1)" and "trust_remove env raw t w = (r2, w2)"
  shows "load_trust_keychain_for env t w = ks \<and>
     (if rp_status r1 = 200 then str_trim raw \<notin> set ks \<and> holds_keys env t (ks @ [str_trim raw]) w1
      else holds_keys env t ks w1) \<and>
     (if rp_status r2 = 200 then (\<exists>k \<in> set ks. prefix (str_trim raw) k) \<and>
        holds_keys env t (filter (\<lambda>k. \<not> prefix (str_trim raw) k) ks) w2
      else holds_keys env t ks w2) \<and>
     (\<forall>t'. wf_tenant t' \<and> t' \<noteq> t \<longrightarrow>
        load_trust_keychain_for env t' w1 = load_trust_keychain_for env t' w \<and>
        load_trust_keychain_for env t' w2 = load_trust_keychain_for env t' w)"
proof -
  note load = holds_keys_load[OF assms(2)]
  have add: "(if rp_status r1 = 200 then str_trim raw \<notin> set ks \<and> holds_keys env t (ks @ [str_trim raw]) w1
      else holds_keys env t ks w1) \<and>
     (\<forall>t'. wf_tenant t' \<and> t' \<noteq> t \<longrightarrow> load_trust_keychain_for env t' w1 = load_trust_keychain_for env t' w)"
  proof (rule trust_add_cases[OF assms(4)])
    assume "rp_status r1 \<noteq> 200" "same_data w w1"
    then show ?thesis using assms(2) same_data_holds same_data_load by simp
  next
    fix path
    assume st: "rp_status r1 = 200" and k: "str_trim raw \<noteq> []" "se_hex_bytes env (str_trim raw) = Some 32"
      and path: "trust_keychain_path_for env t = Some path"
      and new: "str_trim raw \<notin> set (load_trust_keychain_for env t w)"
      and files: "sw_files w1 = hm_put path
         (appended_keychain (case hm_get (sw_files w) path of Some c \<Rightarrow> c | None \<Rightarrow> []) (str_trim raw)) (sw_files w)"
    have "key_ok (str_trim raw)" using hex_key_ok[OF k(1)] k(2) assms(1) by (auto simp: hex_law_def)
    then have "holds_keys env t (ks @ [str_trim raw]) w1"
      using added_holds[OF assms(2) path _ _ files] new load by simp
    then show ?thesis using st new load other_keychain[OF assms(3) _ _ path files] by simp
  qed
  have rem: "(if rp_status r2 = 200 then (\<exists>k \<in> set ks. prefix (str_trim raw) k) \<and>
        holds_keys env t (filter (\<lambda>k. \<not> prefix (str_trim raw) k) ks) w2
      else holds_keys env t ks w2) \<and>
     (\<forall>t'. wf_tenant t' \<and> t' \<noteq> t \<longrightarrow> load_trust_keychain_for env t' w2 = load_trust_keychain_for env t' w)"
  proof (rule trust_remove_cases[OF assms(5)])
    assume "rp_status r2 \<noteq> 200" "same_data w w2"
    then show ?thesis using assms(2) same_data_holds same_data_load by simp
  next
    fix path
    assume st: "rp_status r2 = 200" and path: "trust_keychain_path_for env t = Some path"
      and some: "\<exists>k \<in> set (load_trust_keychain_for env t w). prefix (str_trim raw) k"
      and files: "sw_files w2 = hm_put path
         (key_lines (filter (\<lambda>k. \<not> prefix (str_trim raw) k) (load_trust_keychain_for env t w))) (sw_files w)"
    have "holds_keys env t (filter (\<lambda>k. \<not> prefix (str_trim raw) k) ks) w2"
      using removed_holds[OF assms(2) path files[unfolded load]] .
    then show ?thesis using st some load other_keychain[OF assms(3) _ _ path files] by simp
  qed
  show ?thesis using load add rem by blast
qed

definition hex_env :: serve_env where
  "hex_env = plain_serve_env\<lparr>se_hex_bytes := (\<lambda>s. if s = ''ab'' then Some 32 else None)\<rparr>"

definition key_world :: serve_world where
  "key_world = idle_world\<lparr>sw_files := [(''/home/u/.aether/tenants/acme/plugin-trust.txt'', ''cd'' @ nl)]\<rparr>"

lemma keychains_refine_lists_witness:
  "load_trust_keychain_for hex_env (Some ''acme'') key_world = [''cd''] \<and>
     (if rp_status (fst (trust_add hex_env ''ab'' (Some ''acme'') key_world)) = 200
      then str_trim ''ab'' \<notin> set [''cd''] \<and>
        holds_keys hex_env (Some ''acme'') ([''cd''] @ [str_trim ''ab'']) (snd (trust_add hex_env ''ab'' (Some ''acme'') key_world))
      else holds_keys hex_env (Some ''acme'') [''cd''] (snd (trust_add hex_env ''ab'' (Some ''acme'') key_world))) \<and>
     (if rp_status (fst (trust_remove hex_env ''ab'' (Some ''acme'') key_world)) = 200
      then (\<exists>k \<in> set [''cd'']. prefix (str_trim ''ab'') k) \<and>
        holds_keys hex_env (Some ''acme'') (filter (\<lambda>k. \<not> prefix (str_trim ''ab'') k) [''cd''])
          (snd (trust_remove hex_env ''ab'' (Some ''acme'') key_world))
      else holds_keys hex_env (Some ''acme'') [''cd''] (snd (trust_remove hex_env ''ab'' (Some ''acme'') key_world))) \<and>
     load_trust_keychain_for hex_env None (snd (trust_add hex_env ''ab'' (Some ''acme'') key_world)) =
       load_trust_keychain_for hex_env None key_world \<and>
     load_trust_keychain_for hex_env None (snd (trust_remove hex_env ''ab'' (Some ''acme'') key_world)) =
       load_trust_keychain_for hex_env None key_world"
proof -
  have law: "hex_law hex_env" by (auto simp: hex_law_def hex_env_def hex_digit_def byte_of_def split: if_splits)
  have "str_trim ''cd'' = ''cd''" by code_simp
  then have holds: "holds_keys hex_env (Some ''acme'') [''cd''] key_world"
    by (simp add: holds_keys_def key_ok_def key_lines_def hex_env_def plain_serve_env_def key_world_def
        trust_keychain_path_for_def path_join_def slug_char_def byte_of_def is_digit_def hm_get_def nl_def)
  have tenant: "wf_tenant (Some ''acme'')" by (simp add: wf_tenant_def slug_char_def byte_of_def is_digit_def)
  note keychains_refine_lists[where raw = "''ab''", OF law holds tenant prod.collapse[symmetric] prod.collapse[symmetric]]
  then show ?thesis
    by (elim conjE) (intro conjI; (assumption | (erule allE[of _ None], simp add: wf_tenant_def)))
qed

text \<open>The requests that change more than counters and buckets.\<close>

datatype admin_request =
  Add_key string | Remove_key string | Roll_back rollback_request | Reload_pool

fun admin_route :: "serve_env \<Rightarrow> header_map \<Rightarrow> admin_request \<Rightarrow> serve_world \<Rightarrow> http_response \<times> serve_world" where
  "admin_route env h (Add_key k) = trust_add_handler env h k"
| "admin_route env h (Remove_key p) = trust_remove_handler env h p"
| "admin_route env h (Roll_back q) = rollback_handler env h q"
| "admin_route env h Reload_pool = admin_reload_pool_handler env h"

fun needs_tenant :: "admin_request \<Rightarrow> bool" where
  "needs_tenant (Add_key k) = True"
| "needs_tenant (Remove_key p) = True"
| "needs_tenant q = False"

lemma extract_tenant_world: "extract_tenant h w = (Inr t, w1) \<Longrightarrow> extract_tenant h w' = (Inr t, w')"
  by (auto simp: extract_tenant_def refuse_def Let_def split: if_splits option.splits)

lemma tenant_route_authorised:
  assumes "gated (rate_gate env h) (\<lambda>_. tenant_gates env h k) w = (r, w')" and "\<not> same_data w w'"
  shows "token_accepted env h \<and>
    (\<exists>t w1. fst (extract_tenant h w) = Inr t \<and> acl_accepts env h t w \<and> same_data w w1 \<and> k t w1 = (r, w'))"
proof -
  obtain u w1 where rate: "rate_gate env h w = (u, w1)" by fastforce
  note d1 = rate_gate_data[OF rate]
  have gates: "tenant_gates env h k w1 = (r, w')"
    using assms rate d1 by (cases u) (auto simp: gated_def)
  from gates show ?thesis
  proof (rule tenant_gates_cases)
    assume "same_data w1 w'"
    then show ?thesis using assms(2) d1 same_data_trans by blast
  next
    fix t w2
    assume *: "token_accepted env h" "extract_tenant h w1 = (Inr t, w1)" "acl_accepts env h t w1"
      "same_data w1 w2" "k t w2 = (r, w')"
    then have "fst (extract_tenant h w) = Inr t" using extract_tenant_world by fastforce
    then show ?thesis using * acl_accepts_data[OF d1] same_data_trans[OF d1] by blast
  qed
qed


definition secret_headers :: header_map where
  "secret_headers = [(''authorization'', Some ''Bearer secret''), (''x-aether-tenant'', Some ''acme'')]"

definition unmetered_env :: serve_env where
  "unmetered_env = hex_env\<lparr>se_rpm_limit := 0\<rparr>"

lemma added_key_run:
  "sw_files (snd (admin_route unmetered_env secret_headers (Add_key ''ab'') key_world)) =
   [(''/home/u/.aether/tenants/acme/plugin-trust.txt'', ''cd'' @ nl @ ''ab'' @ nl)]"
  by code_simp


text \<open>The access list and the credentials as parameters of a request.\<close>

definition with_acl :: "tenant_acl stored \<Rightarrow> serve_world \<Rightarrow> serve_world" where
  "with_acl a w = w\<lparr>sw_tenants := a\<rparr>"

definition with_credentials :: "string option \<Rightarrow> string option \<Rightarrow> serve_env \<Rightarrow> serve_env" where
  "with_credentials token no_auth env = env\<lparr>se_token := token, se_no_auth := no_auth\<rparr>"

lemma with_acl_simps [simp]:
  "sw_buckets (with_acl a w) = sw_buckets w" "sw_active (with_acl a w) = sw_active w"
  "sw_metrics (with_acl a w) = sw_metrics w" "sw_usage (with_acl a w) = sw_usage w"
  "sw_spans (with_acl a w) = sw_spans w"
  by (simp_all add: with_acl_def)

lemma with_acl_updates:
  "(with_acl a w)\<lparr>sw_buckets := b\<rparr> = with_acl a (w\<lparr>sw_buckets := b\<rparr>)"
  "(with_acl a w)\<lparr>sw_active := n\<rparr> = with_acl a (w\<lparr>sw_active := n\<rparr>)"
  "(with_acl a w)\<lparr>sw_metrics := m\<rparr> = with_acl a (w\<lparr>sw_metrics := m\<rparr>)"
  "(with_acl a w)\<lparr>sw_usage := u\<rparr> = with_acl a (w\<lparr>sw_usage := u\<rparr>)"
  "(with_acl a w)\<lparr>sw_spans := sp\<rparr> = with_acl a (w\<lparr>sw_spans := sp\<rparr>)"
  "(with_acl a w)\<lparr>sw_ceiling_warned := c\<rparr> = with_acl a (w\<lparr>sw_ceiling_warned := c\<rparr>)"
  by (simp_all add: with_acl_def)

lemma rate_gate_credentials:
  assumes "map_of h' ''x-forwarded-for'' = map_of h ''x-forwarded-for''"
  shows "rate_gate (with_credentials k n env) h' (with_acl a w) = apsnd (with_acl a) (rate_gate env h w)"
  using assms
  by (auto simp: rate_gate_def rate_check_def extract_client_ip_def header_text_def with_credentials_def count_429_def
      with_acl_updates split: prod.split sum.split)

lemma extract_tenant_credentials:
  assumes "map_of h' ''x-aether-tenant'' = map_of h ''x-aether-tenant''"
  shows "extract_tenant h' (with_acl a w) = apsnd (with_acl a) (extract_tenant h w)"
  using assms
  by (auto simp: extract_tenant_def refuse_def trust_error_response_def count_4xx_def with_acl_updates Let_def
      split: option.split)

lemma session_acquire_credentials:
  "session_acquire (with_credentials k n env) (with_acl a w) = apsnd (with_acl a) (session_acquire env w)"
  by (simp add: session_acquire_def with_credentials_def with_acl_updates Let_def)

lemma emit_span_credentials:
  "emit_span (with_credentials k n env) mthd route st m t (with_acl a w) = with_acl a (emit_span env mthd route st m t w)"
  by (simp add: emit_span_def with_credentials_def with_acl_updates)

lemma record_usage_credentials:
  "record_serve_usage (with_credentials k n env) label mu (with_acl a w) = with_acl a (record_serve_usage env label mu w)"
  by (auto simp: record_serve_usage_def record_turn_usage_def count_turn_def check_cost_ceiling_def with_credentials_def
      with_acl_updates Let_def split: option.split prod.split)

lemma session_release_credentials: "session_release (with_acl a w) = with_acl a (session_release w)"
  by (simp add: session_release_def with_acl_updates)

text \<open>
  \<open>POST /v1/messages\<close> does not look at credentials. Its response, its turn and its effects are the same
  whatever the server's token is, whatever the \<open>Authorization\<close> header carries and whatever the tenant access
  list says, so neither a missing token nor a deactivated bearer keeps anyone from running the agent.
\<close>
theorem messages_ignore_credentials:
  assumes "map_of h' ''x-forwarded-for'' = map_of h ''x-forwarded-for''"
    and "map_of h' ''x-aether-tenant'' = map_of h ''x-aether-tenant''"
  shows "post_messages_handler (with_credentials k n env) de sf m mode h' req (with_acl a w) aw =
    map_option (apfst (apsnd (with_acl a))) (post_messages_handler env de sf m mode h req w aw)"
proof -
  have turn: "messages_turn (with_credentials k n env) de sf m mode t req (with_acl a w1) aw =
      map_option (apfst (apsnd (with_acl a))) (messages_turn env de sf m mode t req w1 aw)" for t w1
    by (auto simp: messages_turn_def Let_def emit_span_credentials record_usage_credentials
        session_release_credentials split: option.split sum.split)
  show ?thesis
    unfolding post_messages_handler_def extract_tenant_credentials[OF assms(2)]
    by (auto simp: Let_def rate_gate_credentials[OF assms(1)] session_acquire_credentials emit_span_credentials turn
        split: prod.split sum.split)
qed

lemma messages_ignore_credentials_witness:
  "\<forall>de sf m mode req aw.
     post_messages_handler (with_credentials (Some ''secret'') None plain_serve_env) (de :: 'w driver_env) sf m mode [] req
       (with_acl (Stored \<lparr>ac_version = 1, ac_acls = [acme_row\<lparr>ta_active := False\<rparr>]\<rparr>) idle_world) aw =
     map_option (apfst (apsnd (with_acl (Stored \<lparr>ac_version = 1, ac_acls = [acme_row\<lparr>ta_active := False\<rparr>]\<rparr>))))
       (post_messages_handler plain_serve_env de sf m mode [(''authorization'', Some ''Bearer secret'')] req idle_world aw)"
  by (intro allI messages_ignore_credentials) simp_all

text \<open>
  The handlers give back the session slots they take: a message request ends with as many active sessions as
  it found, and so does a WebSocket request that is refused, for the cap or for its token; an upgraded one
  keeps exactly one slot, for the lifetime of its connection.
\<close>
theorem slots_are_returned:
  "(post_messages_handler env de sf m mode h req w aw = Some ((r, w1), aw1) \<longrightarrow> sw_active w1 = sw_active w) \<and>
   (ws_chat_handler env h w = (r2, w2) \<longrightarrow>
      sw_active w2 = (if rp_status r2 = 101 then sw_active w + 1 else sw_active w))"
proof -
  have tenant: "extract_tenant h w = (t, w0) \<Longrightarrow> sw_active w0 = sw_active w" for t w0
    by (auto simp: extract_tenant_def refuse_def trust_error_response_def count_4xx_def Let_def
        split: if_splits option.splits)
  have rate: "rate_gate env h w0 = (x, w1) \<Longrightarrow>
      sw_active w1 = sw_active w0 \<and> (\<forall>resp. x = Inl resp \<longrightarrow> rp_status resp = 429)" for w0 x w1
    by (auto simp: rate_gate_def rate_check_def count_429_def split: prod.split_asm sum.split_asm)
  have acquire: "session_acquire env w0 = (x, w1) \<Longrightarrow>
      (case x of Inl resp \<Rightarrow> sw_active w1 = sw_active w0 \<and> rp_status resp = 503 | Inr _ \<Rightarrow> sw_active w1 = sw_active w0 + 1)"
    for w0 x w1
    by (auto simp: session_acquire_def Let_def split: if_splits)
  have span [simp]: "sw_active (emit_span env mt rt st mo te v) = sw_active v" for mt rt st mo te v
    by (simp add: emit_span_def)
  have usage [simp]: "sw_active (record_serve_usage env l mu v) = sw_active v" for l mu v
    by (auto simp: record_serve_usage_def record_turn_usage_def count_turn_def check_cost_ceiling_def Let_def
        split: option.split prod.split)
  have turn: "messages_turn env de sf m mode te req v aw = Some ((r, w1), aw1) \<Longrightarrow> sw_active w1 = sw_active v - 1"
    for te v
    by (auto simp: messages_turn_def Let_def session_release_def split: option.splits sum.splits)
  obtain t w0 where t: "extract_tenant h w = (t, w0)" by fastforce
  obtain x v where x: "rate_gate env h w0 = (x, v)" by fastforce
  obtain y u where y: "session_acquire env v = (y, u)" by fastforce
  show ?thesis
    using tenant[OF t] rate[OF x] acquire[OF y] turn[of _ u]
    by (cases x; cases y)
      (auto simp: post_messages_handler_def ws_chat_handler_def t x y Let_def session_release_def
        unauthorized_response_def split: if_splits)
qed

lemma slots_are_returned_witness:
  "\<forall>de sf m mode req aw r w1 aw1.
     (post_messages_handler plain_serve_env (de :: 'w driver_env) sf m mode [] req idle_world aw = Some ((r, w1), aw1) \<longrightarrow>
        sw_active w1 = sw_active idle_world) \<and>
     (ws_chat_handler plain_serve_env [] idle_world =
        (fst (ws_chat_handler plain_serve_env [] idle_world), snd (ws_chat_handler plain_serve_env [] idle_world)) \<longrightarrow>
      sw_active (snd (ws_chat_handler plain_serve_env [] idle_world)) =
        (if rp_status (fst (ws_chat_handler plain_serve_env [] idle_world)) = 101 then sw_active idle_world + 1
         else sw_active idle_world))"
  by (intro allI slots_are_returned)

lemma bump_small: "n + 1 < 2 ^ 64 \<Longrightarrow> bump n = n + 1"
  by (simp add: bump_def bump_by_def)

lemma observed_histogram:
  "length ls < 2 ^ 64 \<Longrightarrow>
   (let m = fold observe_complete_latency_ms ls serve_metrics_zero in
    mt_latency_count m = length ls \<and> mt_latency_sum_ms m = sum_list ls mod 2 ^ 64 \<and>
    mt_latency_buckets m = map (\<lambda>t. length (filter (\<lambda>l. l \<le> t) ls)) COMPLETE_LATENCY_THRESHOLDS_MS)"
proof (induction ls rule: rev_induct)
  case Nil
  show ?case by (simp add: serve_metrics_zero_def COMPLETE_LATENCY_THRESHOLDS_MS_def)
next
  case (snoc l ls)
  have small: "bump (length (filter P ls)) = length (filter P ls) + 1" for P
  proof (rule bump_small)
    have "length (filter P ls) + 1 \<le> length ls + 1" by simp
    also have "\<dots> < 2 ^ 64" using snoc.prems by simp
    finally show "length (filter P ls) + 1 < 2 ^ 64" .
  qed
  have "bump (length ls) = length ls + 1" using snoc.prems by (intro bump_small) simp
  then show ?case
    using snoc small
    by (simp add: observe_complete_latency_ms_def Let_def bump_by_def mod_add_right_eq mod_add_left_eq
        COMPLETE_LATENCY_THRESHOLDS_MS_def)
qed

text \<open>
  The latency histogram is cumulative: after any number of observations (below \<open>2 ^ 64\<close>) the bucket of a
  threshold counts exactly the observations up to it, the count is their number and the sum their total
  (modulo \<open>2 ^ 64\<close>).
\<close>
theorem histogram_is_cumulative:
  assumes "length ls < 2 ^ 64"
  shows "mt_latency_buckets (fold observe_complete_latency_ms ls serve_metrics_zero) =
      map (\<lambda>t. length (filter (\<lambda>l. l \<le> t) ls)) COMPLETE_LATENCY_THRESHOLDS_MS \<and>
    mt_latency_count (fold observe_complete_latency_ms ls serve_metrics_zero) = length ls \<and>
    mt_latency_sum_ms (fold observe_complete_latency_ms ls serve_metrics_zero) = sum_list ls mod 2 ^ 64"
  using observed_histogram[OF assms] by (simp add: Let_def)

lemma histogram_is_cumulative_witness:
  "mt_latency_buckets (fold observe_complete_latency_ms [70, 400, 9000] serve_metrics_zero) =
      map (\<lambda>t. length (filter (\<lambda>l. l \<le> t) [70, 400, 9000])) COMPLETE_LATENCY_THRESHOLDS_MS \<and>
    mt_latency_count (fold observe_complete_latency_ms [70, 400, 9000] serve_metrics_zero) = length [70, 400, 9000 :: nat] \<and>
    mt_latency_sum_ms (fold observe_complete_latency_ms [70, 400, 9000] serve_metrics_zero) =
      sum_list [70, 400, 9000] mod 2 ^ 64"
  by (rule histogram_is_cumulative) simp

text \<open>A rollback is counted before it is authorised, and no tenant's access list is consulted for it.\<close>

lemma refused_rollback_is_counted:
  assumes "rate_gate env h (count_rollback w) = (Inr u, w1)" and "\<not> token_accepted env h"
  shows "fst (rollback_handler env h req w) = unauthorized_response"
    and "mt_rollbacks (sw_metrics (snd (rollback_handler env h req w))) = bump (mt_rollbacks (sw_metrics w))"
proof -
  have "check_bearer env h w1 = (Inl unauthorized_response, w1)"
    using assms(2) by (auto simp: check_bearer_def token_accepted_def constant_time_eq_iff split: option.splits)
  then have run: "rollback_handler env h req w = (unauthorized_response, w1)"
    by (simp add: rollback_handler_def gated_def assms(1))
  show "fst (rollback_handler env h req w) = unauthorized_response" by (simp add: run)
  have "mt_rollbacks (sw_metrics w1) = mt_rollbacks (sw_metrics (count_rollback w))"
    using assms(1) by (auto simp: rate_gate_def rate_check_def split: prod.split_asm sum.split_asm)
  then show "mt_rollbacks (sw_metrics (snd (rollback_handler env h req w))) = bump (mt_rollbacks (sw_metrics w))"
    by (simp add: run count_rollback_def)
qed

lemma rollback_ignores_acl:
  "fst (rollback_handler env h req (with_acl a w)) = fst (rollback_handler env h req w)"
proof -
  have count: "count_rollback (with_acl a w) = with_acl a (count_rollback w)"
    by (simp add: count_rollback_def with_acl_updates)
  have rate: "rate_gate env h (with_acl a v) = apsnd (with_acl a) (rate_gate env h v)" for v
    using rate_gate_credentials[OF refl, of "se_token env" "se_no_auth env" env h a v]
    by (simp add: with_credentials_def)
  have token: "check_bearer env h (with_acl a v) = apsnd (with_acl a) (check_bearer env h v)" for v
    by (auto simp: check_bearer_def split: option.split)
  have undone: "fst (rollback env req (with_acl a v)) = fst (rollback env req v)" for v
    by (auto simp: rollback_def Let_def file_write_def trust_error_response_def with_acl_def split: option.split)
  show ?thesis
    by (cases "rate_gate env h (count_rollback w)"; cases "fst (rate_gate env h (count_rollback w))")
      (auto simp: rollback_handler_def gated_def count rate token undone split: prod.split sum.split)
qed

end
