(* ===== verification/Scim.thy ===== *)
theory Scim
  imports ServeRoutes
begin

text \<open>
  The administration of the tenant access list (\<open>crates/aether-cli/src/main.rs\<close>): the commands
  \<open>aether tenant\<close> and \<open>aether scim\<close> and the SCIM 2.0 routes, with their own token. What they do to the
  list is compared with a map from bearer hashes to grants, and with what \<open>check_tenant_acl\<close> lets through.
\<close>

section \<open>Files\<close>

definition save_tenant_acl :: "serve_env \<Rightarrow> tenant_acl \<Rightarrow> serve_world \<Rightarrow> (string, serve_world) result" where
  "save_tenant_acl env acl w =
     (case se_home env of
        None \<Rightarrow> Inl ''HOME not set''
      | Some _ \<Rightarrow>
          (case se_save_error env of
             Some e \<Rightarrow> Inl e
           | None \<Rightarrow> Inr (w\<lparr>sw_tenants := Stored acl\<rparr>)))"

definition load_scim_config :: "serve_env \<Rightarrow> serve_world \<Rightarrow> (string, scim_config option) result" where
  "load_scim_config env w =
     (case se_home env of
        None \<Rightarrow> Inl ''HOME not set''
      | Some _ \<Rightarrow>
          (case sw_scim w of Absent \<Rightarrow> Inr None | Unreadable e \<Rightarrow> Inl e | Stored c \<Rightarrow> Inr (Some c)))"

definition save_scim_config :: "serve_env \<Rightarrow> scim_config \<Rightarrow> serve_world \<Rightarrow> (string, serve_world) result" where
  "save_scim_config env c w =
     (case se_home env of
        None \<Rightarrow> Inl ''HOME not set''
      | Some _ \<Rightarrow>
          (case se_save_error env of
             Some e \<Rightarrow> Inl e
           | None \<Rightarrow> Inr (w\<lparr>sw_scim := Stored c\<rparr>)))"

text \<open>\<open>load_tenant_acl().ok().flatten().unwrap_or_default()\<close>.\<close>

definition acl_or_default :: "serve_env \<Rightarrow> serve_world \<Rightarrow> tenant_acl" where
  "acl_or_default env w = (case load_tenant_acl env w of Inr (Some a) \<Rightarrow> a | _ \<Rightarrow> tenant_acl_default)"

definition scim_audit_append ::
  "serve_env \<Rightarrow> string \<Rightarrow> string \<Rightarrow> string option \<Rightarrow> string \<Rightarrow> serve_world \<Rightarrow> serve_world" where
  "scim_audit_append env action target tenant detail w =
     (if se_home env = None then w
      else w\<lparr>sw_audit := sw_audit w @
        [\<lparr>al_action = action, al_target_id = target, al_tenant = tenant, al_detail = detail\<rparr>]\<rparr>)"

section \<open>The command line\<close>

text \<open>Changing the first row of a bearer in place.\<close>

fun update_row ::
  "string \<Rightarrow> (tenant_acl_row \<Rightarrow> tenant_acl_row) \<Rightarrow> tenant_acl_row list \<Rightarrow> tenant_acl_row list" where
  "update_row hash f [] = []"
| "update_row hash f (r # rs) = (if ta_bearer_sha256 r = hash then f r # rs else r # update_row hash f rs)"

definition find_row :: "string \<Rightarrow> tenant_acl_row list \<Rightarrow> tenant_acl_row option" where
  "find_row hash rs = find (\<lambda>r. ta_bearer_sha256 r = hash) rs"

definition add_tenant :: "string \<Rightarrow> tenant_acl_row \<Rightarrow> tenant_acl_row" where
  "add_tenant tenant r =
     (if tenant \<in> set (ta_allowed_tenants r) then r
      else r\<lparr>ta_allowed_tenants := ta_allowed_tenants r @ [tenant]\<rparr>)"

definition tenant_grant ::
  "serve_env \<Rightarrow> string \<Rightarrow> string \<Rightarrow> bool \<Rightarrow> nat option \<Rightarrow> rat option \<Rightarrow> serve_world \<Rightarrow> (string, serve_world) result" where
  "tenant_grant env bearer tenant global rpm_cap cost_cap w =
     (if bearer = [] then Inl ''bearer is empty''
      else
        (let hash = se_sha256 env bearer in
         case load_tenant_acl env w of
           Inl e \<Rightarrow> Inl e
         | Inr macl \<Rightarrow>
             (let acl = (case macl of Some a \<Rightarrow> a | None \<Rightarrow> tenant_acl_default) in
              save_tenant_acl env
                (if find_row hash (ac_acls acl) \<noteq> None then
                   acl\<lparr>ac_acls := update_row hash
                     (\<lambda>r. let r1 = add_tenant tenant r;
                              r2 = (if global then r1\<lparr>ta_global := True\<rparr> else r1);
                              r3 = (if rpm_cap \<noteq> None then r2\<lparr>ta_rpm_cap := rpm_cap\<rparr> else r2)
                          in if cost_cap \<noteq> None then r3\<lparr>ta_daily_cost_usd_cap := cost_cap\<rparr> else r3)
                     (ac_acls acl)\<rparr>
                 else
                   acl\<lparr>ac_acls := ac_acls acl @
                     [\<lparr>ta_bearer_sha256 = hash, ta_allowed_tenants = [tenant], ta_global = global,
                       ta_rpm_cap = rpm_cap, ta_daily_cost_usd_cap = cost_cap, ta_active = True,
                       ta_scim_user_name = None\<rparr>]\<rparr>) w)))"

definition drop_row :: "string \<Rightarrow> tenant_acl_row list \<Rightarrow> tenant_acl_row list" where
  "drop_row hash rs = filter (\<lambda>r. ta_bearer_sha256 r \<noteq> hash) rs"

definition revoke_tenant_in :: "string \<Rightarrow> string \<Rightarrow> tenant_acl_row list \<Rightarrow> tenant_acl_row list" where
  "revoke_tenant_in hash tenant rs =
     (let rs1 = update_row hash
            (\<lambda>r. r\<lparr>ta_allowed_tenants := filter (\<lambda>x. x \<noteq> tenant) (ta_allowed_tenants r)\<rparr>) rs
      in case find_row hash rs1 of
           None \<Rightarrow> rs1
         | Some r \<Rightarrow> if ta_allowed_tenants r = [] \<and> \<not> ta_global r then drop_row hash rs1 else rs1)"

definition tenant_revoke ::
  "serve_env \<Rightarrow> string \<Rightarrow> string option \<Rightarrow> serve_world \<Rightarrow> (string, serve_world) result" where
  "tenant_revoke env bearer tenant w =
     (let hash = se_sha256 env bearer in
      case load_tenant_acl env w of
        Inl e \<Rightarrow> Inl e
      | Inr macl \<Rightarrow>
          (let acl = (case macl of Some a \<Rightarrow> a | None \<Rightarrow> tenant_acl_default) in
           case tenant of
             Some t \<Rightarrow>
               if find_row hash (ac_acls acl) = None then Inl ''no ACL row for that bearer''
               else save_tenant_acl env (acl\<lparr>ac_acls := revoke_tenant_in hash t (ac_acls acl)\<rparr>) w
           | None \<Rightarrow>
               if length (drop_row hash (ac_acls acl)) = length (ac_acls acl) then Inl ''no ACL row for that bearer''
               else save_tenant_acl env (acl\<lparr>ac_acls := drop_row hash (ac_acls acl)\<rparr>) w))"

definition scim_configure :: "serve_env \<Rightarrow> string \<Rightarrow> serve_world \<Rightarrow> (string, serve_world) result" where
  "scim_configure env token w =
     (if token = [] then Inl ''token is empty''
      else save_scim_config env \<lparr>sg_version = default_acl_version, sg_bearer_sha256 = se_sha256 env token\<rparr> w)"

definition scim_remove :: "serve_env \<Rightarrow> serve_world \<Rightarrow> (string, serve_world) result" where
  "scim_remove env w =
     (case se_home env of
        None \<Rightarrow> Inl ''HOME not set''
      | Some h \<Rightarrow>
          (case se_remove_error env (path_join h ''.aether/scim.json'') of
             Some e \<Rightarrow> Inl (''remove '' @ path_join h ''.aether/scim.json'' @ '': '' @ e)
           | None \<Rightarrow> Inr (w\<lparr>sw_scim := Absent\<rparr>)))"

section \<open>The routes\<close>

definition scim_json_header :: "(string \<times> string) list" where
  "scim_json_header = [(''content-type'', ''application/scim+json'')]"

definition scim_error_response :: "nat \<Rightarrow> string \<Rightarrow> string \<Rightarrow> serve_world \<Rightarrow> http_response \<times> serve_world" where
  "scim_error_response status scim_type detail w =
     (\<lparr>rp_status = status, rp_headers = scim_json_header,
       rp_body = Json_body (JObj
         [(''schemas'', JArr [JStr ''urn:ietf:params:scim:api:messages:2.0:Error'']),
          (''status'', JStr (show_nat status)), (''scimType'', JStr scim_type), (''detail'', JStr detail)])\<rparr>,
      if 400 \<le> status \<and> status < 500 then count_4xx w else w)"

definition check_scim_bearer :: "serve_env \<Rightarrow> header_map \<Rightarrow> unit gate" where
  "check_scim_bearer env h w =
     (case load_scim_config env w of
        Inr (Some cfg) \<Rightarrow>
          if presented_bearer h = [] \<or>
             \<not> constant_time_eq (se_sha256 env (presented_bearer h)) (sg_bearer_sha256 cfg) then
            refuse (scim_error_response 401 ''invalidCredentials''
              ''valid Authorization: Bearer <SCIM provisioning token> required'' w)
          else (Inr (), w)
      | _ \<Rightarrow>
          refuse (scim_error_response 501 ''notImplemented''
            (''SCIM is not configured '' @ [CHR 0xE2, CHR 0x80, CHR 0x94] @ '' run '' @ [CHR 0x60] @
             ''aether scim configure --token <token>'' @ [CHR 0x60]) w))"

definition scim_user_resource :: "tenant_acl_row \<Rightarrow> json" where
  "scim_user_resource r =
     JObj [(''schemas'', JArr [JStr ''urn:ietf:params:scim:schemas:core:2.0:User'']),
           (''id'', JStr (ta_bearer_sha256 r)),
           (''userName'', JStr (case ta_scim_user_name r of Some n \<Rightarrow> n | None \<Rightarrow> ta_bearer_sha256 r)),
           (''active'', JBool (ta_active r)),
           (''urn:ietf:params:scim:schemas:extension:aether:1.0:User'',
            JObj [(''tenants'', JArr (map JStr (ta_allowed_tenants r))), (''global'', JBool (ta_global r))]),
           (''meta'', JObj [(''resourceType'', JStr ''User'')])]"

definition in_ticks :: "string \<Rightarrow> string" where
  "in_ticks s = [CHR 0x60] @ s @ [CHR 0x60]"

text \<open>Positions are those of the lower-cased text, which has the same length.\<close>

definition parse_scim_eq_filter :: "string \<Rightarrow> (string, string \<times> string) result" where
  "parse_scim_eq_filter flt =
     (let trimmed = str_trim flt in
      case str_find '' eq '' (to_ascii_lowercase trimmed) of
        None \<Rightarrow>
          Inl (''unsupported filter '' @ in_ticks trimmed @ '' '' @ [CHR 0xE2, CHR 0x80, CHR 0x94] @ '' only '' @
               in_ticks (''<attr> eq '' @ quoted ''<value>'') @ '' is supported'')
      | Some pos \<Rightarrow>
          (let attr = str_trim (take pos trimmed);
               rest = str_trim (drop (pos + 4) trimmed)
           in case Option.bind (strip_prefix [CHR 0x22] rest)
                     (\<lambda>s. if suffix [CHR 0x22] s then Some (butlast s) else None) of
                None \<Rightarrow> Inl (''filter value must be double-quoted: '' @ in_ticks trimmed)
              | Some val \<Rightarrow>
                  if attr = [] \<or> val = [] then Inl (''empty attribute or value in filter: '' @ in_ticks trimmed)
                  else Inr (attr, val)))"

definition list_response :: "json list \<Rightarrow> http_response" where
  "list_response resources =
     \<lparr>rp_status = 200, rp_headers = scim_json_header,
      rp_body = Json_body (JObj
        [(''schemas'', JArr [JStr ''urn:ietf:params:scim:api:messages:2.0:ListResponse'']),
         (''totalResults'', JNum (show_nat (length resources))), (''Resources'', JArr resources)])\<rparr>"

definition scim_gates ::
  "serve_env \<Rightarrow> header_map \<Rightarrow> (serve_world \<Rightarrow> http_response \<times> serve_world) \<Rightarrow> serve_world \<Rightarrow> http_response \<times> serve_world" where
  "scim_gates env h k = gated (rate_gate env h) (\<lambda>_. gated (check_scim_bearer env h) (\<lambda>_. k))"

definition scim_list_users :: "serve_env \<Rightarrow> string option \<Rightarrow> serve_world \<Rightarrow> http_response \<times> serve_world" where
  "scim_list_users env flt w =
     (let rows = ac_acls (acl_or_default env w) in
      case flt of
        None \<Rightarrow> (list_response (map scim_user_resource rows), w)
      | Some f \<Rightarrow>
          (case parse_scim_eq_filter f of
             Inl msg \<Rightarrow> scim_error_response 400 ''invalidFilter'' msg w
           | Inr (attr, val) \<Rightarrow>
               if \<not> eq_ignore_ascii_case attr ''userName'' then
                 scim_error_response 400 ''invalidFilter''
                   (''only the '' @ in_ticks ''userName'' @ '' attribute is filterable, got '' @ in_ticks attr) w
               else (list_response (map scim_user_resource (filter (\<lambda>r. ta_scim_user_name r = Some val) rows)), w)))"

record scim_create_request =
  cr_user_name :: "string option"
  cr_active :: bool
  cr_bearer :: string
  cr_tenant :: string
  cr_global :: bool

definition user_response :: "nat \<Rightarrow> tenant_acl_row \<Rightarrow> http_response" where
  "user_response status r =
     \<lparr>rp_status = status, rp_headers = scim_json_header, rp_body = Json_body (scim_user_resource r)\<rparr>"

definition scim_upsert :: "string \<Rightarrow> string \<Rightarrow> scim_create_request \<Rightarrow> tenant_acl_row list \<Rightarrow> tenant_acl_row list" where
  "scim_upsert hash tenant req rs =
     (if find_row hash rs \<noteq> None then
        update_row hash
          (\<lambda>r. let r1 = add_tenant tenant r;
                   r2 = (if cr_global req then r1\<lparr>ta_global := True\<rparr> else r1)
               in r2\<lparr>ta_active := cr_active req, ta_scim_user_name := cr_user_name req\<rparr>) rs
      else rs @ [\<lparr>ta_bearer_sha256 = hash, ta_allowed_tenants = [tenant], ta_global = cr_global req,
                  ta_rpm_cap = None, ta_daily_cost_usd_cap = None, ta_active = cr_active req,
                  ta_scim_user_name = cr_user_name req\<rparr>])"

text \<open>The row just written is found again, so the \<open>expect\<close> of the code holds; \<open>None\<close> is its panic.\<close>

definition scim_create_user ::
  "serve_env \<Rightarrow> scim_create_request \<Rightarrow> serve_world \<Rightarrow> (http_response \<times> serve_world) option" where
  "scim_create_user env req w =
     (let bearer = str_trim (cr_bearer req); tenant = str_trim (cr_tenant req) in
      if bearer = [] then
        Some (scim_error_response 400 ''invalidValue''
          (''the aether extension '' @ in_ticks ''bearer'' @ '' attribute is required'') w)
      else if tenant = [] then
        Some (scim_error_response 400 ''invalidValue''
          (''the aether extension '' @ in_ticks ''tenant'' @ '' attribute is required'') w)
      else
        (let hash = se_sha256 env bearer;
             acl = acl_or_default env w;
             acl1 = acl\<lparr>ac_acls := scim_upsert hash tenant req (ac_acls acl)\<rparr>
         in case save_tenant_acl env acl1 w of
              Inl e \<Rightarrow> Some (scim_error_response 500 ''internal'' (''persist ACL: '' @ e) w)
            | Inr w1 \<Rightarrow>
                map_option
                  (\<lambda>r. (user_response 201 r,
                        scim_audit_append env ''create'' hash (Some tenant) ''granted via POST /scim/v2/Users'' w1))
                  (find_row hash (ac_acls acl1))))"

record scim_patch_op =
  po_op :: string
  po_path :: "string option"
  po_value :: json

text \<open>The operations are applied in order; the first unsupported one ends the request with its error.\<close>

fun patch_active :: "scim_patch_op list \<Rightarrow> bool \<Rightarrow> (nat \<times> string, bool) result" where
  "patch_active [] active = Inr active"
| "patch_active (p # ps) active =
     (if \<not> (eq_ignore_ascii_case (po_op p) ''replace'' \<and>
            (case po_path p of Some q \<Rightarrow> eq_ignore_ascii_case q ''active'' | None \<Rightarrow> False)) then
        Inl (501, ''unsupported PATCH operation '' @
          in_ticks (po_op p @ '' '' @ (case po_path p of Some q \<Rightarrow> q | None \<Rightarrow> ''(no path)'')) @ '' '' @
          [CHR 0xE2, CHR 0x80, CHR 0x94] @ '' only '' @ in_ticks ''replace active <bool>'' @ '' is implemented'')
      else (case po_value p of
              JBool b \<Rightarrow> patch_active ps b
            | _ \<Rightarrow> Inl (400, in_ticks ''active'' @ '' value must be a boolean'')))"

definition scim_patch_user ::
  "serve_env \<Rightarrow> string \<Rightarrow> scim_patch_op list \<Rightarrow> serve_world \<Rightarrow> (http_response \<times> serve_world) option" where
  "scim_patch_user env i ops w =
     (let acl = acl_or_default env w in
      case find_row i (ac_acls acl) of
        None \<Rightarrow> Some (scim_error_response 404 ''invalidValue'' (''no User with id '' @ in_ticks i) w)
      | Some row \<Rightarrow>
          (case patch_active ops (ta_active row) of
             Inl (status, msg) \<Rightarrow> Some (scim_error_response status ''invalidValue'' msg w)
           | Inr new_active \<Rightarrow>
               (let acl1 = acl\<lparr>ac_acls := update_row i (\<lambda>r. r\<lparr>ta_active := new_active\<rparr>) (ac_acls acl)\<rparr> in
                case save_tenant_acl env acl1 w of
                  Inl e \<Rightarrow> Some (scim_error_response 500 ''internal'' (''persist ACL: '' @ e) w)
                | Inr w1 \<Rightarrow>
                    map_option
                      (\<lambda>r. (user_response 200 r,
                            scim_audit_append env (if new_active then ''reactivate'' else ''deactivate'') i
                              (case ta_allowed_tenants row of [] \<Rightarrow> None | t # _ \<Rightarrow> Some t)
                              ''via PATCH /scim/v2/Users/{id}'' w1))
                      (find_row i (ac_acls acl1)))))"

definition scim_delete_user :: "serve_env \<Rightarrow> string \<Rightarrow> serve_world \<Rightarrow> http_response \<times> serve_world" where
  "scim_delete_user env i w =
     (let acl = acl_or_default env w;
          tenant = (case find_row i (ac_acls acl) of
                      Some r \<Rightarrow> (case ta_allowed_tenants r of [] \<Rightarrow> None | t # _ \<Rightarrow> Some t)
                    | None \<Rightarrow> None);
          rows = drop_row i (ac_acls acl)
      in if length rows = length (ac_acls acl) then
           scim_error_response 404 ''invalidValue'' (''no User with id '' @ in_ticks i) w
         else
           (case save_tenant_acl env (acl\<lparr>ac_acls := rows\<rparr>) w of
              Inl e \<Rightarrow> scim_error_response 500 ''internal'' (''persist ACL: '' @ e) w
            | Inr w1 \<Rightarrow>
                (\<lparr>rp_status = 204, rp_headers = [], rp_body = Empty_body\<rparr>,
                 scim_audit_append env ''delete'' i tenant ''via DELETE /scim/v2/Users/{id}'' w1)))"

definition group_json :: "tenant_acl_row list \<Rightarrow> string \<Rightarrow> json" where
  "group_json rs t =
     JObj [(''schemas'', JArr [JStr ''urn:ietf:params:scim:schemas:core:2.0:Group'']),
           (''id'', JStr t), (''displayName'', JStr t),
           (''members'', JArr (map
              (\<lambda>r. JObj [(''value'', JStr (ta_bearer_sha256 r)), (''display'', opt_json (ta_scim_user_name r))])
              (filter (\<lambda>r. t \<in> set (ta_allowed_tenants r)) rs))),
           (''meta'', JObj [(''resourceType'', JStr ''Group'')])]"

definition scim_list_groups :: "serve_env \<Rightarrow> serve_world \<Rightarrow> http_response \<times> serve_world" where
  "scim_list_groups env w =
     (let rs = ac_acls (acl_or_default env w) in
      (list_response (map (group_json rs) (sort_dedup (concat (map ta_allowed_tenants rs)))), w))"

definition scim_list_users_handler where
  "scim_list_users_handler env h flt = scim_gates env h (scim_list_users env flt)"

definition scim_list_groups_handler where
  "scim_list_groups_handler env h = scim_gates env h (scim_list_groups env)"

definition scim_delete_user_handler where
  "scim_delete_user_handler env h i = scim_gates env h (scim_delete_user env i)"

text \<open>Handlers that may panic: the gates as before, with the panic passed on.\<close>

definition scim_gates_opt ::
  "serve_env \<Rightarrow> header_map \<Rightarrow> (serve_world \<Rightarrow> (http_response \<times> serve_world) option) \<Rightarrow> serve_world \<Rightarrow>
   (http_response \<times> serve_world) option" where
  "scim_gates_opt env h k w =
     (case rate_gate env h w of
        (Inl r, w1) \<Rightarrow> Some (r, w1)
      | (Inr _, w1) \<Rightarrow>
          (case check_scim_bearer env h w1 of
             (Inl r, w2) \<Rightarrow> Some (r, w2)
           | (Inr _, w2) \<Rightarrow> k w2))"

definition scim_create_user_handler where
  "scim_create_user_handler env h req = scim_gates_opt env h (scim_create_user env req)"

definition scim_patch_user_handler where
  "scim_patch_user_handler env h i ops = scim_gates_opt env h (scim_patch_user env i ops)"

section \<open>The access list as a map\<close>

definition acl_rows :: "serve_env \<Rightarrow> serve_world \<Rightarrow> tenant_acl_row list" where
  "acl_rows env w = ac_acls (acl_or_default env w)"

definition grant_of :: "serve_env \<Rightarrow> serve_world \<Rightarrow> string \<Rightarrow> tenant_acl_row option" where
  "grant_of env w hash = find_row hash (acl_rows env w)"

lemma find_row_simps [simp]:
  "find_row hash [] = None"
  "find_row hash (r # rs) = (if ta_bearer_sha256 r = hash then Some r else find_row hash rs)"
  by (simp_all add: find_row_def)

lemma find_row_append:
  "find_row hash (rs @ rs') = (case find_row hash rs of Some r \<Rightarrow> Some r | None \<Rightarrow> find_row hash rs')"
  by (induction rs) simp_all

lemma find_row_update:
  assumes "\<And>r. ta_bearer_sha256 (f r) = ta_bearer_sha256 r"
  shows "find_row j (update_row hash f rs) = (if j = hash then map_option f (find_row hash rs) else find_row j rs)"
  using assms by (induction rs) auto

lemma find_row_drop: "find_row j (drop_row hash rs) = (if j = hash then None else find_row j rs)"
  by (induction rs) (auto simp: drop_row_def)

lemma drop_row_same: "length (drop_row hash rs) = length rs \<longleftrightarrow> find_row hash rs = None"
proof (induction rs)
  case (Cons r rs)
  have "length (filter (\<lambda>r. ta_bearer_sha256 r \<noteq> hash) rs) \<noteq> Suc (length rs)"
    by (metis Suc_n_not_le_n length_filter_le)
  then show ?case using Cons by (auto simp: drop_row_def)
qed (simp add: drop_row_def)

lemma save_tenant_acl_Inr:
  "save_tenant_acl env acl w = Inr w1 \<Longrightarrow> w1 = w\<lparr>sw_tenants := Stored acl\<rparr> \<and> se_home env \<noteq> None"
  by (auto simp: save_tenant_acl_def split: option.splits)

lemma acl_rows_saved: "se_home env \<noteq> None \<Longrightarrow> acl_rows env (w\<lparr>sw_tenants := Stored acl\<rparr>) = ac_acls acl"
  by (auto simp: acl_rows_def acl_or_default_def load_tenant_acl_def)

lemma acl_rows_audit [simp]: "acl_rows env (scim_audit_append e a i t d w) = acl_rows env w"
  by (simp add: acl_rows_def acl_or_default_def load_tenant_acl_def scim_audit_append_def split: option.split)

definition upserted :: "string \<Rightarrow> string \<Rightarrow> scim_create_request \<Rightarrow> tenant_acl_row option \<Rightarrow> tenant_acl_row" where
  "upserted hash tenant req old =
     (case old of
        Some r \<Rightarrow>
          (add_tenant tenant r)\<lparr>ta_global := ta_global r \<or> cr_global req, ta_active := cr_active req,
             ta_scim_user_name := cr_user_name req\<rparr>
      | None \<Rightarrow>
          \<lparr>ta_bearer_sha256 = hash, ta_allowed_tenants = [tenant], ta_global = cr_global req, ta_rpm_cap = None,
           ta_daily_cost_usd_cap = None, ta_active = cr_active req, ta_scim_user_name = cr_user_name req\<rparr>)"

lemma add_tenant_frame [simp]:
  "ta_bearer_sha256 (add_tenant t r) = ta_bearer_sha256 r" "ta_global (add_tenant t r) = ta_global r"
  by (simp_all add: add_tenant_def)

lemma find_row_upsert:
  "find_row j (scim_upsert hash tenant req rs) =
   (if j = hash then Some (upserted hash tenant req (find_row hash rs)) else find_row j rs)"
proof (cases "find_row hash rs")
  case (Some r)
  then show ?thesis by (auto simp: scim_upsert_def find_row_update upserted_def Let_def add_tenant_def)
next
  case None
  then show ?thesis by (auto simp: scim_upsert_def find_row_append upserted_def split: option.split)
qed

lemma scim_error_frame [simp]:
  "acl_rows env (snd (scim_error_response st ty d w)) = acl_rows env w"
  "rp_status (fst (scim_error_response st ty d w)) = st"
  by (simp_all add: scim_error_response_def acl_rows_def acl_or_default_def load_tenant_acl_def count_4xx_def
      split: option.split)

lemma scim_error_data [simp]: "same_data w (snd (scim_error_response st ty d w))"
  by (simp add: scim_error_response_def)

lemma scim_create_outcome:
  obtains r w1 where "scim_create_user env req w = Some (r, w1)" "rp_status r \<noteq> 201" "same_data w w1"
  | r w1 where "scim_create_user env req w = Some (r, w1)" "rp_status r = 201" "se_home env \<noteq> None"
      "w1 = scim_audit_append env ''create'' (se_sha256 env (str_trim (cr_bearer req)))
         (Some (str_trim (cr_tenant req))) ''granted via POST /scim/v2/Users''
         (w\<lparr>sw_tenants := Stored ((acl_or_default env w)\<lparr>ac_acls :=
            scim_upsert (se_sha256 env (str_trim (cr_bearer req))) (str_trim (cr_tenant req)) req (acl_rows env w)\<rparr>)\<rparr>)"
proof -
  let ?hash = "se_sha256 env (str_trim (cr_bearer req))" and ?t = "str_trim (cr_tenant req)"
  let ?acl = "(acl_or_default env w)\<lparr>ac_acls := scim_upsert ?hash ?t req (acl_rows env w)\<rparr>"
  consider "str_trim (cr_bearer req) = [] \<or> ?t = []" | "str_trim (cr_bearer req) \<noteq> []" "?t \<noteq> []" by blast
  then show ?thesis
  proof cases
    case 1
    then have "\<exists>d. scim_create_user env req w = Some (scim_error_response 400 ''invalidValue'' d w)"
      by (cases "str_trim (cr_bearer req) = []") (auto simp: scim_create_user_def Let_def)
    then obtain d where "scim_create_user env req w = Some (scim_error_response 400 ''invalidValue'' d w)" by blast
    then show ?thesis
      using that(1)[of "fst (scim_error_response 400 ''invalidValue'' d w)" "snd (scim_error_response 400 ''invalidValue'' d w)"]
      by simp
  next
    case 2
    show ?thesis
    proof (cases "save_tenant_acl env ?acl w")
      case (Inl e)
      then show ?thesis
        using 2 that(1)[of "fst (scim_error_response 500 ''internal'' (''persist ACL: '' @ e) w)"
            "snd (scim_error_response 500 ''internal'' (''persist ACL: '' @ e) w)"]
        by (simp add: scim_create_user_def Let_def acl_rows_def)
    next
      case (Inr w1)
      note w1 = save_tenant_acl_Inr[OF Inr]
      have "find_row ?hash (ac_acls ?acl) = Some (upserted ?hash ?t req (find_row ?hash (acl_rows env w)))"
        by (simp add: find_row_upsert)
      then show ?thesis
        using 2 Inr w1 that(2) by (simp add: scim_create_user_def Let_def acl_rows_def user_response_def)
    qed
  qed
qed

lemma scim_patch_outcome:
  obtains r w1 where "scim_patch_user env i ops w = Some (r, w1)" "rp_status r \<noteq> 200" "same_data w w1"
  | r w1 row active where "scim_patch_user env i ops w = Some (r, w1)" "rp_status r = 200" "se_home env \<noteq> None"
      "find_row i (acl_rows env w) = Some row" "patch_active ops (ta_active row) = Inr active"
      "w1 = scim_audit_append env (if active then ''reactivate'' else ''deactivate'') i
         (case ta_allowed_tenants row of [] \<Rightarrow> None | t # _ \<Rightarrow> Some t) ''via PATCH /scim/v2/Users/{id}''
         (w\<lparr>sw_tenants := Stored ((acl_or_default env w)\<lparr>ac_acls :=
            update_row i (\<lambda>r. r\<lparr>ta_active := active\<rparr>) (acl_rows env w)\<rparr>)\<rparr>)"
proof -
  have err: thesis if "scim_patch_user env i ops w = Some (scim_error_response st ty d w)" "st \<noteq> 200" for st ty d
    using that(1) \<open>st \<noteq> 200\<close>
      \<open>\<And>r w1. \<lbrakk>scim_patch_user env i ops w = Some (r, w1); rp_status r \<noteq> 200; same_data w w1\<rbrakk> \<Longrightarrow> thesis\<close>
        [of "fst (scim_error_response st ty d w)" "snd (scim_error_response st ty d w)"]
    by simp
  have status: "patch_active ops b = Inl (st, msg) \<Longrightarrow> st \<noteq> 200" for b st msg
    by (induction ops b rule: patch_active.induct) (auto split: if_splits json.splits)
  show ?thesis
  proof (cases "find_row i (acl_rows env w)")
    case None
    then show ?thesis using err[of 404] by (simp add: scim_patch_user_def Let_def acl_rows_def)
  next
    case (Some row)
    show ?thesis
    proof (cases "patch_active ops (ta_active row)")
      case (Inl e)
      then show ?thesis
        using err[of "fst e"] status Some by (cases e) (auto simp: scim_patch_user_def Let_def acl_rows_def)
    next
      case (Inr active)
      let ?acl = "(acl_or_default env w)\<lparr>ac_acls := update_row i (\<lambda>r. r\<lparr>ta_active := active\<rparr>) (acl_rows env w)\<rparr>"
      show ?thesis
      proof (cases "save_tenant_acl env ?acl w")
        case (Inl e)
        then show ?thesis
          using err[of 500] Some Inr by (auto simp: scim_patch_user_def Let_def acl_rows_def)
      next
        case saved: (Inr w1)
        note w1 = save_tenant_acl_Inr[OF saved]
        have "find_row i (ac_acls ?acl) = Some (row\<lparr>ta_active := active\<rparr>)"
          using Some by (simp add: find_row_update)
        then show ?thesis
          using Some Inr saved w1 that(2)[of _ _ row active]
          by (simp add: scim_patch_user_def Let_def acl_rows_def user_response_def)
      qed
    qed
  qed
qed

lemma scim_delete_outcome:
  assumes "scim_delete_user env i w = (r, w1)"
  obtains "rp_status r \<noteq> 204" "same_data w w1"
  | t row where "rp_status r = 204" "se_home env \<noteq> None" "find_row i (acl_rows env w) = Some row"
      "w1 = scim_audit_append env ''delete'' i t ''via DELETE /scim/v2/Users/{id}''
         (w\<lparr>sw_tenants := Stored ((acl_or_default env w)\<lparr>ac_acls := drop_row i (acl_rows env w)\<rparr>)\<rparr>)"
proof -
  have err: "scim_error_response st ty d w = (r, w1) \<Longrightarrow> st \<noteq> 204 \<Longrightarrow> rp_status r \<noteq> 204 \<and> same_data w w1" for st ty d
    using scim_error_frame(2) scim_error_data by (metis fst_conv snd_conv)
  show ?thesis
  proof (cases "length (drop_row i (acl_rows env w)) = length (acl_rows env w)")
    case True
    then show ?thesis using assms err that(1) by (auto simp: scim_delete_user_def Let_def acl_rows_def)
  next
    case False
    then obtain row where row: "find_row i (acl_rows env w) = Some row" unfolding drop_row_same by blast
    show ?thesis
    proof (cases "save_tenant_acl env ((acl_or_default env w)\<lparr>ac_acls := drop_row i (acl_rows env w)\<rparr>) w")
      case (Inl e)
      then show ?thesis using assms False err that(1) by (auto simp: scim_delete_user_def Let_def acl_rows_def)
    next
      case (Inr w2)
      then show ?thesis
        using assms False save_tenant_acl_Inr[OF Inr] row that(2)
        by (auto simp: scim_delete_user_def Let_def acl_rows_def)
    qed
  qed
qed

definition with_active :: "bool \<Rightarrow> tenant_acl_row \<Rightarrow> tenant_acl_row" where
  "with_active b r = r\<lparr>ta_active := b\<rparr>"

definition granted ::
  "string \<Rightarrow> string \<Rightarrow> bool \<Rightarrow> nat option \<Rightarrow> rat option \<Rightarrow> tenant_acl_row option \<Rightarrow> tenant_acl_row" where
  "granted hash tenant global rpm_cap cost_cap old =
     (case old of
        Some r \<Rightarrow>
          (add_tenant tenant r)\<lparr>ta_global := ta_global r \<or> global,
             ta_rpm_cap := (if rpm_cap \<noteq> None then rpm_cap else ta_rpm_cap r),
             ta_daily_cost_usd_cap := (if cost_cap \<noteq> None then cost_cap else ta_daily_cost_usd_cap r)\<rparr>
      | None \<Rightarrow>
          \<lparr>ta_bearer_sha256 = hash, ta_allowed_tenants = [tenant], ta_global = global, ta_rpm_cap = rpm_cap,
           ta_daily_cost_usd_cap = cost_cap, ta_active = True, ta_scim_user_name = None\<rparr>)"

definition revoked :: "string \<Rightarrow> tenant_acl_row \<Rightarrow> tenant_acl_row option" where
  "revoked tenant r =
     (let r1 = r\<lparr>ta_allowed_tenants := filter (\<lambda>x. x \<noteq> tenant) (ta_allowed_tenants r)\<rparr> in
      if ta_allowed_tenants r1 = [] \<and> \<not> ta_global r1 then None else Some r1)"

lemma load_rows:
  assumes "load_tenant_acl env w = Inr macl"
  shows "acl_or_default env w = (case macl of Some a \<Rightarrow> a | None \<Rightarrow> tenant_acl_default)"
  using assms by (simp add: acl_or_default_def split: option.split)

lemma tenant_grant_map:
  assumes "tenant_grant env bearer tenant global rpm cost w = Inr w1"
  shows "grant_of env w1 j =
    (if j = se_sha256 env bearer
     then Some (granted (se_sha256 env bearer) tenant global rpm cost (grant_of env w (se_sha256 env bearer)))
     else grant_of env w j)"
proof -
  let ?h = "se_sha256 env bearer"
  obtain macl where load: "load_tenant_acl env w = Inr macl"
    using assms by (auto simp: tenant_grant_def Let_def split: if_splits sum.splits)
  obtain rs where saved: "save_tenant_acl env ((acl_or_default env w)\<lparr>ac_acls := rs\<rparr>) w = Inr w1"
    and rs: "find_row j rs = (if j = ?h then Some (granted ?h tenant global rpm cost (find_row ?h (acl_rows env w)))
       else find_row j (acl_rows env w))"
  proof (cases "find_row ?h (acl_rows env w)")
    case None
    show ?thesis
      by (rule that[of "acl_rows env w @ [granted ?h tenant global rpm cost None]"])
        (use assms None load load_rows[OF load] in
          \<open>auto simp: tenant_grant_def Let_def granted_def acl_rows_def find_row_append split: if_splits option.split\<close>)
  next
    case (Some r)
    let ?f = "\<lambda>r. granted ?h tenant global rpm cost (Some r)"
    have f: "(\<lambda>r. let r1 = add_tenant tenant r; r2 = (if global then r1\<lparr>ta_global := True\<rparr> else r1);
                  r3 = (if rpm \<noteq> None then r2\<lparr>ta_rpm_cap := rpm\<rparr> else r2)
              in if cost \<noteq> None then r3\<lparr>ta_daily_cost_usd_cap := cost\<rparr> else r3) = ?f"
      by (auto simp: granted_def Let_def add_tenant_def fun_eq_iff)
    show ?thesis
    proof (rule that[of "update_row ?h ?f (acl_rows env w)"])
      show "save_tenant_acl env ((acl_or_default env w)\<lparr>ac_acls := update_row ?h ?f (acl_rows env w)\<rparr>) w = Inr w1"
        using assms Some load load_rows[OF load] unfolding tenant_grant_def f
        by (auto simp: Let_def acl_rows_def split: if_splits)
      show "find_row j (update_row ?h ?f (acl_rows env w)) =
          (if j = ?h then Some (granted ?h tenant global rpm cost (find_row ?h (acl_rows env w)))
           else find_row j (acl_rows env w))"
        using Some by (simp add: find_row_update granted_def)
    qed
  qed
  from save_tenant_acl_Inr[OF saved] rs show ?thesis by (simp add: grant_of_def acl_rows_saved)
qed

lemma tenant_revoke_map:
  assumes "tenant_revoke env bearer tenant w = Inr w1"
  shows "grant_of env w1 j =
    (if j = se_sha256 env bearer
     then Option.bind tenant (\<lambda>t. Option.bind (grant_of env w j) (revoked t))
     else grant_of env w j)"
proof -
  let ?h = "se_sha256 env bearer"
  obtain macl where load: "load_tenant_acl env w = Inr macl"
    using assms by (auto simp: tenant_revoke_def Let_def split: sum.splits)
  note rows = load_rows[OF load, symmetric]
  show ?thesis
  proof (cases tenant)
    case None
    have saved: "save_tenant_acl env ((acl_or_default env w)\<lparr>ac_acls := drop_row ?h (acl_rows env w)\<rparr>) w = Inr w1"
      using assms None load rows by (auto simp: tenant_revoke_def Let_def acl_rows_def split: if_splits)
    from save_tenant_acl_Inr[OF saved] None show ?thesis
      by (simp add: grant_of_def acl_rows_saved find_row_drop)
  next
    case (Some t)
    have saved: "save_tenant_acl env ((acl_or_default env w)\<lparr>ac_acls := revoke_tenant_in ?h t (acl_rows env w)\<rparr>) w = Inr w1"
      using assms Some load rows by (auto simp: tenant_revoke_def Let_def acl_rows_def split: if_splits)
    have "find_row j (revoke_tenant_in ?h t (acl_rows env w)) =
        (if j = ?h then Option.bind (find_row j (acl_rows env w)) (revoked t) else find_row j (acl_rows env w))"
      by (auto simp: revoke_tenant_in_def Let_def find_row_update find_row_drop revoked_def split: option.splits)
    with save_tenant_acl_Inr[OF saved] Some show ?thesis by (simp add: grant_of_def acl_rows_saved)
  qed
qed

lemma scim_create_map:
  assumes "scim_create_user env req w = Some (r, w1)" "rp_status r = 201"
  shows "grant_of env w1 j =
    (if j = se_sha256 env (str_trim (cr_bearer req))
     then Some (upserted j (str_trim (cr_tenant req)) req (grant_of env w j)) else grant_of env w j)"
  using assms by (cases rule: scim_create_outcome[of env req w]) (auto simp: grant_of_def acl_rows_saved find_row_upsert)

lemma scim_patch_map:
  assumes "scim_patch_user env i ops w = Some (r, w1)" "rp_status r = 200"
  shows "\<exists>row active. grant_of env w i = Some row \<and> patch_active ops (ta_active row) = Inr active \<and>
    (\<forall>j. grant_of env w1 j = (if j = i then Some (with_active active row) else grant_of env w j))"
  using assms
  by (cases rule: scim_patch_outcome[of env i ops w])
    (auto simp: grant_of_def acl_rows_saved find_row_update with_active_def)

lemma scim_delete_map:
  assumes "scim_delete_user env i w = (r, w1)" "rp_status r = 204"
  shows "grant_of env w i \<noteq> None \<and> grant_of env w1 j = (if j = i then None else grant_of env w j)"
  by (rule scim_delete_outcome[OF assms(1)]) (use assms(2) in \<open>auto simp: grant_of_def acl_rows_saved find_row_drop\<close>)

text \<open>
  C14. The access list refines a map from bearer hashes to grants. Each successful operation of the command line
  and of SCIM changes the grant of exactly one hash, as specified: create upserts, patch switches the grant on or
  off and nothing else, delete removes it, \<open>grant\<close> extends it, \<open>revoke\<close> removes a tenant, or the grant
  altogether (also when its last tenant went and it is not global).
\<close>
theorem access_list_refines_map:
  "(scim_create_user env req w = Some (r1, w1) \<and> rp_status r1 = 201 \<longrightarrow>
      (\<forall>j. grant_of env w1 j =
         (if j = se_sha256 env (str_trim (cr_bearer req))
          then Some (upserted j (str_trim (cr_tenant req)) req (grant_of env w j)) else grant_of env w j))) \<and>
   (scim_patch_user env i ops w = Some (r2, w2) \<and> rp_status r2 = 200 \<longrightarrow>
      (\<exists>row active. grant_of env w i = Some row \<and> patch_active ops (ta_active row) = Inr active \<and>
         (\<forall>j. grant_of env w2 j = (if j = i then Some (with_active active row) else grant_of env w j)))) \<and>
   (scim_delete_user env i w = (r3, w3) \<and> rp_status r3 = 204 \<longrightarrow>
      (\<forall>j. grant_of env w3 j = (if j = i then None else grant_of env w j))) \<and>
   (tenant_grant env bearer tenant global rpm cost w = Inr w4 \<longrightarrow>
      (\<forall>j. grant_of env w4 j =
         (if j = se_sha256 env bearer then Some (granted j tenant global rpm cost (grant_of env w j))
          else grant_of env w j))) \<and>
   (tenant_revoke env bearer mtenant w = Inr w5 \<longrightarrow>
      (\<forall>j. grant_of env w5 j =
         (if j = se_sha256 env bearer then Option.bind mtenant (\<lambda>t. Option.bind (grant_of env w j) (revoked t))
          else grant_of env w j)))"
  using scim_create_map scim_patch_map scim_delete_map tenant_grant_map tenant_revoke_map by auto

section \<open>Locking out and letting in\<close>

lemma acl_in_force_rows: "acl_in_force env w = acl_rows env w"
  by (simp add: acl_in_force_def acl_rows_def acl_or_default_def tenant_acl_default_def split: sum.split option.split)

lemma refused_403: "fst (refuse (trust_error_response 403 msg w)) = Inl r \<Longrightarrow> rp_status r = 403"
  by (auto simp: refuse_def trust_error_response_def)

lemma inactive_refused:
  assumes "grant_of env w (se_sha256 env (presented_bearer h)) = Some row" "\<not> ta_active row"
  shows "\<exists>resp. fst (check_tenant_acl env h tenant w) = Inl resp \<and> rp_status resp = 403"
proof -
  have "acl_rows env w \<noteq> []" using assms(1) by (auto simp: grant_of_def)
  then obtain a where a: "load_tenant_acl env w = Inr (Some a)" and rows: "ac_acls a = acl_rows env w"
    by (auto simp: acl_rows_def acl_or_default_def tenant_acl_default_def split: sum.splits option.splits)
  show ?thesis
    using assms \<open>acl_rows env w \<noteq> []\<close>
    by (auto simp: check_tenant_acl_def a rows Let_def refuse_def trust_error_response_def grant_of_def find_row_def)
qed

text \<open>
  C28. Deactivation through SCIM is a lock-out: once a patch that ends with \<open>active\<close> false has succeeded, every
  request that presents that bearer is refused with 403 by the access list, for every tenant and without one,
  while no other bearer's grant is touched.
\<close>
theorem deactivated_bearer_is_locked_out:
  assumes "scim_patch_user env (se_sha256 env (presented_bearer h)) ops w = Some (r, w1)" and "rp_status r = 200"
    and "ops \<noteq> []" and "po_value (last ops) = JBool False"
  shows "(\<exists>resp. fst (check_tenant_acl env h tenant w1) = Inl resp \<and> rp_status resp = 403) \<and>
    (\<forall>j. j \<noteq> se_sha256 env (presented_bearer h) \<longrightarrow> grant_of env w1 j = grant_of env w j)"
proof -
  obtain row active where patch: "patch_active ops (ta_active row) = Inr active"
    and grants: "\<forall>j. grant_of env w1 j =
       (if j = se_sha256 env (presented_bearer h) then Some (with_active active row) else grant_of env w j)"
    using scim_patch_map[OF assms(1,2)] by blast
  have "patch_active ops b = Inr active \<Longrightarrow> ops \<noteq> [] \<Longrightarrow> po_value (last ops) = JBool False \<Longrightarrow> \<not> active" for b
    by (induction ops b rule: patch_active.induct) (auto split: if_splits json.splits)
  then have "\<not> active" using patch assms(3,4) by blast
  then show ?thesis
    using inactive_refused[of env w1 h "with_active active row" tenant] grants by (simp add: with_active_def)
qed

definition acme_world :: serve_world where
  "acme_world = idle_world\<lparr>sw_tenants := Stored \<lparr>ac_version = 1, ac_acls = [acme_row]\<rparr>,
     sw_scim := Stored \<lparr>sg_version = 1, sg_bearer_sha256 = ''scim-token''\<rparr>\<rparr>"

definition switch_off :: "scim_patch_op list" where
  "switch_off = [\<lparr>po_op = ''Replace'', po_path = Some ''active'', po_value = JBool False\<rparr>]"

definition acme_headers :: header_map where
  "acme_headers = [(''authorization'', Some ''Bearer acme-token'')]"

definition acme_create :: scim_create_request where
  "acme_create = \<lparr>cr_user_name = None, cr_active = True, cr_bearer = ''acme-token'', cr_tenant = ''globex'', cr_global = False\<rparr>"

lemma acme_bearer: "presented_bearer acme_headers = ''acme-token''"
  by code_simp

lemma switched_off_run:
  "map_option (\<lambda>(r, w1). (rp_status r, map ta_active (acl_rows plain_serve_env w1), map al_action (sw_audit w1)))
     (scim_patch_user plain_serve_env ''acme-token'' switch_off acme_world) = Some (200, [False], [''deactivate''])"
  by code_simp

lemma deactivated_bearer_is_locked_out_witness:
  "\<exists>r w1. scim_patch_user plain_serve_env ''acme-token'' switch_off acme_world = Some (r, w1) \<and>
     (\<exists>resp. fst (check_tenant_acl plain_serve_env acme_headers (Some ''acme'') w1) = Inl resp \<and> rp_status resp = 403) \<and>
     (\<forall>j. j \<noteq> ''acme-token'' \<longrightarrow> grant_of plain_serve_env w1 j = grant_of plain_serve_env acme_world j)"
proof -
  obtain r w1 where run: "scim_patch_user plain_serve_env ''acme-token'' switch_off acme_world = Some (r, w1)"
    and st: "rp_status r = 200"
    using switched_off_run by auto
  have hash: "se_sha256 plain_serve_env (presented_bearer acme_headers) = ''acme-token''"
    by (simp add: acme_bearer plain_serve_env_def)
  show ?thesis
    using deactivated_bearer_is_locked_out[of plain_serve_env acme_headers switch_off acme_world r w1 "Some ''acme''",
        unfolded hash, OF run st] run
    by (simp add: switch_off_def)
qed

lemma acme_created:
  "map_option (\<lambda>(r, w1). rp_status r) (scim_create_user plain_serve_env acme_create acme_world) = Some 201"
  by code_simp

lemma access_list_refines_map_witness:
  "\<forall>j. grant_of plain_serve_env (snd (the (scim_create_user plain_serve_env acme_create acme_world))) j =
      (if j = se_sha256 plain_serve_env (str_trim (cr_bearer acme_create))
       then Some (upserted j (str_trim (cr_tenant acme_create)) acme_create (grant_of plain_serve_env acme_world j))
       else grant_of plain_serve_env acme_world j)"
proof (rule access_list_refines_map[THEN conjunct1, THEN mp])
  show "scim_create_user plain_serve_env acme_create acme_world =
      Some (fst (the (scim_create_user plain_serve_env acme_create acme_world)),
        snd (the (scim_create_user plain_serve_env acme_create acme_world))) \<and>
    rp_status (fst (the (scim_create_user plain_serve_env acme_create acme_world))) = 201"
    using acme_created by auto
qed

text \<open>An access list that was emptied is no access list: everyone is let in.\<close>

lemma no_rows_no_gate: "acl_rows env w = [] \<Longrightarrow> check_tenant_acl env h tenant w = (Inr (), w)"
  by (auto simp: check_tenant_acl_def acl_rows_def acl_or_default_def tenant_acl_default_def
      split: sum.splits option.splits)

text \<open>
  Deleting the last user opens the gate. When the access list holds a single bearer, also a deactivated one,
  its deletion through SCIM, or its revocation on the command line, makes the access list let every request
  through: with any bearer, with none, for every tenant and for the global keychain.
\<close>
theorem deleting_last_user_opens_gate:
  assumes "acl_rows env w = [row]"
    and "(scim_delete_user env (ta_bearer_sha256 row) w = (r, w1) \<and> rp_status r = 204) \<or>
         (tenant_revoke env bearer None w = Inr w1)"
  shows "check_tenant_acl env h tenant w1 = (Inr (), w1)"
proof (rule no_rows_no_gate)
  have gone: "acl_rows env w1 = [] \<or> (\<exists>hash. acl_rows env w1 = drop_row hash [row] \<and> drop_row hash [row] \<noteq> [row])"
    using assms(2)
  proof
    assume del: "scim_delete_user env (ta_bearer_sha256 row) w = (r, w1) \<and> rp_status r = 204"
    show ?thesis
      by (rule scim_delete_outcome[OF conjunct1[OF del]])
        (use del assms(1) in \<open>auto simp: acl_rows_saved drop_row_def\<close>)
  next
    assume rev: "tenant_revoke env bearer None w = Inr w1"
    then obtain macl where load: "load_tenant_acl env w = Inr macl"
      by (auto simp: tenant_revoke_def Let_def split: sum.splits)
    let ?h = "se_sha256 env bearer"
    have saved: "save_tenant_acl env ((acl_or_default env w)\<lparr>ac_acls := drop_row ?h (acl_rows env w)\<rparr>) w = Inr w1"
      and len: "length (drop_row ?h (acl_rows env w)) \<noteq> length (acl_rows env w)"
      using rev load load_rows[OF load, symmetric]
      by (auto simp: tenant_revoke_def Let_def acl_rows_def split: if_splits)
    have "acl_rows env w1 = drop_row ?h [row]"
      using save_tenant_acl_Inr[OF saved] assms(1) by (simp add: acl_rows_saved)
    then show ?thesis using len assms(1) by metis
  qed
  then show "acl_rows env w1 = []" by (auto simp: drop_row_def split: if_splits)
qed

lemma deleting_last_user_opens_gate_witness:
  "\<forall>h tenant. check_tenant_acl plain_serve_env h tenant (snd (scim_delete_user plain_serve_env ''acme-token'' acme_world)) =
     (Inr (), snd (scim_delete_user plain_serve_env ''acme-token'' acme_world))"
proof (intro allI)
  fix h tenant
  have rows: "acl_rows plain_serve_env acme_world = [acme_row]" by code_simp
  have "rp_status (fst (scim_delete_user plain_serve_env ''acme-token'' acme_world)) = 204" by code_simp
  then show "check_tenant_acl plain_serve_env h tenant (snd (scim_delete_user plain_serve_env ''acme-token'' acme_world)) =
     (Inr (), snd (scim_delete_user plain_serve_env ''acme-token'' acme_world))"
    by (intro deleting_last_user_opens_gate[OF rows, of "fst (scim_delete_user plain_serve_env ''acme-token'' acme_world)"])
      (simp add: acme_row_def)
qed

text \<open>An access list that cannot be parsed is none either, and the next user created replaces it.\<close>

lemma unreadable_list_is_replaced:
  assumes "sw_tenants w = Unreadable e" "se_home env \<noteq> None"
  shows "check_tenant_acl env h tenant w = (Inr (), w)"
    and "scim_create_user env req w = Some (r, w1) \<Longrightarrow> rp_status r = 201 \<Longrightarrow> length (acl_rows env w1) = 1"
proof -
  have rows: "acl_rows env w = []"
    using assms by (auto simp: acl_rows_def acl_or_default_def load_tenant_acl_def tenant_acl_default_def)
  then show "check_tenant_acl env h tenant w = (Inr (), w)" by (rule no_rows_no_gate)
  assume "scim_create_user env req w = Some (r, w1)" "rp_status r = 201"
  then show "length (acl_rows env w1) = 1"
    by (cases rule: scim_create_outcome[of env req w]) (auto simp: acl_rows_saved rows scim_upsert_def)
qed

section \<open>Who may administer\<close>

datatype scim_request = Create_user scim_create_request | Patch_user string "scim_patch_op list" | Delete_user string

fun scim_route :: "serve_env \<Rightarrow> header_map \<Rightarrow> scim_request \<Rightarrow> serve_world \<Rightarrow> (http_response \<times> serve_world) option" where
  "scim_route env h (Create_user req) w = scim_create_user_handler env h req w"
| "scim_route env h (Patch_user i ops) w = scim_patch_user_handler env h i ops w"
| "scim_route env h (Delete_user i) w = Some (scim_delete_user_handler env h i w)"

definition scim_target :: "serve_env \<Rightarrow> scim_request \<Rightarrow> string" where
  "scim_target env q =
     (case q of Create_user req \<Rightarrow> se_sha256 env (str_trim (cr_bearer req)) | Patch_user i ops \<Rightarrow> i | Delete_user i \<Rightarrow> i)"

fun scim_action :: "serve_env \<Rightarrow> scim_request \<Rightarrow> serve_world \<Rightarrow> (http_response \<times> serve_world) option" where
  "scim_action env (Create_user req) w = scim_create_user env req w"
| "scim_action env (Patch_user i ops) w = scim_patch_user env i ops w"
| "scim_action env (Delete_user i) w = Some (scim_delete_user env i w)"

lemma scim_route_gates: "scim_route env h q w = scim_gates_opt env h (scim_action env q) w"
  by (cases q)
    (auto simp: scim_create_user_handler_def scim_patch_user_handler_def scim_delete_user_handler_def scim_gates_def
      scim_gates_opt_def gated_def split: prod.split sum.split)

definition scim_token_ok :: "serve_env \<Rightarrow> header_map \<Rightarrow> serve_world \<Rightarrow> bool" where
  "scim_token_ok env h w \<longleftrightarrow>
     (\<exists>cfg. sw_scim w = Stored cfg \<and> presented_bearer h \<noteq> [] \<and>
        sg_bearer_sha256 cfg = se_sha256 env (presented_bearer h))"

lemma check_scim_bearer_cases:
  assumes "check_scim_bearer env h w = (x, w1)"
  shows "(case x of Inl r \<Rightarrow> same_data w w1 | Inr _ \<Rightarrow> w1 = w \<and> scim_token_ok env h w)"
  using assms
  by (auto simp: check_scim_bearer_def load_scim_config_def refuse_def scim_token_ok_def constant_time_eq_iff
      split: option.splits stored.splits sum.splits if_splits)

text \<open>Each action either changes no data or the list together with one line of the audit trail.\<close>

lemma scim_action_audited:
  "\<exists>r w1. scim_action env q w = Some (r, w1) \<and>
    (same_data w w1 \<or>
     (\<exists>line. sw_audit w1 = sw_audit w @ [line] \<and> al_target_id line = scim_target env q) \<and>
     (\<forall>j. j \<noteq> scim_target env q \<longrightarrow> grant_of env w1 j = grant_of env w j))"
proof (cases q)
  case (Create_user req)
  show ?thesis
    by (rule scim_create_outcome[of env req w])
      (auto simp: Create_user scim_target_def scim_audit_append_def grant_of_def acl_rows_def acl_or_default_def
        load_tenant_acl_def find_row_upsert)
next
  case (Patch_user i ops)
  show ?thesis
    by (rule scim_patch_outcome[of env i ops w])
      (auto simp: Patch_user scim_target_def scim_audit_append_def grant_of_def acl_rows_def acl_or_default_def
        load_tenant_acl_def find_row_update)
next
  case (Delete_user i)
  obtain r w1 where run: "scim_delete_user env i w = (r, w1)" by fastforce
  show ?thesis
    by (rule scim_delete_outcome[OF run])
      (auto simp: Delete_user run scim_target_def scim_audit_append_def grant_of_def acl_rows_def acl_or_default_def
        load_tenant_acl_def find_row_drop)
qed



end
