(* ===== verification/Fence.thy ===== *)
theory Fence
  imports Rust_Strings Utf8
begin

text \<open>
  The filter on the text stream of \<open>POST /v1/complete\<close> (\<open>FenceStripper\<close> of \<open>crates/aether-cli/src/main.rs\<close>):
  it removes a leading code fence and what follows the closing one from the pieces of text as they
  arrive. A slice inside a character is a panic: \<open>None\<close>.
\<close>

section \<open>The filter\<close>

datatype fence_state = Detecting | Inside | PassThrough | EatingEverything

record fence_stripper =
  fe_state :: fence_state
  fe_buf :: string
  fe_tail :: string

definition fence_new :: fence_stripper where
  "fence_new = \<lparr>fe_state = Detecting, fe_buf = [], fe_tail = []\<rparr>"

definition fence :: string where
  "fence = [CHR 0x60, CHR 0x60, CHR 0x60]"

definition trim_end_ws :: "string \<Rightarrow> string" where
  "trim_end_ws s = concat (rev (dropWhile is_ws (rev (str_chars s))))"

text \<open>The length of the last characters that together have at least three bytes, or of all of them.\<close>

fun tail_bytes :: "string list \<Rightarrow> nat \<Rightarrow> nat" where
  "tail_bytes [] n = n"
| "tail_bytes (c # cs) n = (if 3 \<le> n + length c then n + length c else tail_bytes cs (n + length c))"

definition flush_inside :: "string \<Rightarrow> fence_stripper \<Rightarrow> (string \<times> fence_stripper) option" where
  "flush_inside delta st =
     (let combined = fe_tail st @ delta in
      case str_find fence combined of
        Some idx \<Rightarrow> Some (trim_end_ws (take idx combined), st\<lparr>fe_state := EatingEverything, fe_tail := []\<rparr>)
      | None \<Rightarrow>
          (let tail_size = tail_bytes (rev (str_chars combined)) 0;
               split = length combined - min tail_size 3
           in if \<not> is_char_boundary combined split then None
              else if CHR 0x60 \<notin> set (drop split combined) then
                Some (take split combined @ drop split combined, st\<lparr>fe_tail := []\<rparr>)
              else Some (take split combined, st\<lparr>fe_tail := drop split combined\<rparr>)))"

definition feed_detecting :: "string \<Rightarrow> fence_stripper \<Rightarrow> (string \<times> fence_stripper) option" where
  "feed_detecting delta st =
     (let buf = fe_buf st @ delta in
      case str_find nl buf of
        Some pos \<Rightarrow>
          if prefix fence (str_trim_start (take pos buf)) then
            flush_inside (drop (pos + 1) buf) (st\<lparr>fe_state := Inside, fe_buf := []\<rparr>)
          else Some (buf, st\<lparr>fe_state := PassThrough, fe_buf := []\<rparr>)
      | None \<Rightarrow>
          (let trimmed = str_trim_start buf;
               could_be_fence = trimmed = [] \<or> trimmed = [CHR 0x60] \<or> trimmed = [CHR 0x60, CHR 0x60] \<or> prefix fence trimmed
           in if \<not> could_be_fence \<or> 256 < length buf
              then Some (buf, st\<lparr>fe_state := PassThrough, fe_buf := []\<rparr>)
              else Some ([], st\<lparr>fe_buf := buf\<rparr>)))"

definition feed :: "string \<Rightarrow> fence_stripper \<Rightarrow> (string \<times> fence_stripper) option" where
  "feed delta st =
     (case fe_state st of
        Detecting \<Rightarrow> feed_detecting delta st
      | Inside \<Rightarrow> flush_inside delta st
      | PassThrough \<Rightarrow> Some (delta, st)
      | EatingEverything \<Rightarrow> Some ([], st))"

text \<open>A stream of pieces, and the text that comes out.\<close>

fun feed_all :: "string list \<Rightarrow> fence_stripper \<Rightarrow> (string \<times> fence_stripper) option" where
  "feed_all [] st = Some ([], st)"
| "feed_all (d # ds) st =
     Option.bind (feed d st) (\<lambda>(out, st1). map_option (\<lambda>(rest, st2). (out @ rest, st2)) (feed_all ds st1))"

section \<open>ASCII text\<close>

definition ascii :: "string \<Rightarrow> bool" where
  "ascii s \<longleftrightarrow> (\<forall>c \<in> set s. byte_of c < 128)"

lemma ascii_simps [simp]:
  "ascii []" "ascii (c # s) \<longleftrightarrow> byte_of c < 128 \<and> ascii s" "ascii (s @ t) \<longleftrightarrow> ascii s \<and> ascii t"
  by (auto simp: ascii_def)

lemma ascii_not_cont: "byte_of c < 128 \<Longrightarrow> \<not> is_cont c"
  by (simp add: is_cont_def)

lemma str_chars_ascii: "ascii s \<Longrightarrow> str_chars s = map (\<lambda>c. [c]) s"
proof (induction s)
  case (Cons c s)
  then have "takeWhile is_cont s = []" "dropWhile is_cont s = s"
    by (cases s; simp add: ascii_not_cont)+
  then show ?case using Cons by simp
qed simp

lemma tail_bytes_singletons: "n < 3 \<Longrightarrow> tail_bytes (map (\<lambda>c. [c]) xs) n = min 3 (n + length xs)"
  by (induction xs arbitrary: n) auto

lemma boundary_ascii: "ascii s \<Longrightarrow> i \<le> length s \<Longrightarrow> is_char_boundary s i"
  by (auto simp: is_char_boundary_def ascii_def intro!: ascii_not_cont)

lemma flush_inside_ascii:
  assumes "ascii (fe_tail st @ delta)"
  shows "flush_inside delta st =
    (let c = fe_tail st @ delta; k = length c - 3 in
     case str_find fence c of
       Some idx \<Rightarrow> Some (trim_end_ws (take idx c), st\<lparr>fe_state := EatingEverything, fe_tail := []\<rparr>)
     | None \<Rightarrow> if CHR 0x60 \<notin> set (drop k c) then Some (c, st\<lparr>fe_tail := []\<rparr>)
              else Some (take k c, st\<lparr>fe_tail := drop k c\<rparr>))"
proof -
  define c where "c = fe_tail st @ delta"
  have asc: "ascii c" using assms by (simp add: c_def)
  have "tail_bytes (rev (str_chars c)) 0 = min 3 (length c)"
    using tail_bytes_singletons[of 0 "rev c"] unfolding str_chars_ascii[OF asc] rev_map by simp
  then have "length c - min (tail_bytes (rev (str_chars c)) 0) 3 = length c - 3" by simp
  then show ?thesis
    using boundary_ascii[OF asc, of "length c - 3"] unfolding flush_inside_def Let_def c_def[symmetric]
    by (simp split: option.split)
qed

lemma trim_end_ascii: "ascii s \<Longrightarrow> \<exists>ws. s = trim_end_ws s @ ws \<and> (\<forall>c \<in> set ws. is_ws [c])"
proof -
  assume "ascii s"
  then have chars: "str_chars s = map (\<lambda>c. [c]) s" by (rule str_chars_ascii)
  have "trim_end_ws s = rev (dropWhile (\<lambda>c. is_ws [c]) (rev s))"
    unfolding trim_end_ws_def chars rev_map dropWhile_map by (simp add: comp_def rev_map concat_map_singleton)
  then have "s = trim_end_ws s @ rev (takeWhile (\<lambda>c. is_ws [c]) (rev s))"
    by (metis rev_append rev_rev_ident takeWhile_dropWhile_id)
  then show ?thesis by (metis set_rev set_takeWhileD)
qed

section \<open>The first fence\<close>

lemma str_find_fence: "CHR 0x60 \<notin> set b \<Longrightarrow> str_find fence (b @ fence @ e) = Some (length b)"
proof (induction b)
  case Nil
  show ?case by (simp add: fence_def)
next
  case (Cons c b)
  then have "\<not> prefix fence ((c # b) @ fence @ e)" by (simp add: fence_def)
  then show ?case using Cons by simp
qed

lemma no_early_fence:
  assumes "CHR 0x60 \<notin> set b" and "c @ r = b @ fence @ e" and "length c < length b + 3"
  shows "str_find fence c = None"
proof (rule ccontr)
  assume "str_find fence c \<noteq> None"
  then obtain k where k: "str_find fence c = Some k" by blast
  have at: "k + 3 \<le> length c" "take 3 (drop k c) = fence"
    using str_find_Some[OF k] by (simp_all add: fence_def numeral_3_eq_3)
  then have b: "k < length b" using assms(3) by simp
  have "c ! k = take 3 (drop k c) ! 0" using at(1) by simp
  then have "c ! k = CHR 0x60" unfolding at(2) by (simp add: fence_def)
  moreover have "c ! k = (c @ r) ! k" "b ! k = (b @ fence @ e) ! k"
    using at(1) b by (simp_all add: nth_append)
  then have "c ! k = b ! k" using assms(2) by simp
  ultimately show False using assms(1) b by (metis nth_mem)
qed

section \<open>Streams\<close>

lemma feed_all_eating: "fe_state st = EatingEverything \<Longrightarrow> feed_all ds st = Some ([], st)"
  by (induction ds) (simp_all add: feed_def)

lemma feed_all_passing: "fe_state st = PassThrough \<Longrightarrow> feed_all ds st = Some (concat ds, st)"
  by (induction ds) (simp_all add: feed_def)

lemma take_drop_prefix:
  assumes "c @ r = b @ f" and "k \<le> length b" and "k \<le> length c"
  shows "take k c = take k b" and "drop k c @ r = drop k b @ f"
  using assms by (metis append_eq_append_conv_if take_append take_all diff_is_0_eq append_Nil2 take0,
      metis (no_types, lifting) drop_append diff_is_0_eq drop0)

text \<open>Inside the fence: whatever the pieces, what comes out is the body without trailing white space.\<close>

lemma inside_stream:
  assumes "fe_state st = Inside" and "ascii (b @ fence @ e)" and "CHR 0x60 \<notin> set b"
    and "fe_tail st @ concat ds = b @ fence @ e" and "str_find fence (fe_tail st) = None"
  shows "\<exists>out ws st'. feed_all ds st = Some (out, st') \<and> b = out @ ws \<and> (\<forall>c \<in> set ws. is_ws [c])"
  using assms
proof (induction ds arbitrary: st b)
  case Nil
  then have "str_find fence (fe_tail st) = Some (length b)" using str_find_fence by simp
  with Nil.prems(5) show ?case by simp
next
  case (Cons d ds)
  define c where "c = fe_tail st @ d"
  have whole: "c @ concat ds = b @ fence @ e" using Cons.prems(4) by (simp add: c_def)
  have asc: "ascii c" using Cons.prems(2) whole by (metis ascii_simps(3))
  note step = flush_inside_ascii[OF asc[unfolded c_def], folded c_def]
  have feed: "feed d st = flush_inside d st" using Cons.prems(1) by (simp add: feed_def)
  show ?case
  proof (cases "length c < length b + 3")
    case False
    then have "prefix (b @ fence) c"
      using whole by (metis append_assoc append_eq_append_conv2 fence_def le_less_linear length_Cons length_append
          list.size(3) numeral_3_eq_3 prefix_def prefix_length_prefix prefixI)
    then obtain e' where c: "c = b @ fence @ e'" by (auto simp: prefix_def)
    have find: "str_find fence c = Some (length b)" unfolding c by (rule str_find_fence[OF Cons.prems(3)])
    have "take (length b) c = b" by (simp add: c)
    then have "flush_inside d st = Some (trim_end_ws b, st\<lparr>fe_state := EatingEverything, fe_tail := []\<rparr>)"
      using step find by (simp add: Let_def)
    moreover obtain ws where "b = trim_end_ws b @ ws" "\<forall>c \<in> set ws. is_ws [c]"
      using trim_end_ascii[of b] Cons.prems(2) by auto
    ultimately show ?thesis by (auto simp: feed feed_all_eating)
  next
    case True
    note none = no_early_fence[OF Cons.prems(3) whole True]
    let ?k = "length c - 3"
    show ?thesis
    proof (cases "CHR 0x60 \<in> set (drop ?k c)")
      case tick: True
      let ?st = "st\<lparr>fe_tail := drop ?k c\<rparr>"
      have k: "?k \<le> length b" "?k \<le> length c" using True by simp_all
      have feed_step: "feed d st = Some (take ?k c, ?st)" using feed step none tick by (simp add: Let_def)
      note cut = take_drop_prefix[OF whole k]
      have find: "str_find fence (drop ?k c) = None"
        using none str_contains_append[of fence "drop ?k c" "take ?k c" "[]"]
        unfolding str_contains_def by (metis append_Nil2 append_take_drop_id)
      have "ascii (drop ?k b @ fence @ e)" "CHR 0x60 \<notin> set (drop ?k b)"
        using Cons.prems(2,3) by (auto simp: ascii_def dest: in_set_dropD)
      from Cons.IH[of ?st "drop ?k b", OF _ this] obtain out ws st' where
        "feed_all ds ?st = Some (out, st')" "drop ?k b = out @ ws" "\<forall>c \<in> set ws. is_ws [c]"
        using Cons.prems(1) cut(2) find by auto
      then have "feed_all (d # ds) st = Some (take ?k b @ out, st')" "b = (take ?k b @ out) @ ws"
        using feed_step cut(1) by (simp_all, metis append_take_drop_id)
      then show ?thesis using \<open>\<forall>c \<in> set ws. is_ws [c]\<close> by blast
    next
      case no_tick: False
      let ?st = "st\<lparr>fe_tail := []\<rparr>"
      have feed_step: "feed d st = Some (c, ?st)" using feed step none no_tick by (simp add: Let_def)
      have short: "length c \<le> length b"
      proof (rule ccontr)
        assume long: "\<not> length c \<le> length b"
        then have "c \<noteq> []" by auto
        then have "last c = c ! (length c - 1)" by (rule last_conv_nth)
        also have "\<dots> = (b @ fence @ e) ! (length c - 1)"
          using \<open>c \<noteq> []\<close> unfolding whole[symmetric] by (simp add: nth_append)
        also have "\<dots> = fence ! (length c - 1 - length b)"
        proof -
          have "\<not> length c - 1 < length b" "length c - 1 - length b < length fence"
            using long True by (simp_all add: fence_def)
          then show ?thesis by (simp only: nth_append if_False if_True)
        qed
        also have "\<dots> = CHR 0x60"
        proof -
          have "length c - 1 - length b < 3" using True by simp
          then show ?thesis by (auto simp: fence_def nth_Cons split: nat.split)
        qed
        finally have "last c = CHR 0x60" .
        moreover have "last c \<in> set (drop ?k c)"
          using \<open>c \<noteq> []\<close> by (metis diff_less drop_eq_Nil last_drop last_in_set length_greater_0_conv not_le zero_less_numeral)
        ultimately show False using no_tick by simp
      qed
      note cut = take_drop_prefix[OF whole short order.refl]
      have "ascii (drop (length c) b @ fence @ e)" "CHR 0x60 \<notin> set (drop (length c) b)"
        using Cons.prems(2,3) by (auto simp: ascii_def dest: in_set_dropD)
      from Cons.IH[of ?st "drop (length c) b", OF _ this] obtain out ws st' where
        "feed_all ds ?st = Some (out, st')" "drop (length c) b = out @ ws" "\<forall>c \<in> set ws. is_ws [c]"
        using Cons.prems(1) cut(2) by (auto simp: fence_def)
      moreover have "c = take (length c) b" using cut(1) by simp
      ultimately have "feed_all (d # ds) st = Some (c @ out, st')" "b = (c @ out) @ ws"
        using feed_step by (simp_all, metis append_take_drop_id)
      then show ?thesis using \<open>\<forall>c \<in> set ws. is_ws [c]\<close> by blast
    qed
  qed
qed

text \<open>Before the first line is complete, the text is held back as long as it may open a fence.\<close>

lemma str_trim_start_tick: "str_trim_start (CHR 0x60 # s) = CHR 0x60 # s"
proof -
  have "\<not> is_ws (CHR 0x60 # x)" for x by (auto simp: is_ws_def byte_of_def split: list.splits)
  then show ?thesis by (simp add: str_trim_start_def)
qed

lemma append_split: "x @ y = p @ q \<Longrightarrow> length p \<le> length x \<Longrightarrow> \<exists>z. x = p @ z \<and> z @ y = q"
  by (auto simp: append_eq_append_conv2)

lemma str_find_nl: "CHR 0x0A \<notin> set a \<Longrightarrow> str_find nl (a @ CHR 0x0A # s) = Some (length a)"
  by (induction a) (auto simp: nl_def)

lemma str_find_nl_None: "CHR 0x0A \<notin> set a \<Longrightarrow> str_find nl a = None"
  by (induction a) (auto simp: nl_def)

lemma fence_prefix_cases:
  assumes "prefix x (fence @ lang)"
  shows "x = [] \<or> x = [CHR 0x60] \<or> x = [CHR 0x60, CHR 0x60] \<or> prefix fence x"
  using assms by (auto simp: fence_def prefix_Cons)

lemma detecting_fence:
  assumes "fe_state st = Detecting" and "fe_tail st = []"
    and "ascii (fence @ lang @ nl @ b @ fence @ e)" and "CHR 0x0A \<notin> set lang" and "length lang \<le> 253"
    and "CHR 0x60 \<notin> set b"
    and "fe_buf st @ concat ds = fence @ lang @ nl @ b @ fence @ e" and "length (fe_buf st) \<le> length lang + 3"
  shows "\<exists>out ws st'. feed_all ds st = Some (out, st') \<and> b = out @ ws \<and> (\<forall>c \<in> set ws. is_ws [c])"
  using assms
proof (induction ds arbitrary: st)
  case Nil
  then have "length (fence @ lang @ nl @ b @ fence @ e) \<le> length lang + 3" by (metis append_Nil2 concat.simps(1))
  then show ?case by (simp add: fence_def nl_def)
next
  case (Cons d ds)
  define buf where "buf = fe_buf st @ d"
  have whole: "buf @ concat ds = (fence @ lang) @ CHR 0x0A # b @ fence @ e"
    using Cons.prems(7) by (simp add: buf_def nl_def)
  have nonl: "CHR 0x0A \<notin> set (fence @ lang)" using Cons.prems(4) by (simp add: fence_def)
  have feed: "feed d st = feed_detecting d st" using Cons.prems(1) by (simp add: feed_def)
  show ?case
  proof (cases "length buf \<le> length lang + 3")
    case True
    then have pre: "prefix buf (fence @ lang)"
      using whole by (metis append_eq_append_conv2 fence_def length_append add.commute le_antisym length_Cons list.size(3)
          numeral_3_eq_3 prefixI prefix_length_prefix prefix_def)
    then have "CHR 0x0A \<notin> set buf" using nonl by (metis set_mono_prefix subsetD)
    then have none: "str_find nl buf = None" by (rule str_find_nl_None)
    have trim: "str_trim_start buf = buf"
    proof (cases buf)
      case (Cons x xs)
      then have "x = CHR 0x60" using pre by (simp add: fence_def)
      then show ?thesis using Cons str_trim_start_tick by simp
    qed (simp add: str_trim_start_def)
    have small: "\<not> 256 < length buf" using True Cons.prems(5) by simp
    have "feed_detecting d st = Some ([], st\<lparr>fe_buf := buf\<rparr>)"
      using fence_prefix_cases[OF pre] small unfolding feed_detecting_def Let_def buf_def[symmetric] none trim by auto
    moreover have "\<exists>out ws st'. feed_all ds (st\<lparr>fe_buf := buf\<rparr>) = Some (out, st') \<and> b = out @ ws \<and> (\<forall>c \<in> set ws. is_ws [c])"
      by (rule Cons.IH) (use Cons.prems(1-6) whole True in \<open>auto simp: nl_def\<close>)
    ultimately show ?thesis by (auto simp: feed)
  next
    case False
    then have "length (fence @ lang @ [CHR 0x0A]) \<le> length buf" by (simp add: fence_def)
    moreover have "buf @ concat ds = (fence @ lang @ [CHR 0x0A]) @ (b @ fence @ e)" using whole by simp
    ultimately have "\<exists>d'. buf = (fence @ lang @ [CHR 0x0A]) @ d' \<and> d' @ concat ds = b @ fence @ e"
      using append_split by blast
    then obtain d' where buf: "buf = (fence @ lang) @ CHR 0x0A # d'" and rest: "d' @ concat ds = b @ fence @ e"
      by auto
    let ?st = "st\<lparr>fe_state := Inside, fe_buf := []\<rparr>"
    have find: "str_find nl buf = Some (length (fence @ lang))" unfolding buf by (rule str_find_nl[OF nonl])
    have first: "str_trim_start (take (length (fence @ lang)) buf) = fence @ lang"
      using str_trim_start_tick by (simp add: buf fence_def)
    have "drop (length (fence @ lang) + 1) buf = d'" by (simp add: buf)
    then have "feed_detecting d st = flush_inside d' ?st"
      unfolding feed_detecting_def Let_def buf_def[symmetric] find by (simp add: first del: length_append)
    moreover have "feed d' ?st = flush_inside d' ?st" by (simp add: feed_def)
    ultimately have "feed_all (d # ds) st = feed_all (d' # ds) ?st" by (simp add: feed)
    moreover have "\<exists>out ws st'. feed_all (d' # ds) ?st = Some (out, st') \<and> b = out @ ws \<and> (\<forall>c \<in> set ws. is_ws [c])"
      by (rule inside_stream) (use Cons.prems rest in \<open>auto simp: fence_def\<close>)
    ultimately show ?thesis by simp
  qed
qed

text \<open>
  C17. The fence filter does not depend on how the stream was cut. For every way of cutting an ASCII completion
  that is a fenced block (an opening fence with any language tag of up to 253 bytes, a body without back
  quotes, a closing fence, anything after it), the filter does not panic and the pieces it sends make up
  exactly the body, without some of the white space at its end.
\<close>
theorem fenced_body_comes_out:
  assumes "concat ds = fence @ lang @ nl @ b @ fence @ e" and "ascii (concat ds)"
    and "CHR 0x0A \<notin> set lang" and "length lang \<le> 253" and "CHR 0x60 \<notin> set b"
  shows "\<exists>out ws st. feed_all ds fence_new = Some (out, st) \<and> b = out @ ws \<and> (\<forall>c \<in> set ws. is_ws [c])"
  by (rule detecting_fence[of fence_new lang b e ds]) (use assms in \<open>simp_all add: fence_new_def\<close>)

lemma fenced_body_comes_out_witness:
  "\<exists>out ws st. feed_all [fence @ ''rust'', nl @ ''let x = 1;'', [CHR 0x60], [CHR 0x60, CHR 0x60] @ ''done''] fence_new = Some (out, st) \<and>
     ''let x = 1;'' = out @ ws \<and> (\<forall>c \<in> set ws. is_ws [c])"
  by (rule fenced_body_comes_out[of _ "''rust''" "''let x = 1;''" "''done''"])
    (simp_all add: fence_def nl_def byte_of_def)

section \<open>What goes wrong\<close>

text \<open>A character of four bytes at the end of a piece is cut apart.\<close>

lemma emoji_panics:
  "feed_all [fence @ nl, [CHR 0xF0, CHR 0x9F, CHR 0x98, CHR 0x80]] fence_new = None"
  by code_simp

text \<open>Text that is held back when the stream ends is lost.\<close>

lemma held_back_text_is_lost:
  "map_option fst (feed_all [[CHR 0x60]] fence_new) = Some []"
  "map_option fst (feed_all [fence @ nl, ''a = '' @ [CHR 0x60] @ ''b'' @ [CHR 0x60]] fence_new) = Some ''a = ''"
  by code_simp+

end
