(* ===== verification/Spec2Isabelle.thy ===== *)
theory Spec2Isabelle
  imports Retry Hook Overlay SelfCheck Planner Context Executor Compaction AgentLoop Turns Policy Drivers Fleet
    BuiltinTools ShellTools Shuttle LockGraph Flow FlowScan SymTypes SymSlice Concolic InvMiner DiffFuzz
    MutTest TaintScan Baseline Settings Scim Fence
begin

text \<open>
  A verification development for aether, a coding agent for the command line written in Rust. The
  program sends a conversation to a language model, checks what comes back, runs the tools the model
  asks for, and feeds their results into the next request. The agent itself is the crate
  \<open>crates/aether-core\<close>; around it stand small crates for the model interface, the behaviour overlay,
  the reminder policy, the self-check of answers, permissions and tools, the command line
  \<open>crates/aether-cli\<close> that drives sessions, and separate analysis crates. File and function names below
  are those under \<open>src/\<close>.

  \<^bold>\<open>Parts and theories.\<close>

  \<^item> \<open>Prelude\<close>, \<open>Rust_Strings\<close>, \<open>Utf8\<close>: what the models share of the Rust standard library. A
    \<open>HashMap\<close> is an association list with unique keys (the locale \<open>map_ops\<close> states the laws its clients
    use); a \<open>str\<close> is the list of its UTF-8 bytes, with characters, lines, trimming, searching,
    splitting, replacing, validation and slices at byte indices.
  \<^item> \<open>Llm\<close>, \<open>Retry\<close>: messages, usage and errors of \<open>aether-llm/src/lib.rs\<close>, and the retrying provider
    of \<open>retry.rs\<close>. Its trace is described exactly; the locale \<open>provider_wrapper\<close> states what any
    wrapper of a provider promises.
  \<^item> \<open>Hook\<close>: \<open>aether-hook\<close>, reminders, their classification, the admission policy and the pipeline;
    the locale \<open>reminder_gate\<close> is the contract the context assembler relies on.
  \<^item> \<open>Overlay\<close>: \<open>aether-overlay\<close>, which deltas of the overlay are active on a turn.
  \<^item> \<open>SelfCheck\<close>: \<open>aether-selfcheck\<close> (rules, detectors, the two passes of the gate) and
    \<open>aether-core/src/verifier.rs\<close>; the locale \<open>emission_check\<close> is the contract of the agent loop.
  \<^item> \<open>Planner\<close>: \<open>aether-core/src/planner.rs\<close>, the ledger of blocked answers with its sliding window
    and the plan text derived from it, refined to a map from rules to turns.
  \<^item> \<open>Perm\<close>, \<open>Executor\<close>: \<open>aether-perm\<close>, the tool registry of \<open>aether-tools/src/lib.rs\<close>, and
    \<open>aether-core/src/executor.rs\<close>: permissions, filters, hooks, dispatch, output limits, and batches of
    parallel calls.
  \<^item> \<open>Context\<close>: \<open>aether-core/src/context.rs\<close>, translation of the history into messages, the system
    prompt, image sentinels, and the guard that repairs unpaired calls and results.
  \<^item> \<open>Session\<close>, \<open>Compaction\<close>, \<open>AgentLoop\<close>: \<open>aether-core/src/lib.rs\<close> and \<open>compaction.rs\<close>. The record
    \<open>session\<close> has the fields of the struct \<open>Session\<close>; \<open>agent_turn_inner\<close> is the composition of
    \<open>prepare_turn\<close>, \<open>call_model\<close> and \<open>finish_turn\<close>, whose steps follow the sections of the function.
  \<^item> \<open>AgentInvariants\<close>, \<open>Turns\<close>: what every turn preserves, and the properties of whole turns and of
    reachable sessions (the relations \<open>session_step\<close> and \<open>reachable\<close>).
  \<^item> \<open>Policy\<close>, \<open>Drivers\<close>, \<open>Fleet\<close>: parts of \<open>aether-cli/src/main.rs\<close>. The policy file and its
    application to a session; the evaluation harness, the server's and the print mode's loops around
    turns; the registry of sub-agents and the Agent tool, which runs a session inside a tool call.
  \<^item> \<open>BuiltinTools\<close>, \<open>ShellTools\<close>: \<open>aether-tools/src/builtin.rs\<close>, the tools on files, notebooks,
    memory entries and the task list, and those that run a shell or a search.
  \<^item> \<open>Shuttle\<close>, \<open>LockGraph\<close>, \<open>Flow\<close>, \<open>FlowScan\<close>: the analysis crates \<open>aether-shuttle\<close> (schedules,
    simulation, exploration), \<open>aether-lockgraph\<close> (lock orders and their cycles) and \<open>aether-flow\<close>
    (the taint graph, its construction and the search for paths).
  \<^item> \<open>Int64\<close>, \<open>SymExpr\<close>, \<open>SymTypes\<close>, \<open>SymSlice\<close>: 64-bit integers with their printing, parsing and
    checked arithmetic; then \<open>aether-symexec\<close>, symbolic expressions with their simplification, the types
    its \<open>SymType\<close> describes, and the backward slice over a control-flow graph.
  \<^item> \<open>Concolic\<close>, \<open>InvMiner\<close>: \<open>aether-concolic\<close> (path constraints, the interval check, the fixpoint solver
    and the inputs that flip one branch) and \<open>aether-invariant\<close> (the observation store and the mining of
    facts about single variables and pairs).
  \<^item> \<open>DiffFuzz\<close>, \<open>MutTest\<close>: \<open>aether-difffuzz\<close> (the generator of inputs, the comparison of two targets and
    the session) and \<open>aether-muttest\<close> (the search for mutations and the run that writes each mutant,
    tests it and restores the source).
  \<^item> \<open>Findings\<close>, \<open>TaintScan\<close>, \<open>Baseline\<close>: the pipeline of security findings. \<open>aether-taint\<close> scans sources
    line by line and yields findings (the record of \<open>aether-deps-reach\<close>), as \<open>aether-drift\<close> does from
    two hardening reports; \<open>aether-policy\<close> decides on each of them, \<open>aether-baseline\<close> compares them with
    those accepted before, and \<open>aether-triage\<close> asks models about them and caches the verdicts.
  \<^item> \<open>Settings\<close>: \<open>aether-store\<close>, the settings file, its deserialisation and the update of one field.
  \<^item> \<open>ServeGuard\<close>, \<open>ServeRoutes\<close>, \<open>Scim\<close>, \<open>Fence\<close>: the HTTP server of \<open>aether-cli/src/main.rs\<close>. The gates
    before a request (rate limiter, session cap, bearer token, tenant, access list, quotas), the
    routes (plugin trust keychains of \<open>aether-plugin\<close>, rollback, messages, pool reload, metrics), the
    administration of tenants by command line and by SCIM, and the filter that strips a code fence
    from a streamed answer. A request is one step on the record \<open>serve_world\<close>: stored files, counters,
    rate windows, usage rows, audit lines and events for webhooks.

  \<^bold>\<open>How the code is modelled.\<close> Structs are records, enums are datatypes, \<open>Result\<close> is a sum with the
  error on the left, a panic is \<open>None\<close> or an error value where the code can reach one. State is passed
  explicitly; what lies outside the program (the provider, tools, hooks, prompter, clock, files,
  standard error) acts on a world of type \<open>'w\<close> through functions in the environment records
  \<open>agent_env\<close>, \<open>exec_env\<close>, \<open>driver_env\<close>, \<open>fleet_env\<close>, \<open>file_env\<close>, \<open>flow_env\<close>, \<open>serve_env\<close>. Environment variables are
  functions of the environment; compiled regular expressions, JSON serialisation and parsing, and the
  Unicode tables beyond ASCII are parameters. Where a map is iterated the order is that of the
  association list, and no property depends on it. Counters that only count events are natural
  numbers; saturating and wrapping arithmetic is written out, the generator state, hashes and task ids
  of \<open>Shuttle\<close>, \<open>DiffFuzz\<close> and \<open>Fleet\<close> are 64-bit words, as are the integers of \<open>Concolic\<close> and
  \<open>InvMiner\<close>, which wrap as in a release build; floating-point costs, ratios and scores are rationals. A batch of parallel
  tool calls is run by a schedule the environment chooses over the atomic segments of its calls.
  In the server an instant is a number of nanoseconds, the usage database is the list of its rows, an
  insertion into it succeeds, and hashes, hexadecimal decoding and the Redis counter are functions of
  \<open>serve_env\<close>; audit lines are kept without their time stamps, and diagnostics on standard error are
  left out. The targets of a differential fuzzing session are functions from bytes to an outcome; the
  test command of \<open>MutTest\<close> and its writes act on a world of files, and may fail.
  Loops bounded in the code are structural recursion or have a measure; the loops of the server and of
  print mode may run forever and are partial functions, so that not returning is \<open>None\<close>. No fuel is
  used.

  \<^bold>\<open>What the lemmas show.\<close> The component theories prove for each operation what it does on every
  branch, and for each state an invariant that its operations keep (unique keys, the ledger's
  well-formedness, paired histories). \<open>AgentInvariants\<close> lifts these to a turn: on a paired history the
  guard before the provider changes nothing, so that a request carries exactly the conversation; every
  turn, finished, blocked or failed, leaves the history paired; answers that are recorded have passed
  the self-check or are the sentinel of a blocked one; a blocked answer runs no tool. The executor
  answers every call of a batch exactly once and in order for every interleaving, and never invokes a
  tool its policy rules out. The planner's ledger, the sub-agent registry and the edit tool refine
  simple specifications; the searches on the lock graph and the taint graph are sound, and the second is complete
  and finds shortest paths. Simplification of symbolic expressions keeps their meaning, and a slice
  holds exactly the paths that lead to its target. A branch for which the concolic generator gives no
  input cannot be reversed, and where the conditions are intervals the input it gives reverses it; the
  mined facts are exactly the true ones of the catalogue; a fuzzing run returns exactly the
  divergences of its inputs; a mutation run leaves the sources as they were. The taint scanner reports
  exactly the flows of its rules; the baseline is a ratchet over pairs of rule and evidence; a setting
  that is stored is the one that is loaded. On the server, no route that changes stored state
  does so without its bearer and tenant checks; a window of the rate limiter never admits more than
  its capacity allows; the access list refines a map from bearer hashes to rights; every change of it by SCIM
  leaves an audit line. Properties carry the numbers C1 to C40 in the text before them.

  Some properties describe behaviour that differs from a comment or from the evident intention;
  they are stated as the code behaves. Among them: a compaction whose summary call fails loses the
  head of the history (\<open>Compaction\<close>); extended thinking switched on for a stuck agent is never switched
  off (\<open>Turns\<close>); the evaluation harness never records a tool (\<open>Drivers\<close>); sub-agents run without the
  policy (\<open>Fleet\<close>); reading a long file of wide characters panics, and a streamed shell command is
  never timed out (\<open>BuiltinTools\<close>, \<open>ShellTools\<close>); a sink hides the later sinks of its symbol
  (\<open>FlowScan\<close>); simplification can panic on a division that overflows (\<open>SymExpr\<close>); rollback is not
  subject to the access list, and the daily cost cap of a bearer never refuses anything
  (\<open>ServeRoutes\<close>, \<open>ServeGuard\<close>); deleting the last SCIM user opens the gate to everyone, and an access
  list that cannot be read is replaced by an empty one (\<open>Scim\<close>); the fence filter panics on a wide
  character and can lose text (\<open>Fence\<close>); a candidate input called feasible can miss its path
  (\<open>Concolic\<close>); the second of two relations of a variable is dropped (\<open>InvMiner\<close>); a mutation is applied
  to the first occurrence of its text, wherever it was found (\<open>MutTest\<close>); a sanitizer silences the
  later sources of its function (\<open>TaintScan\<close>); verdicts cached during an outage stay (\<open>Baseline\<close>); a
  setting of the wrong type is kept although its update is reported as done (\<open>Settings\<close>).

  \<^bold>\<open>Not modelled.\<close> The HTTP back-ends of \<open>aether-llm\<close> (requests, signing and event streams over the
  network); the configuration loader and the LLM probes of \<open>aether-selfcheck\<close>; terminal rendering
  (\<open>aether-render\<close>) and the interactive command line, whose many subcommands are input and output
  around the crates above; of the server, the streamed turn of the web socket, the completion
  endpoint and single sign-on; the tools that fetch from the web, glob, and the wrappers of external
  scanners; MCP and plugins (processes, WASM). The remaining analysis and service crates
  (memory, the distributed scan, and the security scanners) are separate programs that the agent loop
  does not use. A panic of a tool has no value in the executor's model, whose tools return;
  the mutexes of the code are never poisoned in it. The exact timing of child processes and timers is
  outside: a parameter says how each wait ended.

  \<^bold>\<open>Order of extension.\<close> Next on the server are the completion endpoint, the turn over a web socket
  and the checks of single sign-on; then memory, the secret scanner and its distribution over worker
  processes; then the remaining tools.
\<close>

end
